(* ===== verification/DVFS_Prelude.thy ===== *)
theory DVFS_Prelude
  imports Main "HOL-Library.AList" "HOL-Library.Word" "HOL-Library.Sublist"
    "HOL-Library.Char_ord" "HOL-Library.List_Lexorder"
begin

text \<open>
  Shared ground of the development.

  \<^item> Go maps. A Go map is an association list with distinct keys, so that \<open>len\<close>, iteration and
    evaluation are available. The order of the list stands for the iteration order, which Go
    leaves unspecified: theorems are stated for every such list.
  \<^item> Go strings: the functions of package \<^verbatim>\<open>strings\<close> and \<^verbatim>\<open>net\<close> the sources call.
  \<^item> Times and durations (package \<^verbatim>\<open>time\<close>), unsigned 64-bit integers.
  \<^item> Runs of operations: a locale that lifts a per-operation invariant to every run.
\<close>

named_theorems gomap_simps \<open>look-up, size and key facts about Go maps\<close>
named_theorems gostring_simps \<open>evaluation rules for the modelled string functions\<close>

section \<open>Go maps\<close>

type_synonym ('k, 'v) gomap = "('k \<times> 'v) list"

abbreviation mget :: "('k, 'v) gomap \<Rightarrow> 'k \<Rightarrow> 'v option" where
  "mget m k \<equiv> map_of m k"

abbreviation mput :: "'k \<Rightarrow> 'v \<Rightarrow> ('k, 'v) gomap \<Rightarrow> ('k, 'v) gomap" where
  "mput k v m \<equiv> AList.update k v m"

abbreviation mdel :: "'k \<Rightarrow> ('k, 'v) gomap \<Rightarrow> ('k, 'v) gomap" where
  "mdel k m \<equiv> AList.delete k m"

text \<open>Reading an absent key of a map of slices gives the nil slice.\<close>

definition mslice :: "('k, 'v list) gomap \<Rightarrow> 'k \<Rightarrow> 'v list" where
  "mslice m k = (case mget m k of None \<Rightarrow> [] | Some xs \<Rightarrow> xs)"

definition mkeys :: "('k, 'v) gomap \<Rightarrow> 'k list" where
  "mkeys m = map fst m"

definition gomap_ok :: "('k, 'v) gomap \<Rightarrow> bool" where
  "gomap_ok m \<longleftrightarrow> distinct (map fst m)"

definition mmap :: "('v \<Rightarrow> 'v) \<Rightarrow> ('k, 'v) gomap \<Rightarrow> ('k, 'v) gomap" where
  "mmap f m = map (\<lambda>(k, v). (k, f v)) m"

definition mfilter :: "('k \<Rightarrow> 'v \<Rightarrow> bool) \<Rightarrow> ('k, 'v) gomap \<Rightarrow> ('k, 'v) gomap" where
  "mfilter P m = filter (\<lambda>(k, v). P k v) m"

text \<open>\<open>delete\<close> in a loop over a list of keys.\<close>

definition mdel_all :: "'k list \<Rightarrow> ('k, 'v) gomap \<Rightarrow> ('k, 'v) gomap" where
  "mdel_all ks m = fold AList.delete ks m"

lemma mget_mput [simp, gomap_simps]:
  "mget (mput k v m) k' = (if k' = k then Some v else mget m k')"
  by (simp add: update_conv)

lemma mget_mdel [simp, gomap_simps]:
  "mget (mdel k m) k' = (if k' = k then None else mget m k')"
  by (simp add: AList.delete_conv')

lemma mslice_mput [simp, gomap_simps]:
  "mslice (mput k v m) k' = (if k' = k then v else mslice m k')"
  by (simp add: mslice_def)

lemma mslice_mdel [simp, gomap_simps]:
  "mslice (mdel k m) k' = (if k' = k then [] else mslice m k')"
  by (simp add: mslice_def)

lemma mslice_Nil [simp]: "mslice [] k = []"
  by (simp add: mslice_def)

lemma gomap_ok_Nil [simp, intro]: "gomap_ok []"
  by (simp add: gomap_ok_def)

lemma gomap_ok_mput [simp, intro]: "gomap_ok m \<Longrightarrow> gomap_ok (mput k v m)"
  by (simp add: gomap_ok_def distinct_update)

lemma gomap_ok_mdel [simp, intro]: "gomap_ok m \<Longrightarrow> gomap_ok (mdel k m)"
  by (simp add: gomap_ok_def AList.distinct_delete)

lemma gomap_ok_mmap [simp, intro]: "gomap_ok m \<Longrightarrow> gomap_ok (mmap f m)"
  by (simp add: gomap_ok_def mmap_def comp_def case_prod_unfold)

lemma mget_mmap [simp, gomap_simps]: "mget (mmap f m) k = map_option f (mget m k)"
  by (induction m) (auto simp: mmap_def)

lemma length_mmap [simp]: "length (mmap f m) = length m"
  by (simp add: mmap_def)

lemma gomap_ok_mfilter [simp, intro]: "gomap_ok m \<Longrightarrow> gomap_ok (mfilter P m)"
  unfolding gomap_ok_def mfilter_def by (rule distinct_map_filter)

lemma mget_mfilter [gomap_simps]:
  "gomap_ok m \<Longrightarrow> mget (mfilter P m) k =
     (case mget m k of None \<Rightarrow> None | Some v \<Rightarrow> if P k v then Some v else None)"
proof (induction m)
  case Nil
  then show ?case by (simp add: mfilter_def)
next
  case (Cons p m)
  obtain a b where p: "p = (a, b)" by (cases p)
  from Cons.prems have ok: "gomap_ok m" and a: "a \<notin> fst ` set m"
    by (auto simp: gomap_ok_def p)
  then have "mget m a = None" by (simp add: map_of_eq_None_iff)
  with Cons.IH [OF ok] show ?case
    by (auto simp: p mfilter_def split: option.splits)
qed

lemma mget_in_set: "mget m k = Some v \<Longrightarrow> (k, v) \<in> set m"
  by (rule map_of_SomeD)

lemma mget_iff_in_set: "gomap_ok m \<Longrightarrow> mget m k = Some v \<longleftrightarrow> (k, v) \<in> set m"
  by (simp add: gomap_ok_def)

lemma keys_filter:
  "gomap_ok m \<Longrightarrow> k \<in> fst ` {x \<in> set m. case x of (k, v) \<Rightarrow> P k v} \<longleftrightarrow> (\<exists>v. mget m k = Some v \<and> P k v)"
  by (force simp: mget_iff_in_set)

lemma mget_keys: "k \<in> set (mkeys m) \<longleftrightarrow> (\<exists>v. mget m k = Some v)"
proof -
  have "mget m k = None \<longleftrightarrow> k \<notin> set (mkeys m)"
    by (simp add: mkeys_def map_of_eq_None_iff)
  then show ?thesis by fastforce
qed

lemma length_mdel_le: "length (mdel k m) \<le> length m"
  by (rule length_delete_le)

lemma length_mput: "length (mput k v m) = (if mget m k = None then Suc (length m) else length m)"
proof -
  have "length (map fst (mput k v m)) = (if k \<in> set (map fst m) then length m else Suc (length m))"
    by (simp add: update_keys)
  then show ?thesis
    by (metis length_map map_of_eq_None_iff list.set_map)
qed

lemma length_mput_le: "length (mput k v m) \<le> Suc (length m)"
  by (simp add: length_mput)

lemma length_mfilter_le: "length (mfilter P m) \<le> length m"
  by (simp add: mfilter_def)

lemma mget_mdel_all [simp, gomap_simps]:
  "mget (mdel_all ks m) k = (if k \<in> set ks then None else mget m k)"
  by (induction ks arbitrary: m) (simp_all add: mdel_all_def)

lemma gomap_ok_mdel_all [simp, intro]: "gomap_ok m \<Longrightarrow> gomap_ok (mdel_all ks m)"
  by (induction ks arbitrary: m) (simp_all add: mdel_all_def)

lemma length_mdel_all_le: "length (mdel_all ks m) \<le> length m"
proof (induction ks arbitrary: m)
  case Nil
  then show ?case by (simp add: mdel_all_def)
next
  case (Cons k ks)
  have "length (mdel_all ks (mdel k m)) \<le> length (mdel k m)" by (rule Cons.IH)
  also have "\<dots> \<le> length m" by (rule length_mdel_le)
  finally show ?case by (simp add: mdel_all_def)
qed

lemma find_SomeD: "find P xs = Some x \<Longrightarrow> x \<in> set xs \<and> P x"
  by (induction xs) (auto split: if_splits)

lemma length_eq_card_dom: "gomap_ok m \<Longrightarrow> length m = card (dom (map_of m))"
  using distinct_card [of "map fst m"] by (simp add: gomap_ok_def dom_map_of_conv_image_fst)

section \<open>Words, times and durations\<close>

type_synonym u64 = "64 word"

lemma u64_less_Suc: "(n :: u64) < - 1 \<Longrightarrow> i < n + 1 \<longleftrightarrow> i < n \<or> i = n"
  by uint_arith

lemma small_ids [simp]: "(0::u64) < - 1" "(1::u64) < - 1"
  by (simp_all add: word_less_def unsigned_minus_1_eq_mask mask_eq_exp_minus_1)

text \<open>
  A \<^verbatim>\<open>time.Time\<close> counts nanoseconds from Go's zero time, so \<open>IsZero\<close> is \<open>= 0\<close>. A
  \<^verbatim>\<open>time.Duration\<close> is a signed 64-bit count of nanoseconds and \<open>Sub\<close> saturates at its bounds.
\<close>

type_synonym gotime = int
type_synonym duration = int

definition max_duration :: duration where "max_duration = 2 ^ 63 - 1"

definition min_duration :: duration where "min_duration = - (2 ^ 63)"

definition time_Sub :: "gotime \<Rightarrow> gotime \<Rightarrow> duration" where
  "time_Sub t u = max min_duration (min max_duration (t - u))"

definition time_After :: "gotime \<Rightarrow> gotime \<Rightarrow> bool" where
  "time_After t u \<longleftrightarrow> u < t"

definition time_IsZero :: "gotime \<Rightarrow> bool" where
  "time_IsZero t \<longleftrightarrow> t = 0"

definition second_ns :: int where "second_ns = 1000000000"

lemma time_Sub_le_iff: "0 \<le> d \<Longrightarrow> d < max_duration \<Longrightarrow> time_Sub t u \<le> d \<longleftrightarrow> t - u \<le> d"
  by (auto simp: time_Sub_def max_duration_def min_duration_def)

lemma time_Sub_self [simp]: "time_Sub t t = 0"
  by (simp add: time_Sub_def max_duration_def min_duration_def)

section \<open>Runs of operations\<close>

text \<open>
  A component is driven by operations in any order. \<open>reaches step s t\<close> says that some sequence of
  operations leads from \<open>s\<close> to \<open>t\<close>; the locale lifts what one operation keeps to all of them.
\<close>

inductive reaches :: "('s \<Rightarrow> 'op \<Rightarrow> 's \<Rightarrow> bool) \<Rightarrow> 's \<Rightarrow> 's \<Rightarrow> bool" for step where
  reaches_refl: "reaches step s s"
| reaches_step: "reaches step s t \<Longrightarrow> step t op u \<Longrightarrow> reaches step s u"

locale op_system =
  fixes step :: "'s \<Rightarrow> 'op \<Rightarrow> 's \<Rightarrow> bool"
    and inv :: "'s \<Rightarrow> bool"
  assumes step_inv: "step s op t \<Longrightarrow> inv s \<Longrightarrow> inv t"
begin

lemma reaches_inv: "reaches step s t \<Longrightarrow> inv s \<Longrightarrow> inv t"
  by (induction rule: reaches.induct) (auto intro: step_inv)

end

lemma reaches_trans: "reaches step t u \<Longrightarrow> reaches step s t \<Longrightarrow> reaches step s u"
  by (induction rule: reaches.induct) (auto intro: reaches_step)

end
