(* ===== verification/Go_Path.thy ===== *)
theory Go_Path
  imports Go_Strings
begin

text \<open>
  Package \<^verbatim>\<open>path/filepath\<close> on Unix, as far as the sources use it: \<open>Clean\<close>, \<open>Join\<close>, \<open>Rel\<close>, \<open>Base\<close>,
  \<open>IsAbs\<close>. \<open>Clean\<close> works on the components between slashes; \<open>render\<close> puts a cleaned list of
  components back together, and the lemmas below give the effect of \<open>Join\<close> and \<open>Rel\<close> on rendered
  paths, which is how the fileserver's paths are built.
\<close>

section \<open>Cleaning\<close>

definition clean_step :: "bool \<Rightarrow> string list \<Rightarrow> string \<Rightarrow> string list" where
  "clean_step rooted st c =
     (if c = [] \<or> c = ''.'' then st
      else if c = ''..'' then
        (case st of
           [] \<Rightarrow> if rooted then [] else [c]
         | t # ts \<Rightarrow> if t = ''..'' then c # st else ts)
      else c # st)"

definition clean_comps :: "bool \<Rightarrow> string list \<Rightarrow> string list" where
  "clean_comps rooted cs = rev (foldl (clean_step rooted) [] cs)"

definition render :: "bool \<Rightarrow> string list \<Rightarrow> string" where
  "render rooted cs =
     (if rooted then slash # join_with [slash] cs
      else if cs = [] then ''.'' else join_with [slash] cs)"

definition IsAbs :: "string \<Rightarrow> bool" where
  "IsAbs p \<longleftrightarrow> HasPrefix p [slash]"

definition Clean :: "string \<Rightarrow> string" where
  "Clean p = (if p = [] then ''.'' else render (IsAbs p) (clean_comps (IsAbs p) (Split p)))"

definition Join :: "string list \<Rightarrow> string" where
  "Join elems =
     (let es = dropWhile (\<lambda>e. e = []) elems
      in if es = [] then [] else Clean (join_with [slash] es))"

definition Base :: "string \<Rightarrow> string" where
  "Base p =
     (if p = [] then ''.''
      else let q = rev (dropWhile (\<lambda>c. c = slash) (rev p))
           in if q = [] then [slash] else last (Split q))"

text \<open>The components of a cleaned path: \<open>Rel\<close> compares base and target component by component.\<close>

definition rel_comps :: "string \<Rightarrow> string list" where
  "rel_comps p =
     (let q = (if IsAbs p then drop 1 p else p) in if q = [] then [] else Split q)"

fun strip_common :: "string list \<Rightarrow> string list \<Rightarrow> string list \<times> string list" where
  "strip_common (b # bs) (t # ts) = (if b = t then strip_common bs ts else (b # bs, t # ts))"
| "strip_common bs ts = (bs, ts)"

text \<open>\<open>Rel\<close>: \<open>None\<close> is its error. A base of \<^verbatim>\<open>.\<close> has no components.\<close>

definition Rel :: "string \<Rightarrow> string \<Rightarrow> string option" where
  "Rel basepath targpath =
     (let base = Clean basepath; targ = Clean targpath
      in if targ = base then Some ''.''
         else let base' = (if base = ''.'' then [] else base)
              in if IsAbs base' \<noteq> IsAbs targ then None
                 else (case strip_common (rel_comps base') (rel_comps targ) of
                         (bs, ts) \<Rightarrow>
                           if bs \<noteq> [] \<and> hd bs = ''..'' then None
                           else Some (join_with [slash] (map (\<lambda>_. ''..'') bs @ ts))))"

section \<open>Cleaned component lists\<close>

definition plain :: "string \<Rightarrow> bool" where
  "plain c \<longleftrightarrow> c \<noteq> [] \<and> c \<noteq> ''.'' \<and> c \<noteq> ''..'' \<and> slash \<notin> set c"

definition normal :: "bool \<Rightarrow> string list \<Rightarrow> bool" where
  "normal rooted cs \<longleftrightarrow>
     (\<exists>n ps. cs = replicate n ''..'' @ ps \<and> list_all plain ps \<and> (rooted \<longrightarrow> n = 0))"

lemma plain_dotdot [simp]: "\<not> plain ''..''"
  by (simp add: plain_def)

lemma normal_Nil [simp]: "normal r []"
  by (auto simp: normal_def intro: exI [of _ 0])

lemma normal_plain: "list_all plain ps \<Longrightarrow> normal r ps"
  unfolding normal_def by (rule exI [of _ 0]) simp

lemma normal_append_plain:
  assumes "normal r cs" "list_all plain ds"
  shows "normal r (cs @ ds)"
proof -
  from assms(1) obtain n ps where "cs = replicate n ''..'' @ ps" "list_all plain ps" "r \<longrightarrow> n = 0"
    by (auto simp: normal_def)
  with assms(2) show ?thesis
    unfolding normal_def by (intro exI [of _ n] exI [of _ "ps @ ds"]) simp
qed

lemma normal_member:
  assumes "normal r cs" "c \<in> set cs"
  shows "c \<noteq> [] \<and> c \<noteq> ''.'' \<and> slash \<notin> set c"
proof -
  from assms(1) obtain n ps where cs: "cs = replicate n ''..'' @ ps" and ps: "list_all plain ps"
    by (auto simp: normal_def)
  from assms(2) consider "c = ''..''" | "c \<in> set ps" by (auto simp: cs)
  then show ?thesis
  proof cases
    case 1
    then show ?thesis by simp
  next
    case 2
    with ps have "plain c" by (simp add: list_all_iff)
    then show ?thesis by (simp add: plain_def)
  qed
qed

lemma foldl_clean_plain:
  "list_all plain ps \<Longrightarrow> foldl (clean_step r) st ps = rev ps @ st"
  by (induction ps arbitrary: st) (auto simp: clean_step_def plain_def)

lemma foldl_clean_dots:
  "foldl (clean_step False) (replicate m ''..'') (replicate n ''..'') = replicate (n + m) ''..''"
proof (induction n arbitrary: m)
  case 0
  then show ?case by simp
next
  case (Suc n)
  have "clean_step False (replicate m ''..'') ''..'' = replicate (Suc m) ''..''"
    by (cases m) (simp_all add: clean_step_def)
  then show ?case using Suc.IH [of "Suc m"] by simp
qed

lemma clean_comps_normal: "normal r cs \<Longrightarrow> clean_comps r cs = cs"
proof -
  assume "normal r cs"
  then obtain n ps where cs: "cs = replicate n ''..'' @ ps" and ps: "list_all plain ps"
    and r: "r \<longrightarrow> n = 0" by (auto simp: normal_def)
  show ?thesis
  proof (cases r)
    case True
    with r ps show ?thesis by (simp add: cs clean_comps_def foldl_clean_plain)
  next
    case False
    with ps show ?thesis
      using foldl_clean_dots [of 0 n]
      by (simp add: cs clean_comps_def foldl_clean_plain)
  qed
qed

lemma normal_clean_step:
  assumes "normal r (rev st)" "slash \<notin> set c"
  shows "normal r (rev (clean_step r st c))"
proof -
  from assms(1) obtain n ps where st: "rev st = replicate n ''..'' @ ps" and ps: "list_all plain ps"
    and r: "r \<longrightarrow> n = 0" by (auto simp: normal_def)
  show ?thesis
  proof (cases "c = ''..''")
    case False
    then show ?thesis
      using assms by (auto simp: clean_step_def plain_def intro!: normal_append_plain)
  next
    case c: True
    show ?thesis
    proof (cases ps rule: rev_cases)
      case Nil
      then have "st = replicate n ''..''"
        using st by (metis append_Nil2 rev_replicate rev_rev_ident)
      moreover have "normal False (replicate (Suc n) ''..'')"
        unfolding normal_def by (rule exI [of _ "Suc n"], rule exI [of _ "[]"]) simp
      moreover have "rev (clean_step r st c) = (if r then [] else replicate (Suc n) ''..'')"
        using r c \<open>st = replicate n ''..''\<close>
        by (cases n) (auto simp: clean_step_def replicate_append_same)
      ultimately show ?thesis by simp
    next
      case (snoc qs q)
      then have "st = q # rev qs @ replicate n ''..''"
        using st by (metis append_assoc append_Cons append_Nil rev.simps(2) rev_append
            rev_replicate rev_rev_ident rev_singleton_conv)
      moreover have "q \<noteq> ''..''" using ps snoc by auto
      moreover have "normal r (replicate n ''..'' @ qs)"
        using ps snoc r by (auto simp: normal_def)
      ultimately show ?thesis using c by (simp add: clean_step_def)
    qed
  qed
qed

lemma normal_clean_comps:
  assumes "\<And>c. c \<in> set cs \<Longrightarrow> slash \<notin> set c"
  shows "normal r (clean_comps r cs)"
proof -
  have "normal r (rev (foldl (clean_step r) st cs))" if "normal r (rev st)" for st
    using that assms
    by (induction cs arbitrary: st) (auto simp: normal_clean_step)
  from this [of "[]"] show ?thesis by (simp add: clean_comps_def)
qed

section \<open>Rendered paths\<close>

lemma split_at_append_gen: "split_at c (s @ c # t) = split_at c s @ split_at c t"
  by (induction s) (auto split: list.splits)

lemma Split_join: "normal r cs \<Longrightarrow> cs \<noteq> [] \<Longrightarrow> Split (join_with [slash] cs) = cs"
  unfolding Split_def by (rule split_join) (auto dest: normal_member)

lemma join_hd:
  assumes "normal r cs" "cs \<noteq> []"
  shows "join_with [slash] cs \<noteq> [] \<and> hd (join_with [slash] cs) \<noteq> slash"
proof -
  obtain c cs' where cs: "cs = c # cs'" using assms(2) by (cases cs) auto
  have c: "c \<noteq> []" "slash \<notin> set c" using normal_member [OF assms(1), of c] cs by auto
  then have "hd c \<noteq> slash" by (cases c) auto
  with c show ?thesis by (cases cs') (simp_all add: cs)
qed

lemma IsAbs_render [simp]: "normal r cs \<Longrightarrow> IsAbs (render r cs) = r"
  using join_hd [of r cs] by (auto simp: IsAbs_def HasPrefix_def render_def take_Suc)

lemma render_nonempty [simp]: "normal r cs \<Longrightarrow> render r cs \<noteq> []"
  using join_hd [of r cs] by (auto simp: render_def)

lemma foldl_clean_normal: "normal r cs \<Longrightarrow> foldl (clean_step r) [] cs = rev cs"
  using clean_comps_normal [of r cs] by (metis clean_comps_def rev_rev_ident)

lemma foldl_clean_render:
  assumes "normal r cs"
  shows "foldl (clean_step r) [] (Split (render r cs)) = rev cs"
proof (cases "cs = []")
  case True
  then show ?thesis by (cases r) (simp_all add: render_def Split_def clean_step_def)
next
  case False
  have "Split (slash # join_with [slash] cs) = [] # cs"
    using Split_join [OF assms False] by (simp add: Split_def)
  then show ?thesis
    using False assms Split_join [OF assms False]
    by (cases r) (simp_all add: render_def clean_step_def foldl_clean_normal)
qed

lemma Clean_render [simp]: "normal r cs \<Longrightarrow> Clean (render r cs) = render r cs"
  by (simp add: Clean_def clean_comps_def foldl_clean_render)

lemma Clean_normal: "\<exists>cs. normal (IsAbs p) cs \<and> Clean p = render (IsAbs p) cs"
proof (cases "p = []")
  case True
  then show ?thesis
    by (intro exI [of _ "[]"]) (simp add: Clean_def render_def IsAbs_def HasPrefix_def)
next
  case False
  then show ?thesis
    by (intro exI [of _ "clean_comps (IsAbs p) (Split p)"])
       (auto simp: Clean_def Split_def dest: split_at_members intro: normal_clean_comps)
qed

lemma Clean_idem [simp]: "Clean (Clean p) = Clean p"
  using Clean_normal [of p] by auto

lemma render_inject:
  assumes "normal r cs" "normal r' cs'" "render r cs = render r' cs'"
  shows "r = r' \<and> cs = cs'"
proof -
  have r: "r = r'"
    using IsAbs_render [OF assms(1)] IsAbs_render [OF assms(2)] by (simp only: assms(3))
  have "rev cs = foldl (clean_step r) [] (Split (render r cs))"
    by (rule foldl_clean_render [OF assms(1), symmetric])
  also have "\<dots> = foldl (clean_step r) [] (Split (render r' cs'))" by (simp only: assms(3))
  also have "\<dots> = foldl (clean_step r') [] (Split (render r' cs'))" by (simp only: r)
  also have "\<dots> = rev cs'" by (rule foldl_clean_render [OF assms(2)])
  finally show ?thesis using r by simp
qed

lemma Join_render:
  assumes n: "normal r cs" and ds: "list_all plain ds" "ds \<noteq> []"
  shows "Join [render r cs, join_with [slash] ds] = render r (cs @ ds)"
proof -
  have nd: "normal r ds" by (rule normal_plain [OF ds(1)])
  let ?p = "render r cs @ slash # join_with [slash] ds"
  have abs: "IsAbs ?p = r"
    using IsAbs_render [OF n] render_nonempty [OF n]
    by (cases "render r cs") (simp_all add: IsAbs_def HasPrefix_def)
  have "Split ?p = Split (render r cs) @ ds"
    using Split_join [OF nd ds(2)] by (simp add: Split_def split_at_append_gen)
  then have "clean_comps r (Split ?p) = cs @ ds"
    using foldl_clean_render [OF n] foldl_clean_plain [OF ds(1)] by (simp add: clean_comps_def)
  then have "Clean ?p = render r (cs @ ds)" using abs by (simp add: Clean_def)
  then show ?thesis
    using render_nonempty [OF n] by (simp add: Join_def Let_def)
qed

lemma Join_render1:
  "normal r cs \<Longrightarrow> plain d \<Longrightarrow> Join [render r cs, d] = render r (cs @ [d])"
  using Join_render [of r cs "[d]"] by simp

lemma rel_comps_render:
  assumes "normal r cs" "cs \<noteq> []"
  shows "rel_comps (render r cs) = cs"
  using assms IsAbs_render [OF assms(1)] Split_join [OF assms] join_hd [OF assms]
  by (cases r) (simp_all add: rel_comps_def render_def Let_def)

lemma strip_common_append: "strip_common bs (bs @ ts) = ([], ts)"
  by (induction bs) simp_all

lemma Rel_render:
  assumes b: "Clean base = render r cs" "normal r cs" and ds: "list_all plain ds" "ds \<noteq> []"
  shows "Rel base (render r (cs @ ds)) = Some (join_with [slash] ds)"
proof -
  have n: "normal r (cs @ ds)" by (rule normal_append_plain [OF b(2) ds(1)])
  have neq: "render r (cs @ ds) \<noteq> render r cs"
    using render_inject [OF n b(2)] ds(2) by auto
  define base' where "base' = (if render r cs = ''.'' then [] else render r cs)"
  have dot: "cs = [] \<and> \<not> r" if "render r cs = ''.''"
    using that render_inject [OF b(2), of False "[]"] by (simp add: render_def)
  have abs: "IsAbs base' = r"
  proof (cases "render r cs = ''.''")
    case True
    with dot [OF True] show ?thesis by (simp add: base'_def IsAbs_def HasPrefix_def)
  next
    case False
    with b(2) show ?thesis by (simp add: base'_def)
  qed
  have comps: "rel_comps base' = cs"
  proof (cases "cs = []")
    case True
    then show ?thesis
      by (cases r) (simp_all add: base'_def rel_comps_def render_def IsAbs_def HasPrefix_def)
  next
    case False
    with dot have "base' = render r cs" by (auto simp: base'_def)
    with rel_comps_render [OF b(2) False] show ?thesis by simp
  qed
  have "rel_comps (render r (cs @ ds)) = cs @ ds"
    using rel_comps_render [OF n] ds(2) by simp
  then show ?thesis
    using neq abs comps n b(1)
    by (simp add: Rel_def Let_def base'_def [symmetric] strip_common_append)
qed

end
