(* ===== verification/Meta_Store.thy ===== *)
theory Meta_Store
  imports Go_Path "HOL-Library.Product_Lexorder"
begin

text \<open>
  The metaserver's durable record: \<^verbatim>\<open>internal/storage/meta.go\<close> (the records, the interface
  \<^verbatim>\<open>MetaStore\<close> and \<open>NormalizeSharePath\<close>) and its in-process implementation
  \<^verbatim>\<open>internal/storage/memory/memory.go\<close>.

  A Go interface value is a dictionary of methods: the record \<open>meta_ops\<close>. The first argument of every
  method says whether the context it got has already expired (\<open>ctx.Err() != nil\<close>). What the
  interface comments promise is stated over an abstract cluster (which nodes exist under which numeric id,
  where each user lives, who was granted what) as the locale \<open>meta_store\<close>; the in-memory store is shown
  to be an instance.
\<close>

section \<open>Records and the interface\<close>

datatype storage_error = ErrNotFound | ErrContext

record fs_record =
  rec_NodeID :: string
  rec_NumericID :: u64
  rec_Address :: string
  rec_LastHeartbeatUnix :: int
  rec_Status :: string

record user_record =
  ur_Username :: string
  ur_HomeNodeID :: string

record share_record =
  sr_Grantee :: string
  sr_Owner :: string
  sr_Path :: string
  sr_DisplayName :: string

record meta_snapshot =
  snap_FileServers :: "fs_record list"
  snap_Users :: "user_record list"
  snap_Shares :: "share_record list"

definition LegacyNodeIDPrefix :: string where "LegacyNodeIDPrefix = ''addr:''"

definition NormalizeSharePath :: "string \<Rightarrow> string" where
  "NormalizeSharePath p =
     (let segments = Split (ReplaceByte p backslash slash);
          kept = filter (\<lambda>s. \<not> (s = [] \<or> s = ''.'')) segments
      in join_with [slash] kept)"

text \<open>The methods that read or write the record (\<open>EnsureIndexes\<close>, \<open>Ping\<close> and \<open>Close\<close> do neither).\<close>

record 'st meta_ops =
  st_LoadSnapshot :: "bool \<Rightarrow> 'st \<Rightarrow> storage_error + meta_snapshot"
  st_UpsertFileServer :: "bool \<Rightarrow> fs_record \<Rightarrow> 'st \<Rightarrow> (storage_error + u64) \<times> 'st"
  st_RemoveFileServer :: "bool \<Rightarrow> string \<Rightarrow> 'st \<Rightarrow> storage_error option \<times> 'st"
  st_RenameFileServer :: "bool \<Rightarrow> string \<Rightarrow> string \<Rightarrow> 'st \<Rightarrow> storage_error option \<times> 'st"
  st_RecordHeartbeat :: "bool \<Rightarrow> string \<Rightarrow> int \<Rightarrow> string \<Rightarrow> 'st \<Rightarrow> storage_error option \<times> 'st"
  st_SetFileServerStatus :: "bool \<Rightarrow> string \<Rightarrow> string \<Rightarrow> 'st \<Rightarrow> storage_error option \<times> 'st"
  st_AssignUser :: "bool \<Rightarrow> string \<Rightarrow> string \<Rightarrow> 'st \<Rightarrow> storage_error option \<times> 'st"
  st_AssignUsers :: "bool \<Rightarrow> user_record list \<Rightarrow> 'st \<Rightarrow> storage_error option \<times> 'st"
  st_RemoveUsers :: "bool \<Rightarrow> string list \<Rightarrow> 'st \<Rightarrow> storage_error option \<times> 'st"
  st_AddShare :: "bool \<Rightarrow> share_record \<Rightarrow> 'st \<Rightarrow> storage_error option \<times> 'st"
  st_AddShares :: "bool \<Rightarrow> share_record list \<Rightarrow> 'st \<Rightarrow> storage_error option \<times> 'st"
  st_RemoveShare :: "bool \<Rightarrow> string \<Rightarrow> string \<Rightarrow> string \<Rightarrow> 'st \<Rightarrow> storage_error option \<times> 'st"
  st_RemoveSharesInvolving :: "bool \<Rightarrow> string list \<Rightarrow> 'st \<Rightarrow> storage_error option \<times> 'st"
  st_RemoveSharesByOwner :: "bool \<Rightarrow> string list \<Rightarrow> 'st \<Rightarrow> storage_error option \<times> 'st"

section \<open>The in-memory store\<close>

type_synonym share_key = "string \<times> string \<times> string"

record mem_store =
  mem_fileServers :: "(string, fs_record) gomap"
  mem_users :: "(string, string) gomap"
  mem_shares :: "(share_key, share_record) gomap"
  mem_nextNumericID :: u64
  mem_closed :: bool

definition mem_New :: mem_store where
  "mem_New = \<lparr>mem_fileServers = [], mem_users = [], mem_shares = [], mem_nextNumericID = 0,
     mem_closed = False\<rparr>"

definition mem_LoadSnapshot :: "bool \<Rightarrow> mem_store \<Rightarrow> storage_error + meta_snapshot" where
  "mem_LoadSnapshot ctxErr s =
     (if ctxErr then Inl ErrContext
      else Inr \<lparr>
        snap_FileServers = sort_key rec_NodeID (map snd (mem_fileServers s)),
        snap_Users = sort_key ur_Username
          (map (\<lambda>(username, nodeID). \<lparr>ur_Username = username, ur_HomeNodeID = nodeID\<rparr>) (mem_users s)),
        snap_Shares = sort_key (\<lambda>sh. (sr_Grantee sh, sr_Owner sh, sr_Path sh)) (map snd (mem_shares s))\<rparr>)"

definition mem_UpsertFileServer :: "bool \<Rightarrow> fs_record \<Rightarrow> mem_store \<Rightarrow> (storage_error + u64) \<times> mem_store" where
  "mem_UpsertFileServer ctxErr rec s =
     (if ctxErr then (Inl ErrContext, s)
      else (case mget (mem_fileServers s) (rec_NodeID rec) of
              Some existing \<Rightarrow>
                (let rec' = rec\<lparr>rec_NumericID := rec_NumericID existing\<rparr>
                 in (Inr (rec_NumericID rec'),
                     s\<lparr>mem_fileServers := mput (rec_NodeID rec') rec' (mem_fileServers s)\<rparr>))
            | None \<Rightarrow>
                (let rec' = rec\<lparr>rec_NumericID := mem_nextNumericID s\<rparr>
                 in (Inr (rec_NumericID rec'),
                     s\<lparr>mem_nextNumericID := mem_nextNumericID s + 1,
                       mem_fileServers := mput (rec_NodeID rec') rec' (mem_fileServers s)\<rparr>))))"

definition mem_RemoveFileServer :: "bool \<Rightarrow> string \<Rightarrow> mem_store \<Rightarrow> storage_error option \<times> mem_store" where
  "mem_RemoveFileServer ctxErr nodeID s =
     (if ctxErr then (Some ErrContext, s)
      else (None, s\<lparr>mem_fileServers := mdel nodeID (mem_fileServers s)\<rparr>))"

definition mem_RecordHeartbeat ::
    "bool \<Rightarrow> string \<Rightarrow> int \<Rightarrow> string \<Rightarrow> mem_store \<Rightarrow> storage_error option \<times> mem_store" where
  "mem_RecordHeartbeat ctxErr nodeID at status s =
     (if ctxErr then (Some ErrContext, s)
      else (case mget (mem_fileServers s) nodeID of
              None \<Rightarrow> (Some ErrNotFound, s)
            | Some rec \<Rightarrow>
                (let rec1 = rec\<lparr>rec_LastHeartbeatUnix := at\<rparr>;
                     rec2 = (if status \<noteq> [] then rec1\<lparr>rec_Status := status\<rparr> else rec1)
                 in (None, s\<lparr>mem_fileServers := mput nodeID rec2 (mem_fileServers s)\<rparr>))))"

definition mem_SetFileServerStatus ::
    "bool \<Rightarrow> string \<Rightarrow> string \<Rightarrow> mem_store \<Rightarrow> storage_error option \<times> mem_store" where
  "mem_SetFileServerStatus ctxErr nodeID status s =
     (if ctxErr then (Some ErrContext, s)
      else (case mget (mem_fileServers s) nodeID of
              None \<Rightarrow> (Some ErrNotFound, s)
            | Some rec \<Rightarrow>
                (None, s\<lparr>mem_fileServers := mput nodeID (rec\<lparr>rec_Status := status\<rparr>) (mem_fileServers s)\<rparr>)))"

definition mem_RenameFileServer ::
    "bool \<Rightarrow> string \<Rightarrow> string \<Rightarrow> mem_store \<Rightarrow> storage_error option \<times> mem_store" where
  "mem_RenameFileServer ctxErr oldNodeID newNodeID s =
     (if ctxErr then (Some ErrContext, s)
      else if oldNodeID = newNodeID then (None, s)
      else (case mget (mem_fileServers s) oldNodeID of
              None \<Rightarrow> (Some ErrNotFound, s)
            | Some rec \<Rightarrow>
                (let users' = mmap (\<lambda>home. if home = oldNodeID then newNodeID else home) (mem_users s);
                     fs1 = mdel oldNodeID (mem_fileServers s);
                     fs2 = (if mget fs1 newNodeID = None
                            then mput newNodeID (rec\<lparr>rec_NodeID := newNodeID\<rparr>) fs1 else fs1)
                 in (None, s\<lparr>mem_users := users', mem_fileServers := fs2\<rparr>))))"

definition mem_AssignUser :: "bool \<Rightarrow> string \<Rightarrow> string \<Rightarrow> mem_store \<Rightarrow> storage_error option \<times> mem_store" where
  "mem_AssignUser ctxErr username nodeID s =
     (if ctxErr then (Some ErrContext, s)
      else (None, s\<lparr>mem_users := mput username nodeID (mem_users s)\<rparr>))"

definition mem_AssignUsers :: "bool \<Rightarrow> user_record list \<Rightarrow> mem_store \<Rightarrow> storage_error option \<times> mem_store" where
  "mem_AssignUsers ctxErr us s =
     (if ctxErr then (Some ErrContext, s)
      else (None, s\<lparr>mem_users := fold (\<lambda>u. mput (ur_Username u) (ur_HomeNodeID u)) us (mem_users s)\<rparr>))"

definition mem_RemoveUsers :: "bool \<Rightarrow> string list \<Rightarrow> mem_store \<Rightarrow> storage_error option \<times> mem_store" where
  "mem_RemoveUsers ctxErr usernames s =
     (if ctxErr then (Some ErrContext, s)
      else (None, s\<lparr>mem_users := mdel_all usernames (mem_users s)\<rparr>))"

definition put_share :: "share_record \<Rightarrow> (share_key, share_record) gomap \<Rightarrow> (share_key, share_record) gomap" where
  "put_share sh m =
     (let sh' = sh\<lparr>sr_Path := NormalizeSharePath (sr_Path sh)\<rparr>
      in mput (sr_Grantee sh', sr_Owner sh', sr_Path sh') sh' m)"

definition mem_AddShare :: "bool \<Rightarrow> share_record \<Rightarrow> mem_store \<Rightarrow> storage_error option \<times> mem_store" where
  "mem_AddShare ctxErr sh s =
     (if ctxErr then (Some ErrContext, s)
      else (None, s\<lparr>mem_shares := put_share sh (mem_shares s)\<rparr>))"

definition mem_AddShares :: "bool \<Rightarrow> share_record list \<Rightarrow> mem_store \<Rightarrow> storage_error option \<times> mem_store" where
  "mem_AddShares ctxErr shares s =
     (if ctxErr then (Some ErrContext, s)
      else (None, s\<lparr>mem_shares := fold put_share shares (mem_shares s)\<rparr>))"

definition mem_RemoveShare ::
    "bool \<Rightarrow> string \<Rightarrow> string \<Rightarrow> string \<Rightarrow> mem_store \<Rightarrow> storage_error option \<times> mem_store" where
  "mem_RemoveShare ctxErr grantee owner path s =
     (if ctxErr then (Some ErrContext, s)
      else (None, s\<lparr>mem_shares := mdel (grantee, owner, NormalizeSharePath path) (mem_shares s)\<rparr>))"

definition mem_RemoveSharesInvolving ::
    "bool \<Rightarrow> string list \<Rightarrow> mem_store \<Rightarrow> storage_error option \<times> mem_store" where
  "mem_RemoveSharesInvolving ctxErr usernames s =
     (if ctxErr then (Some ErrContext, s)
      else if usernames = [] then (None, s)
      else (None, s\<lparr>mem_shares := mfilter (\<lambda>(grantee, owner, path) _.
              \<not> (grantee \<in> set usernames \<or> owner \<in> set usernames)) (mem_shares s)\<rparr>))"

definition mem_RemoveSharesByOwner ::
    "bool \<Rightarrow> string list \<Rightarrow> mem_store \<Rightarrow> storage_error option \<times> mem_store" where
  "mem_RemoveSharesByOwner ctxErr owners s =
     (if ctxErr then (Some ErrContext, s)
      else if owners = [] then (None, s)
      else (None, s\<lparr>mem_shares := mfilter (\<lambda>(grantee, owner, path) _. owner \<notin> set owners) (mem_shares s)\<rparr>))"

definition mem_Close :: "mem_store \<Rightarrow> mem_store" where
  "mem_Close s = s\<lparr>mem_closed := True\<rparr>"

definition mem_ops :: "mem_store meta_ops" where
  "mem_ops = \<lparr>
     st_LoadSnapshot = mem_LoadSnapshot,
     st_UpsertFileServer = mem_UpsertFileServer,
     st_RemoveFileServer = mem_RemoveFileServer,
     st_RenameFileServer = mem_RenameFileServer,
     st_RecordHeartbeat = mem_RecordHeartbeat,
     st_SetFileServerStatus = mem_SetFileServerStatus,
     st_AssignUser = mem_AssignUser,
     st_AssignUsers = mem_AssignUsers,
     st_RemoveUsers = mem_RemoveUsers,
     st_AddShare = mem_AddShare,
     st_AddShares = mem_AddShares,
     st_RemoveShare = mem_RemoveShare,
     st_RemoveSharesInvolving = mem_RemoveSharesInvolving,
     st_RemoveSharesByOwner = mem_RemoveSharesByOwner\<rparr>"

section \<open>What the interface promises\<close>

text \<open>
  The abstract cluster leaves out liveness (addresses, heartbeats, status), which the metaserver treats as
  best effort, and display names.
\<close>

record cluster =
  c_nodes :: "string \<rightharpoonup> u64"
  c_homes :: "string \<rightharpoonup> string"
  c_grants :: "share_key set"

definition spec_upsert :: "string \<Rightarrow> u64 \<Rightarrow> cluster \<Rightarrow> cluster" where
  "spec_upsert n i c = c\<lparr>c_nodes := (c_nodes c)(n \<mapsto> i)\<rparr>"

definition spec_remove_node :: "string \<Rightarrow> cluster \<Rightarrow> cluster" where
  "spec_remove_node n c = c\<lparr>c_nodes := (c_nodes c)(n := None)\<rparr>"

definition spec_rename :: "string \<Rightarrow> string \<Rightarrow> cluster \<Rightarrow> cluster" where
  "spec_rename a b c = (if a = b then c else
     c\<lparr>c_nodes := (\<lambda>n. if n = a then None
                      else if n = b \<and> c_nodes c b = None then c_nodes c a else c_nodes c n),
       c_homes := (\<lambda>u. map_option (\<lambda>h. if h = a then b else h) (c_homes c u))\<rparr>)"

definition spec_assign :: "user_record list \<Rightarrow> cluster \<Rightarrow> cluster" where
  "spec_assign us c = c\<lparr>c_homes := fold (\<lambda>u m. m(ur_Username u \<mapsto> ur_HomeNodeID u)) us (c_homes c)\<rparr>"

definition spec_remove_users :: "string list \<Rightarrow> cluster \<Rightarrow> cluster" where
  "spec_remove_users us c = c\<lparr>c_homes := (\<lambda>u. if u \<in> set us then None else c_homes c u)\<rparr>"

definition key_of :: "share_record \<Rightarrow> share_key" where
  "key_of sh = (sr_Grantee sh, sr_Owner sh, NormalizeSharePath (sr_Path sh))"

definition spec_add_shares :: "share_record list \<Rightarrow> cluster \<Rightarrow> cluster" where
  "spec_add_shares shs c = c\<lparr>c_grants := c_grants c \<union> key_of ` set shs\<rparr>"

definition spec_remove_share :: "string \<Rightarrow> string \<Rightarrow> string \<Rightarrow> cluster \<Rightarrow> cluster" where
  "spec_remove_share g ow p c = c\<lparr>c_grants := c_grants c - {(g, ow, NormalizeSharePath p)}\<rparr>"

definition spec_remove_involving :: "string list \<Rightarrow> cluster \<Rightarrow> cluster" where
  "spec_remove_involving us c =
     c\<lparr>c_grants := {(g, ow, p) \<in> c_grants c. g \<notin> set us \<and> ow \<notin> set us}\<rparr>"

definition spec_remove_by_owner :: "string list \<Rightarrow> cluster \<Rightarrow> cluster" where
  "spec_remove_by_owner ows c = c\<lparr>c_grants := {(g, ow, p) \<in> c_grants c. ow \<notin> set ows}\<rparr>"

locale meta_store =
  fixes ops :: "'st meta_ops"
    and ok :: "'st \<Rightarrow> bool"
    and room :: "'st \<Rightarrow> bool"
    and view :: "'st \<Rightarrow> cluster"
  assumes upsert: "ok s \<Longrightarrow> room s \<or> c_nodes (view s) (rec_NodeID r) \<noteq> None \<Longrightarrow> st_UpsertFileServer ops e r s = (Inr i, s') \<Longrightarrow>
      ok s' \<and> view s' = spec_upsert (rec_NodeID r) i (view s)"
    and upsert_known: "ok s \<Longrightarrow> st_UpsertFileServer ops e r s = (Inr i, s') \<Longrightarrow>
      c_nodes (view s) (rec_NodeID r) = Some j \<Longrightarrow> i = j"
    and upsert_fresh: "ok s \<Longrightarrow> st_UpsertFileServer ops e r s = (Inr i, s') \<Longrightarrow>
      c_nodes (view s) (rec_NodeID r) = None \<Longrightarrow> i \<notin> ran (c_nodes (view s))"
    and remove_node: "ok s \<Longrightarrow> st_RemoveFileServer ops e n s = (None, s') \<Longrightarrow>
      ok s' \<and> view s' = spec_remove_node n (view s)"
    and rename_node: "ok s \<Longrightarrow> st_RenameFileServer ops e a b s = (None, s') \<Longrightarrow>
      ok s' \<and> view s' = spec_rename a b (view s)"
    and rename_absent: "ok s \<Longrightarrow> st_RenameFileServer ops e a b s = (Some ErrNotFound, s') \<Longrightarrow>
      s' = s \<and> c_nodes (view s) a = None"
    and heartbeat: "ok s \<Longrightarrow> st_RecordHeartbeat ops e n t st s = (r', s') \<Longrightarrow> ok s' \<and> view s' = view s"
    and set_status: "ok s \<Longrightarrow> st_SetFileServerStatus ops e n st s = (r', s') \<Longrightarrow> ok s' \<and> view s' = view s"
    and assign_one: "ok s \<Longrightarrow> st_AssignUser ops e u n s = (None, s') \<Longrightarrow>
      ok s' \<and> view s' = spec_assign [\<lparr>ur_Username = u, ur_HomeNodeID = n\<rparr>] (view s)"
    and assign_many: "ok s \<Longrightarrow> st_AssignUsers ops e us s = (None, s') \<Longrightarrow>
      ok s' \<and> view s' = spec_assign us (view s)"
    and remove_users: "ok s \<Longrightarrow> st_RemoveUsers ops e ns s = (None, s') \<Longrightarrow>
      ok s' \<and> view s' = spec_remove_users ns (view s)"
    and add_one: "ok s \<Longrightarrow> st_AddShare ops e sh s = (None, s') \<Longrightarrow>
      ok s' \<and> view s' = spec_add_shares [sh] (view s)"
    and add_many: "ok s \<Longrightarrow> st_AddShares ops e shs s = (None, s') \<Longrightarrow>
      ok s' \<and> view s' = spec_add_shares shs (view s)"
    and remove_share: "ok s \<Longrightarrow> st_RemoveShare ops e g ow p s = (None, s') \<Longrightarrow>
      ok s' \<and> view s' = spec_remove_share g ow p (view s)"
    and remove_involving: "ok s \<Longrightarrow> st_RemoveSharesInvolving ops e ns s = (None, s') \<Longrightarrow>
      ok s' \<and> view s' = spec_remove_involving ns (view s)"
    and remove_by_owner: "ok s \<Longrightarrow> st_RemoveSharesByOwner ops e ns s = (None, s') \<Longrightarrow>
      ok s' \<and> view s' = spec_remove_by_owner ns (view s)"

section \<open>Share paths\<close>

lemma filter_split_join:
  assumes "list_all (\<lambda>s. s \<noteq> [] \<and> slash \<notin> set s) ks"
  shows "filter (\<lambda>s. s \<noteq> []) (Split (join_with [slash] ks)) = ks"
proof (cases "ks = []")
  case True
  then show ?thesis by (simp add: Split_def)
next
  case False
  have "Split (join_with [slash] ks) = ks"
    unfolding Split_def using assms False by (intro split_join) (auto simp: list_all_iff)
  with assms show ?thesis by (simp add: list_all_iff)
qed

definition share_segments :: "string \<Rightarrow> string list" where
  "share_segments p = filter (\<lambda>s. \<not> (s = [] \<or> s = ''.'')) (Split (ReplaceByte p backslash slash))"

lemma share_segments_ok:
  "list_all (\<lambda>s. s \<noteq> [] \<and> s \<noteq> ''.'' \<and> slash \<notin> set s \<and> backslash \<notin> set s) (share_segments p)"
proof -
  have no: "backslash \<notin> set (ReplaceByte p backslash slash)"
    by (auto simp: ReplaceByte_def backslash_def)
  have sub: "set x \<subseteq> set q" if "x \<in> set (split_at slash q)" for x q
    using that
  proof (induction q arbitrary: x)
    case (Cons c q)
    obtain a as where q: "split_at slash q = a # as" by (cases "split_at slash q") auto
    from Cons.prems have "x \<in> set (split_at slash q) \<or> x = [] \<or> x = c # a"
      by (auto simp: q split: if_splits)
    with Cons.IH [of x] Cons.IH [of a] show ?case by (auto simp: q)
  qed simp
  show ?thesis
    using no sub split_at_members [of _ slash] by (fastforce simp: share_segments_def list_all_iff Split_def)
qed

lemma NormalizeSharePath_segments: "NormalizeSharePath p = join_with [slash] (share_segments p)"
  by (simp add: NormalizeSharePath_def share_segments_def)

lemma ReplaceByte_none: "a \<notin> set s \<Longrightarrow> ReplaceByte s a b = s"
  unfolding ReplaceByte_def by (rule map_idI) auto

lemma set_join_with: "c \<in> set (join_with sep ks) \<Longrightarrow> c \<in> set sep \<or> (\<exists>k\<in>set ks. c \<in> set k)"
  by (induction sep ks rule: join_with.induct) auto

lemma share_segments_join:
  assumes ok: "list_all (\<lambda>s. s \<noteq> [] \<and> s \<noteq> ''.'' \<and> slash \<notin> set s \<and> backslash \<notin> set s) ks"
  shows "share_segments (join_with [slash] ks) = ks"
proof -
  have "backslash \<notin> set (join_with [slash] ks)"
    using ok set_join_with [of backslash "[slash]" ks] by (auto simp: list_all_iff backslash_def)
  then have rep: "ReplaceByte (join_with [slash] ks) backslash slash = join_with [slash] ks"
    by (rule ReplaceByte_none)
  have "filter (\<lambda>s. \<not> (s = [] \<or> s = ''.'')) xs = filter (\<lambda>s. s \<noteq> ''.'') (filter (\<lambda>s. s \<noteq> []) xs)"
    for xs :: "string list" by (induction xs) auto
  moreover have "filter (\<lambda>s. s \<noteq> []) (Split (join_with [slash] ks)) = ks"
    using ok by (intro filter_split_join) (auto simp: list_all_iff)
  ultimately have "share_segments (join_with [slash] ks) = filter (\<lambda>s. s \<noteq> ''.'') ks"
    unfolding share_segments_def rep by metis
  with ok show ?thesis by (simp add: list_all_iff)
qed

lemma NormalizeSharePath_idem [simp]: "NormalizeSharePath (NormalizeSharePath p) = NormalizeSharePath p"
  by (simp add: NormalizeSharePath_segments share_segments_join share_segments_ok)

section \<open>The in-memory store keeps the promises\<close>

definition mem_ok :: "mem_store \<Rightarrow> bool" where
  "mem_ok s \<longleftrightarrow>
     gomap_ok (mem_fileServers s) \<and> gomap_ok (mem_users s) \<and> gomap_ok (mem_shares s)
     \<and> (\<forall>n r. mget (mem_fileServers s) n = Some r \<longrightarrow> rec_NodeID r = n \<and> rec_NumericID r < mem_nextNumericID s)
     \<and> (\<forall>n r m r'. mget (mem_fileServers s) n = Some r \<and> mget (mem_fileServers s) m = Some r'
          \<and> rec_NumericID r = rec_NumericID r' \<longrightarrow> n = m)
     \<and> (\<forall>k sh. mget (mem_shares s) k = Some sh \<longrightarrow> (sr_Grantee sh, sr_Owner sh, sr_Path sh) = k \<and> key_of sh = k)"

definition mem_room :: "mem_store \<Rightarrow> bool" where
  "mem_room s \<longleftrightarrow> mem_nextNumericID s < - 1"

definition mem_view :: "mem_store \<Rightarrow> cluster" where
  "mem_view s = \<lparr>
     c_nodes = (\<lambda>n. map_option rec_NumericID (mget (mem_fileServers s) n)),
     c_homes = mget (mem_users s),
     c_grants = dom (mget (mem_shares s))\<rparr>"

lemma mget_fold_users:
  "mget (fold (\<lambda>u. mput (ur_Username u) (ur_HomeNodeID u)) us m)
   = fold (\<lambda>u f. f(ur_Username u \<mapsto> ur_HomeNodeID u)) us (mget m)"
  by (induction us arbitrary: m) (simp_all add: update_conv')

lemma gomap_ok_fold_users:
  "gomap_ok m \<Longrightarrow> gomap_ok (fold (\<lambda>u. mput (ur_Username u) (ur_HomeNodeID u)) us m)"
  by (induction us arbitrary: m) simp_all

definition shares_ok :: "(share_key, share_record) gomap \<Rightarrow> bool" where
  "shares_ok m \<longleftrightarrow> gomap_ok m \<and>
     (\<forall>k sh. mget m k = Some sh \<longrightarrow> (sr_Grantee sh, sr_Owner sh, sr_Path sh) = k \<and> key_of sh = k)"

lemma shares_ok_gomap: "shares_ok m \<Longrightarrow> gomap_ok m"
  by (simp add: shares_ok_def)

lemma put_share:
  assumes "shares_ok m"
  shows "shares_ok (put_share sh m)" "dom (mget (put_share sh m)) = insert (key_of sh) (dom (mget m))"
  using assms by (auto simp: put_share_def shares_ok_def key_of_def Let_def dom_def)

lemma fold_put_share:
  assumes "shares_ok m"
  shows "shares_ok (fold put_share shs m) \<and> dom (mget (fold put_share shs m)) = dom (mget m) \<union> key_of ` set shs"
  using assms by (induction shs arbitrary: m) (simp_all add: put_share)

lemma shares_ok_mfilter:
  assumes "shares_ok m"
  shows "shares_ok (mfilter P m)" "dom (mget (mfilter P m)) = {k \<in> dom (mget m). \<exists>v. mget m k = Some v \<and> P k v}"
  using assms by (auto simp: shares_ok_def mget_mfilter dom_def split: option.splits if_splits)

definition nodes_ok :: "u64 \<Rightarrow> (string, fs_record) gomap \<Rightarrow> bool" where
  "nodes_ok nxt m \<longleftrightarrow> gomap_ok m
     \<and> (\<forall>n r. mget m n = Some r \<longrightarrow> rec_NodeID r = n \<and> rec_NumericID r < nxt)
     \<and> (\<forall>n r n' r'. mget m n = Some r \<and> mget m n' = Some r' \<and> rec_NumericID r = rec_NumericID r' \<longrightarrow> n = n')"

lemma mem_ok_parts:
  "mem_ok s \<longleftrightarrow> nodes_ok (mem_nextNumericID s) (mem_fileServers s) \<and> gomap_ok (mem_users s) \<and> shares_ok (mem_shares s)"
  by (auto simp: mem_ok_def nodes_ok_def shares_ok_def)

lemma nodes_ok_update:
  assumes "nodes_ok nxt m" "mget m (rec_NodeID r) = Some r0" "rec_NumericID r = rec_NumericID r0"
  shows "nodes_ok nxt (mput (rec_NodeID r) r m)"
  using assms unfolding nodes_ok_def by (auto split: if_splits)

lemma nodes_ok_insert:
  assumes ok: "nodes_ok nxt m" and nxt: "nxt < - 1" and num: "rec_NumericID r = nxt"
  shows "nodes_ok (nxt + 1) (mput (rec_NodeID r) r m)"
proof -
  have lt: "nxt < nxt + 1" using nxt by (simp add: u64_less_Suc)
  have below: "rec_NumericID r' < nxt" if "mget m n = Some r'" for n r'
    using ok that by (simp add: nodes_ok_def)
  have inj: "n = n'" if "mget m n = Some r1" "mget m n' = Some r2" "rec_NumericID r1 = rec_NumericID r2" for n n' r1 r2
    using ok that by (auto simp: nodes_ok_def)
  have key: "rec_NodeID r1 = n" if "mget m n = Some r1" for n r1
    using ok that by (auto simp: nodes_ok_def)
  show ?thesis
    unfolding nodes_ok_def
  proof (intro conjI allI impI)
    show "gomap_ok (mput (rec_NodeID r) r m)" using ok by (simp add: nodes_ok_def)
  next
    fix n r1 assume "mget (mput (rec_NodeID r) r m) n = Some r1"
    then show "rec_NodeID r1 = n" "rec_NumericID r1 < nxt + 1"
      using lt num key less_trans [OF below lt] by (auto split: if_splits)
  next
    fix n r1 n' r2
    assume "mget (mput (rec_NodeID r) r m) n = Some r1 \<and> mget (mput (rec_NodeID r) r m) n' = Some r2
      \<and> rec_NumericID r1 = rec_NumericID r2"
    then show "n = n'"
      using inj [of n r1 n' r2] below [of n r1] below [of n' r2] num by (auto split: if_splits)
  qed
qed

lemma nodes_ok_delete: "nodes_ok nxt m \<Longrightarrow> nodes_ok nxt (mdel n m)"
  unfolding nodes_ok_def by (auto split: if_splits)

lemma mem_upsert_refines:
  assumes ok: "mem_ok s" and room: "mem_room s \<or> c_nodes (mem_view s) (rec_NodeID r) \<noteq> None"
    and up: "mem_UpsertFileServer e r s = (Inr i, s')"
  shows "mem_ok s' \<and> mem_view s' = spec_upsert (rec_NodeID r) i (mem_view s)"
proof (cases "mget (mem_fileServers s) (rec_NodeID r)")
  case None
  then have s': "s' = s\<lparr>mem_nextNumericID := mem_nextNumericID s + 1, mem_fileServers :=
      mput (rec_NodeID (r\<lparr>rec_NumericID := i\<rparr>)) (r\<lparr>rec_NumericID := i\<rparr>) (mem_fileServers s)\<rparr>"
    and i: "i = mem_nextNumericID s"
    using up by (auto simp: mem_UpsertFileServer_def Let_def split: if_splits)
  have "nodes_ok (mem_nextNumericID s + 1)
      (mput (rec_NodeID (r\<lparr>rec_NumericID := i\<rparr>)) (r\<lparr>rec_NumericID := i\<rparr>) (mem_fileServers s))"
    using ok room i None by (intro nodes_ok_insert) (simp_all add: mem_ok_parts mem_room_def mem_view_def)
  with ok show ?thesis
    by (auto simp: mem_ok_parts s' mem_view_def spec_upsert_def)
next
  case (Some r0)
  then have s': "s' = s\<lparr>mem_fileServers :=
      mput (rec_NodeID (r\<lparr>rec_NumericID := i\<rparr>)) (r\<lparr>rec_NumericID := i\<rparr>) (mem_fileServers s)\<rparr>"
    and i: "i = rec_NumericID r0"
    using up by (auto simp: mem_UpsertFileServer_def Let_def split: if_splits)
  have "nodes_ok (mem_nextNumericID s)
      (mput (rec_NodeID (r\<lparr>rec_NumericID := i\<rparr>)) (r\<lparr>rec_NumericID := i\<rparr>) (mem_fileServers s))"
    by (rule nodes_ok_update) (use ok i Some in \<open>simp_all add: mem_ok_parts\<close>)
  with ok show ?thesis
    by (auto simp: mem_ok_parts s' mem_view_def spec_upsert_def)
qed

lemma mem_upsert_id:
  assumes ok: "mem_ok s" and up: "mem_UpsertFileServer e r s = (Inr i, s')"
  shows "c_nodes (mem_view s) (rec_NodeID r) = Some j \<Longrightarrow> i = j"
    and "c_nodes (mem_view s) (rec_NodeID r) = None \<Longrightarrow> i \<notin> ran (c_nodes (mem_view s))"
proof -
  have below: "rec_NumericID r' < mem_nextNumericID s" if "mget (mem_fileServers s) n = Some r'" for n r'
    using ok that by (simp add: mem_ok_def)
  show "c_nodes (mem_view s) (rec_NodeID r) = Some j \<Longrightarrow> i = j"
    and "c_nodes (mem_view s) (rec_NodeID r) = None \<Longrightarrow> i \<notin> ran (c_nodes (mem_view s))"
    using up by (auto simp: mem_UpsertFileServer_def Let_def mem_view_def ran_def
        split: if_splits dest: below)
qed

lemma mem_rename_refines:
  assumes ok: "mem_ok s" and ren: "mem_RenameFileServer e a b s = (None, s')"
  shows "mem_ok s' \<and> mem_view s' = spec_rename a b (mem_view s)"
proof (cases "a = b")
  case True
  with ren ok show ?thesis by (auto simp: mem_RenameFileServer_def spec_rename_def split: if_splits)
next
  case False
  with ren obtain r where r: "mget (mem_fileServers s) a = Some r"
    by (auto simp: mem_RenameFileServer_def split: if_splits option.splits)
  let ?fs = "mdel a (mem_fileServers s)"
  have fs: "nodes_ok (mem_nextNumericID s) (if mget ?fs b = None then mput b (r\<lparr>rec_NodeID := b\<rparr>) ?fs else ?fs)"
  proof (cases "mget ?fs b = None")
    case True
    have ok': "nodes_ok (mem_nextNumericID s) (mem_fileServers s)" using ok by (simp add: mem_ok_parts)
    then have inj: "n = n'" if "mget (mem_fileServers s) n = Some r1" "mget (mem_fileServers s) n' = Some r2"
      "rec_NumericID r1 = rec_NumericID r2" for n n' r1 r2 using that by (auto simp: nodes_ok_def)
    from ok' have data: "rec_NodeID r1 = n \<and> rec_NumericID r1 < mem_nextNumericID s"
      if "mget (mem_fileServers s) n = Some r1" for n r1 using that by (simp add: nodes_ok_def)
    have "n = n'" if "mget (mput b (r\<lparr>rec_NodeID := b\<rparr>) ?fs) n = Some r1"
      "mget (mput b (r\<lparr>rec_NodeID := b\<rparr>) ?fs) n' = Some r2" "rec_NumericID r1 = rec_NumericID r2" for n n' r1 r2
      using that inj [OF r, of n' r2] inj [OF _ r, of n r1] inj [of n r1 n' r2] by (auto split: if_splits)
    moreover have "rec_NodeID r1 = n \<and> rec_NumericID r1 < mem_nextNumericID s"
      if "mget (mput b (r\<lparr>rec_NodeID := b\<rparr>) ?fs) n = Some r1" for n r1
      using that data [OF r] data [of n r1] by (auto split: if_splits)
    moreover have "gomap_ok (mput b (r\<lparr>rec_NodeID := b\<rparr>) ?fs)" using ok' by (simp add: nodes_ok_def)
    ultimately have "nodes_ok (mem_nextNumericID s) (mput b (r\<lparr>rec_NodeID := b\<rparr>) ?fs)"
      unfolding nodes_ok_def by blast
    with True show ?thesis by simp
  next
    case False
    with ok nodes_ok_delete [of _ _ a] show ?thesis by (auto simp: mem_ok_parts split: if_splits)
  qed
  from ren r False have s': "s' = s\<lparr>mem_users := mmap (\<lambda>home. if home = a then b else home) (mem_users s),
      mem_fileServers := (if mget ?fs b = None then mput b (r\<lparr>rec_NodeID := b\<rparr>) ?fs else ?fs)\<rparr>"
    by (auto simp: mem_RenameFileServer_def Let_def split: if_splits)
  have nodes: "c_nodes (mem_view s') = c_nodes (spec_rename a b (mem_view s))"
    using r False by (auto simp: s' mem_view_def spec_rename_def fun_eq_iff)
  moreover have "c_homes (mem_view s') = c_homes (spec_rename a b (mem_view s))"
    using False by (auto simp: s' mem_view_def spec_rename_def fun_eq_iff)
  moreover have "c_grants (mem_view s') = c_grants (spec_rename a b (mem_view s))"
    using False by (auto simp: s' mem_view_def spec_rename_def)
  ultimately have "mem_view s' = spec_rename a b (mem_view s)" by simp
  with fs ok show ?thesis by (simp add: s' mem_ok_parts)
qed

lemma mem_heartbeat_refines:
  assumes ok: "mem_ok s" and hb: "mem_RecordHeartbeat e n t st s = (r', s')"
  shows "mem_ok s' \<and> mem_view s' = mem_view s"
proof (cases "e \<or> mget (mem_fileServers s) n = None")
  case True
  with hb ok show ?thesis by (auto simp: mem_RecordHeartbeat_def split: if_splits)
next
  case False
  then obtain r where r: "mget (mem_fileServers s) n = Some r" and e: "\<not> e" by auto
  have rn: "rec_NodeID r = n" using ok r by (simp add: mem_ok_def)
  define r2 where "r2 = (if st \<noteq> [] then r\<lparr>rec_LastHeartbeatUnix := t, rec_Status := st\<rparr> else r\<lparr>rec_LastHeartbeatUnix := t\<rparr>)"
  have s': "s' = s\<lparr>mem_fileServers := mput (rec_NodeID r2) r2 (mem_fileServers s)\<rparr>"
    using hb r e rn by (auto simp: mem_RecordHeartbeat_def Let_def r2_def)
  have same: "rec_NodeID r2 = n" "rec_NumericID r2 = rec_NumericID r" using rn by (simp_all add: r2_def)
  have "nodes_ok (mem_nextNumericID s) (mput (rec_NodeID r2) r2 (mem_fileServers s))"
    by (rule nodes_ok_update) (use ok r same in \<open>simp_all add: mem_ok_parts\<close>)
  with ok r same show ?thesis by (auto simp: mem_ok_parts s' mem_view_def fun_eq_iff)
qed

lemma mem_status_refines:
  assumes ok: "mem_ok s" and hb: "mem_SetFileServerStatus e n st s = (r', s')"
  shows "mem_ok s' \<and> mem_view s' = mem_view s"
proof (cases "e \<or> mget (mem_fileServers s) n = None")
  case True
  with hb ok show ?thesis by (auto simp: mem_SetFileServerStatus_def split: if_splits)
next
  case False
  then obtain r where r: "mget (mem_fileServers s) n = Some r" and e: "\<not> e" by auto
  have rn: "rec_NodeID r = n" using ok r by (simp add: mem_ok_def)
  let ?r = "r\<lparr>rec_Status := st\<rparr>"
  have s': "s' = s\<lparr>mem_fileServers := mput (rec_NodeID ?r) ?r (mem_fileServers s)\<rparr>"
    using hb r e rn by (auto simp: mem_SetFileServerStatus_def)
  have "nodes_ok (mem_nextNumericID s) (mput (rec_NodeID ?r) ?r (mem_fileServers s))"
    by (rule nodes_ok_update) (use ok r rn in \<open>simp_all add: mem_ok_parts\<close>)
  with ok r rn show ?thesis by (auto simp: mem_ok_parts s' mem_view_def fun_eq_iff)
qed

lemma mem_remove_share_refines:
  assumes ok: "mem_ok s" and rm: "mem_RemoveShare e g ow p s = (None, s')"
  shows "mem_ok s' \<and> mem_view s' = spec_remove_share g ow p (mem_view s)"
  using assms
  by (auto simp: mem_RemoveShare_def mem_ok_def mem_view_def spec_remove_share_def split: if_splits)

lemma mem_involving_refines:
  assumes ok: "mem_ok s" and rm: "mem_RemoveSharesInvolving e ns s = (None, s')"
  shows "mem_ok s' \<and> mem_view s' = spec_remove_involving ns (mem_view s)"
  using assms
  by (auto simp: mem_RemoveSharesInvolving_def mem_ok_parts mem_view_def spec_remove_involving_def shares_ok_mfilter
      mget_mfilter shares_ok_gomap split: if_splits option.splits)

lemma mem_by_owner_refines:
  assumes ok: "mem_ok s" and rm: "mem_RemoveSharesByOwner e ns s = (None, s')"
  shows "mem_ok s' \<and> mem_view s' = spec_remove_by_owner ns (mem_view s)"
  using assms
  by (auto simp: mem_RemoveSharesByOwner_def mem_ok_parts mem_view_def spec_remove_by_owner_def shares_ok_mfilter
      mget_mfilter shares_ok_gomap split: if_splits option.splits)

lemma mem_add_refines:
  assumes ok: "mem_ok s"
  shows "mem_AddShare e sh s = (None, s') \<Longrightarrow> mem_ok s' \<and> mem_view s' = spec_add_shares [sh] (mem_view s)"
    and "mem_AddShares e shs s = (None, s') \<Longrightarrow> mem_ok s' \<and> mem_view s' = spec_add_shares shs (mem_view s)"
proof -
  have sh: "shares_ok (mem_shares s)" using ok by (simp add: mem_ok_parts)
  show "mem_AddShare e sh s = (None, s') \<Longrightarrow> mem_ok s' \<and> mem_view s' = spec_add_shares [sh] (mem_view s)"
    using ok put_share [OF sh]
    by (clarsimp simp: mem_AddShare_def mem_ok_parts mem_view_def spec_add_shares_def split: if_splits)
  show "mem_AddShares e shs s = (None, s') \<Longrightarrow> mem_ok s' \<and> mem_view s' = spec_add_shares shs (mem_view s)"
    using ok fold_put_share [OF sh]
    by (clarsimp simp: mem_AddShares_def mem_ok_parts mem_view_def spec_add_shares_def split: if_splits)
qed

lemma mem_users_refine:
  assumes ok: "mem_ok s"
  shows "mem_AssignUser e u n s = (None, s') \<Longrightarrow>
      mem_ok s' \<and> mem_view s' = spec_assign [\<lparr>ur_Username = u, ur_HomeNodeID = n\<rparr>] (mem_view s)"
    and "mem_AssignUsers e us s = (None, s') \<Longrightarrow> mem_ok s' \<and> mem_view s' = spec_assign us (mem_view s)"
    and "mem_RemoveUsers e ns s = (None, s') \<Longrightarrow> mem_ok s' \<and> mem_view s' = spec_remove_users ns (mem_view s)"
  using ok
  by (auto simp: mem_AssignUser_def mem_AssignUsers_def mem_RemoveUsers_def mem_ok_parts mem_view_def
      spec_assign_def spec_remove_users_def mget_fold_users gomap_ok_fold_users update_conv' fun_eq_iff split: if_splits)

interpretation memory: meta_store mem_ops mem_ok mem_room mem_view
proof
  fix s s' :: mem_store and e i r j n a b t st r' u us ns sh shs g ow p
  assume ok: "mem_ok s"
  note [simp] = mem_ops_def
  { assume "mem_room s \<or> c_nodes (mem_view s) (rec_NodeID r) \<noteq> None" "st_UpsertFileServer mem_ops e r s = (Inr i, s')"
    then show "mem_ok s' \<and> mem_view s' = spec_upsert (rec_NodeID r) i (mem_view s)"
      using mem_upsert_refines [OF ok] by simp }
  { assume "st_UpsertFileServer mem_ops e r s = (Inr i, s')" "c_nodes (mem_view s) (rec_NodeID r) = Some j"
    then show "i = j"
      using mem_upsert_id(1) [OF ok] by simp }
  { assume "st_UpsertFileServer mem_ops e r s = (Inr i, s')" "c_nodes (mem_view s) (rec_NodeID r) = None"
    then show "i \<notin> ran (c_nodes (mem_view s))"
      using mem_upsert_id(2) [OF ok] by simp }
  { assume "st_RemoveFileServer mem_ops e n s = (None, s')"
    then show "mem_ok s' \<and> mem_view s' = spec_remove_node n (mem_view s)"
      using ok nodes_ok_delete
      by (auto simp: mem_RemoveFileServer_def mem_ok_parts mem_view_def spec_remove_node_def fun_eq_iff split: if_splits) }
  { assume "st_RenameFileServer mem_ops e a b s = (Some ErrNotFound, s')"
    then show "s' = s \<and> c_nodes (mem_view s) a = None"
      by (auto simp: mem_RenameFileServer_def mem_view_def Let_def split: if_splits option.splits) }
qed (unfold mem_ops_def meta_ops.simps; erule (1) mem_rename_refines mem_heartbeat_refines mem_status_refines
      mem_users_refine mem_add_refines mem_remove_share_refines mem_involving_refines mem_by_owner_refines)+

end
