(* ===== verification/Meta_Server.thy ===== *)
theory Meta_Server
  imports Meta_Store
begin

text \<open>
  The metaserver: \<^verbatim>\<open>internal/metaserver/metaserver.go\<close> (state, hydration, liveness, placement) and
  \<^verbatim>\<open>internal/metaserver/handler.go\<close> (the RPC handlers).

  Every handler that changes users, nodes or shares holds \<open>writeOrderMu\<close> from its first look at the
  state to its last store write, so those handlers run one after the other and are modelled as functions
  of the in-memory state and the store. The store is any implementation of the \<^verbatim>\<open>MetaStore\<close>
  interface (a \<open>meta_ops\<close> dictionary); the parameter \<open>er\<close> says at which of its calls the context
  has expired. \<open>time.Now().Unix()\<close> is a parameter at each place the code reads it.
\<close>

section \<open>State\<close>

record fs_info =
  NodeID :: string
  Address :: string
  UserCount :: int
  LastHeartbeatUnix :: int
  Status :: string

record share_entry =
  se_Owner :: string
  se_Path :: string
  se_DisplayName :: string

record meta_server =
  ms_fileservers :: "(u64, fs_info) gomap"
  ms_users :: "(string, u64) gomap"
  ms_shared :: "(string, share_entry list) gomap"
  orphanedUsers :: "(string, string) gomap"
  allowUserPurge :: bool
  heartbeatTimeout :: duration
  heartbeatCheckInterval :: duration

definition StatusHealthy :: string where "StatusHealthy = ''healthy''"

definition StatusStale :: string where "StatusStale = ''stale''"

definition defaultHeartbeatTimeout :: duration where "defaultHeartbeatTimeout = 30 * second_ns"

definition defaultHeartbeatCheckInterval :: duration where "defaultHeartbeatCheckInterval = 5 * second_ns"

text \<open>The places where a handler calls the store.\<close>

datatype ms_call =
    CallLoad | CallAlloc | CallProvisional | CallRename | CallUpsert | CallRemoveUsers | CallRemoveInvolving
  | CallAssignUsers | CallRemoveByOwner | CallAddShares | CallHeartbeat | CallAssignUser | CallAddShare
  | CallRemoveShare | CallRemoveNode | CallStale

datatype ms_error =
    EmptyAddress | IDAlreadyRegistered string string | UserExists string string | UserOrphaned string string
  | PersistFailed | UnknownFileServer | RegisteredElsewhere string string string | MissingUserOrRoot
  | NoSuchUser string | NoSuchRoot string | RootUnavailable string | NoAccess string string
  | UsernameRequired | HomeUnavailable string | NoHealthyFileServer | NoSuchTarget string | MissingIdentity

section \<open>Hydration\<close>

definition hydrate_node :: "int \<Rightarrow> fs_record \<Rightarrow> fs_info" where
  "hydrate_node now rec = \<lparr>NodeID = rec_NodeID rec, Address = rec_Address rec, UserCount = 0,
     LastHeartbeatUnix = (if rec_LastHeartbeatUnix rec = 0 then now else rec_LastHeartbeatUnix rec),
     Status = (if rec_Status rec = [] then StatusHealthy else rec_Status rec)\<rparr>"

definition hydrate_users ::
    "(string, u64) gomap \<Rightarrow> user_record list \<Rightarrow> (string, u64) gomap \<times> (string, string) gomap" where
  "hydrate_users nodeToNumeric us = fold (\<lambda>u (users, orphans).
     case mget nodeToNumeric (ur_HomeNodeID u) of
       None \<Rightarrow> (users, mput (ur_Username u) (ur_HomeNodeID u) orphans)
     | Some numericID \<Rightarrow> (mput (ur_Username u) numericID users, orphans)) us ([], [])"

definition bump_count :: "u64 \<Rightarrow> (u64, fs_info) gomap \<Rightarrow> (u64, fs_info) gomap" where
  "bump_count i fss = (case mget fss i of
     None \<Rightarrow> fss | Some info \<Rightarrow> mput i (info\<lparr>UserCount := UserCount info + 1\<rparr>) fss)"

definition ensure_shared :: "string \<Rightarrow> (string, share_entry list) gomap \<Rightarrow> (string, share_entry list) gomap" where
  "ensure_shared u m = (if mget m u = None then mput u [] m else m)"

definition hydrate_share :: "share_record \<Rightarrow> (string, share_entry list) gomap \<Rightarrow> (string, share_entry list) gomap" where
  "hydrate_share sh m = mput (sr_Grantee sh) (mslice m (sr_Grantee sh) @
     [\<lparr>se_Owner = sr_Owner sh, se_Path = sr_Path sh, se_DisplayName = sr_DisplayName sh\<rparr>]) m"

definition hydrate :: "int \<Rightarrow> meta_snapshot \<Rightarrow> meta_server \<Rightarrow> meta_server" where
  "hydrate now snap ms =
     (let fss = fold (\<lambda>rec. mput (rec_NumericID rec) (hydrate_node now rec)) (snap_FileServers snap) [];
          nodeToNumeric = fold (\<lambda>rec. mput (rec_NodeID rec) (rec_NumericID rec)) (snap_FileServers snap) [];
          (users, orphans) = hydrate_users nodeToNumeric (snap_Users snap);
          fss' = fold (\<lambda>(u, numericID). bump_count numericID) users fss;
          shared = fold hydrate_share (snap_Shares snap) [];
          shared' = fold (\<lambda>(u, numericID). ensure_shared u) users shared
      in ms\<lparr>ms_fileservers := fss', ms_users := users, orphanedUsers := orphans, ms_shared := shared'\<rparr>)"

definition NewMetaServer :: "'st meta_ops \<Rightarrow> (ms_call \<Rightarrow> bool) \<Rightarrow> int \<Rightarrow> 'st \<Rightarrow> storage_error + meta_server" where
  "NewMetaServer ops er now st =
     (case st_LoadSnapshot ops (er CallLoad) st of
        Inl e \<Rightarrow> Inl e
      | Inr snap \<Rightarrow> Inr (hydrate now snap \<lparr>ms_fileservers = [], ms_users = [], ms_shared = [],
          orphanedUsers = [], allowUserPurge = False, heartbeatTimeout = defaultHeartbeatTimeout,
          heartbeatCheckInterval = defaultHeartbeatCheckInterval\<rparr>))"

definition SetHeartbeatConfig :: "duration \<Rightarrow> duration \<Rightarrow> meta_server \<Rightarrow> meta_server" where
  "SetHeartbeatConfig timeout checkInterval ms =
     (let ms1 = (if timeout > 0 then ms\<lparr>heartbeatTimeout := timeout\<rparr> else ms)
      in if checkInterval > 0 then ms1\<lparr>heartbeatCheckInterval := checkInterval\<rparr> else ms1)"

definition SetAllowUserPurge :: "bool \<Rightarrow> meta_server \<Rightarrow> meta_server" where
  "SetAllowUserPurge allow ms = ms\<lparr>allowUserPurge := allow\<rparr>"

section \<open>Look-ups, liveness and placement\<close>

definition findFileServerByNodeID :: "string \<Rightarrow> meta_server \<Rightarrow> u64 option" where
  "findFileServerByNodeID nodeID ms =
     (if nodeID = [] then None
      else map_option fst (find (\<lambda>(fsID, info). NodeID info = nodeID) (ms_fileservers ms)))"

definition findFileServerByAddress :: "string \<Rightarrow> meta_server \<Rightarrow> u64 option" where
  "findFileServerByAddress address ms =
     (if address = [] then None
      else map_option fst (find (\<lambda>(fsID, info). Address info = address) (ms_fileservers ms)))"

definition countUsersForFileServer :: "u64 \<Rightarrow> (string, u64) gomap \<Rightarrow> int" where
  "countUsersForFileServer fsID users = int (length (filter (\<lambda>(u, mappedID). mappedID = fsID) users))"

definition isHealthy :: "meta_server \<Rightarrow> fs_info \<Rightarrow> int \<Rightarrow> bool" where
  "isHealthy ms info nowUnix =
     (if Status info \<noteq> StatusHealthy then False
      else if LastHeartbeatUnix info = 0 then False
      else if heartbeatTimeout ms \<le> 0 then True
      else nowUnix - LastHeartbeatUnix info \<le> heartbeatTimeout ms div second_ns)"

definition markStaleFileServers :: "int \<Rightarrow> meta_server \<Rightarrow> string list \<times> meta_server" where
  "markStaleFileServers nowUnix ms =
     (let newly_stale = (\<lambda>info. \<not> isHealthy ms info nowUnix \<and> Status info \<noteq> StatusStale)
      in (map NodeID (filter newly_stale (map snd (ms_fileservers ms))),
          ms\<lparr>ms_fileservers := mmap (\<lambda>info. if newly_stale info then info\<lparr>Status := StatusStale\<rparr> else info)
              (ms_fileservers ms)\<rparr>))"

text \<open>One tick of \<open>StartHeartbeatMonitor\<close>: mark, then persist each transition, ignoring failures.\<close>

definition monitor_tick ::
    "'st meta_ops \<Rightarrow> (ms_call \<Rightarrow> bool) \<Rightarrow> int \<Rightarrow> meta_server \<times> 'st \<Rightarrow> meta_server \<times> 'st" where
  "monitor_tick ops er nowUnix = (\<lambda>(ms, st).
     (let (transitioned, ms') = markStaleFileServers nowUnix ms
      in (ms', fold (\<lambda>nodeID s. snd (st_SetFileServerStatus ops (er CallStale) nodeID StatusStale s)) transitioned st)))"

fun least_loaded_from ::
    "meta_server \<Rightarrow> int \<Rightarrow> (u64 \<times> int) option \<Rightarrow> (u64, fs_info) gomap \<Rightarrow> (u64 \<times> int) option" where
  "least_loaded_from ms nowUnix best [] = best"
| "least_loaded_from ms nowUnix best ((fsID, info) # rest) =
     (if \<not> isHealthy ms info nowUnix then least_loaded_from ms nowUnix best rest
      else case best of
             None \<Rightarrow> least_loaded_from ms nowUnix (Some (fsID, UserCount info)) rest
           | Some (minFS, minUsers) \<Rightarrow>
               if UserCount info < minUsers
               then least_loaded_from ms nowUnix (Some (fsID, UserCount info)) rest
               else least_loaded_from ms nowUnix best rest)"

definition getLeastLoadedHealthyFileServer :: "int \<Rightarrow> meta_server \<Rightarrow> u64 option" where
  "getLeastLoadedHealthyFileServer nowUnix ms = map_option fst (least_loaded_from ms nowUnix None (ms_fileservers ms))"

section \<open>Registration\<close>

record shared_dir =
  sd_Owner :: string
  sd_Path :: string
  sd_Name :: string
  sd_Users :: "string list"

record register_request =
  rr_FsId :: string
  rr_Address :: string
  rr_Users :: "string list"
  rr_Shared :: "shared_dir list"

definition removeSharesByOwner :: "string \<Rightarrow> meta_server \<Rightarrow> meta_server" where
  "removeSharesByOwner rootUser ms =
     ms\<lparr>ms_shared := mmap (\<lambda>roots. filter (\<lambda>s. se_Owner s \<noteq> rootUser) roots) (ms_shared ms)\<rparr>"

definition resolveNodeID :: "string \<Rightarrow> string \<Rightarrow> string" where
  "resolveNodeID fsID address = (if fsID \<noteq> [] then fsID else LegacyNodeIDPrefix @ address)"

definition adoptableLegacyNode :: "string \<Rightarrow> meta_server \<Rightarrow> (u64 \<times> string) option" where
  "adoptableLegacyNode address ms =
     (case findFileServerByAddress address ms of
        None \<Rightarrow> None
      | Some legacyID \<Rightarrow>
          (case mget (ms_fileservers ms) legacyID of
             None \<Rightarrow> None
           | Some info \<Rightarrow> if HasPrefix (NodeID info) LegacyNodeIDPrefix then Some (legacyID, NodeID info) else None))"

fun registrationConflict :: "meta_server \<Rightarrow> string \<Rightarrow> u64 option \<Rightarrow> string list \<Rightarrow> ms_error option" where
  "registrationConflict ms nodeID fsID [] = None"
| "registrationConflict ms nodeID fsID (username # rest) =
     (if mget (ms_users ms) username \<noteq> None \<and> mget (ms_users ms) username \<noteq> fsID
      then Some (UserExists username
             (case mget (ms_fileservers ms) (the (mget (ms_users ms) username)) of
                None \<Rightarrow> ''unknown'' | Some info \<Rightarrow> Address info))
      else if mget (orphanedUsers ms) username \<noteq> None \<and> mget (orphanedUsers ms) username \<noteq> Some nodeID
      then Some (UserOrphaned username (the (mget (orphanedUsers ms) username)))
      else registrationConflict ms nodeID fsID rest)"

definition containsShare :: "share_entry list \<Rightarrow> string \<Rightarrow> string \<Rightarrow> bool" where
  "containsShare entries owner path \<longleftrightarrow> list_ex (\<lambda>e. se_Owner e = owner \<and> se_Path e = path) entries"

text \<open>Which entry the request is about: the numeric id it takes over, if any, and the legacy identity it
  adopts, if any (lines 111--123).\<close>

definition register_lookup :: "register_request \<Rightarrow> meta_server \<Rightarrow> u64 option \<times> string option" where
  "register_lookup req ms =
     (case findFileServerByNodeID (resolveNodeID (rr_FsId req) (rr_Address req)) ms of
        Some fsID \<Rightarrow> (Some fsID, None)
      | None \<Rightarrow>
          (if rr_FsId req = [] then (None, None)
           else case adoptableLegacyNode (rr_Address req) ms of
                  None \<Rightarrow> (None, None)
                | Some (legacyID, legacyNodeID) \<Rightarrow> (Some legacyID, Some legacyNodeID)))"

text \<open>The refusals before anything is changed (lines 93--153).\<close>

definition register_refusal :: "int \<Rightarrow> register_request \<Rightarrow> meta_server \<Rightarrow> ms_error option" where
  "register_refusal nowUnix req ms =
     (let nodeID = resolveNodeID (rr_FsId req) (rr_Address req);
          (fsID, adoptFrom) = register_lookup req ms
      in if rr_Address req = [] then Some EmptyAddress
         else case (case (fsID, adoptFrom) of
                      (Some i, None) \<Rightarrow>
                        (case mget (ms_fileservers ms) i of
                           Some info \<Rightarrow>
                             if Address info \<noteq> rr_Address req \<and> isHealthy ms info nowUnix
                             then Some (IDAlreadyRegistered nodeID (Address info)) else None
                         | None \<Rightarrow> None)
                    | _ \<Rightarrow> None) of
                Some e \<Rightarrow> Some e
              | None \<Rightarrow> registrationConflict ms nodeID fsID (rr_Users req))"

text \<open>Users of this node that the request does not name (lines 217--236).\<close>

definition missing_users :: "u64 \<Rightarrow> register_request \<Rightarrow> meta_server \<Rightarrow> string list" where
  "missing_users fsID req ms =
     (if allowUserPurge ms
      then map fst (filter (\<lambda>(u, mappedID). mappedID = fsID \<and> u \<notin> set (rr_Users req)) (ms_users ms))
      else [])"

definition drop_user :: "string \<Rightarrow> meta_server \<Rightarrow> meta_server" where
  "drop_user u ms = removeSharesByOwner u
     (ms\<lparr>ms_users := mdel u (ms_users ms), ms_shared := mdel u (ms_shared ms)\<rparr>)"

text \<open>Reclaiming the users orphaned on this node (lines 253--262).\<close>

definition reclaim_orphans :: "string \<Rightarrow> u64 \<Rightarrow> meta_server \<Rightarrow> meta_server" where
  "reclaim_orphans nodeID fsID ms =
     (let mine = map fst (filter (\<lambda>(u, home). home = nodeID) (orphanedUsers ms))
      in fold (\<lambda>u m. m\<lparr>orphanedUsers := mdel u (orphanedUsers m), ms_users := mput u fsID (ms_users m),
           ms_shared := ensure_shared u (ms_shared m)\<rparr>) mine ms)"

definition claim_user :: "u64 \<Rightarrow> string \<Rightarrow> meta_server \<Rightarrow> meta_server" where
  "claim_user fsID u ms = removeSharesByOwner u
     (ms\<lparr>ms_users := mput u fsID (ms_users ms), ms_shared := ensure_shared u (ms_shared ms)\<rparr>)"

text \<open>The grants a request publishes (lines 288--317): those of owners it hosts, to anyone but themselves.\<close>

definition granted_shares :: "register_request \<Rightarrow> share_record list" where
  "granted_shares req = concat (map (\<lambda>sd.
     if sd_Owner sd \<notin> set (rr_Users req) then []
     else map (\<lambda>w. \<lparr>sr_Grantee = w, sr_Owner = sd_Owner sd, sr_Path = NormalizeSharePath (sd_Path sd),
                     sr_DisplayName = sd_Name sd\<rparr>)
            (filter (\<lambda>w. w \<noteq> sd_Owner sd) (sd_Users sd))) (rr_Shared req))"

definition publish_share :: "share_record \<Rightarrow> meta_server \<Rightarrow> meta_server" where
  "publish_share sh ms =
     (let shared = ensure_shared (sr_Grantee sh) (ms_shared ms);
          cur = mslice shared (sr_Grantee sh)
      in ms\<lparr>ms_shared :=
           (if containsShare cur (sr_Owner sh) (sr_Path sh) then shared
            else mput (sr_Grantee sh) (cur @ [\<lparr>se_Owner = sr_Owner sh, se_Path = sr_Path sh,
                   se_DisplayName = sr_DisplayName sh\<rparr>]) shared)\<rparr>)"

text \<open>The part of the handler past the last refusal that works on memory (lines 206--325).\<close>

definition register_commit :: "int \<Rightarrow> u64 \<Rightarrow> string \<Rightarrow> register_request \<Rightarrow> meta_server \<Rightarrow> meta_server" where
  "register_commit nowUnix fsID nodeID req ms =
     (let info = (case mget (ms_fileservers ms) fsID of
                    None \<Rightarrow> \<lparr>NodeID = nodeID, Address = [], UserCount = 0, LastHeartbeatUnix = 0, Status = []\<rparr>
                  | Some i \<Rightarrow> i);
          info' = info\<lparr>NodeID := nodeID, Address := rr_Address req, LastHeartbeatUnix := nowUnix,
                       Status := StatusHealthy\<rparr>;
          m1 = ms\<lparr>ms_fileservers := mput fsID info' (ms_fileservers ms)\<rparr>;
          m2 = fold drop_user (missing_users fsID req m1) m1;
          m3 = reclaim_orphans nodeID fsID m2;
          m4 = fold (claim_user fsID) (remdups (rr_Users req)) m3;
          m5 = fold publish_share (granted_shares req) m4
      in m5\<lparr>ms_fileservers :=
           mput fsID (info'\<lparr>UserCount := countUsersForFileServer fsID (ms_users m5)\<rparr>) (ms_fileservers m5)\<rparr>)"

text \<open>\<open>deferredWrites.run\<close>: the store writes in order, stopping at the first error.\<close>

type_synonym 'st swrite = "'st \<Rightarrow> storage_error option \<times> 'st"

fun run_writes :: "'st swrite list \<Rightarrow> 'st swrite" where
  "run_writes [] st = (None, st)"
| "run_writes (w # ws) st =
     (case w st of (Some e, st') \<Rightarrow> (Some e, st') | (None, st') \<Rightarrow> run_writes ws st')"

definition node_record :: "string \<Rightarrow> string \<Rightarrow> int \<Rightarrow> fs_record" where
  "node_record nodeID address nowUnix = \<lparr>rec_NodeID = nodeID, rec_NumericID = 0, rec_Address = address,
     rec_LastHeartbeatUnix = nowUnix, rec_Status = StatusHealthy\<rparr>"

definition write_rename :: "'st meta_ops \<Rightarrow> (ms_call \<Rightarrow> bool) \<Rightarrow> string option \<Rightarrow> string \<Rightarrow> 'st swrite" where
  "write_rename ops er adoptFrom nodeID st =
     (case adoptFrom of
        None \<Rightarrow> (None, st)
      | Some legacy \<Rightarrow>
          (case st_RenameFileServer ops (er CallRename) legacy nodeID st of
             (Some ErrNotFound, st') \<Rightarrow> (None, st')
           | r \<Rightarrow> r))"

definition write_upsert :: "'st meta_ops \<Rightarrow> (ms_call \<Rightarrow> bool) \<Rightarrow> fs_record \<Rightarrow> 'st swrite" where
  "write_upsert ops er rec st =
     (case st_UpsertFileServer ops (er CallUpsert) rec st of
        (Inl e, st') \<Rightarrow> (Some e, st') | (Inr _, st') \<Rightarrow> (None, st'))"

definition register_writes ::
    "'st meta_ops \<Rightarrow> (ms_call \<Rightarrow> bool) \<Rightarrow> int \<Rightarrow> string option \<Rightarrow> string \<Rightarrow> string list \<Rightarrow> register_request \<Rightarrow> 'st swrite list" where
  "register_writes ops er nowUnix adoptFrom nodeID missing req =
     [write_rename ops er adoptFrom nodeID,
      write_upsert ops er (node_record nodeID (rr_Address req) nowUnix)]
     @ (if missing = [] then []
        else [st_RemoveUsers ops (er CallRemoveUsers) missing,
              st_RemoveSharesInvolving ops (er CallRemoveInvolving) missing])
     @ [st_AssignUsers ops (er CallAssignUsers)
          (map (\<lambda>u. \<lparr>ur_Username = u, ur_HomeNodeID = nodeID\<rparr>) (remdups (rr_Users req))),
        st_RemoveSharesByOwner ops (er CallRemoveByOwner) (remdups (rr_Users req)),
        st_AddShares ops (er CallAddShares) (granted_shares req)]"

definition register_finish ::
    "'st meta_ops \<Rightarrow> (ms_call \<Rightarrow> bool) \<Rightarrow> int \<Rightarrow> u64 \<Rightarrow> string option \<Rightarrow> register_request \<Rightarrow> meta_server \<times> 'st
     \<Rightarrow> ms_error option \<times> meta_server \<times> 'st" where
  "register_finish ops er nowUnix fsID adoptFrom req = (\<lambda>(ms, st).
     (let nodeID = resolveNodeID (rr_FsId req) (rr_Address req);
          ms' = register_commit nowUnix fsID nodeID req ms;
          (err, st') = run_writes (register_writes ops er nowUnix adoptFrom nodeID (missing_users fsID req ms) req) st
      in (if err = None then None else Some PersistFailed, ms', st')))"

definition removeProvisionalNode :: "'st meta_ops \<Rightarrow> (ms_call \<Rightarrow> bool) \<Rightarrow> string \<Rightarrow> 'st \<Rightarrow> 'st" where
  "removeProvisionalNode ops er nodeID st = snd (st_RemoveFileServer ops (er CallProvisional) nodeID st)"

definition RegisterFileServer ::
    "'st meta_ops \<Rightarrow> (ms_call \<Rightarrow> bool) \<Rightarrow> int \<Rightarrow> int \<Rightarrow> int \<Rightarrow> register_request \<Rightarrow> meta_server \<times> 'st
     \<Rightarrow> ms_error option \<times> meta_server \<times> 'st" where
  "RegisterFileServer ops er nowUnix allocUnix commitUnix req = (\<lambda>(ms, st).
     (let nodeID = resolveNodeID (rr_FsId req) (rr_Address req);
          (found, adoptFrom) = register_lookup req ms
      in case register_refusal nowUnix req ms of
           Some e \<Rightarrow> (Some e, ms, st)
         | None \<Rightarrow>
             (case found of
                Some fsID \<Rightarrow> register_finish ops er commitUnix fsID adoptFrom req (ms, st)
              | None \<Rightarrow>
                  (case st_UpsertFileServer ops (er CallAlloc) (node_record nodeID (rr_Address req) allocUnix) st of
                     (Inl _, st1) \<Rightarrow> (Some PersistFailed, ms, st1)
                   | (Inr fsID, st1) \<Rightarrow>
                       (if mget (ms_fileservers ms) fsID \<noteq> None
                        then (Some PersistFailed, ms, removeProvisionalNode ops er nodeID st1)
                        else let ms1 = ms\<lparr>ms_fileservers := mput fsID \<lparr>NodeID = nodeID, Address = [],
                               UserCount = 0, LastHeartbeatUnix = 0, Status = []\<rparr> (ms_fileservers ms)\<rparr>
                             in case registrationConflict ms1 nodeID (Some fsID) (rr_Users req) of
                                  Some e \<Rightarrow> (Some e, ms1\<lparr>ms_fileservers := mdel fsID (ms_fileservers ms1)\<rparr>,
                                             removeProvisionalNode ops er nodeID st1)
                                | None \<Rightarrow> register_finish ops er commitUnix fsID adoptFrom req (ms1, st1))))))"

section \<open>The other handlers\<close>

definition Heartbeat ::
    "'st meta_ops \<Rightarrow> (ms_call \<Rightarrow> bool) \<Rightarrow> int \<Rightarrow> string \<Rightarrow> string \<Rightarrow> meta_server \<times> 'st
     \<Rightarrow> ms_error option \<times> meta_server \<times> 'st" where
  "Heartbeat ops er nowUnix reqFsId reqAddress = (\<lambda>(ms, st).
     if reqAddress = [] then (Some EmptyAddress, ms, st)
     else let nodeID = resolveNodeID reqFsId reqAddress in
       case findFileServerByNodeID nodeID ms of
         None \<Rightarrow> (Some UnknownFileServer, ms, st)
       | Some fsID \<Rightarrow>
           (case mget (ms_fileservers ms) fsID of
              None \<Rightarrow> (Some UnknownFileServer, ms, st)
            | Some info \<Rightarrow>
                (if Address info \<noteq> reqAddress
                 then (Some (RegisteredElsewhere nodeID (Address info) reqAddress), ms, st)
                 else let info' = info\<lparr>LastHeartbeatUnix := nowUnix, Status := StatusHealthy\<rparr>
                      in (None, ms\<lparr>ms_fileservers := mput fsID info' (ms_fileservers ms)\<rparr>,
                          snd (st_RecordHeartbeat ops (er CallHeartbeat) (NodeID info') nowUnix StatusHealthy st)))))"

definition Navigate :: "int \<Rightarrow> string \<Rightarrow> string \<Rightarrow> meta_server \<Rightarrow> ms_error + string" where
  "Navigate nowUnix user rootUser ms =
     (if user = [] \<or> rootUser = [] then Inl MissingUserOrRoot
      else if mget (ms_users ms) user = None then Inl (NoSuchUser user)
      else case mget (ms_users ms) rootUser of
             None \<Rightarrow> Inl (NoSuchRoot rootUser)
           | Some fs \<Rightarrow>
               (case mget (ms_fileservers ms) fs of
                  None \<Rightarrow> Inl (RootUnavailable rootUser)
                | Some rootFS \<Rightarrow>
                    (if \<not> isHealthy ms rootFS nowUnix then Inl (RootUnavailable rootUser)
                     else if user = rootUser \<or> list_ex (\<lambda>s. se_Owner s = rootUser) (mslice (ms_shared ms) user)
                     then Inr (Address rootFS)
                     else Inl (NoAccess user rootUser))))"

definition buildRoots :: "meta_server \<Rightarrow> string \<Rightarrow> share_entry list" where
  "buildRoots ms user =
     \<lparr>se_Owner = user, se_Path = user, se_DisplayName = ''mydrive''\<rparr> # mslice (ms_shared ms) user"

definition GetRoots ::
    "'st meta_ops \<Rightarrow> (ms_call \<Rightarrow> bool) \<Rightarrow> int \<Rightarrow> string \<Rightarrow> meta_server \<times> 'st
     \<Rightarrow> (ms_error + share_entry list) \<times> meta_server \<times> 'st" where
  "GetRoots ops er nowUnix user = (\<lambda>(ms, st).
     if user = [] then (Inl UsernameRequired, ms, st)
     else if mget (ms_users ms) user \<noteq> None then (Inr (buildRoots ms user), ms, st)
     else case mget (orphanedUsers ms) user of
            Some homeNode \<Rightarrow> (Inl (HomeUnavailable homeNode), ms, st)
          | None \<Rightarrow>
              (case getLeastLoadedHealthyFileServer nowUnix ms of
                 None \<Rightarrow> (Inl NoHealthyFileServer, ms, st)
               | Some minFS \<Rightarrow>
                   (let info = the (mget (ms_fileservers ms) minFS);
                        ms1 = ms\<lparr>ms_users := mput user minFS (ms_users ms),
                          ms_fileservers := mput minFS (info\<lparr>UserCount := UserCount info + 1\<rparr>) (ms_fileservers ms),
                          ms_shared := mput user [] (ms_shared ms)\<rparr>
                    in case st_AssignUser ops (er CallAssignUser) user (NodeID info) st of
                         (None, st') \<Rightarrow> (Inr (buildRoots ms1 user), ms1, st')
                       | (Some _, st') \<Rightarrow>
                           (let info1 = the (mget (ms_fileservers ms1) minFS)
                            in (Inl PersistFailed,
                                ms1\<lparr>ms_users := mdel user (ms_users ms1), ms_shared := mdel user (ms_shared ms1),
                                  ms_fileservers := (if UserCount info1 > 0
                                    then mput minFS (info1\<lparr>UserCount := UserCount info1 - 1\<rparr>) (ms_fileservers ms1)
                                    else ms_fileservers ms1)\<rparr>, st')))))"

definition removeShareEntry :: "share_entry list \<Rightarrow> string \<Rightarrow> string \<Rightarrow> share_entry list" where
  "removeShareEntry entries owner path = filter (\<lambda>e. \<not> (se_Owner e = owner \<and> se_Path e = path)) entries"

definition RootShare ::
    "'st meta_ops \<Rightarrow> (ms_call \<Rightarrow> bool) \<Rightarrow> string \<Rightarrow> string \<Rightarrow> string \<Rightarrow> string \<Rightarrow> meta_server \<times> 'st
     \<Rightarrow> ms_error option \<times> meta_server \<times> 'st" where
  "RootShare ops er owner rootPath name shareWith = (\<lambda>(ms, st).
     let path = NormalizeSharePath rootPath in
     if mget (ms_users ms) owner = None then (Some (NoSuchRoot owner), ms, st)
     else if mget (ms_users ms) shareWith = None then (Some (NoSuchTarget shareWith), ms, st)
     else if containsShare (mslice (ms_shared ms) shareWith) owner path then (None, ms, st)
     else let ms1 = ms\<lparr>ms_shared := mput shareWith (mslice (ms_shared ms) shareWith @
                 [\<lparr>se_Owner = owner, se_Path = path, se_DisplayName = name\<rparr>]) (ms_shared ms)\<rparr>
          in case st_AddShare ops (er CallAddShare) \<lparr>sr_Grantee = shareWith, sr_Owner = owner, sr_Path = path,
                 sr_DisplayName = name\<rparr> st of
               (None, st') \<Rightarrow> (None, ms1, st')
             | (Some _, st') \<Rightarrow>
                 (Some PersistFailed,
                  ms1\<lparr>ms_shared := mput shareWith (removeShareEntry (mslice (ms_shared ms1) shareWith) owner path)
                         (ms_shared ms1)\<rparr>, st'))"

definition RootUnshare ::
    "'st meta_ops \<Rightarrow> (ms_call \<Rightarrow> bool) \<Rightarrow> string \<Rightarrow> string \<Rightarrow> string \<Rightarrow> meta_server \<times> 'st
     \<Rightarrow> ms_error option \<times> meta_server \<times> 'st" where
  "RootUnshare ops er owner rootPath unshareWith = (\<lambda>(ms, st).
     let path = NormalizeSharePath rootPath in
     if mget (ms_users ms) owner = None then (Some (NoSuchRoot owner), ms, st)
     else if mget (ms_users ms) unshareWith = None then (Some (NoSuchTarget unshareWith), ms, st)
     else let ms1 = ms\<lparr>ms_shared := mput unshareWith
                 (removeShareEntry (mslice (ms_shared ms) unshareWith) owner path) (ms_shared ms)\<rparr>
          in case st_RemoveShare ops (er CallRemoveShare) unshareWith owner path st of
               (None, st') \<Rightarrow> (None, ms1, st')
             | (Some _, st') \<Rightarrow> (Some PersistFailed, ms1, st'))"

section \<open>Deregistration\<close>

definition deregister_lookup :: "string \<Rightarrow> string \<Rightarrow> meta_server \<Rightarrow> string \<times> u64 option" where
  "deregister_lookup reqFsId reqAddress ms =
     (if reqFsId \<noteq> [] then (reqFsId, findFileServerByNodeID reqFsId ms)
      else case findFileServerByAddress reqAddress ms of
             None \<Rightarrow> (reqFsId, None)
           | Some fsID \<Rightarrow>
               ((case mget (ms_fileservers ms) fsID of None \<Rightarrow> reqFsId | Some info \<Rightarrow> NodeID info), Some fsID))"

definition released_users :: "string \<Rightarrow> u64 option \<Rightarrow> meta_server \<Rightarrow> string list" where
  "released_users nodeID fsID ms =
     (case fsID of None \<Rightarrow> [] | Some i \<Rightarrow> map fst (filter (\<lambda>(u, mappedID). mappedID = i) (ms_users ms)))
     @ (if nodeID \<noteq> [] then map fst (filter (\<lambda>(u, home). home = nodeID) (orphanedUsers ms)) else [])"

definition release_user :: "string \<Rightarrow> meta_server \<Rightarrow> meta_server" where
  "release_user u ms = removeSharesByOwner u
     (ms\<lparr>ms_users := mdel u (ms_users ms), orphanedUsers := mdel u (orphanedUsers ms),
         ms_shared := mdel u (ms_shared ms)\<rparr>)"

definition deregister_writes ::
    "'st meta_ops \<Rightarrow> (ms_call \<Rightarrow> bool) \<Rightarrow> string \<Rightarrow> bool \<Rightarrow> string list \<Rightarrow> 'st swrite list" where
  "deregister_writes ops er nodeID known removed =
     (if removed = [] then []
      else [st_RemoveUsers ops (er CallRemoveUsers) removed,
            st_RemoveSharesInvolving ops (er CallRemoveInvolving) removed])
     @ (if known then [st_RemoveFileServer ops (er CallRemoveNode) nodeID] else [])"

text \<open>Restoring the saved entries one by one (lines 773--787 and 823--833).\<close>

definition restore_from :: "('k, 'v) gomap \<Rightarrow> 'k list \<Rightarrow> ('k, 'v) gomap \<Rightarrow> ('k, 'v) gomap" where
  "restore_from old ks m = fold (\<lambda>k m'. case mget old k of None \<Rightarrow> m' | Some v \<Rightarrow> mput k v m') ks m"

definition DeregisterFileServer ::
    "'st meta_ops \<Rightarrow> (ms_call \<Rightarrow> bool) \<Rightarrow> string \<Rightarrow> string \<Rightarrow> meta_server \<times> 'st
     \<Rightarrow> ms_error option \<times> meta_server \<times> 'st" where
  "DeregisterFileServer ops er reqFsId reqAddress = (\<lambda>(ms, st).
     if reqFsId = [] \<and> reqAddress = [] then (Some MissingIdentity, ms, st)
     else let (nodeID, fsID) = deregister_lookup reqFsId reqAddress ms;
              removed = released_users nodeID fsID ms
          in if fsID = None \<and> removed = [] then (None, ms, st)
             else let ms1 = fold release_user removed ms;
                      ms2 = (case fsID of None \<Rightarrow> ms1 | Some i \<Rightarrow> ms1\<lparr>ms_fileservers := mdel i (ms_fileservers ms1)\<rparr>)
                  in case run_writes (deregister_writes ops er nodeID (fsID \<noteq> None) removed) st of
                       (None, st') \<Rightarrow> (None, ms2, st')
                     | (Some _, st') \<Rightarrow>
                         (Some PersistFailed,
                          ms2\<lparr>ms_fileservers := (case fsID of None \<Rightarrow> ms_fileservers ms2
                                | Some i \<Rightarrow> restore_from (ms_fileservers ms) [i] (ms_fileservers ms2)),
                              ms_users := restore_from (ms_users ms) removed (ms_users ms2),
                              orphanedUsers := restore_from (orphanedUsers ms) removed (orphanedUsers ms2),
                              ms_shared := ms_shared ms\<rparr>, st'))"

section \<open>Runs\<close>

datatype ms_op =
    MRegister int int int register_request
  | MHeartbeat int string string
  | MGetRoots int string
  | MShare string string string string
  | MUnshare string string string
  | MDeregister string string
  | MTick int
  | MConfig duration duration
  | MPurge bool

fun ms_exec :: "'st meta_ops \<Rightarrow> (ms_call \<Rightarrow> bool) \<Rightarrow> ms_op \<Rightarrow> meta_server \<times> 'st \<Rightarrow> meta_server \<times> 'st" where
  "ms_exec ops er (MRegister t1 t2 t3 req) s = snd (RegisterFileServer ops er t1 t2 t3 req s)"
| "ms_exec ops er (MHeartbeat t i a) s = snd (Heartbeat ops er t i a s)"
| "ms_exec ops er (MGetRoots t u) s = snd (GetRoots ops er t u s)"
| "ms_exec ops er (MShare ow p n w) s = snd (RootShare ops er ow p n w s)"
| "ms_exec ops er (MUnshare ow p w) s = snd (RootUnshare ops er ow p w s)"
| "ms_exec ops er (MDeregister i a) s = snd (DeregisterFileServer ops er i a s)"
| "ms_exec ops er (MTick t) s = monitor_tick ops er t s"
| "ms_exec ops er (MConfig a b) s = (SetHeartbeatConfig a b (fst s), snd s)"
| "ms_exec ops er (MPurge b) s = (SetAllowUserPurge b (fst s), snd s)"

section \<open>Effects on the tables\<close>

text \<open>
  What each piece of a handler does to the four tables read as functions: nodes, assignments, orphans and
  the visible shares of a user. All later proofs use only these.
\<close>

named_theorems ms_effects \<open>what the pieces of the handlers do to the tables\<close>

abbreviation nodes :: "meta_server \<Rightarrow> u64 \<rightharpoonup> fs_info" where "nodes ms \<equiv> mget (ms_fileservers ms)"
abbreviation assigned :: "meta_server \<Rightarrow> string \<rightharpoonup> u64" where "assigned ms \<equiv> mget (ms_users ms)"
abbreviation orphans :: "meta_server \<Rightarrow> string \<rightharpoonup> string" where "orphans ms \<equiv> mget (orphanedUsers ms)"
abbreviation visible :: "meta_server \<Rightarrow> string \<Rightarrow> share_entry list" where "visible ms \<equiv> mslice (ms_shared ms)"

definition tables_ok :: "meta_server \<Rightarrow> bool" where
  "tables_ok ms \<longleftrightarrow> gomap_ok (ms_fileservers ms) \<and> gomap_ok (ms_users ms) \<and> gomap_ok (orphanedUsers ms)
     \<and> gomap_ok (ms_shared ms)"

lemma mslice_mmap [simp]: "f [] = [] \<Longrightarrow> mslice (mmap f m) k = f (mslice m k)"
  by (simp add: mslice_def split: option.splits)

lemma mslice_ensure [simp]: "mslice (ensure_shared u m) k = mslice m k"
  by (simp add: ensure_shared_def mslice_def)

lemma gomap_ok_ensure [simp]: "gomap_ok m \<Longrightarrow> gomap_ok (ensure_shared u m)"
  by (simp add: ensure_shared_def)

lemma removeSharesByOwner_effect [simp]:
  "ms_fileservers (removeSharesByOwner u ms) = ms_fileservers ms"
  "ms_users (removeSharesByOwner u ms) = ms_users ms"
  "orphanedUsers (removeSharesByOwner u ms) = orphanedUsers ms"
  "visible (removeSharesByOwner u ms) g = filter (\<lambda>s. se_Owner s \<noteq> u) (visible ms g)"
  "gomap_ok (ms_shared ms) \<Longrightarrow> gomap_ok (ms_shared (removeSharesByOwner u ms))"
  by (simp_all add: removeSharesByOwner_def)

lemma drop_user_effect:
  "ms_fileservers (drop_user v ms) = ms_fileservers ms"
  "orphanedUsers (drop_user v ms) = orphanedUsers ms"
  "assigned (drop_user v ms) u = (if u = v then None else assigned ms u)"
  "visible (drop_user v ms) g =
     (if g = v then [] else filter (\<lambda>s. se_Owner s \<noteq> v) (visible ms g))"
  "tables_ok ms \<Longrightarrow> tables_ok (drop_user v ms)"
  by (auto simp: drop_user_def tables_ok_def)

lemma drop_users_effect [ms_effects]:
  "ms_fileservers (fold drop_user us ms) = ms_fileservers ms"
  "orphanedUsers (fold drop_user us ms) = orphanedUsers ms"
  "assigned (fold drop_user us ms) u = (if u \<in> set us then None else assigned ms u)"
  "visible (fold drop_user us ms) g =
     (if g \<in> set us then [] else filter (\<lambda>s. se_Owner s \<notin> set us) (visible ms g))"
  "tables_ok ms \<Longrightarrow> tables_ok (fold drop_user us ms)"
  by (induction us arbitrary: ms) (auto simp: drop_user_effect intro!: filter_cong)

lemma release_user_effect:
  "ms_fileservers (release_user v ms) = ms_fileservers ms"
  "orphans (release_user v ms) u = (if u = v then None else orphans ms u)"
  "assigned (release_user v ms) u = (if u = v then None else assigned ms u)"
  "visible (release_user v ms) g =
     (if g = v then [] else filter (\<lambda>s. se_Owner s \<noteq> v) (visible ms g))"
  "tables_ok ms \<Longrightarrow> tables_ok (release_user v ms)"
  by (auto simp: release_user_def tables_ok_def)

lemma release_users_effect [ms_effects]:
  "ms_fileservers (fold release_user us ms) = ms_fileservers ms"
  "orphans (fold release_user us ms) u = (if u \<in> set us then None else orphans ms u)"
  "assigned (fold release_user us ms) u = (if u \<in> set us then None else assigned ms u)"
  "visible (fold release_user us ms) g =
     (if g \<in> set us then [] else filter (\<lambda>s. se_Owner s \<notin> set us) (visible ms g))"
  "tables_ok ms \<Longrightarrow> tables_ok (fold release_user us ms)"
  by (induction us arbitrary: ms) (auto simp: release_user_effect intro!: filter_cong)

lemma claim_user_effect:
  "ms_fileservers (claim_user i v ms) = ms_fileservers ms"
  "orphanedUsers (claim_user i v ms) = orphanedUsers ms"
  "assigned (claim_user i v ms) u = (if u = v then Some i else assigned ms u)"
  "visible (claim_user i v ms) g = filter (\<lambda>s. se_Owner s \<noteq> v) (visible ms g)"
  "tables_ok ms \<Longrightarrow> tables_ok (claim_user i v ms)"
  by (auto simp: claim_user_def tables_ok_def)

lemma claim_users_effect [ms_effects]:
  "ms_fileservers (fold (claim_user i) us ms) = ms_fileservers ms"
  "orphanedUsers (fold (claim_user i) us ms) = orphanedUsers ms"
  "assigned (fold (claim_user i) us ms) u = (if u \<in> set us then Some i else assigned ms u)"
  "visible (fold (claim_user i) us ms) g = filter (\<lambda>s. se_Owner s \<notin> set us) (visible ms g)"
  "tables_ok ms \<Longrightarrow> tables_ok (fold (claim_user i) us ms)"
  by (induction us arbitrary: ms) (auto simp: claim_user_effect intro!: filter_cong)

definition reclaim_one :: "u64 \<Rightarrow> string \<Rightarrow> meta_server \<Rightarrow> meta_server" where
  "reclaim_one i u m = m\<lparr>orphanedUsers := mdel u (orphanedUsers m), ms_users := mput u i (ms_users m),
     ms_shared := ensure_shared u (ms_shared m)\<rparr>"

lemma reclaim_one_effect:
  "ms_fileservers (reclaim_one i v ms) = ms_fileservers ms"
  "orphans (reclaim_one i v ms) u = (if u = v then None else orphans ms u)"
  "assigned (reclaim_one i v ms) u = (if u = v then Some i else assigned ms u)"
  "visible (reclaim_one i v ms) g = visible ms g"
  "tables_ok ms \<Longrightarrow> tables_ok (reclaim_one i v ms)"
  by (auto simp: reclaim_one_def tables_ok_def)

lemma reclaim_list_effect:
  "ms_fileservers (fold (reclaim_one i) us ms) = ms_fileservers ms"
  "orphans (fold (reclaim_one i) us ms) u = (if u \<in> set us then None else orphans ms u)"
  "assigned (fold (reclaim_one i) us ms) u = (if u \<in> set us then Some i else assigned ms u)"
  "visible (fold (reclaim_one i) us ms) g = visible ms g"
  "tables_ok ms \<Longrightarrow> tables_ok (fold (reclaim_one i) us ms)"
  by (induction us arbitrary: ms) (auto simp: reclaim_one_effect intro!: filter_cong)

lemma reclaim_effect [ms_effects]:
  assumes "tables_ok ms"
  shows "ms_fileservers (reclaim_orphans n i ms) = ms_fileservers ms"
    and "orphans (reclaim_orphans n i ms) u = (if orphans ms u = Some n then None else orphans ms u)"
    and "assigned (reclaim_orphans n i ms) u = (if orphans ms u = Some n then Some i else assigned ms u)"
    and "visible (reclaim_orphans n i ms) g = visible ms g"
    and "tables_ok (reclaim_orphans n i ms)"
proof -
  let ?mine = "map fst (filter (\<lambda>(u, home). home = n) (orphanedUsers ms))"
  have eq: "reclaim_orphans n i ms = fold (reclaim_one i) ?mine ms"
    by (simp add: reclaim_orphans_def reclaim_one_def [abs_def])
  have mine: "u \<in> set ?mine \<longleftrightarrow> orphans ms u = Some n" for u
    using assms by (force simp: tables_ok_def mget_iff_in_set)
  show "ms_fileservers (reclaim_orphans n i ms) = ms_fileservers ms"
    "orphans (reclaim_orphans n i ms) u = (if orphans ms u = Some n then None else orphans ms u)"
    "assigned (reclaim_orphans n i ms) u = (if orphans ms u = Some n then Some i else assigned ms u)"
    "visible (reclaim_orphans n i ms) g = visible ms g"
    "tables_ok (reclaim_orphans n i ms)"
    using assms unfolding eq by (simp_all only: reclaim_list_effect mine)
qed

text \<open>A grant as the store keys it.\<close>

definition grants :: "meta_server \<Rightarrow> share_key set" where
  "grants ms = {(g, ow, p). containsShare (visible ms g) ow p}"

lemma publish_effect:
  "ms_fileservers (publish_share sh ms) = ms_fileservers ms"
  "orphanedUsers (publish_share sh ms) = orphanedUsers ms"
  "ms_users (publish_share sh ms) = ms_users ms"
  "grants (publish_share sh ms) = insert (sr_Grantee sh, sr_Owner sh, sr_Path sh) (grants ms)"
  "tables_ok ms \<Longrightarrow> tables_ok (publish_share sh ms)"
  by (auto simp: publish_share_def Let_def grants_def containsShare_def tables_ok_def split: if_splits)

lemma publish_list_effect [ms_effects]:
  "ms_fileservers (fold publish_share shs ms) = ms_fileservers ms"
  "orphanedUsers (fold publish_share shs ms) = orphanedUsers ms"
  "ms_users (fold publish_share shs ms) = ms_users ms"
  "grants (fold publish_share shs ms) = (\<lambda>sh. (sr_Grantee sh, sr_Owner sh, sr_Path sh)) ` set shs \<union> grants ms"
  "tables_ok ms \<Longrightarrow> tables_ok (fold publish_share shs ms)"
  by (induction shs arbitrary: ms) (simp_all add: publish_effect)

lemma missing_set:
  "tables_ok ms \<Longrightarrow> u \<in> set (missing_users i req ms) \<longleftrightarrow>
     allowUserPurge ms \<and> assigned ms u = Some i \<and> u \<notin> set (rr_Users req)"
  by (force simp: missing_users_def tables_ok_def mget_iff_in_set)

section \<open>The invariant\<close>

definition load :: "(string \<rightharpoonup> u64) \<Rightarrow> u64 \<Rightarrow> int" where
  "load U i = int (card {u. U u = Some i})"

definition core_inv :: "(u64 \<rightharpoonup> fs_info) \<Rightarrow> (string \<rightharpoonup> u64) \<Rightarrow> (string \<rightharpoonup> string) \<Rightarrow> bool" where
  "core_inv F U R \<longleftrightarrow>
     (\<forall>u i. U u = Some i \<longrightarrow> F i \<noteq> None)
     \<and> (\<forall>i a. F i = Some a \<longrightarrow> UserCount a = load U i \<and> NodeID a \<noteq> [])
     \<and> (\<forall>u. U u = None \<or> R u = None)
     \<and> (\<forall>i j a b. F i = Some a \<and> F j = Some b \<and> NodeID a = NodeID b \<longrightarrow> i = j)
     \<and> (\<forall>u i a. F i = Some a \<longrightarrow> R u \<noteq> Some (NodeID a))"

definition ms_inv :: "meta_server \<Rightarrow> bool" where
  "ms_inv ms \<longleftrightarrow> tables_ok ms \<and> core_inv (nodes ms) (assigned ms) (orphans ms)"

lemma core_invD:
  assumes "core_inv F U R"
  shows "U u = Some i \<Longrightarrow> \<exists>a. F i = Some a"
    and "F i = Some a \<Longrightarrow> UserCount a = load U i"
    and "F i = Some a \<Longrightarrow> NodeID a \<noteq> []"
    and "U u = Some i \<Longrightarrow> R u = None"
    and "F i = Some a \<Longrightarrow> F j = Some b \<Longrightarrow> NodeID a = NodeID b \<Longrightarrow> i = j"
    and "F i = Some a \<Longrightarrow> R u \<noteq> Some (NodeID a)"
proof -
  show "U u = Some i \<Longrightarrow> \<exists>a. F i = Some a" using assms by (auto simp: core_inv_def)
  show "F i = Some a \<Longrightarrow> UserCount a = load U i" "F i = Some a \<Longrightarrow> NodeID a \<noteq> []"
    using assms by (simp_all add: core_inv_def)
  show "U u = Some i \<Longrightarrow> R u = None" using assms unfolding core_inv_def by (metis option.distinct(1))
  show "F i = Some a \<Longrightarrow> F j = Some b \<Longrightarrow> NodeID a = NodeID b \<Longrightarrow> i = j"
    using assms unfolding core_inv_def by blast
  show "F i = Some a \<Longrightarrow> R u \<noteq> Some (NodeID a)" using assms unfolding core_inv_def by blast
qed

lemma core_invI:
  assumes "\<And>u i. U u = Some i \<Longrightarrow> \<exists>a. F i = Some a"
    and "\<And>i a. F i = Some a \<Longrightarrow> UserCount a = load U i"
    and "\<And>i a. F i = Some a \<Longrightarrow> NodeID a \<noteq> []"
    and "\<And>u. U u = None \<or> R u = None"
    and "\<And>i j a b. F i = Some a \<Longrightarrow> F j = Some b \<Longrightarrow> NodeID a = NodeID b \<Longrightarrow> i = j"
    and "\<And>u i a. F i = Some a \<Longrightarrow> R u \<noteq> Some (NodeID a)"
  shows "core_inv F U R"
  unfolding core_inv_def using assms by (intro conjI allI impI) (blast | fastforce)+

lemma count_load: "gomap_ok m \<Longrightarrow> countUsersForFileServer i m = load (mget m) i"
proof -
  assume ok: "gomap_ok m"
  have "{u. mget m u = Some i} = fst ` set (filter (\<lambda>(u, j). j = i) m)"
    using ok by (force simp: mget_iff_in_set)
  moreover have "distinct (map fst (filter (\<lambda>(u, j). j = i) m))"
    using ok by (simp add: gomap_ok_def distinct_map_filter)
  ultimately show ?thesis
    using distinct_card [of "map fst (filter (\<lambda>(u, j). j = i) m)"]
    by (simp add: countUsersForFileServer_def load_def)
qed

lemma finite_users: "finite {u. mget m u = Some i}"
  by (rule finite_subset [OF _ finite_dom_map_of [of m]]) auto

lemma load_assign:
  "mget m u = None \<Longrightarrow> load ((mget m)(u \<mapsto> i)) j = load (mget m) j + (if j = i then 1 else 0)"
proof -
  assume "mget m u = None"
  then have "{v. ((mget m)(u \<mapsto> i)) v = Some j} = (if j = i then insert u {v. mget m v = Some j} else {v. mget m v = Some j})"
    by auto
  moreover have "card (insert u {v. mget m v = Some j}) = Suc (card {v. mget m v = Some j})"
    using \<open>mget m u = None\<close> finite_users [of m j] by simp
  ultimately show ?thesis by (cases "j = i") (simp_all add: load_def)
qed

lemma load_nonneg [simp]: "0 \<le> load U i"
  by (simp add: load_def)

lemma findNode:
  assumes "tables_ok ms" "core_inv (nodes ms) (assigned ms) (orphans ms)"
  shows "findFileServerByNodeID n ms = Some i \<longleftrightarrow> (\<exists>a. nodes ms i = Some a \<and> NodeID a = n)"
proof
  assume "findFileServerByNodeID n ms = Some i"
  then obtain a where "find (\<lambda>(fsID, info). NodeID info = n) (ms_fileservers ms) = Some (i, a)"
    by (auto simp: findFileServerByNodeID_def split: if_splits)
  then have "(i, a) \<in> set (ms_fileservers ms)" "NodeID a = n" by (auto dest: find_SomeD)
  with assms(1) show "\<exists>a. nodes ms i = Some a \<and> NodeID a = n"
    by (auto simp: tables_ok_def mget_iff_in_set)
next
  assume "\<exists>a. nodes ms i = Some a \<and> NodeID a = n"
  then obtain a where a: "nodes ms i = Some a" "NodeID a = n" by blast
  then have "find (\<lambda>(fsID, info). NodeID info = n) (ms_fileservers ms) \<noteq> None"
    by (auto simp: find_None_iff dest!: mget_in_set)
  then obtain j b where f: "find (\<lambda>(fsID, info). NodeID info = n) (ms_fileservers ms) = Some (j, b)" by auto
  then have "(j, b) \<in> set (ms_fileservers ms)" "NodeID b = n" by (auto dest: find_SomeD)
  with assms(1) have "nodes ms j = Some b" by (auto simp: tables_ok_def mget_iff_in_set)
  with a \<open>NodeID b = n\<close> core_invD(5) [OF assms(2)] have "j = i" by blast
  with f a core_invD(3) [OF assms(2)] show "findFileServerByNodeID n ms = Some i"
    by (auto simp: findFileServerByNodeID_def)
qed

lemma findNode_None:
  assumes "ms_inv ms"
  shows "findFileServerByNodeID n ms = None \<longleftrightarrow> (\<forall>i a. nodes ms i = Some a \<longrightarrow> NodeID a \<noteq> n)"
proof -
  have "findFileServerByNodeID n ms = Some i \<longleftrightarrow> (\<exists>a. nodes ms i = Some a \<and> NodeID a = n)" for i
    using assms by (intro findNode) (simp_all add: ms_inv_def)
  then show ?thesis by (cases "findFileServerByNodeID n ms") (auto, metis option.distinct(1))
qed

lemma resolve_nonempty [simp]: "resolveNodeID f a \<noteq> []"
  by (simp add: resolveNodeID_def LegacyNodeIDPrefix_def)

subsection \<open>Registration\<close>

lemma conflict_free:
  "registrationConflict ms n fs us = None \<Longrightarrow> u \<in> set us \<Longrightarrow>
     (assigned ms u = None \<or> assigned ms u = fs) \<and> (orphans ms u = None \<or> orphans ms u = Some n)"
  by (induction ms n fs us rule: registrationConflict.induct) (auto split: if_splits)

definition committed_users :: "u64 \<Rightarrow> string \<Rightarrow> register_request \<Rightarrow> meta_server \<Rightarrow> string \<rightharpoonup> u64" where
  "committed_users i n req ms u =
     (if u \<in> set (rr_Users req) \<or> orphans ms u = Some n then Some i
      else if allowUserPurge ms \<and> assigned ms u = Some i then None
      else assigned ms u)"

definition committed_info :: "int \<Rightarrow> string \<Rightarrow> register_request \<Rightarrow> (string \<rightharpoonup> u64) \<Rightarrow> u64 \<Rightarrow> fs_info" where
  "committed_info t n req U i = \<lparr>NodeID = n, Address = rr_Address req, UserCount = load U i,
     LastHeartbeatUnix = t, Status = StatusHealthy\<rparr>"

lemma register_commit_effect:
  assumes ok: "tables_ok ms"
  shows "tables_ok (register_commit t i n req ms)"
    and "assigned (register_commit t i n req ms) = committed_users i n req ms"
    and "orphans (register_commit t i n req ms) = (\<lambda>u. if orphans ms u = Some n then None else orphans ms u)"
    and "nodes (register_commit t i n req ms) = (nodes ms)(i \<mapsto> committed_info t n req (committed_users i n req ms) i)"
    and "grants (register_commit t i n req ms) =
      {(g, ow, p) \<in> grants ms. g \<notin> set (missing_users i req ms) \<and> ow \<notin> set (missing_users i req ms)
         \<and> ow \<notin> set (rr_Users req)} \<union> key_of ` set (granted_shares req)"
proof -
  define info where "info = (case nodes ms i of
                    None \<Rightarrow> \<lparr>NodeID = n, Address = [], UserCount = 0, LastHeartbeatUnix = 0, Status = []\<rparr>
                  | Some i \<Rightarrow> i)"
  define info' where "info' = info\<lparr>NodeID := n, Address := rr_Address req, LastHeartbeatUnix := t,
                       Status := StatusHealthy\<rparr>"
  define m1 where "m1 = ms\<lparr>ms_fileservers := mput i info' (ms_fileservers ms)\<rparr>"
  define m2 where "m2 = fold drop_user (missing_users i req m1) m1"
  define m3 where "m3 = reclaim_orphans n i m2"
  define m4 where "m4 = fold (claim_user i) (remdups (rr_Users req)) m3"
  define m5 where "m5 = fold publish_share (granted_shares req) m4"
  have eq: "register_commit t i n req ms = m5\<lparr>ms_fileservers :=
           mput i (info'\<lparr>UserCount := countUsersForFileServer i (ms_users m5)\<rparr>) (ms_fileservers m5)\<rparr>"
    by (simp add: register_commit_def Let_def info_def info'_def m1_def m2_def m3_def m4_def m5_def)
  have miss: "missing_users i req m1 = missing_users i req ms" by (simp add: m1_def missing_users_def)
  have ok1: "tables_ok m1" using ok by (simp add: m1_def tables_ok_def)
  have ok2: "tables_ok m2" unfolding m2_def by (intro ms_effects ok1)
  have ok5: "tables_ok m5" unfolding m5_def m4_def m3_def by (intro ms_effects ok2)
  have t1: "ms_fileservers m1 = mput i info' (ms_fileservers ms)" "ms_users m1 = ms_users ms"
    "orphanedUsers m1 = orphanedUsers ms" "ms_shared m1 = ms_shared ms" by (simp_all add: m1_def)
  note t2 = drop_users_effect [where us = "missing_users i req ms" and ms = m1, folded miss, folded m2_def, unfolded miss t1]
  note t3 = reclaim_effect [OF ok2, where n = n and i = i, folded m3_def, unfolded t2]
  note t4 = claim_users_effect [where i = i and us = "remdups (rr_Users req)" and ms = m3, folded m4_def, unfolded t3 set_remdups]
  note t5 = publish_list_effect [where shs = "granted_shares req" and ms = m4, folded m5_def, unfolded t4]
  show "tables_ok (register_commit t i n req ms)" using ok5 by (simp add: eq tables_ok_def)
  show "orphans (register_commit t i n req ms) = (\<lambda>u. if orphans ms u = Some n then None else orphans ms u)"
    by (rule ext) (simp add: eq t5 t3)
  have users5: "assigned m5 = committed_users i n req ms"
    using missing_set [OF ok, of _ i req]
    by (auto simp: t5 t4 t3 fun_eq_iff committed_users_def)
  then show "assigned (register_commit t i n req ms) = committed_users i n req ms" by (simp add: eq)
  show "nodes (register_commit t i n req ms) = (nodes ms)(i \<mapsto> committed_info t n req (committed_users i n req ms) i)"
  proof -
    have "countUsersForFileServer i (ms_users m5) = load (committed_users i n req ms) i"
      using ok5 by (simp add: count_load tables_ok_def users5)
    moreover have "info'\<lparr>UserCount := c\<rparr> = \<lparr>NodeID = n, Address = rr_Address req, UserCount = c,
        LastHeartbeatUnix = t, Status = StatusHealthy\<rparr>" for c
      by (simp add: info'_def)
    ultimately show ?thesis by (simp add: eq t5(1) fun_eq_iff committed_info_def)
  qed
  have path: "(\<lambda>sh. (sr_Grantee sh, sr_Owner sh, sr_Path sh)) ` set (granted_shares req) = key_of ` set (granted_shares req)"
    by (rule image_cong) (auto simp: granted_shares_def key_of_def split: if_splits)
  show "grants (register_commit t i n req ms) =
      {(g, ow, p) \<in> grants ms. g \<notin> set (missing_users i req ms) \<and> ow \<notin> set (missing_users i req ms)
         \<and> ow \<notin> set (rr_Users req)} \<union> key_of ` set (granted_shares req)"
  proof -
    have "grants (register_commit t i n req ms) = grants m5" by (simp add: eq grants_def)
    also have "\<dots> = key_of ` set (granted_shares req) \<union> grants m4" by (simp add: t5 path)
    also have "grants m4 = {(g, ow, p) \<in> grants ms. g \<notin> set (missing_users i req ms) \<and> ow \<notin> set (missing_users i req ms)
         \<and> ow \<notin> set (rr_Users req)}"
      by (auto simp: grants_def t4 containsShare_def list_ex_iff split: if_splits)
    finally show ?thesis by blast
  qed
qed

lemma core_inv_commit:
  assumes inv: "core_inv (nodes ms) (assigned ms) (orphans ms)"
    and only: "\<And>j a. nodes ms j = Some a \<Longrightarrow> NodeID a = n \<Longrightarrow> j = i"
    and free: "\<And>u. u \<in> set (rr_Users req) \<Longrightarrow>
      (assigned ms u = None \<or> assigned ms u = Some i) \<and> (orphans ms u = None \<or> orphans ms u = Some n)"
    and n: "n \<noteq> []"
  shows "core_inv ((nodes ms)(i \<mapsto> committed_info t n req (committed_users i n req ms) i))
    (committed_users i n req ms) (\<lambda>u. if orphans ms u = Some n then None else orphans ms u)"
proof -
  let ?U = "committed_users i n req ms"
  note D = core_invD [OF inv]
  have other: "?U u = Some j \<longleftrightarrow> assigned ms u = Some j" if "j \<noteq> i" for u j
    using that free [of u] D(4) [of u j] by (auto simp: committed_users_def)
  then have load: "load ?U j = load (assigned ms) j" if "j \<noteq> i" for j using that by (simp add: load_def)
  have known: "\<exists>a. nodes ms j = Some a" if "?U u = Some j" "j \<noteq> i" for u j
    using that other D(1) by blast
  have excl: "?U u = None" if "orphans ms u \<noteq> None" "orphans ms u \<noteq> Some n" for u
    using that free [of u] D(4) [of u] by (cases "assigned ms u") (auto simp: committed_users_def)
  show ?thesis
    unfolding core_inv_def
  proof (intro conjI allI impI)
    fix u j assume "?U u = Some j"
    then show "((nodes ms)(i \<mapsto> committed_info t n req ?U i)) j \<noteq> None" using known [of u j] by auto
  next
    fix j a assume "((nodes ms)(i \<mapsto> committed_info t n req ?U i)) j = Some a"
    then show "UserCount a = load ?U j" "NodeID a \<noteq> []"
      using D(2,3) load [of j] n by (auto simp: committed_info_def split: if_splits)
  next
    fix u show "?U u = None \<or> (if orphans ms u = Some n then None else orphans ms u) = None"
      using excl [of u] by auto
  next
    fix j k a b
    assume "((nodes ms)(i \<mapsto> committed_info t n req ?U i)) j = Some a
      \<and> ((nodes ms)(i \<mapsto> committed_info t n req ?U i)) k = Some b \<and> NodeID a = NodeID b"
    then show "j = k" using D(5) [of j a k b] only [of j a] only [of k b]
      by (auto simp: committed_info_def split: if_splits)
  next
    fix u j a assume "((nodes ms)(i \<mapsto> committed_info t n req ?U i)) j = Some a"
    then show "(if orphans ms u = Some n then None else orphans ms u) \<noteq> Some (NodeID a)"
      using D(6) [of j a u] by (auto simp: committed_info_def split: if_splits)
  qed
qed

lemma adoptable_node:
  assumes "tables_ok ms" "adoptableLegacyNode a ms = Some (i, l)"
  shows "\<exists>info. nodes ms i = Some info \<and> NodeID info = l \<and> Address info = a"
proof -
  from assms(2) obtain info where f: "findFileServerByAddress a ms = Some i" and i: "nodes ms i = Some info" "NodeID info = l"
    by (auto simp: adoptableLegacyNode_def split: option.splits if_splits)
  from f obtain info' where "find (\<lambda>(fsID, info). Address info = a) (ms_fileservers ms) = Some (i, info')"
    by (auto simp: findFileServerByAddress_def split: if_splits)
  then have "(i, info') \<in> set (ms_fileservers ms)" "Address info' = a" by (auto dest: find_SomeD)
  moreover from this(1) assms(1) have "nodes ms i = Some info'" by (simp add: tables_ok_def mget_iff_in_set)
  ultimately show ?thesis using i by auto
qed

text \<open>What the look-up found: either an entry of that identity, or the legacy entry at that address while
  no entry has the identity, or neither.\<close>

lemma register_lookup_cases:
  assumes inv: "ms_inv ms" and look: "register_lookup req ms = (found, adopt)"
    and n: "n = resolveNodeID (rr_FsId req) (rr_Address req)"
  obtains (known) i info where "found = Some i" "adopt = None" "nodes ms i = Some info" "NodeID info = n"
  | (adopted) i info l where "found = Some i" "adopt = Some l" "nodes ms i = Some info" "NodeID info = l"
      "findFileServerByNodeID n ms = None"
  | (fresh) "found = None" "adopt = None" "findFileServerByNodeID n ms = None"
proof -
  have tok: "tables_ok ms" and core: "core_inv (nodes ms) (assigned ms) (orphans ms)"
    using inv by (simp_all add: ms_inv_def)
  show thesis
  proof (cases "findFileServerByNodeID n ms")
    case (Some i)
    then obtain info where "nodes ms i = Some info" "NodeID info = n" using findNode [OF tok core] by blast
    with Some look n show ?thesis by (intro known) (auto simp: register_lookup_def)
  next
    case None
    show ?thesis
    proof (cases "rr_FsId req = [] \<or> adoptableLegacyNode (rr_Address req) ms = None")
      case True
      with None look n show ?thesis by (intro fresh) (auto simp: register_lookup_def split: if_splits)
    next
      case False
      then obtain i l where ad: "adoptableLegacyNode (rr_Address req) ms = Some (i, l)" by auto
      with adoptable_node [OF tok] obtain info where "nodes ms i = Some info" "NodeID info = l" by blast
      with False None ad look n show ?thesis by (intro adopted) (auto simp: register_lookup_def)
    qed
  qed
qed

lemma register_only:
  assumes inv: "ms_inv ms" and look: "register_lookup req ms = (Some i, adopt)"
    and n: "n = resolveNodeID (rr_FsId req) (rr_Address req)"
    and a: "nodes ms j = Some a" "NodeID a = n"
  shows "j = i"
  using inv look n
proof (cases rule: register_lookup_cases)
  case (known i info)
  with a inv core_invD(5) [of "nodes ms"] show ?thesis by (auto simp: ms_inv_def)
next
  case adopted
  with a findNode_None [OF inv] show ?thesis by auto
qed simp

lemma refusal_none:
  assumes "register_refusal t req ms = None" "register_lookup req ms = (found, adopt)"
  shows "rr_Address req \<noteq> []"
    and "registrationConflict ms (resolveNodeID (rr_FsId req) (rr_Address req)) found (rr_Users req) = None"
  using assms by (auto simp: register_refusal_def Let_def split: if_splits option.splits)

lemma conflict_same_tables:
  "ms_users ms' = ms_users ms \<Longrightarrow> orphanedUsers ms' = orphanedUsers ms \<Longrightarrow>
   (\<And>u. assigned ms u \<noteq> Some i) \<Longrightarrow>
   registrationConflict ms n None us = None \<Longrightarrow> registrationConflict ms' n (Some i) us = None"
  by (induction us) (auto split: if_splits)

lemma mdel_mput_fresh: "mget m k = None \<Longrightarrow> mdel k (mput k v m) = m"
proof (induction m)
  case (Cons e m)
  then show ?case by (cases e) (auto simp: AList.delete_eq split: if_splits)
qed (simp add: AList.delete_eq)

text \<open>A registration ends in one of three ways: refused or failed with memory as it was, or committed.\<close>

lemma register_outcome:
  assumes inv: "ms_inv ms"
    and run: "RegisterFileServer ops er t1 t2 t3 req (ms, st) = (res, ms', st')"
    and n: "n = resolveNodeID (rr_FsId req) (rr_Address req)"
    and look: "register_lookup req ms = (found, adopt)"
  obtains (refused) e where "register_refusal t1 req ms = Some e" "res = Some e" "ms' = ms" "st' = st"
  | (not_allocated) e st1 where "found = None" "res = Some PersistFailed" "ms' = ms"
      "st_UpsertFileServer ops (er CallAlloc) (node_record n (rr_Address req) t2) st = (Inl e, st1)" "st' = st1"
  | (collided) i st1 where "found = None" "res = Some PersistFailed" "ms' = ms"
      "st_UpsertFileServer ops (er CallAlloc) (node_record n (rr_Address req) t2) st = (Inr i, st1)"
      "nodes ms i \<noteq> None" "st' = removeProvisionalNode ops er n st1"
  | (committed_known) i where "found = Some i" "register_refusal t1 req ms = None"
      "(res, ms', st') = register_finish ops er t3 i adopt req (ms, st)"
  | (committed_new) i st1 where "found = None" "register_refusal t1 req ms = None" "nodes ms i = None"
      "st_UpsertFileServer ops (er CallAlloc) (node_record n (rr_Address req) t2) st = (Inr i, st1)"
      "(res, ms', st') = register_finish ops er t3 i adopt req
         (ms\<lparr>ms_fileservers := mput i \<lparr>NodeID = n, Address = [], UserCount = 0, LastHeartbeatUnix = 0,
            Status = []\<rparr> (ms_fileservers ms)\<rparr>, st1)"
proof (cases "register_refusal t1 req ms")
  case (Some e)
  with run look show ?thesis by (intro refused [of e]) (auto simp: RegisterFileServer_def Let_def)
next
  case ok: None
  note conf = refusal_none(2) [OF ok look, folded n]
  show ?thesis
  proof (cases found)
    case (Some i)
    with run look ok show ?thesis by (intro committed_known) (auto simp: RegisterFileServer_def Let_def)
  next
    case None
    obtain a st1 where up: "st_UpsertFileServer ops (er CallAlloc) (node_record n (rr_Address req) t2) st = (a, st1)"
      by fastforce
    show ?thesis
    proof (cases a)
      case (Inl e)
      with None run look ok up show ?thesis
        by (intro not_allocated) (auto simp: RegisterFileServer_def Let_def n)
    next
      case (Inr i)
      show ?thesis
      proof (cases "nodes ms i")
        case (Some info)
        with None Inr run look ok up show ?thesis
          by (intro collided) (auto simp: RegisterFileServer_def Let_def n)
      next
        case fresh: None
        have "assigned ms u \<noteq> Some i" for u
          using fresh inv core_invD(1) [of "nodes ms" "assigned ms" "orphans ms" u i] by (auto simp: ms_inv_def)
        then have "registrationConflict (ms\<lparr>ms_fileservers := mput i \<lparr>NodeID = n, Address = [], UserCount = 0,
            LastHeartbeatUnix = 0, Status = []\<rparr> (ms_fileservers ms)\<rparr>) n (Some i) (rr_Users req) = None"
          using conf None by (intro conflict_same_tables [where ms = ms]) simp_all
        with None Inr fresh run look ok up show ?thesis
          by (intro committed_new) (auto simp: RegisterFileServer_def Let_def n)
      qed
    qed
  qed
qed

lemma register_finish_ms:
  "(res, ms', st') = register_finish ops er t i adopt req (ms, st) \<Longrightarrow>
     ms' = register_commit t i (resolveNodeID (rr_FsId req) (rr_Address req)) req ms"
  by (simp add: register_finish_def Let_def split: prod.splits)

lemma ms_inv_commit:
  assumes "tables_ok ms" "core_inv (nodes ms) (assigned ms) (orphans ms)" "n \<noteq> []"
    and "\<And>j a. nodes ms j = Some a \<Longrightarrow> NodeID a = n \<Longrightarrow> j = i"
    and "registrationConflict ms n (Some i) (rr_Users req) = None"
  shows "ms_inv (register_commit t i n req ms)"
proof -
  have "core_inv ((nodes ms)(i \<mapsto> committed_info t n req (committed_users i n req ms) i))
    (committed_users i n req ms) (\<lambda>u. if orphans ms u = Some n then None else orphans ms u)"
    using assms(2) by (rule core_inv_commit) (use assms conflict_free [OF assms(5)] in auto)
  then show ?thesis unfolding ms_inv_def register_commit_effect [OF assms(1)]
    using register_commit_effect(1) [OF assms(1)] by simp
qed

lemma commit_provisional:
  assumes "nodes ms i = None"
  shows "register_commit t i n req (ms\<lparr>ms_fileservers := mput i \<lparr>NodeID = n, Address = [], UserCount = 0,
      LastHeartbeatUnix = 0, Status = []\<rparr> (ms_fileservers ms)\<rparr>) = register_commit t i n req ms"
proof -
  have twice: "mput i a (mput i b m) = mput i a m" for a b and m :: "(u64, fs_info) gomap"
    by (induction m) auto
  show ?thesis using assms by (simp add: register_commit_def missing_users_def twice Let_def)
qed

lemma register_inv:
  assumes inv: "ms_inv ms" and run: "RegisterFileServer ops er t1 t2 t3 req (ms, st) = (res, ms', st')"
  shows "ms_inv ms'"
proof -
  obtain found adopt where look: "register_lookup req ms = (found, adopt)" by fastforce
  define n where n: "n = resolveNodeID (rr_FsId req) (rr_Address req)"
  have tok: "tables_ok ms" and core: "core_inv (nodes ms) (assigned ms) (orphans ms)"
    using inv by (simp_all add: ms_inv_def)
  have nn: "n \<noteq> []" by (simp add: n)
  from inv run n look show ?thesis
  proof (cases rule: register_outcome)
    case (committed_known i)
    have "ms' = register_commit t3 i n req ms"
      using register_finish_ms [OF committed_known(3)] by (simp add: n)
    moreover have "j = i" if "nodes ms j = Some a" "NodeID a = n" for j a
      using register_only [OF inv _ n that] look committed_known(1) by simp
    ultimately show ?thesis
      using ms_inv_commit [OF tok core nn] refusal_none(2) [OF committed_known(2) look]
      by (simp add: n committed_known(1))
  next
    case (committed_new i st1)
    have "ms' = register_commit t3 i n req ms"
      using register_finish_ms [OF committed_new(5)] commit_provisional [OF committed_new(3)] by (simp add: n)
    moreover have "findFileServerByNodeID n ms = None"
      using inv look n by (cases rule: register_lookup_cases) (simp_all add: committed_new(1))
    then have "j = i" if "nodes ms j = Some a" "NodeID a = n" for j a
      using that findNode_None [OF inv] by blast
    moreover have "assigned ms u \<noteq> Some i" for u using core_invD(1) [OF core] committed_new(3) by fastforce
    then have "registrationConflict ms n (Some i) (rr_Users req) = None"
      using refusal_none(2) [OF committed_new(2) look] committed_new(1)
      by (intro conflict_same_tables [where ms = ms]) (simp_all add: n)
    ultimately show ?thesis using ms_inv_commit [OF tok core nn] by simp
  qed (simp_all add: inv)
qed

subsection \<open>The other handlers\<close>

lemma core_inv_map:
  assumes "core_inv F U R" "\<And>a. NodeID (f a) = NodeID a" "\<And>a. UserCount (f a) = UserCount a"
  shows "core_inv (\<lambda>i. map_option f (F i)) U R"
  using assms unfolding core_inv_def by (fastforce simp: map_option_case split: option.splits)

lemma core_inv_touch:
  assumes "core_inv F U R" "F i = Some a" "NodeID b = NodeID a" "UserCount b = UserCount a"
  shows "core_inv (F(i \<mapsto> b)) U R"
proof -
  note D = core_invD [OF assms(1)]
  show ?thesis
    unfolding core_inv_def
    using D(1) D(2,3) [OF assms(2)] D(2,3) D(4) D(5) [OF assms(2)] D(5) D(6) [OF assms(2)] D(6) assms(3,4)
    by (auto split: if_splits) (metis D(4) not_None_eq)+
qed

lemma core_inv_assign:
  assumes inv: "core_inv F (mget m) R" and i: "F i = Some a" and u: "mget m u = None" "R u = None"
  shows "core_inv (F(i \<mapsto> a\<lparr>UserCount := UserCount a + 1\<rparr>)) ((mget m)(u \<mapsto> i)) R"
proof -
  note D = core_invD [OF inv]
  let ?F = "F(i \<mapsto> a\<lparr>UserCount := UserCount a + 1\<rparr>)" and ?U = "(mget m)(u \<mapsto> i)"
  show ?thesis
  proof (rule core_invI)
    fix v j assume "?U v = Some j"
    then show "\<exists>b. ?F j = Some b" using D(1) [of v j] by (auto split: if_splits)
  next
    fix j b assume "?F j = Some b"
    then show "UserCount b = load ?U j" "NodeID b \<noteq> []"
      using D(2,3) [OF i] D(2,3) [of j b] load_assign [OF u(1), of i j] by (auto split: if_splits)
  next
    fix v show "?U v = None \<or> R v = None" using u(2) D(4) [of v] by (cases "mget m v") auto
  next
    fix j k b c assume "?F j = Some b" "?F k = Some c" "NodeID b = NodeID c"
    then show "j = k" using D(5) [OF i, of k c] D(5) [OF _ i, of j b] D(5) [of j b k c] by (auto split: if_splits)
  next
    fix v j b assume "?F j = Some b"
    then show "R v \<noteq> Some (NodeID b)" using D(6) [OF i] D(6) [of j b] by (auto split: if_splits)
  qed
qed

lemma core_inv_release:
  assumes inv: "core_inv F U R"
    and all: "\<And>u. U u = Some i \<Longrightarrow> u \<in> X"
    and others: "\<And>u j. u \<in> X \<Longrightarrow> U u = Some j \<Longrightarrow> j = i"
  shows "core_inv (F(i := None)) (\<lambda>u. if u \<in> X then None else U u) (\<lambda>u. if u \<in> X then None else R u)"
proof -
  note D = core_invD [OF inv]
  have same: "(if u \<in> X then None else U u) = Some j \<longleftrightarrow> U u = Some j" if "j \<noteq> i" for u j
    using that others [of u j] by auto
  then have load: "load (\<lambda>u. if u \<in> X then None else U u) j = load U j" if "j \<noteq> i" for j
    using that by (simp add: load_def)
  show ?thesis
  proof (rule core_invI)
    fix u j assume "(if u \<in> X then None else U u) = Some j"
    then show "\<exists>a. (F(i := None)) j = Some a" using D(1) [of u j] all [of u] by (auto split: if_splits)
  next
    fix j a assume "(F(i := None)) j = Some a"
    then show "UserCount a = load (\<lambda>u. if u \<in> X then None else U u) j" "NodeID a \<noteq> []"
      using D(2,3) load [of j] by (auto split: if_splits)
  next
    fix u show "(if u \<in> X then None else U u) = None \<or> (if u \<in> X then None else R u) = None"
      using D(4) [of u] by (cases "U u") auto
  next
    fix j k a b assume "(F(i := None)) j = Some a" "(F(i := None)) k = Some b" "NodeID a = NodeID b"
    then show "j = k" using D(5) by (auto split: if_splits)
  next
    fix u j a assume "(F(i := None)) j = Some a"
    then show "(if u \<in> X then None else R u) \<noteq> Some (NodeID a)" using D(6) by (auto split: if_splits)
  qed
qed

lemma least_loaded_spec:
  "case least_loaded_from ms t best fss of
     None \<Rightarrow> best = None \<and> (\<forall>(j, b) \<in> set fss. \<not> isHealthy ms b t)
   | Some (i, c) \<Rightarrow>
       (best = Some (i, c) \<or> (\<exists>a. (i, a) \<in> set fss \<and> isHealthy ms a t \<and> c = UserCount a))
       \<and> (\<forall>(j, b) \<in> set fss. isHealthy ms b t \<longrightarrow> c \<le> UserCount b)
       \<and> (\<forall>i' c'. best = Some (i', c') \<longrightarrow> c \<le> c')"
proof (induction fss arbitrary: best)
  case Nil
  then show ?case by (auto split: option.splits)
next
  case (Cons e fss)
  obtain j b where e: "e = (j, b)" by (cases e)
  show ?case
    using Cons.IH [of best] Cons.IH [of "Some (j, UserCount b)"]
    by (auto simp: e split: option.splits if_splits)
qed

lemma placed_node:
  assumes "tables_ok ms" "getLeastLoadedHealthyFileServer t ms = Some i"
  shows "\<exists>a. nodes ms i = Some a \<and> isHealthy ms a t"
  using assms least_loaded_spec [where ms = ms and t = t and best = None and fss = "ms_fileservers ms"]
  by (auto simp: getLeastLoadedHealthyFileServer_def tables_ok_def mget_iff_in_set)

lemma restore_effect:
  "mget (restore_from old ks m) k = (if k \<in> set ks \<and> mget old k \<noteq> None then mget old k else mget m k)"
  "gomap_ok m \<Longrightarrow> gomap_ok (restore_from old ks m)"
  unfolding restore_from_def by (induction ks arbitrary: m) (auto split: option.splits)

lemma tables_ok_update:
  assumes "tables_ok ms"
  shows "gomap_ok m \<Longrightarrow> tables_ok (ms\<lparr>ms_shared := m\<rparr>)"
    and "gomap_ok f \<Longrightarrow> tables_ok (ms\<lparr>ms_fileservers := f\<rparr>)"
  using assms by (simp_all add: tables_ok_def)

lemma heartbeat_cases [consumes 1]:
  assumes "Heartbeat ops er t n a (ms, st) = (res, ms', st')"
  obtains "ms' = ms" "st' = st"
  | i info where "nodes ms i = Some info"
      "ms' = ms\<lparr>ms_fileservers := mput i (info\<lparr>LastHeartbeatUnix := t, Status := StatusHealthy\<rparr>) (ms_fileservers ms)\<rparr>"
      "st' = snd (st_RecordHeartbeat ops (er CallHeartbeat) (NodeID info) t StatusHealthy st)"
proof (cases "findFileServerByNodeID (resolveNodeID n a) ms")
  case None
  with assms show ?thesis by (intro that(1)) (auto simp: Heartbeat_def Let_def split: if_splits)
next
  case (Some i)
  show ?thesis
  proof (cases "nodes ms i")
    case None
    with Some assms show ?thesis by (intro that(1)) (auto simp: Heartbeat_def Let_def split: if_splits)
  next
    case info: (Some info)
    show ?thesis
    proof (cases "a = [] \<or> Address info \<noteq> a")
      case True
      with Some info assms show ?thesis by (intro that(1)) (auto simp: Heartbeat_def Let_def split: if_splits)
    next
      case False
      with Some info assms show ?thesis by (intro that(2) [OF info]) (auto simp: Heartbeat_def Let_def)
    qed
  qed
qed

lemma heartbeat_inv:
  assumes "ms_inv ms" "Heartbeat ops er t n a (ms, st) = (res, ms', st')"
  shows "ms_inv ms'"
  using assms(2)
proof (cases rule: heartbeat_cases)
  case (2 i info)
  have "mget (mput i b (ms_fileservers ms)) = (nodes ms)(i \<mapsto> b)" for b by (simp add: fun_eq_iff)
  with assms(1) 2 show ?thesis
    by (auto simp: ms_inv_def intro!: core_inv_touch [where a = info]) (simp add: tables_ok_def)
qed (simp add: assms)

lemma tick_inv:
  assumes "ms_inv ms" "monitor_tick ops er t (ms, st) = (ms', st')"
  shows "ms_inv ms'"
proof -
  have "nodes ms' = (\<lambda>i. map_option (\<lambda>info. if \<not> isHealthy ms info t \<and> Status info \<noteq> StatusStale
      then info\<lparr>Status := StatusStale\<rparr> else info) (nodes ms i))"
    "ms_users ms' = ms_users ms" "orphanedUsers ms' = orphanedUsers ms" "tables_ok ms'"
    using assms by (auto simp: monitor_tick_def markStaleFileServers_def Let_def ms_inv_def tables_ok_def fun_eq_iff)
  with assms(1) show ?thesis
    by (auto simp: ms_inv_def intro!: core_inv_map)
qed

text \<open>First contact with a user either changes nothing in the assignments or gives them a healthy node.\<close>

lemma getroots_outcome:
  assumes inv: "ms_inv ms" and run: "GetRoots ops er t u (ms, st) = (res, ms', st')"
  obtains (same) "ms' = ms" "st' = st" "assigned ms u \<noteq> None \<or> isl res"
  | (placed) i a where "getLeastLoadedHealthyFileServer t ms = Some i" "nodes ms i = Some a" "isHealthy ms a t"
      "assigned ms u = None" "orphans ms u = None"
      "ms' = ms\<lparr>ms_users := mput u i (ms_users ms),
         ms_fileservers := mput i (a\<lparr>UserCount := UserCount a + 1\<rparr>) (ms_fileservers ms),
         ms_shared := mput u [] (ms_shared ms)\<rparr>"
      "st_AssignUser ops (er CallAssignUser) u (NodeID a) st = (None, st')" "res = Inr (buildRoots ms' u)"
  | (undone) i a e where "nodes ms i = Some a" "assigned ms u = None"
      "assigned ms' = assigned ms" "orphans ms' = orphans ms" "nodes ms' = nodes ms" "tables_ok ms'"
      "st_AssignUser ops (er CallAssignUser) u (NodeID a) st = (Some e, st')" "res = Inl PersistFailed"
      "ms_shared ms' = mdel u (mput u [] (ms_shared ms))" "allowUserPurge ms' = allowUserPurge ms"
proof (cases "u = [] \<or> assigned ms u \<noteq> None \<or> orphans ms u \<noteq> None \<or> getLeastLoadedHealthyFileServer t ms = None")
  case True
  with run show ?thesis by (intro same) (auto simp: GetRoots_def split: if_splits option.splits)
next
  case False
  then obtain i where i: "getLeastLoadedHealthyFileServer t ms = Some i" "u \<noteq> []" "assigned ms u = None" "orphans ms u = None"
    by auto
  have tok: "tables_ok ms" and core: "core_inv (nodes ms) (assigned ms) (orphans ms)"
    using inv by (simp_all add: ms_inv_def)
  from placed_node [OF tok i(1)] obtain a where a: "nodes ms i = Some a" "isHealthy ms a t" by blast
  have cnt: "0 \<le> UserCount a" using core_invD(2) [OF core a(1)] by simp
  have twice: "mput i b (mput i c m) = mput i b m" for b c and m :: "(u64, fs_info) gomap"
    by (induction m) auto
  obtain r st1 where as: "st_AssignUser ops (er CallAssignUser) u (NodeID a) st = (r, st1)" by fastforce
  show ?thesis
  proof (cases r)
    case None
    with i a as run show ?thesis by (intro placed [OF i(1) a i(3,4)]) (auto simp: GetRoots_def Let_def)
  next
    case (Some e)
    let ?fs = "mput i a (ms_fileservers ms)"
    from Some i a as run cnt have res: "res = Inl PersistFailed" "st' = st1"
      "ms' = ms\<lparr>ms_users := mdel u (mput u i (ms_users ms)), ms_fileservers := ?fs,
         ms_shared := mdel u (mput u [] (ms_shared ms))\<rparr>"
      by (auto simp: GetRoots_def Let_def twice)
    have "tables_ok ms'" using tok by (simp add: res(3) tables_ok_def)
    with i a as Some res show ?thesis by (intro undone [OF a(1) i(3)]) (auto simp: fun_eq_iff)
  qed
qed

lemma getroots_inv:
  assumes inv: "ms_inv ms" and run: "GetRoots ops er t u (ms, st) = (res, ms', st')"
  shows "ms_inv ms'"
  using inv run
proof (cases rule: getroots_outcome)
  case (placed i a)
  show ?thesis
    using inv core_inv_assign [where F = "nodes ms" and m = "ms_users ms" and R = "orphans ms", OF _ placed(2,4,5)]
    by (simp add: placed(6) ms_inv_def tables_ok_def fun_upd_def)
next
  case undone
  with inv show ?thesis by (simp add: ms_inv_def)
qed (simp add: inv)

lemma share_inv:
  assumes "ms_inv ms"
  shows "RootShare ops er ow p nm w (ms, st) = (res, ms', st') \<Longrightarrow> ms_inv ms'"
    and "RootUnshare ops er ow p w (ms, st) = (res, ms', st') \<Longrightarrow> ms_inv ms'"
  using assms by (auto simp: RootShare_def RootUnshare_def Let_def ms_inv_def tables_ok_def
      split: if_splits option.splits prod.splits)

lemma released_set:
  "tables_ok ms \<Longrightarrow> u \<in> set (released_users n fsID ms) \<longleftrightarrow>
     (\<exists>i. fsID = Some i \<and> assigned ms u = Some i) \<or> (n \<noteq> [] \<and> orphans ms u = Some n)"
  by (auto simp: released_users_def tables_ok_def keys_filter split: option.splits)

lemma deregister_lookup_node:
  assumes inv: "ms_inv ms" and look: "deregister_lookup f a ms = (n, Some i)"
  shows "\<exists>info. nodes ms i = Some info \<and> NodeID info = n"
proof -
  have tok: "tables_ok ms" and core: "core_inv (nodes ms) (assigned ms) (orphans ms)"
    using inv by (simp_all add: ms_inv_def)
  show ?thesis
  proof (cases "f = []")
    case True
    with look obtain info where f: "find (\<lambda>(fsID, info). Address info = a) (ms_fileservers ms) = Some (i, info)"
      by (auto simp: deregister_lookup_def findFileServerByAddress_def split: option.splits if_splits)
    then have "nodes ms i = Some info" using tok by (auto dest!: find_SomeD simp: tables_ok_def mget_iff_in_set)
    with look True f show ?thesis by (auto simp: deregister_lookup_def findFileServerByAddress_def split: option.splits if_splits)
  next
    case False
    with look show ?thesis using findNode [OF tok core] by (auto simp: deregister_lookup_def)
  qed
qed

lemma deregister_outcome:
  assumes inv: "ms_inv ms" and run: "DeregisterFileServer ops er f a (ms, st) = (res, ms', st')"
    and look: "deregister_lookup f a ms = (n, fsID)"
  obtains (same) "ms' = ms" "st' = st" "res \<noteq> None \<or> (fsID = None \<and> released_users n fsID ms = [])"
  | (released) X where "X = set (released_users n fsID ms)" "res = None"
      "run_writes (deregister_writes ops er n (fsID \<noteq> None) (released_users n fsID ms)) st = (None, st')"
      "nodes ms' = (\<lambda>j. if fsID = Some j then None else nodes ms j)"
      "assigned ms' = (\<lambda>u. if u \<in> X then None else assigned ms u)"
      "orphans ms' = (\<lambda>u. if u \<in> X then None else orphans ms u)"
      "visible ms' = (\<lambda>g. if g \<in> X then [] else filter (\<lambda>s. se_Owner s \<notin> X) (visible ms g))"
      "tables_ok ms'"
  | (undone) e where "res = Some PersistFailed"
      "run_writes (deregister_writes ops er n (fsID \<noteq> None) (released_users n fsID ms)) st = (Some e, st')"
      "nodes ms' = nodes ms" "assigned ms' = assigned ms" "orphans ms' = orphans ms"
      "ms_shared ms' = ms_shared ms" "tables_ok ms'"
proof (cases "(f = [] \<and> a = []) \<or> (fsID = None \<and> released_users n fsID ms = [])")
  case True
  with run look show ?thesis by (intro same) (auto simp: DeregisterFileServer_def Let_def split: if_splits)
next
  case False
  define X where "X = released_users n fsID ms"
  define ms1 where "ms1 = fold release_user X ms"
  define ms2 where "ms2 = (case fsID of None \<Rightarrow> ms1 | Some i \<Rightarrow> ms1\<lparr>ms_fileservers := mdel i (ms_fileservers ms1)\<rparr>)"
  have tok: "tables_ok ms" using inv by (simp add: ms_inv_def)
  note eff = release_users_effect [where us = X and ms = ms, folded ms1_def]
  have tok2: "tables_ok ms2" using eff(5) [OF tok] by (auto simp: ms2_def tables_ok_def split: option.splits)
  have t2: "nodes ms2 = (\<lambda>j. if fsID = Some j then None else nodes ms j)"
    "assigned ms2 = (\<lambda>u. if u \<in> set X then None else assigned ms u)"
    "orphans ms2 = (\<lambda>u. if u \<in> set X then None else orphans ms u)"
    "visible ms2 = (\<lambda>g. if g \<in> set X then [] else filter (\<lambda>s. se_Owner s \<notin> set X) (visible ms g))"
    by (auto simp: ms2_def eff fun_eq_iff split: option.splits)
  obtain r st1 where w: "run_writes (deregister_writes ops er n (fsID \<noteq> None) X) st = (r, st1)" by fastforce
  show ?thesis
  proof (cases r)
    case None
    with False run look w have "ms' = ms2" "st' = st1" "res = None"
      by (auto simp: DeregisterFileServer_def Let_def ms2_def ms1_def X_def split: option.splits)
    with None w t2 tok2 show ?thesis by (intro released [of "set X"]) (simp_all add: X_def [symmetric])
  next
    case (Some e)
    with False run look w have res: "res = Some PersistFailed" "st' = st1"
      "ms' = ms2\<lparr>ms_fileservers := (case fsID of None \<Rightarrow> ms_fileservers ms2
                    | Some i \<Rightarrow> restore_from (ms_fileservers ms) [i] (ms_fileservers ms2)),
                  ms_users := restore_from (ms_users ms) X (ms_users ms2),
                  orphanedUsers := restore_from (orphanedUsers ms) X (orphanedUsers ms2),
                  ms_shared := ms_shared ms\<rparr>"
      by (auto simp: DeregisterFileServer_def Let_def ms2_def ms1_def X_def split: option.splits)
    have "tables_ok ms'" using tok tok2 by (auto simp: res(3) tables_ok_def restore_effect split: option.splits)
    moreover have "nodes ms' = nodes ms" "assigned ms' = assigned ms" "orphans ms' = orphans ms"
      using t2 by (auto simp: res(3) restore_effect fun_eq_iff split: option.splits)
    ultimately show ?thesis using Some w res by (intro undone) (simp_all add: X_def)
  qed
qed

lemma core_inv_no_orphans: "core_inv F U R \<Longrightarrow> core_inv F U (\<lambda>u. if u \<in> X then None else R u)"
  unfolding core_inv_def by (auto split: if_splits)

lemma deregister_inv:
  assumes inv: "ms_inv ms" and run: "DeregisterFileServer ops er f a (ms, st) = (res, ms', st')"
  shows "ms_inv ms'"
proof -
  obtain n fsID where look: "deregister_lookup f a ms = (n, fsID)" by fastforce
  have tok: "tables_ok ms" and core: "core_inv (nodes ms) (assigned ms) (orphans ms)"
    using inv by (simp_all add: ms_inv_def)
  from inv run look show ?thesis
  proof (cases rule: deregister_outcome)
    case (released X)
    note X = released_set [OF tok, of _ n fsID, folded released(1)]
    show ?thesis
    proof (cases fsID)
      case None
      have "assigned ms' u = assigned ms u" for u
        using X [of u] core_invD(4) [OF core, of u] by (cases "assigned ms u") (auto simp: released(5) None)
      then have "assigned ms' = assigned ms" ..
      with core_inv_no_orphans [OF core] released(8) show ?thesis
        by (simp add: ms_inv_def released(4,6) None)
    next
      case (Some i)
      have "core_inv ((nodes ms)(i := None)) (assigned ms') (orphans ms')"
        unfolding released(5,6) using core
        by (rule core_inv_release) (use X Some core_invD(4) [OF core] in \<open>auto simp del: not_None_eq\<close>)
      moreover have "nodes ms' = (nodes ms)(i := None)" by (auto simp: released(4) Some fun_eq_iff)
      ultimately show ?thesis using released(8) by (simp add: ms_inv_def fun_upd_def)
    qed
  qed (use inv in \<open>simp_all add: ms_inv_def\<close>)
qed

inductive ms_step :: "'st meta_ops \<Rightarrow> meta_server \<times> 'st \<Rightarrow> ms_op \<Rightarrow> meta_server \<times> 'st \<Rightarrow> bool" for ops where
  ms_stepI: "ms_step ops s op (ms_exec ops er op s)"

inductive_cases ms_stepE: "ms_step ops s op t"

lemma ms_exec_inv: "ms_inv (fst s) \<Longrightarrow> ms_inv (fst (ms_exec ops er op s))"
proof -
  assume inv: "ms_inv (fst s)"
  obtain ms st where s: "s = (ms, st)" by fastforce
  have cfg: "ms_inv (SetHeartbeatConfig x y ms)" "ms_inv (SetAllowUserPurge b ms)" for x y b
    using inv by (simp_all add: s SetHeartbeatConfig_def SetAllowUserPurge_def Let_def ms_inv_def tables_ok_def)
  show ?thesis
    using inv unfolding s
    by (cases op)
      (simp_all add: cfg, metis register_inv prod.collapse, metis heartbeat_inv prod.collapse,
       metis getroots_inv prod.collapse, metis share_inv(1) prod.collapse, metis share_inv(2) prod.collapse,
       metis deregister_inv prod.collapse, metis tick_inv prod.collapse)
qed

interpretation metaserver: op_system "ms_step ops" "\<lambda>s. ms_inv (fst s)" for ops
  by unfold_locales (erule ms_stepE, simp add: ms_exec_inv)

end
