(* ===== verification/Meta_Durability.thy ===== *)
theory Meta_Durability
  imports Meta_Server
begin

text \<open>
  Memory and store agree. \<open>ms_view\<close> reads a metaserver's tables as an abstract cluster, the one the
  interface of the store is specified by. Every handler that reports success takes an agreeing pair to an
  agreeing pair, for every implementation of the interface (proved once in the locale \<open>meta_store\<close>), and
  a metaserver started on a store agrees with it, so what was acknowledged survives a restart.
\<close>

definition ms_view :: "meta_server \<Rightarrow> cluster" where
  "ms_view ms = \<lparr>
     c_nodes = (\<lambda>n. findFileServerByNodeID n ms),
     c_homes = (\<lambda>u. case assigned ms u of Some i \<Rightarrow> map_option NodeID (nodes ms i) | None \<Rightarrow> orphans ms u),
     c_grants = grants ms\<rparr>"

section \<open>Handlers on the abstract cluster\<close>

lemma option_ext: "(\<And>x. a = Some x \<longleftrightarrow> b = Some x) \<Longrightarrow> a = b"
  by (cases a; cases b) auto

lemma view_node: "ms_inv ms \<Longrightarrow> c_nodes (ms_view ms) n = Some i \<longleftrightarrow> (\<exists>a. nodes ms i = Some a \<and> NodeID a = n)"
  by (simp add: ms_view_def findNode ms_inv_def)


lemma fold_assign:
  "fold (\<lambda>u f. f(ur_Username u \<mapsto> ur_HomeNodeID u)) (map (\<lambda>u. \<lparr>ur_Username = u, ur_HomeNodeID = n\<rparr>) us) f
   = (\<lambda>u. if u \<in> set us then Some n else f u)"
  by (induction us arbitrary: f) (auto simp: fun_eq_iff)

definition adopted_view :: "string option \<Rightarrow> string \<Rightarrow> cluster \<Rightarrow> cluster" where
  "adopted_view adopt n c = (case adopt of None \<Rightarrow> c | Some l \<Rightarrow> spec_rename l n c)"

definition registered_view :: "u64 \<Rightarrow> string option \<Rightarrow> string \<Rightarrow> string list \<Rightarrow> register_request \<Rightarrow> cluster \<Rightarrow> cluster" where
  "registered_view i adopt n miss req c =
     spec_add_shares (granted_shares req)
       (spec_remove_by_owner (remdups (rr_Users req))
         (spec_assign (map (\<lambda>u. \<lparr>ur_Username = u, ur_HomeNodeID = n\<rparr>) (remdups (rr_Users req)))
           (spec_remove_involving miss (spec_remove_users miss
             (spec_upsert n i (adopted_view adopt n c))))))"

text \<open>The node the registration is for, before it: absent, of that identity, or the adopted legacy entry.\<close>

definition register_target :: "u64 \<Rightarrow> string option \<Rightarrow> string \<Rightarrow> meta_server \<Rightarrow> bool" where
  "register_target i adopt n ms \<longleftrightarrow>
     (case adopt of
        None \<Rightarrow> (\<forall>a. nodes ms i = Some a \<longrightarrow> NodeID a = n)
      | Some l \<Rightarrow> l \<noteq> n \<and> (\<exists>a. nodes ms i = Some a \<and> NodeID a = l) \<and> (\<forall>j a. nodes ms j = Some a \<longrightarrow> NodeID a \<noteq> n))
     \<and> (\<forall>j a. nodes ms j = Some a \<and> NodeID a = n \<longrightarrow> j = i)"

lemma register_commit_nodes:
  assumes inv: "ms_inv ms" and inv': "ms_inv (register_commit t i n req ms)" and tgt: "register_target i adopt n ms"
  shows "c_nodes (ms_view (register_commit t i n req ms)) = c_nodes (spec_upsert n i (adopted_view adopt n (ms_view ms)))"
proof (rule ext, rule option_ext)
  fix m j
  have tok: "tables_ok ms" using inv by (simp add: ms_inv_def)
  have core: "core_inv (nodes ms) (assigned ms) (orphans ms)" using inv by (simp add: ms_inv_def)
  note inj = core_invD(5) [OF core]
  have L: "c_nodes (ms_view (register_commit t i n req ms)) m = Some j
    \<longleftrightarrow> (j = i \<and> m = n) \<or> (j \<noteq> i \<and> (\<exists>a. nodes ms j = Some a \<and> NodeID a = m))"
    by (auto simp: view_node [OF inv'] register_commit_effect [OF tok] committed_info_def split: if_splits)
  show "c_nodes (ms_view (register_commit t i n req ms)) m = Some j
    \<longleftrightarrow> c_nodes (spec_upsert n i (adopted_view adopt n (ms_view ms))) m = Some j"
  proof (cases adopt)
    case None
    with tgt have only: "nodes ms j = Some a \<Longrightarrow> NodeID a = n \<longleftrightarrow> j = i" for a
      by (auto simp: register_target_def)
    have R: "c_nodes (spec_upsert n i (adopted_view adopt n (ms_view ms))) m = Some j
      \<longleftrightarrow> (if m = n then i = j else \<exists>a. nodes ms j = Some a \<and> NodeID a = m)"
      by (simp add: spec_upsert_def adopted_view_def None view_node [OF inv])
    show ?thesis unfolding L R using only by auto
  next
    case (Some l)
    from tgt Some obtain a0 where a0: "nodes ms i = Some a0" "NodeID a0 = l" "l \<noteq> n"
      and no: "\<And>j a. nodes ms j = Some a \<Longrightarrow> NodeID a \<noteq> n" by (auto simp: register_target_def)
    have only: "nodes ms j = Some a \<Longrightarrow> NodeID a = l \<longleftrightarrow> j = i" for a using inj a0 by fastforce
    have "c_nodes (ms_view ms) l = Some i" using a0 by (simp add: view_node [OF inv])
    moreover have "c_nodes (ms_view ms) n = None" using no view_node [OF inv, of n] by (metis not_None_eq)
    ultimately have R: "c_nodes (spec_upsert n i (adopted_view adopt n (ms_view ms))) m = Some j
      \<longleftrightarrow> (if m = n then i = j else m \<noteq> l \<and> (\<exists>a. nodes ms j = Some a \<and> NodeID a = m))"
      using a0(3) by (simp add: spec_upsert_def adopted_view_def spec_rename_def Some view_node [OF inv])
    show ?thesis unfolding L R using only no by auto
  qed
qed

lemma register_commit_homes:
  assumes inv: "ms_inv ms" and inv': "ms_inv (register_commit t i n req ms)" and tgt: "register_target i adopt n ms"
    and free: "registrationConflict ms n (Some i) (rr_Users req) = None"
  shows "c_homes (ms_view (register_commit t i n req ms)) u
    = (if u \<in> set (rr_Users req) then Some n
       else if u \<in> set (missing_users i req ms) then None
       else c_homes (adopted_view adopt n (ms_view ms)) u)"
proof -
  have tok: "tables_ok ms" and core: "core_inv (nodes ms) (assigned ms) (orphans ms)"
    using inv by (simp_all add: ms_inv_def)
  note D = core_invD [OF core]
  note eff = register_commit_effect [OF tok]
  have L: "c_homes (ms_view (register_commit t i n req ms)) u =
    (case committed_users i n req ms u of
       Some j \<Rightarrow> map_option NodeID (((nodes ms)(i \<mapsto> committed_info t n req (committed_users i n req ms) i)) j)
     | None \<Rightarrow> if orphans ms u = Some n then None else orphans ms u)"
    by (simp add: ms_view_def eff split: option.split)
  have homes: "c_homes (adopted_view adopt n (ms_view ms)) u =
    (case adopt of None \<Rightarrow> c_homes (ms_view ms) u
      | Some l \<Rightarrow> map_option (\<lambda>h. if h = l then n else h) (c_homes (ms_view ms) u))"
    using tgt by (auto simp: adopted_view_def spec_rename_def register_target_def split: option.splits)
  have H: "c_homes (ms_view ms) u = (case assigned ms u of Some i \<Rightarrow> map_option NodeID (nodes ms i) | None \<Rightarrow> orphans ms u)"
    by (simp add: ms_view_def)
  consider (member) "u \<in> set (rr_Users req)" | (missing) "u \<notin> set (rr_Users req)" "u \<in> set (missing_users i req ms)"
    | (orphan) h where "u \<notin> set (rr_Users req)" "orphans ms u = Some h"
    | (kept) j where "u \<notin> set (rr_Users req)" "u \<notin> set (missing_users i req ms)" "assigned ms u = Some j"
    | (unknown) "u \<notin> set (rr_Users req)" "assigned ms u = None" "orphans ms u = None"
    by (cases "assigned ms u"; cases "orphans ms u") auto
  then show ?thesis
  proof cases
    case member
    then show ?thesis by (simp add: L committed_users_def committed_info_def)
  next
    case missing
    then have "assigned ms u = Some i" "allowUserPurge ms" using missing_set [OF tok] by auto
    with missing D(4) show ?thesis by (simp add: L committed_users_def)
  next
    case (orphan h)
    then have none: "assigned ms u = None" using D(4) by (cases "assigned ms u") auto
    moreover have "u \<notin> set (missing_users i req ms)" using none missing_set [OF tok] by auto
    moreover have "h \<noteq> l" if "adopt = Some l" for l
      using that tgt orphan(2) D(6) by (auto simp: register_target_def)
    ultimately show ?thesis
      using orphan by (auto simp: L committed_users_def committed_info_def homes H split: option.splits)
  next
    case (kept j)
    then have orph: "orphans ms u = None" using D(4) by simp
    have "\<not> (allowUserPurge ms \<and> j = i)" using kept missing_set [OF tok] by auto
    with kept orph have C: "committed_users i n req ms u = Some j" by (auto simp: committed_users_def)
    obtain b where b: "nodes ms j = Some b" using D(1) kept(3) by blast
    have "c_homes (adopted_view adopt n (ms_view ms)) u = Some (if j = i then n else NodeID b)"
    proof (cases adopt)
      case None
      with tgt b kept(3) show ?thesis unfolding homes H by (auto simp: register_target_def)
    next
      case (Some l)
      from tgt Some obtain a0 where a0: "nodes ms i = Some a0" "NodeID a0 = l" by (auto simp: register_target_def)
      have "NodeID b = l \<longleftrightarrow> j = i" using a0 b D(5) [OF a0(1) b] by auto
      with b kept(3) Some show ?thesis unfolding homes H by simp
    qed
    with kept(1,2) b C show ?thesis by (simp add: L committed_info_def)
  next
    case unknown
    then have "u \<notin> set (missing_users i req ms)" using missing_set [OF tok] by auto
    with unknown show ?thesis
      by (auto simp: L committed_users_def homes H split: option.splits)
  qed
qed

lemma register_commit_view:
  assumes inv: "ms_inv ms" and inv': "ms_inv (register_commit t i n req ms)" and tgt: "register_target i adopt n ms"
    and free: "registrationConflict ms n (Some i) (rr_Users req) = None"
  shows "ms_view (register_commit t i n req ms) = registered_view i adopt n (missing_users i req ms) req (ms_view ms)"
proof -
  have tok: "tables_ok ms" using inv by (simp add: ms_inv_def)
  have gr: "c_grants (adopted_view adopt n c) = c_grants c" for c
    by (simp add: adopted_view_def spec_rename_def split: option.splits)
  have "c_nodes (ms_view (register_commit t i n req ms)) = c_nodes (registered_view i adopt n (missing_users i req ms) req (ms_view ms))"
    using register_commit_nodes [OF inv inv' tgt]
    by (simp add: registered_view_def spec_add_shares_def spec_remove_by_owner_def spec_assign_def
        spec_remove_involving_def spec_remove_users_def)
  moreover have "c_homes (ms_view (register_commit t i n req ms)) = c_homes (registered_view i adopt n (missing_users i req ms) req (ms_view ms))"
    by (rule ext) (simp add: register_commit_homes [OF inv inv' tgt free] registered_view_def spec_add_shares_def
        spec_remove_by_owner_def spec_assign_def fold_assign spec_remove_involving_def spec_remove_users_def spec_upsert_def)
  moreover have "c_grants (ms_view (register_commit t i n req ms)) = c_grants (registered_view i adopt n (missing_users i req ms) req (ms_view ms))"
    by (auto simp: ms_view_def register_commit_effect [OF tok] registered_view_def spec_add_shares_def
        spec_remove_by_owner_def spec_assign_def spec_remove_involving_def spec_remove_users_def spec_upsert_def gr)
  ultimately show ?thesis by simp
qed

text \<open>A registration that reports success changed memory as follows and made these store writes.\<close>

lemma register_success:
  assumes inv: "ms_inv ms" and run: "RegisterFileServer ops er t1 t2 t3 req (ms, st) = (None, ms', st')"
    and n: "n = resolveNodeID (rr_FsId req) (rr_Address req)"
  obtains (known) i adopt where
      "ms_view ms' = registered_view i adopt n (missing_users i req ms) req (ms_view ms)"
      "run_writes (register_writes ops er t3 adopt n (missing_users i req ms) req) st = (None, st')"
      "\<And>l. adopt = Some l \<Longrightarrow> c_nodes (ms_view ms) l \<noteq> None"
      "c_nodes (adopted_view adopt n (ms_view ms)) n = Some i"
  | (new) i st1 where
      "ms_view ms' = registered_view i None n (missing_users i req ms) req (ms_view ms)"
      "st_UpsertFileServer ops (er CallAlloc) (node_record n (rr_Address req) t2) st = (Inr i, st1)"
      "run_writes (register_writes ops er t3 None n (missing_users i req ms) req) st1 = (None, st')"
proof -
  have inv': "ms_inv ms'" by (rule register_inv [OF inv run])
  obtain found adopt where look: "register_lookup req ms = (found, adopt)" by fastforce
  from inv run n look show thesis
  proof (cases rule: register_outcome)
    case (committed_known i)
    note fin = committed_known(3)
    have ms': "ms' = register_commit t3 i n req ms" using register_finish_ms [OF fin] by (simp add: n)
    have run': "run_writes (register_writes ops er t3 adopt n (missing_users i req ms) req) st = (None, st')"
      using fin by (auto simp: register_finish_def Let_def n split: prod.splits if_splits)
    have only: "j = i" if "nodes ms j = Some a" "NodeID a = n" for j a
      using register_only [OF inv _ n that] look committed_known(1) by simp
    have tgt: "register_target i adopt n ms \<and> (\<forall>l. adopt = Some l \<longrightarrow> c_nodes (ms_view ms) l \<noteq> None)
      \<and> c_nodes (adopted_view adopt n (ms_view ms)) n = Some i"
      using inv look n
    proof (cases rule: register_lookup_cases)
      case (known j info)
      with only committed_known(1) view_node [OF inv, of n i] show ?thesis
        by (auto simp: register_target_def adopted_view_def)
    next
      case (adopted j info l)
      have no: "NodeID a \<noteq> n" if "nodes ms k = Some a" for k a
        using adopted(5) findNode_None [OF inv] that by blast
      then have "c_nodes (ms_view ms) n = None" using view_node [OF inv, of n] by (metis not_None_eq)
      moreover have "c_nodes (ms_view ms) l = Some i" using adopted committed_known(1) view_node [OF inv, of l i] by auto
      ultimately show ?thesis using adopted committed_known(1) no [of j info] no
        by (auto simp: register_target_def adopted_view_def spec_rename_def)
    qed (simp add: committed_known(1))
    have "registrationConflict ms n (Some i) (rr_Users req) = None"
      using refusal_none(2) [OF committed_known(2) look] committed_known(1) by (simp add: n)
    with tgt inv inv' register_commit_view [OF inv _ _, of t3 i n req adopt] run' show thesis
      by (intro known [of i adopt]) (simp_all add: ms')
  next
    case (committed_new i st1)
    note fin = committed_new(5)
    have ms': "ms' = register_commit t3 i n req ms"
      using register_finish_ms [OF fin] commit_provisional [OF committed_new(3)] by (simp add: n)
    have ad: "adopt = None" and none: "findFileServerByNodeID n ms = None"
      using inv look n by (cases rule: register_lookup_cases, simp_all add: committed_new(1))+
    have miss: "missing_users i req (ms\<lparr>ms_fileservers := f\<rparr>) = missing_users i req ms" for f
      by (simp add: missing_users_def)
    have run': "run_writes (register_writes ops er t3 adopt n (missing_users i req ms) req) st1 = (None, st')"
      using fin by (auto simp: register_finish_def Let_def n miss split: prod.splits if_splits)
    have "NodeID a \<noteq> n" if "nodes ms k = Some a" for k a
      using none findNode_None [OF inv] that by blast
    then have tgt: "register_target i None n ms" using committed_new(3) by (auto simp: register_target_def)
    have "assigned ms u \<noteq> Some i" for u
      using inv core_invD(1) [of "nodes ms" "assigned ms" "orphans ms" u i] committed_new(3) by (auto simp: ms_inv_def)
    then have free: "registrationConflict ms n (Some i) (rr_Users req) = None"
      using refusal_none(2) [OF committed_new(2) look] committed_new(1)
      by (intro conflict_same_tables [where ms = ms]) (simp_all add: n)
    have "ms_view ms' = registered_view i None n (missing_users i req ms) req (ms_view ms)"
      using register_commit_view [OF inv _ tgt free, of t3] inv' by (simp add: ms')
    with committed_new(4) run' show thesis by (intro new) (simp_all add: ad)
  qed simp_all
qed

section \<open>Agreement, for every implementation of the store\<close>

lemma run_writes_append:
  "run_writes (ws @ vs) st = (None, st') \<Longrightarrow> \<exists>st1. run_writes ws st = (None, st1) \<and> run_writes vs st1 = (None, st')"
  by (induction ws arbitrary: st) (auto split: prod.splits option.splits)

lemma run_writes_Cons:
  "run_writes (w # ws) st = (None, st') \<Longrightarrow> \<exists>st1. w st = (None, st1) \<and> run_writes ws st1 = (None, st')"
  by (auto split: prod.splits option.splits)

definition agrees :: "('st \<Rightarrow> bool) \<Rightarrow> ('st \<Rightarrow> cluster) \<Rightarrow> meta_server \<Rightarrow> 'st \<Rightarrow> bool" where
  "agrees ok view ms st \<longleftrightarrow> ms_inv ms \<and> ok st \<and> ms_view ms = view st"

context meta_store
begin

lemma purge_writes:
  assumes ok0: "ok st"
    and run: "run_writes (if miss = [] then [] else [st_RemoveUsers ops e miss, st_RemoveSharesInvolving ops e' miss]) st = (None, st')"
  shows "ok st' \<and> view st' = spec_remove_involving miss (spec_remove_users miss (view st))"
proof (cases "miss = []")
  case True
  with assms show ?thesis by (simp add: spec_remove_involving_def spec_remove_users_def)
next
  case False
  with run obtain st1 where "st_RemoveUsers ops e miss st = (None, st1)" "st_RemoveSharesInvolving ops e' miss st1 = (None, st')"
    by (auto split: prod.splits option.splits)
  with remove_users [OF ok0] remove_involving show ?thesis by metis
qed

lemma node_writes:
  assumes ok0: "ok st" and tgt: "c_nodes (adopted_view adopt n (view st)) n = Some i"
    and legacy: "\<And>l. adopt = Some l \<Longrightarrow> c_nodes (view st) l \<noteq> None"
    and run: "run_writes [write_rename ops er adopt n, write_upsert ops er (node_record n a t)] st = (None, st')"
  shows "ok st' \<and> view st' = spec_upsert n i (adopted_view adopt n (view st))"
proof -
  from run obtain st1 where ren: "write_rename ops er adopt n st = (None, st1)"
    and up: "write_upsert ops er (node_record n a t) st1 = (None, st')"
    by (auto split: prod.splits option.splits)
  have st1: "ok st1 \<and> view st1 = adopted_view adopt n (view st)"
  proof (cases adopt)
    case None
    with ren ok0 show ?thesis by (simp add: write_rename_def adopted_view_def)
  next
    case (Some l)
    obtain r st2 where r: "st_RenameFileServer ops (er CallRename) l n st = (r, st2)" by fastforce
    have "r = None" "st2 = st1"
      using ren Some r rename_absent [OF ok0, of "er CallRename" l n st2] legacy [OF Some]
      by (auto simp: write_rename_def split: option.splits storage_error.splits)
    with r rename_node [OF ok0, of "er CallRename" l n st1] show ?thesis
      by (simp add: Some adopted_view_def)
  qed
  from up obtain j where j: "st_UpsertFileServer ops (er CallUpsert) (node_record n a t) st1 = (Inr j, st')"
    by (auto simp: write_upsert_def split: prod.splits sum.splits)
  have id: "rec_NodeID (node_record n a t) = n" by (simp add: node_record_def)
  from upsert_known [OF conjunct1 [OF st1] j] tgt st1 id have "j = i" by simp
  with upsert [OF conjunct1 [OF st1] _ j] tgt st1 id show ?thesis by simp
qed

lemma register_writes_view:
  assumes ok0: "ok st" and tgt: "c_nodes (adopted_view adopt n (view st)) n = Some i"
    and legacy: "\<And>l. adopt = Some l \<Longrightarrow> c_nodes (view st) l \<noteq> None"
    and run: "run_writes (register_writes ops er t adopt n miss req) st = (None, st')"
  shows "ok st' \<and> view st' = registered_view i adopt n miss req (view st)"
proof -
  from run [unfolded register_writes_def, THEN run_writes_append] obtain st1 where
    w1: "run_writes [write_rename ops er adopt n, write_upsert ops er (node_record n (rr_Address req) t)] st = (None, st1)"
    and w2: "run_writes ((if miss = [] then [] else [st_RemoveUsers ops (er CallRemoveUsers) miss,
        st_RemoveSharesInvolving ops (er CallRemoveInvolving) miss]) @
       [st_AssignUsers ops (er CallAssignUsers)
          (map (\<lambda>u. \<lparr>ur_Username = u, ur_HomeNodeID = n\<rparr>) (remdups (rr_Users req))),
        st_RemoveSharesByOwner ops (er CallRemoveByOwner) (remdups (rr_Users req)),
        st_AddShares ops (er CallAddShares) (granted_shares req)]) st1 = (None, st')"
    by blast
  from w2 [THEN run_writes_append] obtain st2 where
    w3: "run_writes (if miss = [] then [] else [st_RemoveUsers ops (er CallRemoveUsers) miss,
        st_RemoveSharesInvolving ops (er CallRemoveInvolving) miss]) st1 = (None, st2)"
    and w4: "run_writes [st_AssignUsers ops (er CallAssignUsers)
          (map (\<lambda>u. \<lparr>ur_Username = u, ur_HomeNodeID = n\<rparr>) (remdups (rr_Users req))),
        st_RemoveSharesByOwner ops (er CallRemoveByOwner) (remdups (rr_Users req)),
        st_AddShares ops (er CallAddShares) (granted_shares req)] st2 = (None, st')"
    by blast
  from w4 obtain st3 st4 where
    a: "st_AssignUsers ops (er CallAssignUsers) (map (\<lambda>u. \<lparr>ur_Username = u, ur_HomeNodeID = n\<rparr>) (remdups (rr_Users req))) st2 = (None, st3)"
    and b: "st_RemoveSharesByOwner ops (er CallRemoveByOwner) (remdups (rr_Users req)) st3 = (None, st4)"
    and c: "st_AddShares ops (er CallAddShares) (granted_shares req) st4 = (None, st')"
    by (auto dest!: run_writes_Cons simp del: run_writes.simps(2))
  note s1 = node_writes [OF ok0 tgt legacy w1]
  note s2 = purge_writes [OF conjunct1 [OF s1] w3]
  note s3 = assign_many [OF conjunct1 [OF s2] a]
  note s4 = remove_by_owner [OF conjunct1 [OF s3] b]
  note s5 = add_many [OF conjunct1 [OF s4] c]
  from s1 s2 s3 s4 s5 show ?thesis by (simp add: registered_view_def)
qed

lemma register_agrees:
  assumes ag: "agrees ok view ms st" and room: "room st"
    and run: "RegisterFileServer ops er t1 t2 t3 req (ms, st) = (None, ms', st')"
  shows "agrees ok view ms' st'"
proof -
  have inv: "ms_inv ms" and ok0: "ok st" and vw: "ms_view ms = view st" using ag by (simp_all add: agrees_def)
  have inv': "ms_inv ms'" by (rule register_inv [OF inv run])
  define n where n: "n = resolveNodeID (rr_FsId req) (rr_Address req)"
  from inv run n show ?thesis
  proof (cases rule: register_success)
    case (known i adopt)
    have "ok st' \<and> view st' = registered_view i adopt n (missing_users i req ms) req (view st)"
      using ok0 known(3,4) by (intro register_writes_view [OF _ _ _ known(2)]) (simp_all add: vw)
    with known(1) inv' vw show ?thesis by (simp add: agrees_def)
  next
    case (new i st1)
    have id: "rec_NodeID (node_record n (rr_Address req) t2) = n" by (simp add: node_record_def)
    from upsert [OF ok0 disjI1 [OF room] new(2)] id
    have st1: "ok st1" "view st1 = spec_upsert n i (view st)" by simp_all
    have "ok st' \<and> view st' = registered_view i None n (missing_users i req ms) req (view st1)"
      using register_writes_view [OF st1(1) _ _ new(3), of i] st1(2) by (simp add: adopted_view_def spec_upsert_def)
    moreover have "registered_view i None n miss req (spec_upsert n i c) = registered_view i None n miss req c" for miss c
      by (simp add: registered_view_def adopted_view_def spec_upsert_def)
    ultimately show ?thesis using new(1) inv' st1(2) vw by (simp add: agrees_def)
  qed
qed

lemma ms_view_cong:
  assumes "nodes ms' = nodes ms" "assigned ms' = assigned ms" "orphans ms' = orphans ms" "ms_inv ms" "ms_inv ms'"
  shows "c_nodes (ms_view ms') = c_nodes (ms_view ms)" "c_homes (ms_view ms') = c_homes (ms_view ms)"
proof -
  show "c_nodes (ms_view ms') = c_nodes (ms_view ms)"
    by (rule ext, rule option_ext) (simp add: view_node assms)
  show "c_homes (ms_view ms') = c_homes (ms_view ms)"
    using assms by (simp add: ms_view_def fun_eq_iff split: option.split)
qed

lemma share_agrees:
  assumes ag: "agrees ok view ms st" and run: "RootShare ops er ow p nm w (ms, st) = (None, ms', st')"
  shows "agrees ok view ms' st'"
proof -
  have inv: "ms_inv ms" and ok0: "ok st" and vw: "ms_view ms = view st" using ag by (simp_all add: agrees_def)
  have inv': "ms_inv ms'" by (rule share_inv(1) [OF inv run])
  show ?thesis
  proof (cases "containsShare (visible ms w) ow (NormalizeSharePath p)")
    case True
    with run ag show ?thesis by (auto simp: RootShare_def Let_def split: if_splits)
  next
    case False
    let ?sh = "\<lparr>sr_Grantee = w, sr_Owner = ow, sr_Path = NormalizeSharePath p, sr_DisplayName = nm\<rparr>"
    from run False have ms': "ms' = ms\<lparr>ms_shared := mput w (visible ms w @
        [\<lparr>se_Owner = ow, se_Path = NormalizeSharePath p, se_DisplayName = nm\<rparr>]) (ms_shared ms)\<rparr>"
      and st': "st_AddShare ops (er CallAddShare) ?sh st = (None, st')"
      by (auto simp: RootShare_def Let_def split: if_splits prod.splits option.splits)
    have "grants ms' = insert (w, ow, NormalizeSharePath p) (grants ms)"
      by (auto simp: ms' grants_def containsShare_def split: if_splits)
    moreover have "c_nodes (ms_view ms') = c_nodes (ms_view ms)" "c_homes (ms_view ms') = c_homes (ms_view ms)"
      using inv inv' by (intro ms_view_cong; simp add: ms')+
    ultimately have "ms_view ms' = spec_add_shares [?sh] (ms_view ms)"
      by (simp add: spec_add_shares_def key_of_def ms_view_def)
    with add_one [OF ok0 st'] inv' vw show ?thesis by (simp add: agrees_def)
  qed
qed

lemma unshare_agrees:
  assumes ag: "agrees ok view ms st" and run: "RootUnshare ops er ow p w (ms, st) = (None, ms', st')"
  shows "agrees ok view ms' st'"
proof -
  have inv: "ms_inv ms" and ok0: "ok st" and vw: "ms_view ms = view st" using ag by (simp_all add: agrees_def)
  have inv': "ms_inv ms'" by (rule share_inv(2) [OF inv run])
  from run have ms': "ms' = ms\<lparr>ms_shared := mput w (removeShareEntry (visible ms w) ow (NormalizeSharePath p)) (ms_shared ms)\<rparr>"
    and st': "st_RemoveShare ops (er CallRemoveShare) w ow (NormalizeSharePath p) st = (None, st')"
    by (auto simp: RootUnshare_def Let_def split: if_splits prod.splits option.splits)
  have "grants ms' = grants ms - {(w, ow, NormalizeSharePath p)}"
    by (auto simp: ms' grants_def containsShare_def removeShareEntry_def list_ex_iff split: if_splits)
  moreover have "c_nodes (ms_view ms') = c_nodes (ms_view ms)" "c_homes (ms_view ms') = c_homes (ms_view ms)"
    using inv inv' by (intro ms_view_cong; simp add: ms')+
  ultimately have "ms_view ms' = spec_remove_share w ow (NormalizeSharePath p) (ms_view ms)"
    by (simp add: spec_remove_share_def ms_view_def)
  with remove_share [OF ok0 st'] inv' vw show ?thesis by (simp add: agrees_def)
qed

text \<open>The first contact of a user empties what was visible to them, so memory and store only agree
  afterwards when nothing had been granted to them before.\<close>

lemma getroots_agrees:
  assumes ag: "agrees ok view ms st" and none: "assigned ms u = None \<longrightarrow> visible ms u = []"
    and run: "GetRoots ops er t u (ms, st) = (Inr roots, ms', st')"
  shows "agrees ok view ms' st'"
proof -
  have inv: "ms_inv ms" and ok0: "ok st" and vw: "ms_view ms = view st" using ag by (simp_all add: agrees_def)
  have inv': "ms_inv ms'" by (rule getroots_inv [OF inv run])
  from inv run show ?thesis
  proof (cases rule: getroots_outcome)
    case same
    with ag show ?thesis by simp
  next
    case (placed i a)
    have vis: "visible ms' = visible ms" using none placed(4) by (auto simp: placed(6) fun_eq_iff)
    have nodes': "nodes ms' = (nodes ms)(i \<mapsto> a\<lparr>UserCount := UserCount a + 1\<rparr>)"
      by (simp add: placed(6) fun_eq_iff)
    have "c_nodes (ms_view ms') = c_nodes (ms_view ms)"
      by (rule ext, rule option_ext) (auto simp: view_node inv inv' nodes' placed(2) split: if_splits)
    moreover have "c_homes (ms_view ms') v = ((c_homes (ms_view ms))(u \<mapsto> NodeID a)) v" for v
      by (auto simp: ms_view_def nodes' placed(2,6) split: option.splits)
    moreover have "grants ms' = grants ms" by (simp add: grants_def vis)
    ultimately have "ms_view ms' = spec_assign [\<lparr>ur_Username = u, ur_HomeNodeID = NodeID a\<rparr>] (ms_view ms)"
      by (simp add: spec_assign_def ms_view_def fun_eq_iff)
    with assign_one [OF ok0 placed(7)] inv' vw show ?thesis by (simp add: agrees_def)
  next
    case undone
    then show ?thesis by simp
  qed
qed

lemma deregister_writes_view:
  assumes ok0: "ok st" and run: "run_writes (deregister_writes ops er n known X) st = (None, st')"
  shows "ok st' \<and> view st' = (let c = spec_remove_involving X (spec_remove_users X (view st))
    in if known then spec_remove_node n c else c)"
proof -
  from run [unfolded deregister_writes_def, THEN run_writes_append] obtain st1 where
    w1: "run_writes (if X = [] then [] else [st_RemoveUsers ops (er CallRemoveUsers) X,
      st_RemoveSharesInvolving ops (er CallRemoveInvolving) X]) st = (None, st1)"
    and w2: "run_writes (if known then [st_RemoveFileServer ops (er CallRemoveNode) n] else []) st1 = (None, st')"
    by blast
  note s1 = purge_writes [OF ok0 w1]
  show ?thesis
  proof (cases known)
    case True
    with w2 have "st_RemoveFileServer ops (er CallRemoveNode) n st1 = (None, st')"
      by (auto split: prod.splits option.splits)
    from remove_node [OF conjunct1 [OF s1] this] s1 True show ?thesis by (simp add: Let_def)
  next
    case False
    with w2 s1 show ?thesis by (simp add: Let_def)
  qed
qed

lemma deregister_agrees:
  assumes ag: "agrees ok view ms st" and run: "DeregisterFileServer ops er f a (ms, st) = (None, ms', st')"
  shows "agrees ok view ms' st'"
proof -
  have inv: "ms_inv ms" and ok0: "ok st" and vw: "ms_view ms = view st" using ag by (simp_all add: agrees_def)
  have inv': "ms_inv ms'" by (rule deregister_inv [OF inv run])
  have core: "core_inv (nodes ms) (assigned ms) (orphans ms)" and tok: "tables_ok ms" using inv by (simp_all add: ms_inv_def)
  obtain n fsID where look: "deregister_lookup f a ms = (n, fsID)" by fastforce
  from inv run look show ?thesis
  proof (cases rule: deregister_outcome)
    case same
    with ag show ?thesis by simp
  next
    case (released X)
    define us where "us = released_users n fsID ms"
    have X: "X = set us" by (simp add: released(1) us_def)
    note mem = released_set [OF tok, of _ n fsID, folded us_def X]
    have gone: "NodeID b = n \<longleftrightarrow> j = i" if "fsID = Some i" "nodes ms j = Some b" for i j b
    proof -
      from deregister_lookup_node [OF inv look [unfolded that(1)]]
      obtain info where info: "nodes ms i = Some info" "NodeID info = n" by blast
      show ?thesis using core_invD(5) [OF core that(2) info(1)] info that(2) by auto
    qed
    have nodes': "c_nodes (ms_view ms') = c_nodes (if fsID \<noteq> None then spec_remove_node n (ms_view ms) else ms_view ms)"
    proof (rule ext, rule option_ext)
      fix m j
      show "c_nodes (ms_view ms') m = Some j \<longleftrightarrow>
        c_nodes (if fsID \<noteq> None then spec_remove_node n (ms_view ms) else ms_view ms) m = Some j"
        using gone by (auto simp: view_node inv inv' released(4) spec_remove_node_def)
    qed
    have homes': "c_homes (ms_view ms') u = (if u \<in> X then None else c_homes (ms_view ms) u)" for u
    proof -
      have "fsID \<noteq> Some j" if "u \<notin> X" "assigned ms u = Some j" for j using that mem [of u] by auto
      then show ?thesis by (auto simp: ms_view_def released(4-6) split: option.splits)
    qed
    have "grants ms' = {(g, ow, p) \<in> grants ms. g \<notin> X \<and> ow \<notin> X}"
      by (auto simp: grants_def released(7) containsShare_def list_ex_iff split: if_splits)
    with nodes' homes' have "ms_view ms' = (let c = spec_remove_involving us (spec_remove_users us (ms_view ms))
        in if fsID \<noteq> None then spec_remove_node n c else c)"
      by (intro cluster.equality) (auto simp: Let_def spec_remove_node_def spec_remove_involving_def spec_remove_users_def
          X [symmetric] ms_view_def fun_eq_iff)
    with deregister_writes_view [OF ok0 released(3)] inv' vw show ?thesis
      by (simp add: agrees_def us_def)
  next
    case undone
    then show ?thesis by simp
  qed
qed

lemma liveness_agrees:
  assumes ag: "agrees ok view ms st"
  shows "Heartbeat ops er t n a (ms, st) = (res, ms', st') \<Longrightarrow> agrees ok view ms' st'"
    and "monitor_tick ops er t (ms, st) = (ms', st') \<Longrightarrow> agrees ok view ms' st'"
proof -
  have inv: "ms_inv ms" and ok0: "ok st" and vw: "ms_view ms = view st" using ag by (simp_all add: agrees_def)
  have same: "ms_view ms' = ms_view ms" if "ms_inv ms'" "ms_shared ms' = ms_shared ms" "ms_users ms' = ms_users ms"
    "orphanedUsers ms' = orphanedUsers ms" "\<And>i. map_option NodeID (nodes ms' i) = map_option NodeID (nodes ms i)" for ms'
  proof -
    have id: "(\<exists>b. nodes ms' i = Some b \<and> NodeID b = m) \<longleftrightarrow> (\<exists>b. nodes ms i = Some b \<and> NodeID b = m)" for i m
      using that(5) [of i] by (auto simp: map_option_case split: option.splits)
    have "c_nodes (ms_view ms') = c_nodes (ms_view ms)"
      by (rule ext, rule option_ext) (simp add: view_node inv that(1) id)
    moreover have "c_homes (ms_view ms') = c_homes (ms_view ms)" by (simp add: ms_view_def that fun_eq_iff split: option.split)
    moreover have "c_grants (ms_view ms') = c_grants (ms_view ms)" by (simp add: ms_view_def grants_def that)
    ultimately show ?thesis by simp
  qed
  show "agrees ok view ms' st'" if run: "Heartbeat ops er t n a (ms, st) = (res, ms', st')"
    using run
  proof (cases rule: heartbeat_cases)
    case (2 i info)
    note i = this
    have "ok st' \<and> view st' = view st"
      by (rule heartbeat [OF ok0, of _ _ _ _ "fst (st_RecordHeartbeat ops (er CallHeartbeat) (NodeID info) t StatusHealthy st)"])
        (simp add: i(3))
    moreover have "ms_view ms' = ms_view ms"
      by (rule same [OF heartbeat_inv [OF inv run]]) (simp_all add: i(1,2))
    ultimately show ?thesis using heartbeat_inv [OF inv run] vw by (simp add: agrees_def)
  next
    case 1
    with ag show ?thesis by simp
  qed
  show "agrees ok view ms' st'" if run: "monitor_tick ops er t (ms, st) = (ms', st')"
  proof -
    have st: "ok (fold (\<lambda>n s. snd (st_SetFileServerStatus ops (er CallStale) n StatusStale s)) ns s)
      \<and> view (fold (\<lambda>n s. snd (st_SetFileServerStatus ops (er CallStale) n StatusStale s)) ns s) = view s" if "ok s" for ns s
      using that
    proof (induction ns arbitrary: s)
      case (Cons x ns)
      from set_status [OF Cons.prems, of "er CallStale" x StatusStale]
      have "ok (snd (st_SetFileServerStatus ops (er CallStale) x StatusStale s))"
        "view (snd (st_SetFileServerStatus ops (er CallStale) x StatusStale s)) = view s" by (metis prod.collapse)+
      with Cons.IH show ?case by simp
    qed simp
    have ms': "ms' = snd (markStaleFileServers t ms)"
      using run by (auto simp: monitor_tick_def Let_def split: prod.splits)
    have "map_option NodeID (nodes ms' i) = map_option NodeID (nodes ms i)" for i
      by (cases "nodes ms i") (simp_all add: ms' markStaleFileServers_def Let_def)
    then have "ms_view ms' = ms_view ms"
      by (intro same [OF tick_inv [OF inv run]]) (simp_all add: ms' markStaleFileServers_def Let_def)
    with st [OF ok0] run tick_inv [OF inv run] vw show ?thesis
      by (auto simp: agrees_def monitor_tick_def Let_def split: prod.splits)
  qed
qed

end

section \<open>Starting on a store\<close>




















section \<open>Properties of the metaserver\<close>




lemma agrees_initial: "\<not> er CallLoad \<Longrightarrow> \<exists>ms. NewMetaServer mem_ops er now mem_New = Inr ms \<and> agrees mem_ok mem_view ms mem_New"
proof -
  let ?ms = "\<lparr>ms_fileservers = [], ms_users = [], ms_shared = [], orphanedUsers = [], allowUserPurge = False,
    heartbeatTimeout = defaultHeartbeatTimeout, heartbeatCheckInterval = defaultHeartbeatCheckInterval\<rparr>"
  assume "\<not> er CallLoad"
  then have "NewMetaServer mem_ops er now mem_New = Inr ?ms"
    by (simp add: NewMetaServer_def mem_ops_def mem_LoadSnapshot_def mem_New_def hydrate_def hydrate_users_def)
  moreover have "agrees mem_ok mem_view ?ms mem_New"
    by (simp add: agrees_def ms_inv_def tables_ok_def core_inv_def mem_ok_def mem_New_def ms_view_def mem_view_def
        findFileServerByNodeID_def grants_def containsShare_def fun_eq_iff)
  ultimately show ?thesis by blast
qed

lemma register_completes:
  assumes ag: "agrees mem_ok mem_view ms st" and room: "mem_room st"
    and er: "\<forall>c. \<not> er c" and acc: "register_refusal t1 req ms = None"
  shows "\<exists>s'. RegisterFileServer mem_ops er t1 t2 t3 req (ms, st) = (None, s')"
proof -
  have inv: "ms_inv ms" and ok: "mem_ok st" and vw: "ms_view ms = mem_view st" using ag by (simp_all add: agrees_def)
  have writes: "fst (run_writes (register_writes mem_ops er t adopt n miss req) st) = None" for t adopt n miss st
    using er by (auto simp: register_writes_def write_rename_def write_upsert_def mem_ops_def mem_RenameFileServer_def
        mem_UpsertFileServer_def mem_RemoveUsers_def mem_RemoveSharesInvolving_def mem_AssignUsers_def
        mem_RemoveSharesByOwner_def mem_AddShares_def Let_def split: option.splits)
  have fin: "fst (register_finish mem_ops er t i adopt req s) = None" for t i adopt s
    using writes by (simp add: register_finish_def Let_def case_prod_unfold)
  obtain found adopt where look: "register_lookup req ms = (found, adopt)" by fastforce
  define n where n: "n = resolveNodeID (rr_FsId req) (rr_Address req)"
  obtain res ms' st' where run: "RegisterFileServer mem_ops er t1 t2 t3 req (ms, st) = (res, ms', st')"
    by (metis prod_cases3)
  from inv run n look have "res = None"
  proof (cases rule: register_outcome)
    case (not_allocated e st1)
    then show ?thesis using er by (auto simp: mem_ops_def mem_UpsertFileServer_def Let_def split: option.splits)
  next
    case (collided i st1)
    have "findFileServerByNodeID n ms = None"
      using inv look n by (cases rule: register_lookup_cases) (simp_all add: collided(1))
    then have "c_nodes (mem_view st) n = None" by (simp add: vw [symmetric] ms_view_def)
    then have "i \<notin> ran (c_nodes (mem_view st))"
      using memory.upsert_fresh [OF ok collided(4)] by (simp add: node_record_def)
    moreover from collided(5) obtain a where "nodes ms i = Some a" by auto
    then have "c_nodes (ms_view ms) (NodeID a) = Some i" by (auto simp: view_node [OF inv])
    ultimately show ?thesis by (auto simp: vw ran_def)
  next
    case (committed_known i)
    with fin [of t3 i adopt "(ms, st)"] show ?thesis by (metis fst_conv)
  next
    case (committed_new i st1)
    then show ?thesis using fin by (metis fst_conv)
  qed (simp add: acc)
  with run show ?thesis by blast
qed


text \<open>C2. The tables stay consistent, whatever the store does: from a consistent state, after any
  operations with any store calls failing, every node's \<open>UserCount\<close> is the number of users assigned to it,
  every assigned user's node is registered, nobody is both assigned and orphaned, no orphan's home is
  registered, and no two nodes have the same identity.\<close>

theorem metaserver_tables_consistent:
  assumes "ms_inv (fst s0)" "reaches (ms_step ops) s0 (ms, st)"
  shows "(\<forall>i a. nodes ms i = Some a \<longrightarrow> UserCount a = countUsersForFileServer i (ms_users ms))
    \<and> (\<forall>u i. assigned ms u = Some i \<longrightarrow> nodes ms i \<noteq> None \<and> orphans ms u = None)
    \<and> (\<forall>u i a. nodes ms i = Some a \<longrightarrow> orphans ms u \<noteq> Some (NodeID a))
    \<and> (\<forall>i j a b. nodes ms i = Some a \<and> nodes ms j = Some b \<and> NodeID a = NodeID b \<longrightarrow> i = j)"
proof -
  have inv: "ms_inv ms" using metaserver.reaches_inv [OF assms(2,1)] by simp
  then have core: "core_inv (nodes ms) (assigned ms) (orphans ms)" and ok: "gomap_ok (ms_users ms)"
    by (simp_all add: ms_inv_def tables_ok_def)
  note D = core_invD [OF core]
  from D(1,4) have "nodes ms i \<noteq> None \<and> orphans ms u = None" if "assigned ms u = Some i" for u i
    using that by fastforce
  with D(2,5,6) show ?thesis by (auto simp: count_load [OF ok])
qed


text \<open>\<open>Navigate\<close> hands out an address exactly to an assigned user, for a root user whose home node is
  registered and healthy, who is the user or has shared something visible to the user; and it is the address
  of that home node.\<close>

theorem Navigate_exact:
  "Navigate t user rootUser ms = Inr addr \<longleftrightarrow>
     user \<noteq> [] \<and> rootUser \<noteq> [] \<and> assigned ms user \<noteq> None
     \<and> (user = rootUser \<or> (\<exists>e\<in>set (visible ms user). se_Owner e = rootUser))
     \<and> (\<exists>i a. assigned ms rootUser = Some i \<and> nodes ms i = Some a \<and> isHealthy ms a t \<and> Address a = addr)"
  by (auto simp: Navigate_def list_ex_iff split: if_splits option.splits)

text \<open>A refused registration leaves no trace, and these are refused: an identity that is still sending
  heartbeats from another address, and a request naming a user who lives on another node or is orphaned on
  one.\<close>

theorem refused_registration_leaves_no_trace:
  assumes inv: "ms_inv ms"
    and reg: "RegisterFileServer ops er t1 t2 t3 req (ms, st) = (res, ms', st')"
    and claim: "rr_Address req = []
      \<or> (\<exists>i a. nodes ms i = Some a \<and> NodeID a = resolveNodeID (rr_FsId req) (rr_Address req)
             \<and> Address a \<noteq> rr_Address req \<and> isHealthy ms a t1)
      \<or> (\<exists>u\<in>set (rr_Users req). (\<exists>h. orphans ms u = Some h \<and> h \<noteq> resolveNodeID (rr_FsId req) (rr_Address req))
             \<or> (\<exists>j. assigned ms u = Some j \<and> Some j \<noteq> fst (register_lookup req ms)))"
  shows "res \<noteq> None \<and> ms' = ms \<and> st' = st"
proof -
  obtain found adopt where look: "register_lookup req ms = (found, adopt)" by fastforce
  have "register_refusal t1 req ms \<noteq> None"
  proof
    assume none: "register_refusal t1 req ms = None"
    note free = refusal_none [OF none look]
    from claim free consider
      i a where "nodes ms i = Some a" "NodeID a = resolveNodeID (rr_FsId req) (rr_Address req)"
        "Address a \<noteq> rr_Address req" "isHealthy ms a t1"
      | u where "u \<in> set (rr_Users req)" "(\<exists>h. orphans ms u = Some h \<and> h \<noteq> resolveNodeID (rr_FsId req) (rr_Address req))
             \<or> (\<exists>j. assigned ms u = Some j \<and> Some j \<noteq> found)" by (auto simp: look)
    then show False
    proof cases
      case (1 i a)
      then have "findFileServerByNodeID (resolveNodeID (rr_FsId req) (rr_Address req)) ms = Some i"
        using inv findNode [of ms] by (auto simp: ms_inv_def)
      then have "found = Some i" "adopt = None" using look by (auto simp: register_lookup_def)
      with none 1 look free(1) show False by (simp add: register_refusal_def Let_def)
    next
      case (2 u)
      with conflict_free [OF free(2) 2(1)] show False by auto
    qed
  qed
  then obtain e where "register_refusal t1 req ms = Some e" by auto
  with reg look have "(Some e, ms, st) = (res, ms', st')" by (simp add: RegisterFileServer_def Let_def)
  then show ?thesis by auto
qed


section \<open>Concrete runs\<close>

definition no_error :: "ms_call \<Rightarrow> bool" where "no_error c = False"

definition demo_req :: register_request where
  "demo_req = \<lparr>rr_FsId = ''fs1'', rr_Address = ''h:1'', rr_Users = [''al'', ''bo''],
     rr_Shared = [\<lparr>sd_Owner = ''al'', sd_Path = ''/al//p/'', sd_Name = ''p'', sd_Users = [''bo'', ''al'', ''cy'']\<rparr>]\<rparr>"

definition ms_empty :: meta_server where
  "ms_empty = \<lparr>ms_fileservers = [], ms_users = [], ms_shared = [], orphanedUsers = [], allowUserPurge = False,
     heartbeatTimeout = defaultHeartbeatTimeout, heartbeatCheckInterval = defaultHeartbeatCheckInterval\<rparr>"

lemma ms_empty_start: "NewMetaServer mem_ops no_error 0 mem_New = Inr ms_empty"
  by (simp add: NewMetaServer_def mem_ops_def mem_LoadSnapshot_def mem_New_def hydrate_def hydrate_users_def
      no_error_def ms_empty_def)

lemma ms_empty_inv: "ms_inv ms_empty"
  by (simp add: ms_inv_def tables_ok_def core_inv_def ms_empty_def)

lemma ms_empty_agrees: "agrees mem_ok mem_view ms_empty mem_New"
  using agrees_initial [of no_error 0] ms_empty_start by (simp add: no_error_def)

lemma mem_New_room: "mem_room mem_New"
  by (simp add: mem_room_def mem_New_def)

lemma demo_accepted: "register_refusal 100 demo_req ms_empty = None"
  by (simp add: register_refusal_def register_lookup_def demo_req_def ms_empty_def findFileServerByNodeID_def
      adoptableLegacyNode_def findFileServerByAddress_def)

lemma demo_path: "NormalizeSharePath ''/al//p/'' = ''al/p''" "NormalizeSharePath ''al/p'' = ''al/p''"
  by code_simp+

lemma demo_done:
  obtains ms st where "RegisterFileServer mem_ops no_error 100 100 100 demo_req (ms_empty, mem_New) = (None, ms, st)"
    "ms_inv ms" "c_homes (ms_view ms) ''al'' = Some ''fs1''"
    "c_grants (ms_view ms) = {(''bo'', ''al'', ''al/p''), (''cy'', ''al'', ''al/p'')}"
    "\<exists>i a. nodes ms i = Some a \<and> NodeID a = ''fs1''"
proof -
  from register_completes [OF ms_empty_agrees mem_New_room _ demo_accepted, of no_error 100 100]
  obtain ms st where run: "RegisterFileServer mem_ops no_error 100 100 100 demo_req (ms_empty, mem_New) = (None, ms, st)"
    by (auto simp: no_error_def)
  have inv: "ms_inv ms" by (rule register_inv [OF ms_empty_inv run])
  have id: "resolveNodeID (rr_FsId demo_req) (rr_Address demo_req) = ''fs1''"
    by (simp add: demo_req_def resolveNodeID_def)
  obtain i adopt where vw: "ms_view ms = registered_view i adopt ''fs1'' (missing_users i demo_req ms_empty) demo_req (ms_view ms_empty)"
    using ms_empty_inv run id [symmetric] by (cases rule: register_success) auto
  have gr: "c_grants (adopted_view adopt n c) = c_grants c" for n c
    by (simp add: adopted_view_def spec_rename_def split: option.splits)
  have "c_grants (ms_view ms_empty) = {}" by (simp add: ms_view_def grants_def ms_empty_def containsShare_def)
  then have "c_grants (ms_view ms) = {(''bo'', ''al'', ''al/p''), (''cy'', ''al'', ''al/p'')}"
    by (auto simp: vw registered_view_def spec_add_shares_def spec_remove_by_owner_def spec_assign_def
        spec_remove_involving_def spec_remove_users_def spec_upsert_def gr granted_shares_def demo_req_def key_of_def demo_path)
  moreover have "c_homes (ms_view ms) ''al'' = Some ''fs1''"
    by (simp add: vw registered_view_def spec_add_shares_def spec_remove_by_owner_def spec_assign_def demo_req_def)
  moreover have "c_nodes (ms_view ms) ''fs1'' = Some i"
    by (simp add: vw registered_view_def spec_add_shares_def spec_remove_by_owner_def spec_assign_def
        spec_remove_involving_def spec_remove_users_def spec_upsert_def)
  ultimately show thesis using that [OF run inv] view_node [OF inv, of "''fs1''" i] by auto
qed


theorem metaserver_tables_consistent_witness:
  "\<exists>ms st i a. reaches (ms_step mem_ops) (ms_empty, mem_New) (ms, st)
     \<and> nodes ms i = Some a \<and> NodeID a = ''fs1'' \<and> UserCount a = countUsersForFileServer i (ms_users ms)"
proof -
  obtain ms st i a where d: "RegisterFileServer mem_ops no_error 100 100 100 demo_req (ms_empty, mem_New) = (None, ms, st)"
    "nodes ms i = Some a" "NodeID a = ''fs1''" by (rule demo_done) blast
  have "ms_step mem_ops (ms_empty, mem_New) (MRegister 100 100 100 demo_req) (ms, st)"
    using ms_stepI [of mem_ops "(ms_empty, mem_New)" "MRegister 100 100 100 demo_req" no_error] d(1) by simp
  with reaches_refl have run: "reaches (ms_step mem_ops) (ms_empty, mem_New) (ms, st)" by (rule reaches_step)
  from metaserver_tables_consistent [OF _ run] ms_empty_inv d(2,3) run show ?thesis by fastforce
qed

definition two_nodes :: meta_server where
  "two_nodes = ms_empty\<lparr>ms_fileservers :=
     [(0, \<lparr>NodeID = ''a'', Address = ''h:1'', UserCount = 3, LastHeartbeatUnix = 100, Status = StatusHealthy\<rparr>),
      (1, \<lparr>NodeID = ''b'', Address = ''h:2'', UserCount = 0, LastHeartbeatUnix = 10, Status = StatusHealthy\<rparr>)]\<rparr>"


theorem refused_registration_leaves_no_trace_witness:
  "\<exists>e. RegisterFileServer mem_ops no_error 110 110 110 demo_req (two_nodes\<lparr>ms_fileservers :=
      [(0, \<lparr>NodeID = ''fs1'', Address = ''h:9'', UserCount = 0, LastHeartbeatUnix = 100, Status = StatusHealthy\<rparr>)]\<rparr>, mem_New)
    = (Some e, two_nodes\<lparr>ms_fileservers :=
      [(0, \<lparr>NodeID = ''fs1'', Address = ''h:9'', UserCount = 0, LastHeartbeatUnix = 100, Status = StatusHealthy\<rparr>)]\<rparr>, mem_New)"
proof -
  let ?a = "\<lparr>NodeID = ''fs1'', Address = ''h:9'', UserCount = 0, LastHeartbeatUnix = 100, Status = StatusHealthy\<rparr>"
  let ?ms = "two_nodes\<lparr>ms_fileservers := [(0, ?a)]\<rparr>"
  have inv: "ms_inv ?ms"
    by (simp add: ms_inv_def tables_ok_def core_inv_def two_nodes_def ms_empty_def gomap_ok_def load_def)
  obtain res ms' st' where run: "RegisterFileServer mem_ops no_error 110 110 110 demo_req (?ms, mem_New) = (res, ms', st')"
    by (metis prod_cases3)
  have "nodes ?ms 0 = Some ?a \<and> NodeID ?a = resolveNodeID (rr_FsId demo_req) (rr_Address demo_req)
      \<and> Address ?a \<noteq> rr_Address demo_req \<and> isHealthy ?ms ?a 110"
    by (simp add: demo_req_def resolveNodeID_def isHealthy_def two_nodes_def ms_empty_def defaultHeartbeatTimeout_def second_ns_def)
  then have "res \<noteq> None \<and> ms' = ?ms \<and> st' = mem_New"
    by (intro refused_registration_leaves_no_trace [OF inv run] disjI2 disjI1) blast
  with run show ?thesis by auto
qed


section \<open>Users keep their home\<close>

lemma purge_flag_effect:
  "allowUserPurge (fold drop_user us ms) = allowUserPurge ms"
  "allowUserPurge (fold release_user us ms) = allowUserPurge ms"
  "allowUserPurge (fold (claim_user i) us ms) = allowUserPurge ms"
  "allowUserPurge (fold (reclaim_one i) us ms) = allowUserPurge ms"
  "allowUserPurge (fold publish_share shs ms) = allowUserPurge ms"
proof -
  have one: "allowUserPurge (drop_user u m) = allowUserPurge m" "allowUserPurge (release_user u m) = allowUserPurge m"
    "allowUserPurge (claim_user i u m) = allowUserPurge m" "allowUserPurge (reclaim_one i u m) = allowUserPurge m"
    "allowUserPurge (publish_share sh m) = allowUserPurge m" for u m i sh
    by (simp_all add: drop_user_def release_user_def claim_user_def reclaim_one_def publish_share_def
        removeSharesByOwner_def Let_def)
  show "allowUserPurge (fold drop_user us ms) = allowUserPurge ms" by (induction us arbitrary: ms) (simp_all add: one)
  show "allowUserPurge (fold release_user us ms) = allowUserPurge ms" by (induction us arbitrary: ms) (simp_all add: one)
  show "allowUserPurge (fold (claim_user i) us ms) = allowUserPurge ms" by (induction us arbitrary: ms) (simp_all add: one)
  show "allowUserPurge (fold (reclaim_one i) us ms) = allowUserPurge ms" by (induction us arbitrary: ms) (simp_all add: one)
  show "allowUserPurge (fold publish_share shs ms) = allowUserPurge ms" by (induction shs arbitrary: ms) (simp_all add: one)
qed

lemma register_commit_purge: "allowUserPurge (register_commit t i n req ms) = allowUserPurge ms"
  by (simp add: register_commit_def Let_def reclaim_orphans_def reclaim_one_def [symmetric, abs_def] purge_flag_effect)

definition keeps_home :: "meta_server \<Rightarrow> bool" where
  "keeps_home ms \<longleftrightarrow> ms_inv ms \<and> \<not> allowUserPurge ms"

text \<open>The operations that may take a user's home away.\<close>

fun releases :: "ms_op \<Rightarrow> bool" where
  "releases (MDeregister _ _) = True"
| "releases (MPurge b) = b"
| "releases _ = False"

lemma register_keeps_home:
  assumes keep: "keeps_home ms" and u: "assigned ms u = Some i"
    and run: "RegisterFileServer ops er t1 t2 t3 req (ms, st) = (res, ms', st')"
  shows "keeps_home ms' \<and> assigned ms' u = Some i"
proof -
  have inv: "ms_inv ms" and np: "\<not> allowUserPurge ms" using keep by (simp_all add: keeps_home_def)
  have tok: "tables_ok ms" and core: "core_inv (nodes ms) (assigned ms) (orphans ms)" using inv by (simp_all add: ms_inv_def)
  have inv': "ms_inv ms'" by (rule register_inv [OF inv run])
  obtain found adopt where look: "register_lookup req ms = (found, adopt)" by fastforce
  define n where n: "n = resolveNodeID (rr_FsId req) (rr_Address req)"
  have commit: "assigned (register_commit t3 j n req ms) u = Some i"
    if "registrationConflict ms n (Some j) (rr_Users req) = None" for j
    using conflict_free [OF that, of u] u np core_invD(4) [OF core u]
    by (auto simp: register_commit_effect [OF tok] committed_users_def)
  from inv run n look show ?thesis
  proof (cases rule: register_outcome)
    case (committed_known j)
    have "ms' = register_commit t3 j n req ms" using register_finish_ms [OF committed_known(3)] by (simp add: n)
    with commit [of j] refusal_none(2) [OF committed_known(2) look] committed_known(1) inv' np show ?thesis
      by (simp add: n keeps_home_def register_commit_purge)
  next
    case (committed_new j st1)
    have ms': "ms' = register_commit t3 j n req ms"
      using register_finish_ms [OF committed_new(5)] commit_provisional [OF committed_new(3)] by (simp add: n)
    have "assigned ms v \<noteq> Some j" for v using core_invD(1) [OF core] committed_new(3) by fastforce
    then have "registrationConflict ms n (Some j) (rr_Users req) = None"
      using refusal_none(2) [OF committed_new(2) look] committed_new(1)
      by (intro conflict_same_tables [where ms = ms]) (simp_all add: n)
    with commit inv' np ms' show ?thesis by (simp add: keeps_home_def register_commit_purge)
  qed (use keep u in simp_all)
qed

lemma exec_keeps_home:
  assumes keep: "keeps_home (fst s)" and u: "assigned (fst s) u = Some i" and op: "\<not> releases op"
  shows "keeps_home (fst (ms_exec ops er op s)) \<and> assigned (fst (ms_exec ops er op s)) u = Some i"
proof -
  obtain ms st where s: "s = (ms, st)" by fastforce
  have inv: "ms_inv ms" and np: "\<not> allowUserPurge ms" and um: "assigned ms u = Some i" using keep u by (simp_all add: keeps_home_def s)
  have inv': "ms_inv (fst (ms_exec ops er op s))" using ms_exec_inv [of s] inv by (simp add: s)
  show ?thesis
  proof (cases op)
    case (MRegister t1 t2 t3 req)
    obtain res ms' st' where run: "RegisterFileServer ops er t1 t2 t3 req (ms, st) = (res, ms', st')" by (metis prod_cases3)
    with MRegister register_keeps_home [OF _ um run] keep show ?thesis by (simp add: s)
  next
    case (MHeartbeat t f a)
    obtain res ms' st' where run: "Heartbeat ops er t f a (ms, st) = (res, ms', st')" by (metis prod_cases3)
    from run have "ms_users ms' = ms_users ms \<and> allowUserPurge ms' = allowUserPurge ms"
      by (cases rule: heartbeat_cases) auto
    with run MHeartbeat inv' np um show ?thesis by (simp add: s keeps_home_def)
  next
    case (MGetRoots t v)
    obtain res ms' st' where run: "GetRoots ops er t v (ms, st) = (res, ms', st')" by (metis prod_cases3)
    from inv run have "assigned ms' u = Some i \<and> allowUserPurge ms' = allowUserPurge ms"
      by (cases rule: getroots_outcome) (use um in auto)
    with run MGetRoots inv' np show ?thesis by (simp add: s keeps_home_def)
  next
    case (MShare ow p nm w)
    have "ms_users (fst (snd (RootShare ops er ow p nm w (ms, st)))) = ms_users ms
      \<and> allowUserPurge (fst (snd (RootShare ops er ow p nm w (ms, st)))) = allowUserPurge ms"
      by (auto simp: RootShare_def Let_def split: prod.splits option.splits)
    with MShare inv' np um show ?thesis by (simp add: s keeps_home_def)
  next
    case (MUnshare ow p w)
    have "ms_users (fst (snd (RootUnshare ops er ow p w (ms, st)))) = ms_users ms
      \<and> allowUserPurge (fst (snd (RootUnshare ops er ow p w (ms, st)))) = allowUserPurge ms"
      by (auto simp: RootUnshare_def Let_def split: prod.splits option.splits)
    with MUnshare inv' np um show ?thesis by (simp add: s keeps_home_def)
  next
    case (MTick t)
    with inv' np um show ?thesis
      by (auto simp: s keeps_home_def monitor_tick_def markStaleFileServers_def Let_def)
  next
    case (MConfig a b)
    with inv' np um show ?thesis by (simp add: s keeps_home_def SetHeartbeatConfig_def Let_def)
  next
    case (MPurge b)
    with op inv' um show ?thesis by (simp add: s keeps_home_def SetAllowUserPurge_def)
  qed (use op in simp)
qed

inductive keep_step :: "'st meta_ops \<Rightarrow> meta_server \<times> 'st \<Rightarrow> ms_op \<Rightarrow> meta_server \<times> 'st \<Rightarrow> bool" for ops where
  keep_stepI: "\<not> releases op \<Longrightarrow> keep_step ops s op (ms_exec ops er op s)"

interpretation homes: op_system "keep_step ops" "\<lambda>s. keeps_home (fst s) \<and> assigned (fst s) u = Some i" for ops u i
  by unfold_locales (erule keep_step.cases, use exec_keeps_home in blast)

text \<open>C11. A user's home is never changed behind their back: with user purge off, nothing but a
  deregistration moves an assigned user to another node, whatever registrations, log-ins, heartbeats,
  shares and store failures happen.\<close>

theorem home_assignment_stable:
  assumes "ms_inv (fst s0)" "\<not> allowUserPurge (fst s0)" "assigned (fst s0) u = Some i"
    and "reaches (keep_step ops) s0 s"
  shows "assigned (fst s) u = Some i"
  using homes.reaches_inv [OF assms(4)] assms(1-3) by (simp add: keeps_home_def)


text \<open>A defect: the first log-in of a user empties what had been shared with them. A grant published to
  someone who has not logged in yet (a registration lists it) disappears from their roots the moment they do,
  although the store still has it, and only a restart of the metaserver brings it back.\<close>

theorem first_login_hides_grants:
  assumes ag: "agrees mem_ok mem_view ms st" and new: "assigned ms u = None"
    and shared: "containsShare (visible ms u) ow p"
    and run: "GetRoots mem_ops er t u (ms, st) = (Inr roots, ms', st')"
  shows "roots = [\<lparr>se_Owner = u, se_Path = u, se_DisplayName = ''mydrive''\<rparr>]
    \<and> \<not> containsShare (visible ms' u) ow p \<and> (u, ow, p) \<in> c_grants (mem_view st')"
proof -
  have inv: "ms_inv ms" and ok: "mem_ok st" and vw: "ms_view ms = mem_view st" using ag by (simp_all add: agrees_def)
  from inv run show ?thesis
  proof (cases rule: getroots_outcome)
    case same
    with new show ?thesis by simp
  next
    case (placed i a)
    have "c_grants (mem_view st') = c_grants (mem_view st)"
      using memory.assign_one [OF ok placed(7)] by (simp add: spec_assign_def)
    moreover have "(u, ow, p) \<in> c_grants (mem_view st)"
      using shared by (simp add: vw [symmetric] ms_view_def grants_def)
    ultimately show ?thesis using placed(6,8) by (simp add: buildRoots_def containsShare_def)
  qed simp
qed

theorem home_assignment_stable_witness:
  "assigned (fst (ms_exec mem_ops no_error (MRegister 110 110 110 demo_req)
     (two_nodes\<lparr>ms_fileservers := [(0, \<lparr>NodeID = ''a'', Address = ''h:1'', UserCount = 1, LastHeartbeatUnix = 100,
        Status = StatusHealthy\<rparr>)], ms_users := [(''al'', 0)]\<rparr>, mem_New))) ''al'' = Some 0"
proof -
  let ?ms = "two_nodes\<lparr>ms_fileservers := [(0, \<lparr>NodeID = ''a'', Address = ''h:1'', UserCount = 1, LastHeartbeatUnix = 100,
        Status = StatusHealthy\<rparr>)], ms_users := [(''al'', 0)]\<rparr>"
  have inv: "ms_inv ?ms"
    by (simp add: ms_inv_def tables_ok_def core_inv_def two_nodes_def ms_empty_def gomap_ok_def load_def)
  have step: "keep_step mem_ops (?ms, mem_New) (MRegister 110 110 110 demo_req)
      (ms_exec mem_ops no_error (MRegister 110 110 110 demo_req) (?ms, mem_New))" by (rule keep_stepI) simp
  have run: "reaches (keep_step mem_ops) (?ms, mem_New) (ms_exec mem_ops no_error (MRegister 110 110 110 demo_req) (?ms, mem_New))"
    using reaches_refl step by (rule reaches_step)
  show ?thesis
    by (rule home_assignment_stable [OF _ _ _ run]) (use inv in \<open>simp_all add: two_nodes_def ms_empty_def\<close>)
qed


theorem first_login_hides_grants_witness:
  "\<exists>roots ms st ms' st'. GetRoots mem_ops no_error 110 ''cy'' (ms, st) = (Inr roots, ms', st')
     \<and> containsShare (visible ms ''cy'') ''al'' ''al/p'' \<and> \<not> containsShare (visible ms' ''cy'') ''al'' ''al/p''"
proof -
  let ?a = "\<lparr>NodeID = ''fs1'', Address = ''h:1'', UserCount = 1, LastHeartbeatUnix = 100, Status = StatusHealthy\<rparr>"
  let ?ms = "two_nodes\<lparr>ms_fileservers := [(0, ?a)], ms_users := [(''al'', 0)],
     ms_shared := [(''cy'', [\<lparr>se_Owner = ''al'', se_Path = ''al/p'', se_DisplayName = ''p''\<rparr>])]\<rparr>"
  let ?st = "mem_New\<lparr>mem_fileServers := [(''fs1'', \<lparr>rec_NodeID = ''fs1'', rec_NumericID = 0, rec_Address = ''h:1'',
       rec_LastHeartbeatUnix = 100, rec_Status = StatusHealthy\<rparr>)], mem_users := [(''al'', ''fs1'')],
     mem_shares := [((''cy'', ''al'', ''al/p''), \<lparr>sr_Grantee = ''cy'', sr_Owner = ''al'', sr_Path = ''al/p'', sr_DisplayName = ''p''\<rparr>)],
     mem_nextNumericID := 1\<rparr>"
  have inv: "ms_inv ?ms"
    by (simp add: ms_inv_def tables_ok_def core_inv_def two_nodes_def ms_empty_def gomap_ok_def load_def)
  have ok: "mem_ok ?st" using demo_path by (simp add: mem_ok_def mem_New_def gomap_ok_def key_of_def)
  have "c_nodes (ms_view ?ms) = c_nodes (mem_view ?st)" "c_homes (ms_view ?ms) = c_homes (mem_view ?st)"
    "c_grants (ms_view ?ms) = c_grants (mem_view ?st)"
    by (auto simp: ms_view_def mem_view_def findFileServerByNodeID_def fun_eq_iff two_nodes_def ms_empty_def mem_New_def
        grants_def containsShare_def mslice_def split: if_splits)
  then have ag: "agrees mem_ok mem_view ?ms ?st" using inv ok by (simp add: agrees_def)
  have place: "getLeastLoadedHealthyFileServer 110 ?ms = Some 0"
    by (simp add: getLeastLoadedHealthyFileServer_def two_nodes_def isHealthy_def ms_empty_def
        defaultHeartbeatTimeout_def second_ns_def)
  have new: "assigned ?ms ''cy'' = None" "orphans ?ms ''cy'' = None" by (simp_all add: two_nodes_def ms_empty_def)
  obtain roots ms' st' where run: "GetRoots mem_ops no_error 110 ''cy'' (?ms, ?st) = (Inr roots, ms', st')"
    using place new by (simp add: GetRoots_def Let_def mem_ops_def mem_AssignUser_def no_error_def two_nodes_def ms_empty_def)
  have sh: "containsShare (visible ?ms ''cy'') ''al'' ''al/p''" by (simp add: containsShare_def mslice_def)
  from first_login_hides_grants [OF ag new(1) sh run] sh run show ?thesis by blast
qed

end
