(* ===== verification/Disk.thy ===== *)
theory Disk
  imports Go_Path
begin

text \<open>
  The directory tree a fileserver writes to, as the Go package \<^verbatim>\<open>os\<close> shows it. A disk maps clean
  path names to directories and files. File contents are bytes, or a JSON document: what
  \<^verbatim>\<open>json.Marshal\<close> wrote is represented by the value it encodes, so \<^verbatim>\<open>json.Unmarshal\<close> gives that
  value back and refuses raw bytes. Every call can also fail for a reason outside the program (a full
  disk, a permission): the parameter \<open>oserr\<close> says which calls do.
\<close>

type_synonym byte = "8 word"

datatype jdoc =
    JIndex u64 "(string, u64) gomap option"          \<comment> \<open>\<^verbatim>\<open>InodeIndexData\<close>; \<open>None\<close> is a missing map\<close>
  | JAcl string "string list option"                 \<comment> \<open>\<^verbatim>\<open>ACLMetadata\<close>\<close>
  | JShares "(string, string list) gomap option"     \<comment> \<open>\<^verbatim>\<open>DirSharesState\<close>\<close>
  | JQuota "(string, u64) gomap"                     \<comment> \<open>\<^verbatim>\<open>quota_config.json\<close>\<close>

datatype 'j file_content = Raw "byte list" | Json 'j

datatype 'j disk_node = DDir | DFile "'j file_content"

type_synonym 'j disk_of = "(string, 'j disk_node) gomap"

text \<open>The files of a fileserver; other programs keep documents of their own.\<close>

type_synonym content = "jdoc file_content"
type_synonym dnode = "jdoc disk_node"
type_synonym disk = "jdoc disk_of"

datatype oscall =
    CMkdirAll string | CMkdir string | CCreate string | CRename string string | CRemoveAll string
  | CRemove string | CReadFile string | CWriteFile string | CCreateTemp string | COpen string
  | CStat string | CReadAt string | CWriteAt string | CClose string | CReadDir string

type_synonym oserr = "oscall \<Rightarrow> bool"

definition dir_of :: "string \<Rightarrow> string" where
  "dir_of p =
     (let cs = clean_comps (IsAbs p) (Split p)
      in render (IsAbs p) (butlast cs))"

definition is_dir :: "'j disk_of \<Rightarrow> string \<Rightarrow> bool" where
  "is_dir d p \<longleftrightarrow> mget d p = Some DDir"

definition under :: "string \<Rightarrow> string \<Rightarrow> bool" where
  "under p q \<longleftrightarrow> HasPrefix q (p @ [slash])"

definition ancestors :: "string \<Rightarrow> string list" where
  "ancestors p =
     (let cs = clean_comps (IsAbs p) (Split p)
      in map (\<lambda>n. render (IsAbs p) (take n cs)) [1..<Suc (length cs)])"

section \<open>Calls\<close>

text \<open>Each returns whether it succeeded and the disk afterwards.\<close>

definition os_MkdirAll :: "oserr \<Rightarrow> string \<Rightarrow> 'j disk_of \<Rightarrow> bool \<times> 'j disk_of" where
  "os_MkdirAll er p d =
     (if er (CMkdirAll p) then (False, d)
      else if list_all (\<lambda>q. mget d q = None \<or> is_dir d q) (ancestors p)
      then (True, fold (\<lambda>q. mput q DDir) (ancestors p) d)
      else (False, d))"

definition os_Mkdir :: "oserr \<Rightarrow> string \<Rightarrow> 'j disk_of \<Rightarrow> bool \<times> 'j disk_of" where
  "os_Mkdir er p d =
     (if er (CMkdir p) \<or> mget d p \<noteq> None \<or> \<not> is_dir d (dir_of p) then (False, d)
      else (True, mput p DDir d))"

definition os_Create :: "oserr \<Rightarrow> string \<Rightarrow> 'j disk_of \<Rightarrow> bool \<times> 'j disk_of" where
  "os_Create er p d =
     (if er (CCreate p) \<or> is_dir d p \<or> \<not> is_dir d (dir_of p) then (False, d)
      else (True, mput p (DFile (Raw [])) d))"

definition moved :: "string \<Rightarrow> string \<Rightarrow> string \<Rightarrow> string" where
  "moved old new p =
     (if p = old then new
      else if under old p then new @ drop (length old) p
      else p)"

definition os_Rename :: "oserr \<Rightarrow> string \<Rightarrow> string \<Rightarrow> 'j disk_of \<Rightarrow> bool \<times> 'j disk_of" where
  "os_Rename er old new d =
     (if er (CRename old new) \<or> mget d old = None \<or> is_dir d new \<or> under old new
         \<or> (is_dir d old \<and> mget d new \<noteq> None) \<or> \<not> is_dir d (dir_of new)
      then (False, d)
      else if old = new then (True, d)
      else (True, map (\<lambda>(p, n). (moved old new p, n)) (mdel new d)))"

definition os_RemoveAll :: "oserr \<Rightarrow> string \<Rightarrow> 'j disk_of \<Rightarrow> bool \<times> 'j disk_of" where
  "os_RemoveAll er p d =
     (if er (CRemoveAll p) then (False, d)
      else (True, filter (\<lambda>(q, n). q \<noteq> p \<and> \<not> under p q) d))"

definition os_Remove :: "oserr \<Rightarrow> string \<Rightarrow> 'j disk_of \<Rightarrow> bool \<times> 'j disk_of" where
  "os_Remove er p d =
     (if er (CRemove p) \<or> mget d p = None \<or> (is_dir d p \<and> list_ex (\<lambda>(q, n). under p q) d)
      then (False, d) else (True, mdel p d))"

datatype 'a os_read = NotExist | ReadErr | Got 'a

text \<open>A path that runs through a file is refused with \<open>ENOTDIR\<close>, which is not \<open>os.IsNotExist\<close>.\<close>

definition through_file :: "'j disk_of \<Rightarrow> string \<Rightarrow> bool" where
  "through_file d p \<longleftrightarrow> list_ex (\<lambda>q. mget d q \<noteq> None \<and> \<not> is_dir d q) (butlast (ancestors p))"

definition os_ReadFile :: "oserr \<Rightarrow> string \<Rightarrow> 'j disk_of \<Rightarrow> 'j file_content os_read" where
  "os_ReadFile er p d =
     (if er (CReadFile p) then ReadErr
      else (case mget d p of
              None \<Rightarrow> (if through_file d p then ReadErr else NotExist)
            | Some DDir \<Rightarrow> ReadErr
            | Some (DFile c) \<Rightarrow> Got c))"

definition os_WriteFile :: "oserr \<Rightarrow> string \<Rightarrow> 'j file_content \<Rightarrow> 'j disk_of \<Rightarrow> bool \<times> 'j disk_of" where
  "os_WriteFile er p c d =
     (if er (CWriteFile p) \<or> is_dir d p \<or> \<not> is_dir d (dir_of p) then (False, d)
      else (True, mput p (DFile c) d))"

text \<open>\<open>os.IsNotExist\<close> of the error of \<open>os.Stat\<close>.\<close>

definition os_stat_not_exist :: "oserr \<Rightarrow> 'j disk_of \<Rightarrow> string \<Rightarrow> bool" where
  "os_stat_not_exist er d p \<longleftrightarrow> \<not> er (CStat p) \<and> mget d p = None \<and> \<not> through_file d p"

text \<open>The bytes of a file; \<open>enc\<close> is the encoding \<^verbatim>\<open>json.Marshal\<close> gives to a document.\<close>

definition content_bytes :: "('j \<Rightarrow> byte list) \<Rightarrow> 'j file_content \<Rightarrow> byte list" where
  "content_bytes enc c = (case c of Raw bs \<Rightarrow> bs | Json j \<Rightarrow> enc j)"

text \<open>Opening a file and reading all of it; a call that fails gives \<open>None\<close>.\<close>

definition os_Open :: "oserr \<Rightarrow> ('j \<Rightarrow> byte list) \<Rightarrow> string \<Rightarrow> 'j disk_of \<Rightarrow> byte list option" where
  "os_Open er enc p d =
     (if er (COpen p) then None
      else (case mget d p of
              Some (DFile c) \<Rightarrow> Some (content_bytes enc c)
            | _ \<Rightarrow> None))"

text \<open>\<open>os.Stat(p).Size()\<close> of a file; a call that fails gives \<open>None\<close>.\<close>

definition os_stat_size :: "oserr \<Rightarrow> ('j \<Rightarrow> byte list) \<Rightarrow> string \<Rightarrow> 'j disk_of \<Rightarrow> u64 option" where
  "os_stat_size er enc p d =
     (if er (CStat p) then None
      else (case mget d p of
              Some (DFile c) \<Rightarrow> Some (word_of_nat (length (content_bytes enc c)))
            | _ \<Rightarrow> None))"

text \<open>
  \<open>WriteAt\<close> at a signed 64-bit offset: a negative offset and an end beyond the largest file offset
  are refused; the gap behind the old end is filled with zeros. A call that fails half way has
  written the first \<open>short\<close> bytes.
\<close>

definition overlay :: "nat \<Rightarrow> byte list \<Rightarrow> byte list \<Rightarrow> byte list" where
  "overlay off dt bs =
     (if dt = [] then bs
      else take off (bs @ replicate (off - length bs) 0) @ dt @ drop (off + length dt) bs)"

definition os_WriteAt :: "oserr \<Rightarrow> ('j \<Rightarrow> byte list) \<Rightarrow> nat \<Rightarrow> string \<Rightarrow> byte list \<Rightarrow> int \<Rightarrow> 'j disk_of \<Rightarrow> bool \<times> 'j disk_of" where
  "os_WriteAt er enc short p dt off d =
     (if off < 0 \<or> 2 ^ 63 \<le> off + int (length dt) then (False, d)
      else (case mget d p of
              Some (DFile c) \<Rightarrow>
                (let bs = content_bytes enc c
                 in if er (CWriteAt p) then (False, mput p (DFile (Raw (overlay (nat off) (take short dt) bs))) d)
                    else if dt = [] then (True, d)
                    else (True, mput p (DFile (Raw (overlay (nat off) dt bs))) d))
            | _ \<Rightarrow> (False, d)))"

text \<open>\<open>os.ReadDir\<close>: the entries of a directory, in the order of their names.\<close>

definition os_ReadDir :: "oserr \<Rightarrow> string \<Rightarrow> 'j disk_of \<Rightarrow> (string \<times> 'j disk_node) list option" where
  "os_ReadDir er p d =
     (if er (CReadDir p) \<or> \<not> is_dir d p then None
      else Some (sort_key fst (map (\<lambda>(q, n). (Base q, n)) (filter (\<lambda>(q, n). q \<noteq> p \<and> dir_of q = p) d))))"

section \<open>Facts about the calls\<close>

lemma drop_under: "under old p \<Longrightarrow> drop (length old) p \<noteq> []"
  by (auto simp: under_def HasPrefix_iff)

lemma moved_eq_new:
  assumes "old \<noteq> new" "p \<noteq> new"
  shows "moved old new p = new \<longleftrightarrow> p = old"
  using assms drop_under [of old p] by (auto simp: moved_def)

lemma mget_map_moved:
  assumes "old \<noteq> new" "mget d new = None"
  shows "mget (map (\<lambda>(p, n). (moved old new p, n)) d) new = mget d old"
  using assms(2)
proof (induction d)
  case Nil
  then show ?case by simp
next
  case (Cons e d)
  obtain p n where e: "e = (p, n)" by (cases e)
  from Cons.prems have "p \<noteq> new" "mget d new = None" by (auto simp: e split: if_splits)
  with Cons.IH moved_eq_new [OF assms(1), of p] show ?case
    by (auto simp: e)
qed

lemma os_Rename_target:
  assumes "os_Rename er old new d = (True, d')" "old \<noteq> new"
  shows "mget d' new = mget d old"
  using assms mget_map_moved [OF assms(2), of "mdel new d"]
  by (auto simp: os_Rename_def split: if_splits)

lemma os_WriteFile_read:
  assumes "os_WriteFile er p c d = (True, d')"
  shows "mget d' p = Some (DFile c)"
  using assms by (auto simp: os_WriteFile_def split: if_splits)

lemma os_Remove_other [simp]: "q \<noteq> p \<Longrightarrow> mget (snd (os_Remove er p d)) q = mget d q"
  by (simp add: os_Remove_def)

section \<open>Offsets and writes\<close>

lemma sint_u64: "sint (w :: u64) = (if uint w < 2 ^ 63 then uint w else uint w - 2 ^ 64)"
proof -
  have sint: "sint w = (uint w + 2 ^ 63) mod 2 ^ 64 - 2 ^ 63"
    by (simp add: sint_uint signed_take_bit_eq_take_bit_shift take_bit_eq_mod)
  have range: "0 \<le> uint w" "uint w < 2 ^ 64" using uint_lt2p [of w] by simp_all
  show ?thesis
  proof (cases "uint w < 2 ^ 63")
    case True
    with range have "(uint w + 2 ^ 63) mod 2 ^ 64 = uint w + 2 ^ 63" by (intro mod_pos_pos_trivial) simp_all
    with sint True show ?thesis by simp
  next
    case False
    have "(uint w + 2 ^ 63) mod 2 ^ 64 = (uint w + 2 ^ 63 - 2 ^ 64) mod 2 ^ 64" by (rule minus_mod_self2 [symmetric])
    also have "\<dots> = uint w + 2 ^ 63 - 2 ^ 64" using range False by (intro mod_pos_pos_trivial) simp_all
    finally show ?thesis using sint False by simp
  qed
qed

lemma sint_nonneg_unat: "0 \<le> sint (w :: u64) \<Longrightarrow> sint w = int (unat w)"
  using uint_lt2p [of w] by (auto simp: sint_u64 split: if_splits)

lemma overlay_length: "dt \<noteq> [] \<Longrightarrow> length (overlay off dt bs) = max (length bs) (off + length dt)"
  by (auto simp: overlay_def max_def)

lemma overlay_read: "dt \<noteq> [] \<Longrightarrow> take (length dt) (drop off (overlay off dt bs)) = dt"
  by (simp add: overlay_def)

lemma os_WriteAt_okD:
  assumes w: "os_WriteAt er enc short p dt (sint (off :: u64)) d = (True, d')"
  shows "unat off + length dt < 2 ^ 63"
    and "\<exists>c. mget d p = Some (DFile c) \<and>
           (dt \<noteq> [] \<longrightarrow> mget d' p = Some (DFile (Raw (overlay (unat off) dt (content_bytes enc c)))))"
proof -
  have nn: "0 \<le> sint off" "sint off + int (length dt) < 2 ^ 63"
    using w by (auto simp: os_WriteAt_def split: if_splits)
  note eq = sint_nonneg_unat [OF nn(1)]
  with nn(2) have "int (unat off + length dt) < int (2 ^ 63)" by simp
  then show "unat off + length dt < 2 ^ 63" by linarith
  show "\<exists>c. mget d p = Some (DFile c) \<and>
           (dt \<noteq> [] \<longrightarrow> mget d' p = Some (DFile (Raw (overlay (unat off) dt (content_bytes enc c)))))"
    using w nn by (auto simp: os_WriteAt_def eq Let_def split: option.splits disk_node.splits if_splits)
qed

lemma unat_u64_less: "unat (w :: u64) < 2 ^ 64"
proof -
  have "int (unat w) < int (2 ^ 64)" using uint_lt2p [of w] by simp
  then show ?thesis by (simp only: of_nat_less_iff)
qed

lemma unat_small: "n < 2 ^ 63 \<Longrightarrow> unat (word_of_nat n :: u64) = n"
  by (simp add: unat_of_nat)

lemma sint_small: "n < 2 ^ 63 \<Longrightarrow> sint (word_of_nat n :: u64) = int n"
  using unat_small [of n] by (simp add: sint_u64 uint_nat)

end
