(* ===== verification/Inode_Store.thy ===== *)
theory Inode_Store
  imports Disk
begin

text \<open>
  The persistent path index of a fileserver (\<^verbatim>\<open>internal/fileserver/inodestore.go\<close>): inode numbers by
  relative path, saved as \<^verbatim>\<open>.dvfs_inodes_index.json\<close>. \<open>RenamePrefix\<close> ranges over the map while it
  changes it; Go then visits every entry present at the start and may or may not visit the entries
  inserted meanwhile, so the model runs the loop body over an arbitrary sequence of visited keys.
\<close>

record inode_index =
  NextInodeID :: u64
  PathToID :: "(string, u64) gomap"

record inode_store =
  store_rootDir :: string
  store_indexPath :: string
  store_data :: inode_index

definition inodeIndexFilename :: string where
  "inodeIndexFilename = ''.dvfs_inodes_index.json''"

definition normalizePath :: "string \<Rightarrow> string" where
  "normalizePath p =
     (let p1 = ReplaceByte p backslash slash;
          clean = Clean p1;
          clean1 = TrimPrefix clean ''./'';
          clean2 = TrimPrefix clean1 ''/''
      in clean2)"

datatype store_error = IndexReadError | MarshalError | IndexWriteError | IndexRenameError

definition store_load :: "oserr \<Rightarrow> disk \<Rightarrow> inode_store \<Rightarrow> store_error + inode_store" where
  "store_load er d s =
     (case os_ReadFile er (store_indexPath s) d of
        NotExist \<Rightarrow> Inr s
      | ReadErr \<Rightarrow> Inl IndexReadError
      | Got (Raw _) \<Rightarrow> Inr s
      | Got (Json (JIndex n m)) \<Rightarrow>
          Inr (s\<lparr>store_data := \<lparr>NextInodeID = n, PathToID = (case m of None \<Rightarrow> [] | Some m' \<Rightarrow> m')\<rparr>\<rparr>)
      | Got (Json _) \<Rightarrow> Inr (s\<lparr>store_data := \<lparr>NextInodeID = 0, PathToID = []\<rparr>\<rparr>))"

definition NewInodeStore :: "oserr \<Rightarrow> disk \<Rightarrow> string \<Rightarrow> store_error + inode_store" where
  "NewInodeStore er d rootDir =
     store_load er d
       \<lparr>store_rootDir = rootDir, store_indexPath = Join [rootDir, inodeIndexFilename],
        store_data = \<lparr>NextInodeID = 0, PathToID = []\<rparr>\<rparr>"

definition GetOrAssign :: "string \<Rightarrow> inode_store \<Rightarrow> u64 \<times> inode_store" where
  "GetOrAssign relPath s =
     (let norm = normalizePath relPath; dt = store_data s
      in case mget (PathToID dt) norm of
           Some i \<Rightarrow> (i, s)
         | None \<Rightarrow>
             (let i = NextInodeID dt
              in (i, s\<lparr>store_data := dt\<lparr>NextInodeID := i + 1, PathToID := mput norm i (PathToID dt)\<rparr>\<rparr>)))"

definition store_Get :: "string \<Rightarrow> inode_store \<Rightarrow> u64 option" where
  "store_Get relPath s = mget (PathToID (store_data s)) (normalizePath relPath)"

definition store_Remove :: "string \<Rightarrow> inode_store \<Rightarrow> inode_store" where
  "store_Remove relPath s =
     s\<lparr>store_data := (store_data s)\<lparr>PathToID := mdel (normalizePath relPath) (PathToID (store_data s))\<rparr>\<rparr>"

text \<open>The loop body of \<open>RenamePrefix\<close> for one visited key; a key no longer in the map is skipped, as Go
  skips entries removed before they are reached.\<close>

definition rename_visit :: "string \<Rightarrow> string \<Rightarrow> string \<Rightarrow> (string, u64) gomap \<Rightarrow> (string, u64) gomap" where
  "rename_visit normOld normNew path m =
     (case mget m path of
        None \<Rightarrow> m
      | Some i \<Rightarrow>
          if path = normOld then mput normNew i (mdel path m)
          else if HasPrefix path (normOld @ ''/'') then
            mput (normNew @ ''/'' @ TrimPrefix path (normOld @ ''/'')) i (mdel path m)
          else m)"

definition RenamePrefix_visiting :: "string list \<Rightarrow> string \<Rightarrow> string \<Rightarrow> inode_store \<Rightarrow> inode_store" where
  "RenamePrefix_visiting visits oldPrefix newPrefix s =
     (let normOld = normalizePath oldPrefix; normNew = normalizePath newPrefix
      in if normOld = [] \<or> normNew = [] \<or> normOld = normNew then s
         else s\<lparr>store_data := (store_data s)\<lparr>PathToID :=
                  fold (rename_visit normOld normNew) visits (PathToID (store_data s))\<rparr>\<rparr>)"

definition RenamePrefix :: "string \<Rightarrow> string \<Rightarrow> inode_store \<Rightarrow> inode_store" where
  "RenamePrefix oldPrefix newPrefix s =
     RenamePrefix_visiting (mkeys (PathToID (store_data s))) oldPrefix newPrefix s"

definition store_NextInodeID :: "inode_store \<Rightarrow> u64" where
  "store_NextInodeID s = NextInodeID (store_data s)"

definition store_Save :: "oserr \<Rightarrow> disk \<Rightarrow> inode_store \<Rightarrow> (store_error option) \<times> disk" where
  "store_Save er d s =
     (let tmpPath = store_indexPath s @ ''.tmp'';
          doc = Json (JIndex (NextInodeID (store_data s)) (Some (PathToID (store_data s))))
      in case os_WriteFile er tmpPath doc d of
           (False, d1) \<Rightarrow> (Some IndexWriteError, d1)
         | (True, d1) \<Rightarrow>
             (let d2 = snd (os_Remove er (store_indexPath s) d1)
              in case os_Rename er tmpPath (store_indexPath s) d2 of
                   (False, d3) \<Rightarrow> (Some IndexRenameError, d3)
                 | (True, d3) \<Rightarrow> (None, d3)))"

section \<open>The allocator contract\<close>

text \<open>
  What the fileserver relies on when it asks for the number of a path: a look-up never changes,
  a new path gets a number no path has ever had, and no operation gives a number back.
\<close>

locale id_allocator =
  fixes assign :: "'p \<Rightarrow> 's \<Rightarrow> 'i \<times> 's"
    and ids :: "'s \<Rightarrow> 'p \<rightharpoonup> 'i"
    and used :: "'s \<Rightarrow> 'i set"
    and inv :: "'s \<Rightarrow> bool"
    and room :: "'s \<Rightarrow> bool"
    and key :: "'p \<Rightarrow> 'p"
  assumes assign_known: "ids s (key p) = Some i \<Longrightarrow> assign p s = (i, s)"
    and assign_new: "inv s \<Longrightarrow> room s \<Longrightarrow> ids s (key p) = None \<Longrightarrow>
      fst (assign p s) \<notin> used s \<and> ids (snd (assign p s)) = (ids s)(key p \<mapsto> fst (assign p s))
      \<and> used (snd (assign p s)) = insert (fst (assign p s)) (used s)"
    and inv_assign: "inv s \<Longrightarrow> room s \<Longrightarrow> inv (snd (assign p s))"
    and ids_used: "inv s \<Longrightarrow> ids s q = Some i \<Longrightarrow> i \<in> used s"
    and ids_inj: "inv s \<Longrightarrow> ids s p = Some i \<Longrightarrow> ids s q = Some i \<Longrightarrow> p = q"
begin

lemma assign_stable:
  assumes "inv s" "room s"
  shows "ids (snd (assign p s)) (key p) = Some (fst (assign p s))"
  using assign_known [of s p] assign_new [OF assms, of p] by (cases "ids s (key p)") auto

lemma assign_keeps:
  assumes "inv s" "room s" "ids s q = Some i"
  shows "ids (snd (assign p s)) q = Some i"
  using assign_known [of s p] assign_new [OF assms(1,2), of p] assms(3)
  by (cases "ids s (key p)") auto

lemma assign_used_mono: "inv s \<Longrightarrow> room s \<Longrightarrow> used s \<subseteq> used (snd (assign p s))"
  using assign_known [of s p] assign_new [of s p] by (cases "ids s (key p)") auto

lemma assign_distinct:
  assumes "inv s" "room s" "key p \<noteq> q" "ids s q = Some i"
  shows "fst (assign p s) \<noteq> i"
proof
  assume eq: "fst (assign p s) = i"
  have "ids (snd (assign p s)) (key p) = Some i" using assign_stable [OF assms(1,2), of p] eq by simp
  moreover have "ids (snd (assign p s)) q = Some i" by (rule assign_keeps [OF assms(1,2,4)])
  ultimately show False using ids_inj [OF inv_assign [OF assms(1,2)]] assms(3) by blast
qed

end

definition path_ids :: "inode_store \<Rightarrow> string \<rightharpoonup> u64" where
  "path_ids s = map_of (PathToID (store_data s))"

definition issued_ids :: "inode_store \<Rightarrow> u64 set" where
  "issued_ids s = {i. i < NextInodeID (store_data s)}"

definition store_inv :: "inode_store \<Rightarrow> bool" where
  "store_inv s \<longleftrightarrow>
     gomap_ok (PathToID (store_data s)) \<and> inj_on (path_ids s) (dom (path_ids s)) \<and>
     ran (path_ids s) \<subseteq> issued_ids s"

definition store_room :: "inode_store \<Rightarrow> bool" where
  "store_room s \<longleftrightarrow> NextInodeID (store_data s) < - 1"

lemma store_inv_injD:
  "store_inv s \<Longrightarrow> path_ids s p = Some i \<Longrightarrow> path_ids s q = Some i \<Longrightarrow> p = q"
  unfolding store_inv_def inj_on_def by (metis domI)

lemma GetOrAssign_new:
  assumes "path_ids s (normalizePath p) = None"
  shows "fst (GetOrAssign p s) = NextInodeID (store_data s)"
    "path_ids (snd (GetOrAssign p s)) = (path_ids s)(normalizePath p \<mapsto> NextInodeID (store_data s))"
    "NextInodeID (store_data (snd (GetOrAssign p s))) = NextInodeID (store_data s) + 1"
    "gomap_ok (PathToID (store_data s)) \<Longrightarrow> gomap_ok (PathToID (store_data (snd (GetOrAssign p s))))"
  using assms by (simp_all add: GetOrAssign_def Let_def path_ids_def update_conv' fun_eq_iff)

lemma GetOrAssign_known: "path_ids s (normalizePath p) = Some i \<Longrightarrow> GetOrAssign p s = (i, s)"
  by (simp add: GetOrAssign_def Let_def path_ids_def)

lemma store_inv_assign:
  assumes inv: "store_inv s" and room: "store_room s"
  shows "store_inv (snd (GetOrAssign p s))"
proof (cases "path_ids s (normalizePath p)")
  case (Some i)
  then show ?thesis using inv by (simp add: GetOrAssign_known)
next
  case None
  note new = GetOrAssign_new [OF None]
  let ?n = "NextInodeID (store_data s)"
  have fresh: "?n \<notin> ran (path_ids s)" using inv by (auto simp: store_inv_def issued_ids_def)
  have ran: "ran (path_ids s) \<subseteq> issued_ids s" using inv by (simp add: store_inv_def)
  have n: "i < ?n + 1" if "i < ?n \<or> i = ?n" for i :: u64
    using that room by (simp add: u64_less_Suc store_room_def)
  have "inj_on ((path_ids s)(normalizePath p \<mapsto> ?n)) (dom ((path_ids s)(normalizePath p \<mapsto> ?n)))"
    using inv fresh by (auto simp: store_inv_def inj_on_def ran_def)
  moreover have "ran ((path_ids s)(normalizePath p \<mapsto> ?n)) \<subseteq> {i. i < ?n + 1}"
    using ran n None by (auto simp: issued_ids_def)
  ultimately show ?thesis
    using inv unfolding store_inv_def issued_ids_def new(2,3) by (simp add: new(4))
qed

interpretation path_alloc:
  id_allocator GetOrAssign path_ids issued_ids store_inv store_room normalizePath
proof unfold_locales
  fix s p i
  assume "path_ids s (normalizePath p) = Some i"
  then show "GetOrAssign p s = (i, s)" by (rule GetOrAssign_known)
next
  fix s p
  assume inv: "store_inv s" and room: "store_room s" and none: "path_ids s (normalizePath p) = None"
  note new = GetOrAssign_new [OF none]
  have "issued_ids (snd (GetOrAssign p s)) = insert (NextInodeID (store_data s)) (issued_ids s)"
    using room by (auto simp: issued_ids_def new(3) u64_less_Suc store_room_def)
  moreover have "NextInodeID (store_data s) \<notin> issued_ids s" by (simp add: issued_ids_def)
  ultimately show "fst (GetOrAssign p s) \<notin> issued_ids s
      \<and> path_ids (snd (GetOrAssign p s)) = (path_ids s)(normalizePath p \<mapsto> fst (GetOrAssign p s))
      \<and> issued_ids (snd (GetOrAssign p s)) = insert (fst (GetOrAssign p s)) (issued_ids s)"
    by (simp add: new)
next
  fix s p
  assume "store_inv s" "store_room s"
  then show "store_inv (snd (GetOrAssign p s))" by (rule store_inv_assign)
next
  fix s q i
  assume "store_inv s" "path_ids s q = Some i"
  then show "i \<in> issued_ids s" by (auto simp: store_inv_def ran_def)
next
  fix s p q i
  assume "store_inv s" "path_ids s p = Some i" "path_ids s q = Some i"
  then show "p = q" by (rule store_inv_injD)
qed

section \<open>Renaming a subtree\<close>

text \<open>A key is affected when it is the old prefix or lies below it; \<open>ren\<close> is the intended result.\<close>

definition below :: "string \<Rightarrow> string \<Rightarrow> bool" where
  "below p q \<longleftrightarrow> q = p \<or> HasPrefix q (p @ ''/'')"

definition rebase :: "string \<Rightarrow> string \<Rightarrow> string \<Rightarrow> string" where
  "rebase old new q = new @ drop (length old) q"

definition ren :: "string \<Rightarrow> string \<Rightarrow> (string \<rightharpoonup> 'i) \<Rightarrow> (string \<rightharpoonup> 'i)" where
  "ren old new f q =
     (if below old q then None
      else if below new q then (case f (rebase new old q) of Some i \<Rightarrow> Some i | None \<Rightarrow> f q)
      else f q)"

lemma below_iff: "below p q \<longleftrightarrow> (\<exists>t. q = p @ t \<and> (t = [] \<or> hd t = slash))"
proof
  assume "below p q"
  then show "\<exists>t. q = p @ t \<and> (t = [] \<or> hd t = slash)"
    by (auto simp: below_def HasPrefix_iff intro: exI [of _ "''/'' @ _"])
next
  assume "\<exists>t. q = p @ t \<and> (t = [] \<or> hd t = slash)"
  then obtain t where q: "q = p @ t" and t: "t = [] \<or> hd t = slash" by blast
  then show "below p q"
    by (cases t) (auto simp: below_def HasPrefix_iff)
qed

lemma below_self [simp]: "below p p" by (simp add: below_def)

lemma below_rebase [simp]: "below old q \<Longrightarrow> below new (rebase old new q)"
  by (auto simp: below_iff rebase_def)

lemma rebase_rebase [simp]: "below old q \<Longrightarrow> rebase new old (rebase old new q) = q"
  by (auto simp: below_iff rebase_def)

lemma below_comparable: "below p q \<Longrightarrow> below p' q \<Longrightarrow> below p p' \<or> below p' p"
proof -
  assume "below p q" "below p' q"
  then obtain t t' where "q = p @ t" and t: "t = [] \<or> hd t = slash" and "q = p' @ t'"
    and t': "t' = [] \<or> hd t' = slash"
    unfolding below_iff by blast
  then have "p @ t = p' @ t'" by simp
  then consider us where "p = p' @ us" "us @ t = t'" | us where "p' = p @ us" "us @ t' = t"
    by (auto simp: append_eq_append_conv2)
  then show ?thesis
  proof cases
    case (1 us)
    with t t' show ?thesis by (cases us) (auto simp: below_iff)
  next
    case (2 us)
    with t t' show ?thesis by (cases us) (auto simp: below_iff)
  qed
qed

lemma rename_visit_cases:
  "rename_visit old new k m =
     (case mget m k of
        None \<Rightarrow> m
      | Some i \<Rightarrow> if below old k then mput (rebase old new k) i (mdel k m) else m)"
proof -
  have "new @ ''/'' @ TrimPrefix k (old @ ''/'') = rebase old new k" if "HasPrefix k (old @ ''/'')"
    using that TrimPrefix_append [of "old @ ''/''"] by (auto simp: HasPrefix_iff rebase_def)
  then show ?thesis
    by (auto simp: rename_visit_def below_def rebase_def split: option.splits)
qed

lemma rename_visit_ok: "gomap_ok m \<Longrightarrow> gomap_ok (rename_visit old new k m)"
  by (simp add: rename_visit_cases split: option.splits)

definition apart :: "string \<Rightarrow> string \<Rightarrow> bool" where
  "apart old new \<longleftrightarrow> \<not> below old new \<and> \<not> below new old"

lemma not_below_both: "apart old new \<Longrightarrow> below new q \<Longrightarrow> \<not> below old q"
  unfolding apart_def using below_comparable by blast

lemma ren_visit:
  assumes apart: "apart old new"
  shows "ren old new (map_of (rename_visit old new k m)) = ren old new (map_of m)"
proof (cases "\<exists>i. mget m k = Some i \<and> below old k")
  case False
  then have "rename_visit old new k m = m"
    by (auto simp: rename_visit_cases split: option.splits)
  then show ?thesis by simp
next
  case True
  then obtain i where i: "mget m k = Some i" and k: "below old k" by blast
  let ?t = "rebase old new k"
  have t: "below new ?t" "\<not> below old ?t" using k not_below_both [OF apart] by auto
  have m': "mget (rename_visit old new k m) q = (if q = ?t then Some i else if q = k then None else mget m q)" for q
    using i k by (simp add: rename_visit_cases)
  show ?thesis
  proof
    fix q
    have un: "(rebase new old q = k) = (q = ?t)" if "below new q"
      using rebase_rebase [OF that, of old] rebase_rebase [OF k, of new] by auto
    have "rebase new old q \<noteq> ?t" if "below new q" using that t(2) below_rebase by metis
    with un t k i show "ren old new (map_of (rename_visit old new k m)) q = ren old new (map_of m) q"
      by (auto simp: ren_def m' split: option.splits)
  qed
qed

lemma ren_fold: "apart old new \<Longrightarrow> ren old new (map_of (fold (rename_visit old new) ks m)) = ren old new (map_of m)"
  by (induction ks arbitrary: m) (simp_all add: ren_visit)

lemma visit_removes:
  assumes apart: "apart old new" and "below old q" "mget (rename_visit old new k m) q \<noteq> None"
  shows "mget m q \<noteq> None \<and> q \<noteq> k"
proof -
  have "q \<noteq> rebase old new k" if "below old k"
    using assms(2) below_rebase [OF that, of new] not_below_both [OF apart] by blast
  with assms show ?thesis by (auto simp: rename_visit_cases split: option.splits if_splits)
qed

lemma fold_removes:
  "apart old new \<Longrightarrow> below old q \<Longrightarrow> mget (fold (rename_visit old new) ks m) q \<noteq> None \<Longrightarrow> mget m q \<noteq> None \<and> q \<notin> set ks"
proof (induction ks arbitrary: m)
  case Nil
  then show ?case by simp
next
  case (Cons k ks)
  from Cons.IH [OF Cons.prems(1,2), of "rename_visit old new k m"] Cons.prems(3)
  have "mget (rename_visit old new k m) q \<noteq> None" "q \<notin> set ks" by auto
  with visit_removes [OF Cons.prems(1,2)] show ?case by auto
qed

lemma ren_fixed: "(\<And>q. below old q \<Longrightarrow> f q = None) \<Longrightarrow> ren old new f = f"
  by (auto simp: ren_def fun_eq_iff split: option.splits)

lemma fold_rename:
  assumes apart: "apart old new" and ks: "set (mkeys m) \<subseteq> set ks"
  shows "map_of (fold (rename_visit old new) ks m) = ren old new (map_of m)"
proof -
  have "mget (fold (rename_visit old new) ks m) q = None" if "below old q" for q
    using fold_removes [OF apart that, of ks m] ks mget_keys [of q m] by blast
  then have "ren old new (map_of (fold (rename_visit old new) ks m))
      = map_of (fold (rename_visit old new) ks m)" by (rule ren_fixed)
  with ren_fold [OF apart, of ks m] show ?thesis by simp
qed

lemma rename_visit_data:
  "RenamePrefix_visiting ks a b s = s \<or>
   RenamePrefix_visiting ks a b s = s\<lparr>store_data := (store_data s)\<lparr>PathToID :=
      fold (rename_visit (normalizePath a) (normalizePath b)) ks (PathToID (store_data s))\<rparr>\<rparr>"
  by (simp add: RenamePrefix_visiting_def Let_def)

lemma inj_map_move:
  assumes "inj_on f (dom f)" "f k = Some i"
  shows "inj_on (f(k := None, t \<mapsto> i)) (dom (f(k := None, t \<mapsto> i)))"
  using assms by (auto simp: inj_on_def) (metis domI)+

lemma rename_visit_inj:
  assumes "inj_on (map_of m) (dom (map_of m))"
  shows "inj_on (map_of (rename_visit old new k m)) (dom (map_of (rename_visit old new k m)))
    \<and> ran (map_of (rename_visit old new k m)) \<subseteq> ran (map_of m)"
proof (cases "\<exists>i. mget m k = Some i \<and> below old k")
  case False
  then have "rename_visit old new k m = m"
    by (auto simp: rename_visit_cases split: option.splits)
  with assms show ?thesis by simp
next
  case True
  then obtain i where i: "mget m k = Some i" and k: "below old k" by blast
  have m': "map_of (rename_visit old new k m) = (map_of m)(k := None, rebase old new k \<mapsto> i)"
    using i k by (simp add: rename_visit_cases update_conv' AList.delete_conv')
  have "ran ((map_of m)(k := None, rebase old new k \<mapsto> i)) \<subseteq> ran (map_of m)"
    using i by (auto simp: ran_def)
  with inj_map_move [OF assms i] show ?thesis unfolding m' by blast
qed

lemma fold_rename_inj:
  assumes "gomap_ok m" "inj_on (map_of m) (dom (map_of m))"
  shows "gomap_ok (fold (rename_visit old new) ks m)
    \<and> inj_on (map_of (fold (rename_visit old new) ks m)) (dom (map_of (fold (rename_visit old new) ks m)))
    \<and> ran (map_of (fold (rename_visit old new) ks m)) \<subseteq> ran (map_of m)"
  using assms
proof (induction ks arbitrary: m)
  case Nil
  then show ?case by simp
next
  case (Cons k ks)
  note v = rename_visit_inj [OF Cons.prems(2), of old new k]
  from Cons.IH [OF rename_visit_ok [OF Cons.prems(1), of old new k] conjunct1 [OF v]] v
  show ?case by auto
qed

section \<open>Properties of the path index\<close>

datatype store_op = SAssign string | SRemove string | SRename "string list" string string

fun store_exec :: "store_op \<Rightarrow> inode_store \<Rightarrow> inode_store" where
  "store_exec (SAssign p) s = snd (GetOrAssign p s)"
| "store_exec (SRemove p) s = store_Remove p s"
| "store_exec (SRename ks a b) s = RenamePrefix_visiting ks a b s"

text \<open>Operations run while numbers are left.\<close>

inductive store_step :: "inode_store \<Rightarrow> store_op \<Rightarrow> inode_store \<Rightarrow> bool" where
  store_stepI: "store_room s \<Longrightarrow> store_step s op (store_exec op s)"

inductive_cases store_stepE: "store_step s op t"

lemma store_inv_remove: "store_inv s \<Longrightarrow> store_inv (store_Remove p s)"
proof -
  assume inv: "store_inv s"
  have ids: "path_ids (store_Remove p s) = (path_ids s)(normalizePath p := None)"
    by (simp add: path_ids_def store_Remove_def AList.delete_conv')
  have "inj_on ((path_ids s)(k := None)) (dom ((path_ids s)(k := None)))" for k
    using inv by (auto simp: store_inv_def inj_on_def)
  moreover have "ran ((path_ids s)(k := None)) \<subseteq> ran (path_ids s)" for k
    by (auto simp: ran_def)
  ultimately show ?thesis
    using inv unfolding store_inv_def ids
    by (auto simp: store_Remove_def issued_ids_def)
qed

lemma store_inv_rename: "store_inv s \<Longrightarrow> store_inv (RenamePrefix_visiting ks a b s)"
  using rename_visit_data [of ks a b s]
    fold_rename_inj [of "PathToID (store_data s)" "normalizePath a" "normalizePath b" ks]
  by (auto simp: store_inv_def path_ids_def issued_ids_def) blast

lemma store_exec_inv: "store_room s \<Longrightarrow> store_inv s \<Longrightarrow> store_inv (store_exec op s)"
  by (cases op) (simp_all add: store_inv_assign store_inv_remove store_inv_rename)

interpretation stores: op_system store_step store_inv
  by unfold_locales (auto elim!: store_stepE intro: store_exec_inv)

lemma store_exec_next: "store_room s \<Longrightarrow> NextInodeID (store_data s) \<le> NextInodeID (store_data (store_exec op s))"
proof (cases op)
  case (SAssign p)
  assume room: "store_room s"
  have "(n :: u64) < - 1 \<Longrightarrow> n \<le> n + 1" for n by uint_arith
  with room SAssign show ?thesis
    by (simp add: GetOrAssign_def Let_def store_room_def split: option.splits)
next
  case (SRename ks a b)
  then show ?thesis using rename_visit_data [of ks a b s] by auto
qed (simp add: store_Remove_def)

lemma store_reaches_next:
  "reaches store_step s t \<Longrightarrow> NextInodeID (store_data s) \<le> NextInodeID (store_data t)"
proof (induction rule: reaches.induct)
  case (reaches_step s t op u)
  then show ?case by (auto elim!: store_stepE intro: order_trans store_exec_next)
qed simp

text \<open>C7. Inode numbers are unique and never recycled: in any run of assignments, removals and renames
  (while numbers are left), two paths never share a number, and the number a new path gets is one that had
  not been issued at any earlier point of the run, even if the path that carried it was removed.\<close>

theorem inode_ids_never_recycled:
  assumes inv: "store_inv s0" and r1: "reaches store_step s0 s1" and r2: "reaches store_step s1 s2"
    and room: "store_room s2"
  shows "(\<forall>p q i. path_ids s2 p = Some i \<and> path_ids s2 q = Some i \<longrightarrow> p = q)
    \<and> (\<forall>p. path_ids s2 (normalizePath p) = None \<longrightarrow>
          fst (GetOrAssign p s2) \<notin> issued_ids s1 \<and> store_Get p (snd (GetOrAssign p s2)) = Some (fst (GetOrAssign p s2)))"
proof -
  have inv2: "store_inv s2" by (rule stores.reaches_inv [OF r2 stores.reaches_inv [OF r1 inv]])
  have mono: "issued_ids s1 \<subseteq> issued_ids s2"
    using store_reaches_next [OF r2] by (auto simp: issued_ids_def)
  have "fst (GetOrAssign p s2) \<notin> issued_ids s1" if "path_ids s2 (normalizePath p) = None" for p
    using path_alloc.assign_new [OF inv2 room that] mono by blast
  moreover have "store_Get p (snd (GetOrAssign p s2)) = Some (fst (GetOrAssign p s2))" for p
    using path_alloc.assign_stable [OF inv2 room] by (simp add: store_Get_def path_ids_def)
  ultimately show ?thesis using path_alloc.ids_inj [OF inv2] by blast
qed

definition empty_store :: inode_store where
  "empty_store = \<lparr>store_rootDir = ''data'', store_indexPath = ''data/x'',
     store_data = \<lparr>NextInodeID = 0, PathToID = []\<rparr>\<rparr>"

lemma empty_store_facts: "store_inv empty_store" "store_room empty_store"
  by (simp_all add: empty_store_def store_inv_def store_room_def path_ids_def)

theorem inode_ids_never_recycled_witness:
  "fst (GetOrAssign ''b'' (store_exec (SRemove ''a'') (store_exec (SAssign ''a'') empty_store)))
     \<notin> issued_ids (store_exec (SAssign ''a'') empty_store)"
proof -
  let ?s1 = "store_exec (SAssign ''a'') empty_store"
  let ?s2 = "store_exec (SRemove ''a'') ?s1"
  have norm: "normalizePath ''a'' = ''a''" "normalizePath ''b'' = ''b''" by code_simp+
  have room: "store_room ?s1" "store_room ?s2"
    by (simp_all add: empty_store_def store_room_def GetOrAssign_def store_Remove_def Let_def)
  have r1: "reaches store_step empty_store ?s1"
    using reaches_refl store_stepI [OF empty_store_facts(2)] by (rule reaches_step)
  have r2: "reaches store_step ?s1 ?s2"
    using reaches_refl store_stepI [OF room(1)] by (rule reaches_step)
  have none: "path_ids ?s2 (normalizePath ''b'') = None"
    by (simp add: empty_store_def path_ids_def GetOrAssign_def store_Remove_def Let_def norm)
  from inode_ids_never_recycled [OF empty_store_facts(1) r1 r2 room(2)] none show ?thesis by blast
qed

text \<open>C8. \<open>RenamePrefix\<close> moves the whole subtree and nothing else, whatever entries Go's iteration
  visits beyond those present at the start and in whatever order: every path below the old prefix is gone,
  every path below the new one carries the number its old counterpart had, and all other paths keep
  theirs.\<close>

theorem RenamePrefix_any_order:
  assumes apart: "apart (normalizePath a) (normalizePath b)"
    and nonempty: "normalizePath a \<noteq> []" "normalizePath b \<noteq> []"
    and visits: "set (mkeys (PathToID (store_data s))) \<subseteq> set ks"
  shows "path_ids (RenamePrefix_visiting ks a b s) = ren (normalizePath a) (normalizePath b) (path_ids s)
    \<and> store_NextInodeID (RenamePrefix_visiting ks a b s) = store_NextInodeID s"
proof -
  have "normalizePath a \<noteq> normalizePath b" using apart by (auto simp: apart_def)
  with nonempty fold_rename [OF apart visits] show ?thesis
    by (simp add: RenamePrefix_visiting_def Let_def path_ids_def store_NextInodeID_def)
qed

theorem RenamePrefix_any_order_witness:
  "path_ids (RenamePrefix_visiting [''u/x/y'', ''u/.trash/x'', ''u/x'', ''u/x/y''] ''u/x'' ''u/.trash/x''
     (empty_store\<lparr>store_data := \<lparr>NextInodeID = 9, PathToID = [(''u/x'', 3), (''u/x/y'', 4)]\<rparr>\<rparr>)) ''u/.trash/x/y''
   = Some 4"
proof -
  let ?s = "empty_store\<lparr>store_data := \<lparr>NextInodeID = 9, PathToID = [(''u/x'', 3), (''u/x/y'', 4)]\<rparr>\<rparr>"
  have norm: "normalizePath ''u/x'' = ''u/x''" "normalizePath ''u/.trash/x'' = ''u/.trash/x''"
    by code_simp+
  have ap: "apart (normalizePath ''u/x'') (normalizePath ''u/.trash/x'')"
    unfolding norm by (simp add: apart_def below_def HasPrefix_def)
  have ks: "set (mkeys (PathToID (store_data ?s))) \<subseteq> set [''u/x/y'', ''u/.trash/x'', ''u/x'', ''u/x/y'']"
    by (simp add: mkeys_def)
  have "path_ids (RenamePrefix_visiting [''u/x/y'', ''u/.trash/x'', ''u/x'', ''u/x/y''] ''u/x'' ''u/.trash/x'' ?s)
      = ren ''u/x'' ''u/.trash/x'' (path_ids ?s)"
    using RenamePrefix_any_order [OF ap _ _ ks] by (simp add: norm)
  then show ?thesis
    by (simp add: ren_def below_def rebase_def HasPrefix_def path_ids_def)
qed

text \<open>What \<open>Save\<close> wrote is what the next start of the server loads: numbering and paths survive a
  restart.\<close>

theorem save_load_roundtrip:
  assumes save: "store_Save er d s = (None, d')"
    and read: "\<not> er' (CReadFile (store_indexPath s))"
    and idx: "store_indexPath s0 = store_indexPath s"
  shows "store_load er' d' s0 = Inr (s0\<lparr>store_data := store_data s\<rparr>)"
proof -
  let ?tmp = "store_indexPath s @ ''.tmp''"
  let ?doc = "Json (JIndex (NextInodeID (store_data s)) (Some (PathToID (store_data s))))"
  from save obtain d1 where d1: "os_WriteFile er ?tmp ?doc d = (True, d1)"
    and d': "os_Rename er ?tmp (store_indexPath s) (snd (os_Remove er (store_indexPath s) d1)) = (True, d')"
    by (auto simp: store_Save_def Let_def split: prod.splits bool.splits)
  have "mget d' (store_indexPath s) = mget (snd (os_Remove er (store_indexPath s) d1)) ?tmp"
    by (rule os_Rename_target [OF d']) simp
  also have "\<dots> = Some (DFile ?doc)" using os_WriteFile_read [OF d1] by simp
  finally show ?thesis using read by (simp add: store_load_def os_ReadFile_def idx)
qed

theorem save_load_roundtrip_witness:
  "store_load (\<lambda>_. False)
     (snd (store_Save (\<lambda>_. False) [(''data'', DDir)] (snd (GetOrAssign ''u'' empty_store)))) empty_store
   = Inr (snd (GetOrAssign ''u'' empty_store))"
proof -
  let ?s = "snd (GetOrAssign ''u'' empty_store)"
  have dirs: "dir_of ''data/x.tmp'' = ''data''" "dir_of ''data/x'' = ''data''" by code_simp+
  have idx: "store_indexPath ?s = ''data/x''" "store_indexPath empty_store = ''data/x''"
    "empty_store\<lparr>store_data := store_data ?s\<rparr> = ?s"
    by (simp_all add: empty_store_def GetOrAssign_def Let_def)
  have "fst (store_Save (\<lambda>_. False) [(''data'', DDir)] ?s) = None"
    by (simp add: store_Save_def idx os_WriteFile_def os_Remove_def os_Rename_def is_dir_def dirs Let_def
        under_def HasPrefix_def)
  then have "store_Save (\<lambda>_. False) [(''data'', DDir)] ?s
      = (None, snd (store_Save (\<lambda>_. False) [(''data'', DDir)] ?s))" by (metis prod.collapse)
  from save_load_roundtrip [OF this, of "\<lambda>_. False" empty_store] show ?thesis
    using idx by simp
qed

text \<open>A defect against the comment "writes the current inode index to disk atomically": \<open>Save\<close> removes
  the old index before it renames the new one into place, so when the rename does not happen (an error, or a
  crash at that point) there is no index at all, and the next start numbers every path afresh from 0.\<close>

theorem save_not_atomic:
  assumes wr: "fst (os_WriteFile er (store_indexPath s @ ''.tmp'') c d)"
    and rm: "\<not> er (CRemove (store_indexPath s))"
    and old: "mget d (store_indexPath s) = Some (DFile c0)"
    and dirs: "\<forall>q\<in>set (butlast (ancestors (store_indexPath s))). is_dir d q"
    and ren: "er (CRename (store_indexPath s @ ''.tmp'') (store_indexPath s))"
    and read: "\<not> er' (CReadFile (store_indexPath s))"
  shows "fst (store_Save er d s) = Some IndexRenameError
    \<and> store_load er' (snd (store_Save er d s)) (s\<lparr>store_data := \<lparr>NextInodeID = 0, PathToID = []\<rparr>\<rparr>)
        = Inr (s\<lparr>store_data := \<lparr>NextInodeID = 0, PathToID = []\<rparr>\<rparr>)"
proof -
  let ?p = "store_indexPath s" and ?doc = "Json (JIndex (NextInodeID (store_data s)) (Some (PathToID (store_data s))))"
  have w: "os_WriteFile er (?p @ ''.tmp'') ?doc d = (True, mput (?p @ ''.tmp'') (DFile ?doc) d)"
    using wr by (auto simp: os_WriteFile_def split: if_splits)
  have rmv: "os_Remove er ?p (mput (?p @ ''.tmp'') (DFile ?doc) d) = (True, mdel ?p (mput (?p @ ''.tmp'') (DFile ?doc) d))"
    using rm old by (simp add: os_Remove_def is_dir_def)
  have rn: "os_Rename er (?p @ ''.tmp'') ?p d2 = (False, d2)" for d2
    using ren by (simp add: os_Rename_def)
  have nodir: "\<not> is_dir d (?p @ ''.tmp'')" using wr by (auto simp: os_WriteFile_def split: if_splits)
  have "\<not> through_file (mdel ?p (mput (?p @ ''.tmp'') (DFile ?doc) d)) ?p"
    using dirs old nodir by (auto simp: through_file_def list_ex_iff is_dir_def)
  then show ?thesis
    using read by (simp add: store_Save_def Let_def w rmv rn store_load_def os_ReadFile_def)
qed

theorem save_not_atomic_witness:
  "fst (store_Save (\<lambda>c. c = CRename ''data/x.tmp'' ''data/x'') [(''data'', DDir), (''data/x'', DFile (Raw []))] empty_store)
   = Some IndexRenameError"
proof -
  let ?er = "\<lambda>c. c = CRename ''data/x.tmp'' ''data/x''"
  let ?d = "[(''data'', DDir), (''data/x'', DFile (Raw []))]"
  have dirs: "dir_of ''data/x.tmp'' = ''data''" by code_simp
  have idx: "store_indexPath empty_store = ''data/x''" by (simp add: empty_store_def)
  have wr: "fst (os_WriteFile ?er (store_indexPath empty_store @ ''.tmp'') (Raw []) ?d)"
    by (simp add: idx os_WriteFile_def is_dir_def dirs)
  have anc: "butlast (ancestors ''data/x'') = [''data'']" by code_simp
  show ?thesis
    using save_not_atomic [OF wr, where er' = "\<lambda>_. False"] by (simp add: idx anc is_dir_def)
qed

end
