(* ===== verification/Inode_Tree.thy ===== *)
theory Inode_Tree
  imports Disk
begin

text \<open>
  The data of \<^verbatim>\<open>internal/domain/types.go\<close> and the inode tree a fileserver keeps in memory.

  The code stores \<^verbatim>\<open>*Inode\<close> pointers in a map keyed by \<open>FID.String()\<close> and links them by
  \<open>Parent\<close> pointers and \<open>Children\<close> FIDs. Here an inode is addressed by its FID in both directions;
  \<open>FID_String_inj\<close> shows that the map key determines the FID, so the map is keyed by the FID itself.

  Walks along the tree are the same in every operation: up the parents to the root
  (\<open>up_chain\<close>) and down the children (\<open>dfs\<close> in pre-order, \<open>dfs_post\<close> in post-order). A malformed
  tree could make the code loop, so the walks take fuel and give \<open>None\<close> when it runs out; on a
  well-formed tree the number of inodes is enough fuel.
\<close>

section \<open>Domain types\<close>

record fid =
  FileServerID :: string
  InodeID :: u64
  GenerationNumber :: u64

definition FID_String :: "fid \<Rightarrow> string" where
  "FID_String f = FileServerID f @ ''_'' @ dec (unat (InodeID f)) @ ''_'' @ dec (unat (GenerationNumber f))"

datatype inode_type = InodeTypeFile | InodeTypeDirectory

definition InodeType_String :: "inode_type \<Rightarrow> string" where
  "InodeType_String t = (case t of InodeTypeFile \<Rightarrow> ''file'' | InodeTypeDirectory \<Rightarrow> ''directory'')"

record acl =
  Owner :: string
  SharedWith :: "string list"

record inode =
  FID :: fid
  Type :: inode_type
  Name :: string
  OSPath :: string
  ACL :: acl
  Children :: "fid list"
  Size :: u64
  Parent :: "fid option"

type_synonym inodes = "(fid, inode) gomap"

lemma last_sep_unique:
  assumes "a @ c # x = b @ c # y" "c \<notin> set x" "c \<notin> set y"
  shows "a = b \<and> x = y"
  using assms
proof (induction a arbitrary: b)
  case Nil
  then show ?case by (cases b) auto
next
  case (Cons e a)
  then show ?case by (cases b) auto
qed

lemma FID_String_inj: "FID_String f = FID_String g \<longleftrightarrow> f = g"
proof
  assume eq: "FID_String f = FID_String g"
  have split: "FID_String h = (FileServerID h @ ''_'' @ dec (unat (InodeID h))) @ CHR ''_'' # dec (unat (GenerationNumber h))" for h
    by (simp add: FID_String_def)
  from last_sep_unique [OF eq [unfolded split] underscore_notin_dec underscore_notin_dec]
  have outer: "FileServerID f @ CHR ''_'' # dec (unat (InodeID f)) = FileServerID g @ CHR ''_'' # dec (unat (InodeID g))"
    and gen: "dec (unat (GenerationNumber f)) = dec (unat (GenerationNumber g))" by simp_all
  from last_sep_unique [OF outer underscore_notin_dec underscore_notin_dec] gen
  show "f = g" by (intro fid.equality) (auto simp: dec_inj dest: unsigned_word_eqI)
qed simp

section \<open>Walking up\<close>

text \<open>The inodes from one up to its root: \<open>for n.Parent != nil && n.Parent != n\<close>.\<close>

fun up_chain :: "nat \<Rightarrow> inodes \<Rightarrow> fid \<Rightarrow> fid list option" where
  "up_chain 0 I f = None"
| "up_chain (Suc k) I f =
     (case mget I f of
        None \<Rightarrow> Some []
      | Some n \<Rightarrow>
          (case Parent n of
             None \<Rightarrow> Some [f]
           | Some p \<Rightarrow> if p = f then Some [f] else map_option (Cons f) (up_chain k I p)))"

section \<open>Walking down\<close>

fun opt_concat :: "'a list option list \<Rightarrow> 'a list option" where
  "opt_concat [] = Some []"
| "opt_concat (None # xs) = None"
| "opt_concat (Some x # xs) = map_option (append x) (opt_concat xs)"

text \<open>\<open>collectSubtreeInodes\<close>: the inode, then the subtrees of its children that exist.\<close>

fun dfs :: "nat \<Rightarrow> inodes \<Rightarrow> fid \<Rightarrow> fid list option" where
  "dfs 0 I f = None"
| "dfs (Suc k) I f =
     (case mget I f of
        None \<Rightarrow> Some []
      | Some n \<Rightarrow>
          (if Type n \<noteq> InodeTypeDirectory then Some [f]
           else map_option (Cons f) (opt_concat (map (dfs k I) (Children n)))))"

text \<open>\<open>collectInodesToDelete\<close>: the subtrees below an inode, children before parents, without the inode.\<close>

fun dfs_post :: "nat \<Rightarrow> inodes \<Rightarrow> fid \<Rightarrow> fid list option" where
  "dfs_post 0 I f = None"
| "dfs_post (Suc k) I f =
     (case mget I f of
        None \<Rightarrow> Some []
      | Some n \<Rightarrow>
          opt_concat (map (\<lambda>c. case mget I c of
              None \<Rightarrow> Some []
            | Some m \<Rightarrow>
                (if Type m = InodeTypeDirectory \<and> Children m \<noteq> []
                 then map_option (\<lambda>xs. xs @ [c]) (dfs_post k I c)
                 else Some [c])) (Children n)))"

section \<open>Well-formed trees\<close>

definition tree_ok :: "inodes \<Rightarrow> bool" where
  "tree_ok I \<longleftrightarrow> gomap_ok I
     \<and> (\<forall>f n. mget I f = Some n \<longrightarrow> FID n = f)
     \<and> (\<forall>f n. mget I f = Some n \<longrightarrow> (\<exists>p m. Parent n = Some p \<and> mget I p = Some m \<and> (p \<noteq> f \<longrightarrow> f \<in> set (Children m))))
     \<and> (\<forall>f n c. mget I f = Some n \<and> c \<in> set (Children n) \<longrightarrow>
          c \<noteq> f \<and> (\<exists>m. mget I c = Some m \<and> Parent m = Some f))
     \<and> (\<forall>f n. mget I f = Some n \<longrightarrow> distinct (Children n) \<and> (Type n = InodeTypeFile \<longrightarrow> Children n = []))
     \<and> (\<exists>rank. \<forall>f n p. mget I f = Some n \<and> Parent n = Some p \<and> p \<noteq> f \<longrightarrow> (rank p :: nat) < rank f)"

inductive below_in :: "inodes \<Rightarrow> fid \<Rightarrow> fid \<Rightarrow> bool" for I where
  below_refl: "mget I f = Some n \<Longrightarrow> below_in I f f"
| below_step: "below_in I f g \<Longrightarrow> mget I g = Some n \<Longrightarrow> c \<in> set (Children n) \<Longrightarrow> mget I c = Some m \<Longrightarrow> below_in I f c"

lemma tree_okD:
  assumes "tree_ok I"
  shows "gomap_ok I"
    and "mget I f = Some n \<Longrightarrow> FID n = f"
    and "mget I f = Some n \<Longrightarrow> \<exists>p m. Parent n = Some p \<and> mget I p = Some m \<and> (p \<noteq> f \<longrightarrow> f \<in> set (Children m))"
    and "mget I f = Some n \<Longrightarrow> c \<in> set (Children n) \<Longrightarrow> c \<noteq> f \<and> (\<exists>m. mget I c = Some m \<and> Parent m = Some f)"
    and "mget I f = Some n \<Longrightarrow> distinct (Children n)"
    and "mget I f = Some n \<Longrightarrow> Type n = InodeTypeFile \<Longrightarrow> Children n = []"
proof -
  note ok = assms [unfolded tree_ok_def]
  show "gomap_ok I" using ok by blast
  show "mget I f = Some n \<Longrightarrow> FID n = f" using ok by blast
  show "mget I f = Some n \<Longrightarrow> \<exists>p m. Parent n = Some p \<and> mget I p = Some m \<and> (p \<noteq> f \<longrightarrow> f \<in> set (Children m))"
    using ok by blast
  show "mget I f = Some n \<Longrightarrow> c \<in> set (Children n) \<Longrightarrow> c \<noteq> f \<and> (\<exists>m. mget I c = Some m \<and> Parent m = Some f)"
    using ok by blast
  show "mget I f = Some n \<Longrightarrow> distinct (Children n)" using ok by blast
  show "mget I f = Some n \<Longrightarrow> Type n = InodeTypeFile \<Longrightarrow> Children n = []" using ok by blast
qed

lemma tree_rank:
  assumes "tree_ok I"
  obtains rank :: "fid \<Rightarrow> nat" where
    "\<And>f n p. mget I f = Some n \<Longrightarrow> Parent n = Some p \<Longrightarrow> p \<noteq> f \<Longrightarrow> rank p < rank f"
    "\<And>f n c. mget I f = Some n \<Longrightarrow> c \<in> set (Children n) \<Longrightarrow> rank f < rank c"
proof -
  from assms obtain rank :: "fid \<Rightarrow> nat" where
    r: "\<forall>f n p. mget I f = Some n \<and> Parent n = Some p \<and> p \<noteq> f \<longrightarrow> rank p < rank f"
    unfolding tree_ok_def by blast
  have "rank f < rank c" if "mget I f = Some n" "c \<in> set (Children n)" for f n c
    using tree_okD(4) [OF assms that] r by metis
  with r that show thesis by blast
qed

lemma tree_rank_down:
  assumes "tree_ok I"
  shows "\<exists>rank :: fid \<Rightarrow> nat. \<forall>f n c. mget I f = Some n \<longrightarrow> c \<in> set (Children n) \<longrightarrow> rank f < rank c"
proof (rule tree_rank [OF assms])
  fix rank :: "fid \<Rightarrow> nat"
  assume "\<And>f n c. mget I f = Some n \<Longrightarrow> c \<in> set (Children n) \<Longrightarrow> rank f < rank c"
  then show ?thesis by blast
qed

text \<open>Fuel: from an inode, at most as many steps as there are inodes ranked above (below) it.\<close>

definition above_in :: "inodes \<Rightarrow> (fid \<Rightarrow> nat) \<Rightarrow> fid \<Rightarrow> nat" where
  "above_in I rank f = card {g \<in> dom (mget I). rank g \<le> rank f}"

definition deeper :: "inodes \<Rightarrow> (fid \<Rightarrow> nat) \<Rightarrow> fid \<Rightarrow> nat" where
  "deeper I rank f = card {g \<in> dom (mget I). rank f \<le> rank g}"

lemma above_less:
  assumes "mget I f = Some n" "rank p < rank f" shows "above_in I rank p < above_in I rank f"
proof -
  have "f \<in> {g \<in> dom (mget I). rank g \<le> rank f}" "f \<notin> {g \<in> dom (mget I). rank g \<le> rank p}" using assms by auto
  moreover have "{g \<in> dom (mget I). rank g \<le> rank p} \<subseteq> {g \<in> dom (mget I). rank g \<le> rank f}" using assms(2) by auto
  ultimately show ?thesis unfolding above_in_def by (intro psubset_card_mono) (auto simp: finite_dom_map_of)
qed

lemma deeper_less:
  assumes "mget I f = Some n" "rank f < rank c" shows "deeper I rank c < deeper I rank f"
proof -
  have "f \<in> {g \<in> dom (mget I). rank f \<le> rank g}" "f \<notin> {g \<in> dom (mget I). rank c \<le> rank g}" using assms by auto
  moreover have "{g \<in> dom (mget I). rank c \<le> rank g} \<subseteq> {g \<in> dom (mget I). rank f \<le> rank g}" using assms(2) by auto
  ultimately show ?thesis unfolding deeper_def by (intro psubset_card_mono) (auto simp: finite_dom_map_of)
qed

lemma above_le: "above_in I rank f \<le> length I" "deeper I rank f \<le> length I"
proof -
  have "card (dom (mget I)) \<le> length I"
    by (metis card_length dom_map_of_conv_image_fst length_map list.set_map)
  moreover have "above_in I rank f \<le> card (dom (mget I))" "deeper I rank f \<le> card (dom (mget I))"
    unfolding above_in_def deeper_def by (auto intro!: card_mono simp: finite_dom_map_of)
  ultimately show "above_in I rank f \<le> length I" "deeper I rank f \<le> length I" by linarith+
qed

lemma opt_concat_Some: "(\<forall>x\<in>set xs. x \<noteq> None) \<Longrightarrow> opt_concat xs = Some (concat (map the xs))"
  by (induction xs rule: opt_concat.induct) auto

lemma opt_concat_SomeD: "opt_concat xs = Some ys \<Longrightarrow> (\<forall>x\<in>set xs. x \<noteq> None) \<and> ys = concat (map the xs)"
  by (induction xs arbitrary: ys rule: opt_concat.induct) auto

definition fuel :: "inodes \<Rightarrow> nat" where "fuel I = Suc (length I)"

lemma up_chain_enough:
  assumes ok: "tree_ok I"
    and r: "\<And>f n p. mget I f = Some n \<Longrightarrow> Parent n = Some p \<Longrightarrow> p \<noteq> f \<Longrightarrow> rank p < rank f"
  shows "above_in I rank f < k \<Longrightarrow> \<exists>xs. up_chain k I f = Some xs"
proof (induction k arbitrary: f)
  case (Suc k)
  show ?case
  proof (cases "mget I f")
    case (Some n)
    from tree_okD(3) [OF ok Some] obtain p where p: "Parent n = Some p" by blast
    show ?thesis
    proof (cases "p = f")
      case False
      from above_less [where rank = rank, OF Some r [OF Some p False]] Suc.prems have "above_in I rank p < k" by linarith
      with Suc.IH p Some False show ?thesis by auto
    qed (simp add: Some p)
  qed simp
qed simp

lemma dfs_enough:
  assumes ok: "tree_ok I"
    and r: "\<And>f n c. mget I f = Some n \<Longrightarrow> c \<in> set (Children n) \<Longrightarrow> rank f < rank c"
  shows "deeper I rank f < k \<Longrightarrow> \<exists>xs. dfs k I f = Some xs"
proof (induction k arbitrary: f)
  case (Suc k)
  show ?case
  proof (cases "mget I f")
    case (Some n)
    have "dfs k I c \<noteq> None" if "c \<in> set (Children n)" for c
      using Suc.IH [of c] Suc.prems deeper_less [where rank = rank, OF Some r [OF Some that]] by force
    then have "opt_concat (map (dfs k I) (Children n)) \<noteq> None" by (subst opt_concat_Some) auto
    with Some show ?thesis by auto
  qed simp
qed simp

text \<open>On a well-formed tree the walks return.\<close>

lemma walks_return:
  assumes ok: "tree_ok I"
  shows "\<exists>xs. up_chain (fuel I) I f = Some xs" "\<exists>xs. dfs (fuel I) I f = Some xs"
proof -
  obtain rank :: "fid \<Rightarrow> nat" where
    r: "\<And>f n p. mget I f = Some n \<Longrightarrow> Parent n = Some p \<Longrightarrow> p \<noteq> f \<Longrightarrow> rank p < rank f"
      "\<And>f n c. mget I f = Some n \<Longrightarrow> c \<in> set (Children n) \<Longrightarrow> rank f < rank c"
    using tree_rank [OF ok] by blast
  show "\<exists>xs. up_chain (fuel I) I f = Some xs"
    by (rule up_chain_enough [OF ok r(1)]) (use above_le [of I rank f] in \<open>auto simp: fuel_def\<close>)
  show "\<exists>xs. dfs (fuel I) I f = Some xs"
    by (rule dfs_enough [OF ok r(2)]) (use above_le [of I rank f] in \<open>auto simp: fuel_def\<close>)
qed

section \<open>What the walks visit\<close>

lemma below_trans: "below_in I g h \<Longrightarrow> below_in I f g \<Longrightarrow> below_in I f h"
  by (induction rule: below_in.induct) (auto intro: below_step)

lemma below_dom: "below_in I f g \<Longrightarrow> (\<exists>n. mget I f = Some n) \<and> (\<exists>n. mget I g = Some n)"
  by (induction rule: below_in.induct) auto

lemma below_first:
  "below_in I f h \<Longrightarrow> h = f \<or> (\<exists>n c. mget I f = Some n \<and> c \<in> set (Children n) \<and> below_in I c h)"
proof (induction rule: below_in.induct)
  case (below_step f g n c m)
  then show ?case by (metis below_in.intros)
qed simp

lemma below_child: "mget I f = Some n \<Longrightarrow> c \<in> set (Children n) \<Longrightarrow> mget I c = Some m \<Longrightarrow> below_in I f c"
  by (rule below_step [OF below_refl])

lemma below_unfold:
  assumes f: "mget I f = Some n"
  shows "{g. below_in I f g} = insert f (\<Union>c\<in>set (Children n). {g. below_in I c g})"
proof (intro equalityI subsetI)
  fix g assume "g \<in> {g. below_in I f g}"
  then show "g \<in> insert f (\<Union>c\<in>set (Children n). {g. below_in I c g})"
    using below_first [of I f g] f by auto
next
  fix g assume "g \<in> insert f (\<Union>c\<in>set (Children n). {g. below_in I c g})"
  then consider "g = f" | c where "c \<in> set (Children n)" "below_in I c g" by auto
  then show "g \<in> {g. below_in I f g}"
  proof cases
    case (2 c)
    then obtain m where "mget I c = Some m" using below_dom by blast
    with 2 below_trans below_child [OF f] show ?thesis by blast
  qed (simp add: below_refl [OF f])
qed

lemma dfs_spec:
  assumes ok: "tree_ok I"
  shows "dfs k I f = Some xs \<Longrightarrow> set xs = {g. below_in I f g}"
proof (induction k arbitrary: f xs)
  case (Suc k)
  show ?case
  proof (cases "mget I f")
    case None
    with Suc.prems below_dom show ?thesis by force
  next
    case (Some n)
    show ?thesis
    proof (cases "Type n = InodeTypeDirectory")
      case True
      from Suc.prems Some True obtain ys where ys: "opt_concat (map (dfs k I) (Children n)) = Some ys" and xs: "xs = f # ys" by auto
      have each: "dfs k I c \<noteq> None" if "c \<in> set (Children n)" for c
        using opt_concat_SomeD [OF ys] that by auto
      have "ys = concat (map (\<lambda>c. the (dfs k I c)) (Children n))"
        using opt_concat_SomeD [OF ys] by (simp add: comp_def)
      then have "set ys = (\<Union>c\<in>set (Children n). {g. below_in I c g})"
        using Suc.IH each by fastforce
      with below_unfold [OF Some] show ?thesis by (simp add: xs)
    next
      case False
      then have "Children n = []" using tree_okD(6) [OF ok Some] by (cases "Type n") auto
      then have "{g. below_in I f g} = {f}" using below_unfold [OF Some] by simp
      moreover have "xs = [f]" using Suc.prems Some False by simp
      ultimately show ?thesis by simp
    qed
  qed
qed simp

lemma below_rank:
  assumes down: "\<forall>f n c. mget I f = Some n \<longrightarrow> c \<in> set (Children n) \<longrightarrow> rank f < (rank c :: nat)"
    and g: "below_in I f g"
  shows "f = g \<or> rank f < rank g"
  using g
proof (induction rule: below_in.induct)
  case (below_step f g n c m)
  with down have "rank g < rank c" by blast
  with below_step.IH show ?case by auto
qed simp

text \<open>Nothing is below itself by a longer way: the tree has no cycles.\<close>

lemma child_not_above:
  assumes ok: "tree_ok I" and f: "mget I f = Some n" "c \<in> set (Children n)"
  shows "\<not> below_in I c f"
proof
  assume "below_in I c f"
  from tree_rank_down [OF ok] obtain rank :: "fid \<Rightarrow> nat" where
    down: "\<forall>f n c. mget I f = Some n \<longrightarrow> c \<in> set (Children n) \<longrightarrow> rank f < rank c" ..
  then have r: "\<And>f n c. mget I f = Some n \<Longrightarrow> c \<in> set (Children n) \<Longrightarrow> rank f < rank c" by blast
  from below_rank [OF down \<open>below_in I c f\<close>] r [OF f] tree_okD(4) [OF ok f] show False by auto
qed

lemma below_antisym:
  assumes ok: "tree_ok I" and "below_in I f g" "below_in I g f"
  shows "f = g"
proof -
  from tree_rank_down [OF ok] obtain rank :: "fid \<Rightarrow> nat" where
    down: "\<forall>f n c. mget I f = Some n \<longrightarrow> c \<in> set (Children n) \<longrightarrow> rank f < rank c" ..
  then have r: "\<And>f n c. mget I f = Some n \<Longrightarrow> c \<in> set (Children n) \<Longrightarrow> rank f < rank c" by blast
  from below_rank [OF down assms(2)] below_rank [OF down assms(3)]
  show ?thesis by auto
qed

lemma dfs_post_spec:
  assumes ok: "tree_ok I" and f: "mget I f = Some n"
  shows "dfs_post k I f = Some xs \<Longrightarrow> set xs = {g. below_in I f g} - {f}"
  using f
proof (induction k arbitrary: f n xs)
  case (Suc k)
  note f = Suc.prems(2)
  let ?sub = "\<lambda>c. case mget I c of
              None \<Rightarrow> Some []
            | Some m \<Rightarrow>
                (if Type m = InodeTypeDirectory \<and> Children m \<noteq> []
                 then map_option (\<lambda>xs. xs @ [c]) (dfs_post k I c)
                 else Some [c])"
  from Suc.prems have ys: "opt_concat (map ?sub (Children n)) = Some xs" by simp
  have sub: "set (the (?sub c)) = {g. below_in I c g}" if "c \<in> set (Children n)" for c
  proof -
    from tree_okD(4) [OF ok f that] obtain m where m: "mget I c = Some m" by blast
    have some: "?sub c \<noteq> None" using opt_concat_SomeD [OF ys] that by auto
    show ?thesis
    proof (cases "Type m = InodeTypeDirectory \<and> Children m \<noteq> []")
      case True
      with some m obtain zs where zs: "dfs_post k I c = Some zs" by auto
      with Suc.IH [OF zs m] m True below_refl [OF m] show ?thesis by auto
    next
      case False
      then have "Children m = []" using tree_okD(6) [OF ok m] by (cases "Type m") auto
      with below_unfold [OF m] m False show ?thesis by simp
    qed
  qed
  have "set xs = (\<Union>c\<in>set (Children n). set (the (?sub c)))"
    using opt_concat_SomeD [OF ys] by (simp add: comp_def)
  also have "\<dots> = (\<Union>c\<in>set (Children n). {g. below_in I c g})" using sub by auto
  also have "\<dots> = {g. below_in I f g} - {f}"
    using below_unfold [OF f] child_not_above [OF ok f] by auto
  finally show ?case .
qed simp

lemma dfs_post_enough:
  assumes ok: "tree_ok I"
    and r: "\<And>f n c. mget I f = Some n \<Longrightarrow> c \<in> set (Children n) \<Longrightarrow> rank f < rank c"
  shows "deeper I rank f < k \<Longrightarrow> \<exists>xs. dfs_post k I f = Some xs"
proof (induction k arbitrary: f)
  case (Suc k)
  show ?case
  proof (cases "mget I f")
    case (Some n)
    have "(case mget I c of None \<Rightarrow> Some [] | Some m \<Rightarrow>
            (if Type m = InodeTypeDirectory \<and> Children m \<noteq> [] then map_option (\<lambda>xs. xs @ [c]) (dfs_post k I c)
             else Some [c])) \<noteq> None" if "c \<in> set (Children n)" for c
      using Suc.IH [of c] Suc.prems deeper_less [where rank = rank, OF Some r [OF Some that]]
      by (force split: option.splits)
    then show ?thesis using Some by (simp add: opt_concat_Some)
  qed simp
qed simp

lemma dfs_post_returns:
  assumes ok: "tree_ok I"
  shows "\<exists>xs. dfs_post (fuel I) I f = Some xs"
proof -
  from tree_rank_down [OF ok] obtain rank :: "fid \<Rightarrow> nat" where
    down: "\<forall>f n c. mget I f = Some n \<longrightarrow> c \<in> set (Children n) \<longrightarrow> rank f < rank c" ..
  then have r: "\<And>f n c. mget I f = Some n \<Longrightarrow> c \<in> set (Children n) \<Longrightarrow> rank f < rank c" by blast
  show ?thesis
    by (rule dfs_post_enough [OF ok r]) (use above_le [of I rank f] in \<open>auto simp: fuel_def\<close>)
qed

lemma up_chain_spec:
  assumes ok: "tree_ok I"
  shows "up_chain k I f = Some xs \<Longrightarrow> mget I f = Some n \<Longrightarrow>
    set xs = {g. below_in I g f} \<and> xs \<noteq> [] \<and> hd xs = f \<and> distinct xs"
proof (induction k arbitrary: f n xs)
  case (Suc k)
  from tree_okD(3) [OF ok Suc.prems(2)] obtain p m where
    p: "Parent n = Some p" "mget I p = Some m" "p \<noteq> f \<longrightarrow> f \<in> set (Children m)" by blast
  have parents: "g = f \<or> (p \<noteq> f \<and> below_in I g p)" if "below_in I g f" for g
    using that
  proof (cases rule: below_in.cases)
    case (below_step h n' m')
    from tree_okD(4) [OF ok below_step(2,3)] Suc.prems(2) p(1) have "h = p" "f \<noteq> h" by auto
    with below_step(1) show ?thesis by simp
  qed simp
  show ?case
  proof (cases "p = f")
    case True
    with parents have "{g. below_in I g f} = {f}" using below_refl [OF Suc.prems(2)] by blast
    moreover have "xs = [f]" using Suc.prems p True by simp
    ultimately show ?thesis by simp
  next
    case False
    with Suc.prems p obtain ys where ys: "up_chain k I p = Some ys" "xs = f # ys" by auto
    from Suc.IH [OF ys(1) p(2)] have IH: "set ys = {g. below_in I g p}" "distinct ys" by auto
    have child: "f \<in> set (Children m)" using p(3) False by blast
    have "{g. below_in I g f} = insert f {g. below_in I g p}"
      using parents below_refl [OF Suc.prems(2)] below_step [OF _ p(2) child Suc.prems(2)] by blast
    moreover have "f \<notin> set ys" using child_not_above [OF ok p(2) child] IH by simp
    ultimately show ?thesis using IH ys by simp
  qed
qed simp

section \<open>The shape of a tree\<close>

text \<open>Well-formedness and reachability depend on the links and types only, not on names, paths, ACLs and
  sizes.\<close>

definition shape :: "inodes \<Rightarrow> fid \<Rightarrow> (fid \<times> fid option \<times> fid list \<times> inode_type) option" where
  "shape I f = map_option (\<lambda>n. (FID n, Parent n, Children n, Type n)) (mget I f)"

lemma shapeD:
  assumes "shape J = shape I" "mget J f = Some n"
  obtains m where "mget I f = Some m" "FID m = FID n" "Parent m = Parent n" "Children m = Children n" "Type m = Type n"
proof -
  have "shape I f = Some (FID n, Parent n, Children n, Type n)"
    using assms(2) unfolding assms(1) [symmetric] by (simp add: shape_def)
  with that show thesis by (auto simp: shape_def)
qed

lemma shape_None:
  assumes "shape J = shape I" shows "mget J f = None \<longleftrightarrow> mget I f = None"
proof -
  have "shape J f = shape I f" using assms by simp
  then show ?thesis by (cases "mget J f"; cases "mget I f") (simp_all add: shape_def)
qed

lemma tree_ok_shape:
  assumes ok: "tree_ok I" and J: "gomap_ok J" and sh: "shape J = shape I"
  shows "tree_ok J"
proof -
  note conv = shapeD [OF sh [symmetric]]
  have "FID n = f" if "mget J f = Some n" for f n
    using shapeD [OF sh that] tree_okD(2) [OF ok] by metis
  moreover have "\<exists>p m. Parent n = Some p \<and> mget J p = Some m \<and> (p \<noteq> f \<longrightarrow> f \<in> set (Children m))"
    if "mget J f = Some n" for f n
  proof -
    from shapeD [OF sh that] obtain n' where n': "mget I f = Some n'" "Parent n' = Parent n" by metis
    from tree_okD(3) [OF ok n'(1)] n'(2) obtain p m where
      p: "Parent n = Some p" "mget I p = Some m" "p \<noteq> f \<longrightarrow> f \<in> set (Children m)" by auto
    from conv [OF p(2)] obtain m' where "mget J p = Some m'" "Children m' = Children m" by metis
    with p show ?thesis by auto
  qed
  moreover have "c \<noteq> f \<and> (\<exists>m. mget J c = Some m \<and> Parent m = Some f)"
    if "mget J f = Some n" "c \<in> set (Children n)" for f n c
  proof -
    from shapeD [OF sh that(1)] that(2) obtain n' where n': "mget I f = Some n'" "c \<in> set (Children n')" by metis
    from tree_okD(4) [OF ok n'] obtain m where m: "c \<noteq> f" "mget I c = Some m" "Parent m = Some f" by blast
    from conv [OF m(2)] obtain m' where "mget J c = Some m'" "Parent m' = Parent m" by metis
    with m show ?thesis by simp
  qed
  moreover have "distinct (Children n) \<and> (Type n = InodeTypeFile \<longrightarrow> Children n = [])"
    if "mget J f = Some n" for f n
    using shapeD [OF sh that] tree_okD(5,6) [OF ok] by metis
  moreover have "\<exists>rank. \<forall>f n p. mget J f = Some n \<and> Parent n = Some p \<and> p \<noteq> f \<longrightarrow> (rank p :: nat) < rank f"
  proof -
    from ok obtain rank :: "fid \<Rightarrow> nat" where
      r: "\<forall>f n p. mget I f = Some n \<and> Parent n = Some p \<and> p \<noteq> f \<longrightarrow> rank p < rank f"
      unfolding tree_ok_def by blast
    have "rank p < rank f" if "mget J f = Some n" "Parent n = Some p" "p \<noteq> f" for f n p
      using shapeD [OF sh that(1)] that r by metis
    then show ?thesis by blast
  qed
  ultimately show ?thesis using J unfolding tree_ok_def by blast
qed

lemma below_in_shape_mono:
  assumes sh: "shape J = shape I"
  shows "below_in J f g \<Longrightarrow> below_in I f g"
proof (induction rule: below_in.induct)
  case (below_refl f n)
  from shapeD [OF sh below_refl] show ?case by (metis below_in.below_refl)
next
  case (below_step f g n c m)
  from shapeD [OF sh below_step(2)] obtain n' where n': "mget I g = Some n'" "Children n' = Children n" by metis
  from shapeD [OF sh below_step(4)] obtain m' where "mget I c = Some m'" by metis
  with n' below_step show ?case by (metis below_in.below_step)
qed

lemma below_in_shape: "shape J = shape I \<Longrightarrow> below_in J = below_in I"
  using below_in_shape_mono [of J I] below_in_shape_mono [of I J] by (intro ext iffI) auto

end
