(* ===== verification/Session_Store.thy ===== *)
theory Session_Store
  imports Go_Strings
begin

text \<open>
  The session store of a fileserver (\<^verbatim>\<open>internal/fileserver/session\<close>): \<^verbatim>\<open>session.go\<close> and
  \<^verbatim>\<open>store.go\<close>. A session is found by the hash of its token; a per-user list and a client index
  refer to it. SHA-256 is the parameter \<open>H\<close> of the operations that call \<open>HashSST\<close>, and the clock
  reading \<open>now\<close> is an argument. A session the Go code reaches through a pointer is addressed here
  by its hash.
\<close>

section \<open>Sessions\<close>

record session =
  sess_HashID :: string
  sess_Username :: string
  sess_ClientID :: string
  sess_ClientIP :: string
  sess_CallbackAddr :: string
  sess_RootFID :: string
  sess_CreatedAt :: gotime
  sess_LastSeenAt :: gotime
  sess_AbsoluteExp :: gotime

definition IsExpired :: "session \<Rightarrow> gotime \<Rightarrow> duration \<Rightarrow> bool" where
  "IsExpired s now idleTTL =
     (if \<not> time_IsZero (sess_AbsoluteExp s) \<and> time_After now (sess_AbsoluteExp s) then True
      else if time_Sub now (sess_LastSeenAt s) > idleTTL then True
      else False)"

definition Touch :: "session \<Rightarrow> gotime \<Rightarrow> session" where
  "Touch s now = s\<lparr>sess_LastSeenAt := now\<rparr>"

section \<open>The store\<close>

datatype session_error =
    ErrSessionNotFound
  | ErrSessionExpired
  | ErrIPMismatch
  | ErrGlobalLimitExceeded
  | InvalidSessionArguments
  | IndexOutOfRange  \<comment> \<open>the run-time panic of \<open>userHashes[0]\<close> on an empty slice\<close>

record session_store =
  sessions :: "(string, session) gomap"
  userSessions :: "(string, string list) gomap"
  clientIndex :: "(string, string) gomap"
  idleTTL :: duration
  perUserLimit :: nat
  globalLimit :: nat

definition DefaultIdleTTL :: duration where
  "DefaultIdleTTL = 15 * 60 * second_ns"

definition MaxSessionsPerUser :: nat where "MaxSessionsPerUser = 5"

definition MaxGlobalSessions :: nat where "MaxGlobalSessions = 10000"

definition NewStore :: "duration \<Rightarrow> session_store" where
  "NewStore ttl =
     \<lparr>sessions = [], userSessions = [], clientIndex = [],
      idleTTL = (if ttl \<le> 0 then DefaultIdleTTL else ttl),
      perUserLimit = MaxSessionsPerUser, globalLimit = MaxGlobalSessions\<rparr>"

definition extractIP :: "string \<Rightarrow> string" where
  "extractIP addr =
     (if addr = [] then []
      else (case SplitHostPort addr of
              Some (host, _) \<Rightarrow> host
            | None \<Rightarrow> TrimBrackets addr))"

definition removeFromUserSliceLocked :: "string \<Rightarrow> string \<Rightarrow> session_store \<Rightarrow> session_store" where
  "removeFromUserSliceLocked username hashID st =
     (case mget (userSessions st) username of
        None \<Rightarrow> st
      | Some hashes \<Rightarrow>
          (let newHashes = filter (\<lambda>h. h \<noteq> hashID) hashes
           in if newHashes = [] then st\<lparr>userSessions := mdel username (userSessions st)\<rparr>
              else st\<lparr>userSessions := mput username newHashes (userSessions st)\<rparr>))"

definition purge_one :: "string \<Rightarrow> session_store \<Rightarrow> session_store" where
  "purge_one hashID st =
     (case mget (sessions st) hashID of
        None \<Rightarrow> st\<lparr>sessions := mdel hashID (sessions st)\<rparr>
      | Some sess \<Rightarrow>
          removeFromUserSliceLocked (sess_Username sess) hashID
            (st\<lparr>sessions := mdel hashID (sessions st),
                clientIndex := mdel (sess_ClientID sess) (clientIndex st)\<rparr>))"

definition purgeExpiredLocked :: "gotime \<Rightarrow> session_store \<Rightarrow> session_store" where
  "purgeExpiredLocked now st =
     (let expiredHashes = map fst (filter (\<lambda>(h, s). IsExpired s now (idleTTL st)) (sessions st))
      in fold purge_one expiredHashes st)"

definition Sweep :: "gotime \<Rightarrow> session_store \<Rightarrow> session_store" where
  "Sweep now st = purgeExpiredLocked now st"

definition ActiveCount :: "session_store \<Rightarrow> nat" where
  "ActiveCount st = length (sessions st)"

text \<open>The three blocks of \<open>CreateSession\<close> under the lock: the eviction of the user's oldest session,
  the removal of an earlier session of the same client, and the insertion.\<close>

definition evict_oldest :: "string \<Rightarrow> session_store \<Rightarrow> session_error + session_store" where
  "evict_oldest username st =
     (let userHashes = mslice (userSessions st) username
      in if length userHashes \<ge> perUserLimit st then
           (case userHashes of
              [] \<Rightarrow> Inl IndexOutOfRange
            | oldestHash # rest \<Rightarrow>
                Inr (st\<lparr>sessions := mdel oldestHash (sessions st),
                        clientIndex :=
                          (case mget (sessions st) oldestHash of
                             Some oldSess \<Rightarrow> mdel (sess_ClientID oldSess) (clientIndex st)
                           | None \<Rightarrow> clientIndex st),
                        userSessions := mput username rest (userSessions st)\<rparr>))
         else Inr st)"

definition drop_previous_client :: "string \<Rightarrow> string \<Rightarrow> session_store \<Rightarrow> session_store" where
  "drop_previous_client username clientID st =
     (case mget (clientIndex st) clientID of
        None \<Rightarrow> st
      | Some prevHash \<Rightarrow>
          removeFromUserSliceLocked username prevHash
            (st\<lparr>sessions := mdel prevHash (sessions st)\<rparr>))"

definition insert_session :: "session \<Rightarrow> session_store \<Rightarrow> session_store" where
  "insert_session sess st =
     st\<lparr>sessions := mput (sess_HashID sess) sess (sessions st),
        userSessions := mput (sess_Username sess)
          (mslice (userSessions st) (sess_Username sess) @ [sess_HashID sess]) (userSessions st),
        clientIndex := (if sess_ClientID sess \<noteq> []
                        then mput (sess_ClientID sess) (sess_HashID sess) (clientIndex st)
                        else clientIndex st)\<rparr>"

definition CreateSession ::
  "(string \<Rightarrow> string) \<Rightarrow> gotime \<Rightarrow> string \<Rightarrow> string \<Rightarrow> string \<Rightarrow> string \<Rightarrow> string \<Rightarrow> string \<Rightarrow> gotime
   \<Rightarrow> session_store \<Rightarrow> (session_error + session) \<times> session_store" where
  "CreateSession H now rawSST username clientID peerAddr callbackAddr rootFID absoluteExp st =
     (if rawSST = [] \<or> username = [] then (Inl InvalidSessionArguments, st)
      else
        let st1 = (if length (sessions st) \<ge> globalLimit st then purgeExpiredLocked now st else st)
        in if length (sessions st1) \<ge> globalLimit st1 then (Inl ErrGlobalLimitExceeded, st1)
           else (case evict_oldest username st1 of
                   Inl e \<Rightarrow> (Inl e, st1)
                 | Inr st2 \<Rightarrow>
                     let st3 = drop_previous_client username clientID st2;
                         sess = \<lparr>sess_HashID = H rawSST, sess_Username = username,
                                 sess_ClientID = clientID, sess_ClientIP = extractIP peerAddr,
                                 sess_CallbackAddr = callbackAddr, sess_RootFID = rootFID,
                                 sess_CreatedAt = now, sess_LastSeenAt = now,
                                 sess_AbsoluteExp = absoluteExp\<rparr>
                     in (Inr sess, insert_session sess st3)))"

text \<open>
  \<open>ValidateSession\<close> hands the expired token to a goroutine that revokes it later: the third
  component is the token handed over. The revocation itself is a separate operation of a run.
\<close>

definition ValidateSession ::
  "(string \<Rightarrow> string) \<Rightarrow> gotime \<Rightarrow> string \<Rightarrow> string \<Rightarrow> session_store
   \<Rightarrow> (session_error + session) \<times> session_store \<times> string option" where
  "ValidateSession H now rawSST currentPeerAddr st =
     (if rawSST = [] then (Inl ErrSessionNotFound, st, None)
      else
        let hashID = H rawSST; currentIP = extractIP currentPeerAddr
        in (case mget (sessions st) hashID of
              None \<Rightarrow> (Inl ErrSessionNotFound, st, None)
            | Some sess \<Rightarrow>
                if IsExpired sess now (idleTTL st) then (Inl ErrSessionExpired, st, Some rawSST)
                else if sess_ClientIP sess \<noteq> [] \<and> currentIP \<noteq> [] \<and> sess_ClientIP sess \<noteq> currentIP
                then (Inl ErrIPMismatch, st, None)
                else (Inr (Touch sess now),
                      st\<lparr>sessions := mput hashID (Touch sess now) (sessions st)\<rparr>, None)))"

definition GetSessionByClientID :: "gotime \<Rightarrow> string \<Rightarrow> session_store \<Rightarrow> session option" where
  "GetSessionByClientID now clientID st =
     (case mget (clientIndex st) clientID of
        None \<Rightarrow> None
      | Some hashID \<Rightarrow>
          (case mget (sessions st) hashID of
             None \<Rightarrow> None
           | Some sess \<Rightarrow> if IsExpired sess now (idleTTL st) then None else Some sess))"

definition RevokeSession :: "(string \<Rightarrow> string) \<Rightarrow> string \<Rightarrow> session_store \<Rightarrow> session_store" where
  "RevokeSession H rawSST st =
     (let hashID = H rawSST
      in case mget (sessions st) hashID of
           None \<Rightarrow> st
         | Some sess \<Rightarrow>
             removeFromUserSliceLocked (sess_Username sess) hashID
               (st\<lparr>sessions := mdel hashID (sessions st),
                   clientIndex := mdel (sess_ClientID sess) (clientIndex st)\<rparr>))"

definition RevokeByClientID :: "string \<Rightarrow> session_store \<Rightarrow> session_store" where
  "RevokeByClientID clientID st =
     (case mget (clientIndex st) clientID of
        None \<Rightarrow> st
      | Some hashID \<Rightarrow>
          (let st' = st\<lparr>clientIndex := mdel clientID (clientIndex st),
                        sessions := mdel hashID (sessions st)\<rparr>
           in case mget (sessions st) hashID of
                Some sess \<Rightarrow> removeFromUserSliceLocked (sess_Username sess) hashID st'
              | None \<Rightarrow> st'))"

definition revoke_one :: "string \<Rightarrow> session_store \<Rightarrow> session_store" where
  "revoke_one h st =
     st\<lparr>clientIndex :=
          (case mget (sessions st) h of
             Some sess \<Rightarrow> mdel (sess_ClientID sess) (clientIndex st)
           | None \<Rightarrow> clientIndex st),
        sessions := mdel h (sessions st)\<rparr>"

definition RevokeAllForUser :: "string \<Rightarrow> session_store \<Rightarrow> session_store" where
  "RevokeAllForUser username st =
     (case mget (userSessions st) username of
        None \<Rightarrow> st
      | Some hashes \<Rightarrow>
          (let st' = fold revoke_one hashes st
           in st'\<lparr>userSessions := mdel username (userSessions st')\<rparr>))"

text \<open>\<open>sess.Touch\<close> through the pointer a handler keeps from the request context.\<close>

definition touch_session :: "gotime \<Rightarrow> string \<Rightarrow> session_store \<Rightarrow> session_store" where
  "touch_session now h st =
     (case mget (sessions st) h of
        None \<Rightarrow> st
      | Some sess \<Rightarrow> st\<lparr>sessions := mput h (Touch sess now) (sessions st)\<rparr>)"

section \<open>Operations in any order\<close>

datatype session_op =
    OpCreate string string string string string string gotime
  | OpValidate string string
  | OpRevoke string
  | OpRevokeClient string
  | OpRevokeUser string
  | OpSweep
  | OpTouch string

fun session_exec :: "(string \<Rightarrow> string) \<Rightarrow> gotime \<Rightarrow> session_op \<Rightarrow> session_store \<Rightarrow> session_store" where
  "session_exec H now (OpCreate r u c p cb root e) st = snd (CreateSession H now r u c p cb root e st)"
| "session_exec H now (OpValidate r p) st = fst (snd (ValidateSession H now r p st))"
| "session_exec H now (OpRevoke r) st = RevokeSession H r st"
| "session_exec H now (OpRevokeClient c) st = RevokeByClientID c st"
| "session_exec H now (OpRevokeUser u) st = RevokeAllForUser u st"
| "session_exec H now OpSweep st = Sweep now st"
| "session_exec H now (OpTouch h) st = touch_session now h st"

inductive session_step ::
  "(string \<Rightarrow> string) \<Rightarrow> session_store \<Rightarrow> gotime \<times> session_op \<Rightarrow> session_store \<Rightarrow> bool" for H where
  session_stepI: "session_step H st (now, op) (session_exec H now op st)"

inductive_cases session_stepE: "session_step H st lbl st'"

text \<open>The invariant: the maps have distinct keys, every session is filed under its own hash and listed
  for its user, and neither limit is exceeded.\<close>

definition sessions_of :: "session_store \<Rightarrow> string \<Rightarrow> string set" where
  "sessions_of st u = {h. \<exists>s. mget (sessions st) h = Some s \<and> sess_Username s = u}"

definition session_listed :: "session_store \<Rightarrow> bool" where
  "session_listed st \<longleftrightarrow>
     (\<forall>h s. mget (sessions st) h = Some s \<longrightarrow>
        sess_HashID s = h \<and> h \<in> set (mslice (userSessions st) (sess_Username s)))"

definition session_bounded :: "session_store \<Rightarrow> bool" where
  "session_bounded st \<longleftrightarrow>
     0 < perUserLimit st \<and> length (sessions st) \<le> globalLimit st \<and>
     (\<forall>u. length (mslice (userSessions st) u) \<le> perUserLimit st)"

definition session_inv :: "session_store \<Rightarrow> bool" where
  "session_inv st \<longleftrightarrow>
     gomap_ok (sessions st) \<and> gomap_ok (userSessions st) \<and> gomap_ok (clientIndex st) \<and>
     session_listed st \<and> session_bounded st"

section \<open>Frame facts\<close>

lemma removeFromUserSlice_frame [simp]:
  "sessions (removeFromUserSliceLocked u h st) = sessions st"
  "clientIndex (removeFromUserSliceLocked u h st) = clientIndex st"
  "idleTTL (removeFromUserSliceLocked u h st) = idleTTL st"
  "perUserLimit (removeFromUserSliceLocked u h st) = perUserLimit st"
  "globalLimit (removeFromUserSliceLocked u h st) = globalLimit st"
  by (auto simp: removeFromUserSliceLocked_def Let_def split: option.splits)

lemma removeFromUserSlice_mslice [simp]:
  "mslice (userSessions (removeFromUserSliceLocked u h st)) v =
     (if v = u then filter (\<lambda>x. x \<noteq> h) (mslice (userSessions st) u) else mslice (userSessions st) v)"
  by (auto simp: removeFromUserSliceLocked_def Let_def mslice_def split: option.splits)

lemma removeFromUserSlice_ok [simp]:
  "gomap_ok (userSessions st) \<Longrightarrow> gomap_ok (userSessions (removeFromUserSliceLocked u h st))"
  by (auto simp: removeFromUserSliceLocked_def Let_def split: option.splits)

lemma session_inv_parts:
  assumes "session_inv st"
  shows "gomap_ok (sessions st)" "gomap_ok (userSessions st)" "gomap_ok (clientIndex st)"
    "session_listed st" "session_bounded st"
  using assms by (simp_all add: session_inv_def)

text \<open>An operation that only drops sessions and list entries keeps the invariant, as long as the
  entries of the sessions that stay are kept.\<close>

lemma session_inv_shrink:
  assumes inv: "session_inv st"
    and ok: "gomap_ok (sessions st')" "gomap_ok (userSessions st')" "gomap_ok (clientIndex st')"
    and sub: "\<And>h s. mget (sessions st') h = Some s \<Longrightarrow> mget (sessions st) h = Some s"
    and keep: "\<And>h s. mget (sessions st') h = Some s \<Longrightarrow>
       h \<in> set (mslice (userSessions st) (sess_Username s)) \<Longrightarrow>
       h \<in> set (mslice (userSessions st') (sess_Username s))"
    and len: "\<And>u. length (mslice (userSessions st') u) \<le> length (mslice (userSessions st) u)"
    and total: "length (sessions st') \<le> length (sessions st)"
    and lims: "perUserLimit st' = perUserLimit st" "globalLimit st' = globalLimit st"
  shows "session_inv st'"
proof -
  have "session_listed st'"
    using session_inv_parts(4) [OF inv] sub keep unfolding session_listed_def by blast
  moreover have "session_bounded st'"
    using session_inv_parts(5) [OF inv] len total lims unfolding session_bounded_def
    by (metis order.trans)
  ultimately show ?thesis using ok by (simp add: session_inv_def)
qed

lemma session_inv_drop_hash:
  assumes inv: "session_inv st"
    and ci: "gomap_ok ci"
  shows "session_inv (removeFromUserSliceLocked u h (st\<lparr>sessions := mdel h (sessions st), clientIndex := ci\<rparr>))"
  by (rule session_inv_shrink [OF inv])
     (auto simp: session_inv_parts [OF inv] ci length_mdel_le split: if_splits)

section \<open>Every operation keeps the invariant\<close>

lemma purge_one_frame [simp]:
  "idleTTL (purge_one h st) = idleTTL st" "perUserLimit (purge_one h st) = perUserLimit st"
  "globalLimit (purge_one h st) = globalLimit st"
  by (auto simp: purge_one_def split: option.splits)

lemma purge_one_sessions [simp]: "sessions (purge_one h st) = mdel h (sessions st)"
  by (auto simp: purge_one_def split: option.splits)

lemma purge_one_inv: "session_inv st \<Longrightarrow> session_inv (purge_one h st)"
proof (cases "mget (sessions st) h")
  case None
  assume inv: "session_inv st"
  show ?thesis
    by (rule session_inv_shrink [OF inv])
       (auto simp: purge_one_def None session_inv_parts [OF inv] length_mdel_le split: if_splits)
next
  case (Some s)
  assume inv: "session_inv st"
  then show ?thesis
    by (simp add: purge_one_def Some session_inv_drop_hash session_inv_parts)
qed

lemma fold_purge_frame:
  "session_inv st \<Longrightarrow> session_inv (fold purge_one hs st)"
  "idleTTL (fold purge_one hs st) = idleTTL st"
  "perUserLimit (fold purge_one hs st) = perUserLimit st"
  "globalLimit (fold purge_one hs st) = globalLimit st"
  "sessions (fold purge_one hs st) = mdel_all hs (sessions st)"
  by (induction hs arbitrary: st) (simp_all add: purge_one_inv mdel_all_def)

lemma purgeExpired_frame [simp]:
  "idleTTL (purgeExpiredLocked now st) = idleTTL st"
  "perUserLimit (purgeExpiredLocked now st) = perUserLimit st"
  "globalLimit (purgeExpiredLocked now st) = globalLimit st"
  by (simp_all add: purgeExpiredLocked_def fold_purge_frame)

lemma purgeExpired_inv: "session_inv st \<Longrightarrow> session_inv (purgeExpiredLocked now st)"
  by (simp add: purgeExpiredLocked_def fold_purge_frame)

lemma purgeExpired_mget:
  assumes "gomap_ok (sessions st)"
  shows "mget (sessions (purgeExpiredLocked now st)) h =
    (case mget (sessions st) h of
       None \<Rightarrow> None
     | Some s \<Rightarrow> if IsExpired s now (idleTTL st) then None else Some s)"
proof -
  let ?ex = "map fst (filter (\<lambda>(h, s). IsExpired s now (idleTTL st)) (sessions st))"
  have "h \<in> set ?ex \<longleftrightarrow> (\<exists>s. mget (sessions st) h = Some s \<and> IsExpired s now (idleTTL st))"
    using mget_iff_in_set [OF assms] by force
  moreover have "mget (sessions (purgeExpiredLocked now st)) h =
      (if h \<in> set ?ex then None else mget (sessions st) h)"
    by (simp add: purgeExpiredLocked_def fold_purge_frame Let_def)
  ultimately show ?thesis by (auto split: option.splits)
qed

lemma evict_oldest_inv:
  assumes inv: "session_inv st" and ev: "evict_oldest u st = Inr st'"
  shows "session_inv st' \<and> length (mslice (userSessions st') u) < perUserLimit st'
    \<and> perUserLimit st' = perUserLimit st \<and> globalLimit st' = globalLimit st
    \<and> length (sessions st') \<le> length (sessions st)"
proof (cases "length (mslice (userSessions st) u) \<ge> perUserLimit st")
  case False
  with inv ev show ?thesis by (simp add: evict_oldest_def Let_def)
next
  case True
  then obtain x xs where us: "mslice (userSessions st) u = x # xs"
    using session_inv_parts(5) [OF inv]
    by (cases "mslice (userSessions st) u") (auto simp: session_bounded_def)
  define ci where "ci = (case mget (sessions st) x of
      Some s \<Rightarrow> mdel (sess_ClientID s) (clientIndex st) | None \<Rightarrow> clientIndex st)"
  have st': "st' = st\<lparr>sessions := mdel x (sessions st), clientIndex := ci,
      userSessions := mput u xs (userSessions st)\<rparr>"
    using ev True us by (simp add: evict_oldest_def Let_def ci_def)
  have ci: "gomap_ok ci"
    by (simp add: ci_def session_inv_parts [OF inv] split: option.splits)
  have us': "mslice (userSessions st) v = x # xs" if "v = u" for v using us that by simp
  have "session_inv st'"
    by (rule session_inv_shrink [OF inv])
       (auto simp: st' us' ci session_inv_parts [OF inv] length_mdel_le split: if_splits)
  moreover have "length xs < perUserLimit st"
    using session_inv_parts(5) [OF inv] us unfolding session_bounded_def
    by (metis Suc_le_lessD length_Cons)
  ultimately show ?thesis by (simp add: st' length_mdel_le)
qed

lemma evict_oldest_no_panic: "session_inv st \<Longrightarrow> \<exists>st'. evict_oldest u st = Inr st'"
  by (auto simp: evict_oldest_def Let_def session_inv_def session_bounded_def split: list.splits)

lemma drop_previous_client_frame [simp]:
  "idleTTL (drop_previous_client u c st) = idleTTL st"
  "perUserLimit (drop_previous_client u c st) = perUserLimit st"
  "globalLimit (drop_previous_client u c st) = globalLimit st"
  by (auto simp: drop_previous_client_def split: option.splits)

lemma drop_previous_client_inv:
  assumes inv: "session_inv st"
  shows "session_inv (drop_previous_client u c st)
    \<and> length (sessions (drop_previous_client u c st)) \<le> length (sessions st)
    \<and> length (mslice (userSessions (drop_previous_client u c st)) v) \<le> length (mslice (userSessions st) v)"
proof (cases "mget (clientIndex st) c")
  case None
  with inv show ?thesis by (simp add: drop_previous_client_def)
next
  case (Some h)
  have "session_inv (removeFromUserSliceLocked u h (st\<lparr>sessions := mdel h (sessions st)\<rparr>))"
    using session_inv_drop_hash [OF inv session_inv_parts(3) [OF inv], of u h] by simp
  then show ?thesis by (simp add: drop_previous_client_def Some length_mdel_le)
qed

lemma insert_session_inv:
  assumes inv: "session_inv st"
    and room: "length (sessions st) < globalLimit st"
    and user: "length (mslice (userSessions st) (sess_Username s)) < perUserLimit st"
  shows "session_inv (insert_session s st)"
proof -
  let ?st = "insert_session s st"
  have "session_listed ?st"
    using session_inv_parts(4) [OF inv]
    by (simp add: session_listed_def insert_session_def) (metis UnI1)
  moreover have "session_bounded ?st"
    using session_inv_parts(5) [OF inv] room user
    by (auto simp: session_bounded_def insert_session_def length_mput)
  ultimately show ?thesis
    by (simp add: session_inv_def insert_session_def session_inv_parts [OF inv])
qed

lemma CreateSession_inv:
  assumes inv: "session_inv st"
  shows "session_inv (snd (CreateSession H now r u c p cb root e st))"
proof (cases "r = [] \<or> u = []")
  case True
  with inv show ?thesis by (auto simp: CreateSession_def)
next
  case False
  define st1 where "st1 = (if length (sessions st) \<ge> globalLimit st then purgeExpiredLocked now st else st)"
  have inv1: "session_inv st1" by (simp add: st1_def inv purgeExpired_inv)
  from evict_oldest_no_panic [OF inv1] obtain st2 where st2: "evict_oldest u st1 = Inr st2" by blast
  note inv2 = evict_oldest_inv [OF inv1 st2]
  note inv3 = drop_previous_client_inv [OF conjunct1 [OF inv2], of u c u]
  show ?thesis
  proof (cases "length (sessions st1) \<ge> globalLimit st1")
    case True
    with False inv1 show ?thesis by (simp add: CreateSession_def Let_def st1_def [symmetric])
  next
    case False': False
    let ?s = "\<lparr>sess_HashID = H r, sess_Username = u, sess_ClientID = c, sess_ClientIP = extractIP p,
      sess_CallbackAddr = cb, sess_RootFID = root, sess_CreatedAt = now, sess_LastSeenAt = now,
      sess_AbsoluteExp = e\<rparr>"
    have "session_inv (insert_session ?s (drop_previous_client u c st2))"
      using inv2 inv3 False' by (intro insert_session_inv; simp; linarith)
    with False False' st2 show ?thesis
      by (simp add: CreateSession_def Let_def st1_def [symmetric])
  qed
qed

lemma ValidateSession_store:
  "fst (snd (ValidateSession H now r p st)) = st \<or>
   (\<exists>s. mget (sessions st) (H r) = Some s \<and>
      fst (snd (ValidateSession H now r p st)) = st\<lparr>sessions := mput (H r) (Touch s now) (sessions st)\<rparr>)"
  by (auto simp: ValidateSession_def Let_def split: option.splits)

lemma touch_inv:
  assumes inv: "session_inv st" and s: "mget (sessions st) h = Some s"
  shows "session_inv (st\<lparr>sessions := mput h (Touch s now) (sessions st)\<rparr>)"
  using inv s
  by (auto simp: session_inv_def session_listed_def session_bounded_def length_mput Touch_def)

lemma ValidateSession_inv: "session_inv st \<Longrightarrow> session_inv (fst (snd (ValidateSession H now r p st)))"
  using ValidateSession_store [of H now r p st] touch_inv by metis

lemma RevokeSession_inv: "session_inv st \<Longrightarrow> session_inv (RevokeSession H r st)"
  by (simp add: RevokeSession_def Let_def session_inv_drop_hash session_inv_parts split: option.splits)

lemma RevokeByClientID_inv:
  assumes inv: "session_inv st"
  shows "session_inv (RevokeByClientID c st)"
proof (cases "mget (clientIndex st) c")
  case None
  with inv show ?thesis by (simp add: RevokeByClientID_def)
next
  case (Some h)
  have drop: "session_inv (st\<lparr>clientIndex := mdel c (clientIndex st), sessions := mdel h (sessions st)\<rparr>)"
    by (rule session_inv_shrink [OF inv])
       (auto simp: session_inv_parts [OF inv] length_mdel_le split: if_splits)
  have swap: "st\<lparr>clientIndex := mdel c (clientIndex st), sessions := mdel h (sessions st)\<rparr> =
      st\<lparr>sessions := mdel h (sessions st), clientIndex := mdel c (clientIndex st)\<rparr>" by simp
  have "session_inv (removeFromUserSliceLocked u h
      (st\<lparr>clientIndex := mdel c (clientIndex st), sessions := mdel h (sessions st)\<rparr>))" for u
    unfolding swap by (rule session_inv_drop_hash [OF inv]) (simp add: session_inv_parts [OF inv])
  with drop show ?thesis
    by (simp add: RevokeByClientID_def Some Let_def split: option.splits)
qed

lemma fold_revoke_one:
  "userSessions (fold revoke_one hs st) = userSessions st"
  "perUserLimit (fold revoke_one hs st) = perUserLimit st"
  "globalLimit (fold revoke_one hs st) = globalLimit st"
  "idleTTL (fold revoke_one hs st) = idleTTL st"
  "sessions (fold revoke_one hs st) = mdel_all hs (sessions st)"
  "gomap_ok (clientIndex st) \<Longrightarrow> gomap_ok (clientIndex (fold revoke_one hs st))"
  by (induction hs arbitrary: st) (simp_all add: revoke_one_def mdel_all_def split: option.splits)


lemma RevokeAllForUser_inv:
  assumes inv: "session_inv st"
  shows "session_inv (RevokeAllForUser u st)"
proof (cases "mget (userSessions st) u")
  case None
  with inv show ?thesis by (simp add: RevokeAllForUser_def)
next
  case (Some hs)
  have out: "mslice (userSessions st) v = hs" if "v = u" for v
    using that Some by (simp add: mslice_def)
  show ?thesis
    by (rule session_inv_shrink [OF inv])
       (auto simp: RevokeAllForUser_def Some fold_revoke_one Let_def session_inv_parts [OF inv]
          length_mdel_all_le out split: if_splits)
qed

lemma touch_session_inv: "session_inv st \<Longrightarrow> session_inv (touch_session now h st)"
  by (simp add: touch_session_def touch_inv split: option.splits)

lemma session_exec_inv: "session_inv st \<Longrightarrow> session_inv (session_exec H now op st)"
  by (cases op)
     (simp_all add: CreateSession_inv ValidateSession_inv RevokeSession_inv RevokeByClientID_inv
        RevokeAllForUser_inv Sweep_def purgeExpired_inv touch_session_inv)

lemma session_exec_limits:
  "session_inv st \<Longrightarrow> perUserLimit (session_exec H now op st) = perUserLimit st
     \<and> globalLimit (session_exec H now op st) = globalLimit st"
proof (cases op)
  case (OpCreate r u c p cb root e)
  define st1 where "st1 = (if length (sessions st) \<ge> globalLimit st then purgeExpiredLocked now st else st)"
  assume "session_inv st"
  then have inv1: "session_inv st1" by (simp add: st1_def purgeExpired_inv)
  from evict_oldest_no_panic [OF inv1] obtain st2 where st2: "evict_oldest u st1 = Inr st2" by blast
  have "perUserLimit st1 = perUserLimit st" "globalLimit st1 = globalLimit st"
    by (simp_all add: st1_def)
  with evict_oldest_inv [OF inv1 st2] st2 OpCreate show ?thesis
    by (simp add: CreateSession_def Let_def st1_def [symmetric] insert_session_def)
next
  case (OpValidate r p)
  then show ?thesis using ValidateSession_store [of H now r p st] by auto
qed (auto simp: RevokeSession_def RevokeByClientID_def RevokeAllForUser_def Let_def Sweep_def
       touch_session_def fold_revoke_one split: option.splits)

lemma session_inv_NewStore: "session_inv (NewStore ttl)"
  by (simp add: session_inv_def NewStore_def session_listed_def session_bounded_def
      MaxSessionsPerUser_def)

text \<open>The invariant of every run, with the two limits the store was built with.\<close>

definition session_inv_default :: "session_store \<Rightarrow> bool" where
  "session_inv_default st \<longleftrightarrow> session_inv st \<and> perUserLimit st = MaxSessionsPerUser
     \<and> globalLimit st = MaxGlobalSessions"

interpretation sessions: op_system "session_step H" session_inv_default
  by unfold_locales
     (auto elim!: session_stepE simp: session_inv_default_def session_exec_inv session_exec_limits)

lemma session_reachable:
  "reaches (session_step H) (NewStore ttl) st \<Longrightarrow> session_inv_default st"
  by (rule sessions.reaches_inv [of H "NewStore ttl"], assumption)
     (simp add: session_inv_default_def session_inv_NewStore, simp add: NewStore_def)

lemma session_reach_one: "reaches (session_step H) s (session_exec H now op s)"
  by (rule reaches_step [OF reaches_refl]) (rule session_stepI)

lemma sessions_of_card:
  assumes inv: "session_inv st"
  shows "card (sessions_of st u) \<le> perUserLimit st"
proof -
  have "sessions_of st u \<subseteq> set (mslice (userSessions st) u)"
    using session_inv_parts(4) [OF inv] by (auto simp: sessions_of_def session_listed_def)
  then have "card (sessions_of st u) \<le> card (set (mslice (userSessions st) u))"
    by (rule card_mono [OF finite_set])
  also have "\<dots> \<le> length (mslice (userSessions st) u)" by (rule card_length)
  also have "\<dots> \<le> perUserLimit st"
    using session_inv_parts(5) [OF inv] by (simp add: session_bounded_def)
  finally show ?thesis .
qed

section \<open>Properties of the session store\<close>

lemma CreateSession_Inr:
  assumes "CreateSession H now r u c p cb root e st = (Inr s, st')"
  shows "\<exists>st2. r \<noteq> [] \<and> u \<noteq> []
    \<and> evict_oldest u (if length (sessions st) \<ge> globalLimit st then purgeExpiredLocked now st else st) = Inr st2
    \<and> st' = insert_session s (drop_previous_client u c st2)
    \<and> s = \<lparr>sess_HashID = H r, sess_Username = u, sess_ClientID = c, sess_ClientIP = extractIP p,
          sess_CallbackAddr = cb, sess_RootFID = root, sess_CreatedAt = now, sess_LastSeenAt = now,
          sess_AbsoluteExp = e\<rparr>"
  using assms by (auto simp: CreateSession_def Let_def split: if_splits sum.splits)

lemma evict_oldest_idleTTL: "evict_oldest u st = Inr st' \<Longrightarrow> idleTTL st' = idleTTL st"
  by (auto simp: evict_oldest_def Let_def split: if_splits list.splits)

text \<open>C4. In every run of session operations from a fresh store, at most 10000 sessions are live and no
  user ever has more than five.\<close>

theorem session_limits:
  assumes "reaches (session_step H) (NewStore ttl) st"
  shows "ActiveCount st \<le> 10000 \<and> card (sessions_of st u) \<le> 5"
proof -
  have inv: "session_inv_default st" by (rule session_reachable [OF assms])
  then have "card (sessions_of st u) \<le> perUserLimit st"
    by (intro sessions_of_card) (simp add: session_inv_default_def)
  with inv show ?thesis
    by (simp add: session_inv_default_def session_inv_def session_bounded_def ActiveCount_def
        MaxGlobalSessions_def MaxSessionsPerUser_def)
qed

theorem session_limits_witness:
  "card (sessions_of (session_exec id 1 (OpCreate ''t'' ''alice'' ''c'' ''h:1'' [] [] 0) (NewStore 0)) ''alice'') \<le> 5"
  using session_limits [of id 0 "session_exec id 1 (OpCreate ''t'' ''alice'' ''c'' ''h:1'' [] [] 0) (NewStore 0)" "''alice''"]
    session_reach_one by blast


text \<open>A session just created is accepted later with its own token from the same address, as long as it
  has neither been idle longer than the store's TTL nor passed its absolute expiry.\<close>

theorem create_then_validate:
  assumes create: "CreateSession H now r u c p cb root e st = (Inr s, st')"
    and same_peer: "extractIP p' = extractIP p"
    and ttl: "0 \<le> idleTTL st" "idleTTL st < max_duration"
    and idle: "t - now \<le> idleTTL st"
    and abs: "e = 0 \<or> t \<le> e"
  shows "fst (ValidateSession H t r p' st') = Inr (s\<lparr>sess_LastSeenAt := t\<rparr>)
    \<and> sess_Username s = u \<and> sess_RootFID s = root"
proof -
  from CreateSession_Inr [OF create] obtain st2 where
    r: "r \<noteq> []" and
    st2: "evict_oldest u (if length (sessions st) \<ge> globalLimit st then purgeExpiredLocked now st else st) = Inr st2"
    and st': "st' = insert_session s (drop_previous_client u c st2)"
    and s: "s = \<lparr>sess_HashID = H r, sess_Username = u, sess_ClientID = c, sess_ClientIP = extractIP p,
          sess_CallbackAddr = cb, sess_RootFID = root, sess_CreatedAt = now, sess_LastSeenAt = now,
          sess_AbsoluteExp = e\<rparr>" by blast
  have "idleTTL st' = idleTTL st"
    using evict_oldest_idleTTL [OF st2] by (auto simp: st' insert_session_def split: if_splits)
  moreover have "\<not> IsExpired s t (idleTTL st)"
    using abs idle time_Sub_le_iff [OF ttl, of t now]
    by (auto simp: s IsExpired_def time_IsZero_def time_After_def)
  moreover have "mget (sessions st') (H r) = Some s"
    by (simp add: st' insert_session_def s)
  ultimately show ?thesis
    using r same_peer by (simp add: ValidateSession_def Let_def Touch_def s)
qed

theorem create_then_validate_witness:
  "fst (ValidateSession id 7 ''t'' ''h:2''
     (snd (CreateSession id 5 ''t'' ''alice'' ''c'' ''h:1'' [] [] 9 (NewStore 0))))
   = Inr \<lparr>sess_HashID = ''t'', sess_Username = ''alice'', sess_ClientID = ''c'', sess_ClientIP = ''h'',
          sess_CallbackAddr = [], sess_RootFID = [], sess_CreatedAt = 5, sess_LastSeenAt = 7,
          sess_AbsoluteExp = 9\<rparr>"
proof -
  let ?s = "\<lparr>sess_HashID = ''t'', sess_Username = ''alice'', sess_ClientID = ''c'', sess_ClientIP = ''h'',
          sess_CallbackAddr = [], sess_RootFID = [], sess_CreatedAt = 5, sess_LastSeenAt = 5,
          sess_AbsoluteExp = 9\<rparr>"
  have ip: "extractIP ''h:1'' = ''h''" "extractIP ''h:2'' = ''h''" by code_simp+
  have "CreateSession id 5 ''t'' ''alice'' ''c'' ''h:1'' [] [] 9 (NewStore 0)
      = (Inr ?s, snd (CreateSession id 5 ''t'' ''alice'' ''c'' ''h:1'' [] [] 9 (NewStore 0)))"
    by (simp add: CreateSession_def NewStore_def Let_def ip evict_oldest_def MaxSessionsPerUser_def
        MaxGlobalSessions_def)
  from create_then_validate [OF this, of "''h:2''" 7] show ?thesis
    by (simp add: ip NewStore_def DefaultIdleTTL_def second_ns_def max_duration_def)
qed



text \<open>A defect: when a client logs in as another user, the session it had is dropped, but the hash is
  searched in the list of the new user only, so it stays listed for the old one, where it still counts
  against the limit of five although no session belongs to it any more.\<close>

theorem client_handover_leaves_stale_hash:
  assumes idx: "mget (clientIndex st) c = Some h" and a: "h \<in> set (mslice (userSessions st) a)"
    and ab: "a \<noteq> b"
    and room: "length (sessions st) < globalLimit st" "length (mslice (userSessions st) b) < perUserLimit st"
    and fresh: "H r \<noteq> h"
    and create: "CreateSession H now r b c p cb root e st = (Inr s, st')"
  shows "mget (sessions st') h = None \<and> h \<in> set (mslice (userSessions st') a)"
proof -
  from CreateSession_Inr [OF create] room have st': "st' = insert_session s (drop_previous_client b c st)"
    and s: "sess_HashID s = H r" "sess_Username s = b"
    by (auto simp: evict_oldest_def Let_def)
  show ?thesis using idx a ab fresh
    by (simp add: st' insert_session_def s drop_previous_client_def)
qed

theorem client_handover_leaves_stale_hash_witness:
  "(let st = session_exec id 5 (OpCreate ''t'' ''alice'' ''c'' [] [] [] 0) (NewStore 0);
        st' = session_exec id 6 (OpCreate ''u'' ''bob'' ''c'' [] [] [] 0) st
    in mget (sessions st') ''t'' = None \<and> ''t'' \<in> set (mslice (userSessions st') ''alice''))"
proof -
  define st where "st = session_exec id 5 (OpCreate ''t'' ''alice'' ''c'' [] [] [] 0) (NewStore 0)"
  let ?cr = "CreateSession id 6 ''u'' ''bob'' ''c'' [] [] [] 0 st"
  let ?s = "\<lparr>sess_HashID = ''t'', sess_Username = ''alice'', sess_ClientID = ''c'',
      sess_ClientIP = [], sess_CallbackAddr = [], sess_RootFID = [], sess_CreatedAt = 5,
      sess_LastSeenAt = 5, sess_AbsoluteExp = 0\<rparr>"
  have st: "st = (NewStore 0)\<lparr>sessions := [(''t'', ?s)], userSessions := [(''alice'', [''t''])],
      clientIndex := [(''c'', ''t'')]\<rparr>"
    by (simp add: st_def CreateSession_def NewStore_def Let_def extractIP_def evict_oldest_def
        MaxSessionsPerUser_def MaxGlobalSessions_def drop_previous_client_def insert_session_def)
  have lim: "globalLimit (NewStore 0) = 10000" "perUserLimit (NewStore 0) = 5"
    by (simp_all add: NewStore_def MaxGlobalSessions_def MaxSessionsPerUser_def)
  have "\<exists>s. ?cr = (Inr s, snd ?cr)"
    by (simp add: st lim CreateSession_def Let_def evict_oldest_def mslice_def)
  then obtain s where "?cr = (Inr s, snd ?cr)" by blast
  then have "mget (sessions (snd ?cr)) ''t'' = None \<and> ''t'' \<in> set (mslice (userSessions (snd ?cr)) ''alice'')"
    by (intro client_handover_leaves_stale_hash [where a = "''alice''" and b = "''bob''" and c = "''c''"])
       (simp_all add: st lim mslice_def)
  then show ?thesis unfolding Let_def st_def session_exec.simps by simp
qed

end
