(* ===== verification/File_Server.thy ===== *)
theory File_Server
  imports Inode_Store Inode_Tree Session_Store
begin

text \<open>
  The fileserver (\<^verbatim>\<open>internal/fileserver/fileserver.go\<close>, with \<^verbatim>\<open>aclstore.go\<close> and \<^verbatim>\<open>quota.go\<close>):
  its state, the files it keeps beside the user data, and one definition per operation.

  Every operation of the code runs under the server's mutex, so an operation is a function from state
  to result and state. The result is an error or a value. The operating system, the JSON encoder and the
  clock are the record \<open>fs_env\<close>; a request the server sends to the metaserver is appended to
  \<open>ms_log\<close>. A loop over the inode tree that would not end gives the error \<open>Diverges\<close>, and a run-time
  panic gives \<open>Panics\<close>; the theorems show when they cannot happen.
\<close>

section \<open>State\<close>

datatype kept_file = AclFile | SharesFile | QuotaFile | IndexFile

datatype fault = NoRoot | ReadFault | ParseFault | TempFault | WriteFault | RenameFault

datatype lookup_error =
    NilFID | InodeNotFound | UserNotRegistered | RootInodeMissing | ChildInodeMissing
  | ComponentNotDirectory | ComponentNotFound | NotADirectory | NotAFile | PathNotComputed
  | IncorrectPath | FileNotFound | TrashNotDirectory | NoRestoreMetadata | RestoreTargetNotDirectory

datatype refusal =
    EmptyUser | ZeroQuota | CannotTrashRoot | CannotTrashTrash | AlreadyInTrash | NotInTrash
  | OnlyDirectoriesShared | CannotShareWithSelf | AlreadyShared | NotInSharedList
  | TrashNavigationDenied | InvalidName | ReservedName | InsideTrash | CannotDeleteRoot
  | CannotDeleteTrash | DirectoryNotEmpty

datatype os_fault =
    MkdirFailed | RootDirFailed | ScanFailed | MoveFailed | RestoreFailed | CreateFailed | OpenFailed
  | ReadFailed | WriteFailed | DeleteFailed

datatype limit = QuotaExceeded | StorageLimit | OffsetOverflow

datatype fs_error =
    Kept kept_file fault            \<comment> \<open>a file the server keeps beside the user data\<close>
  | Lookup lookup_error
  | Refused refusal
  | Os os_fault
  | Limit limit
  | NotOwner | PermissionDenied | UnknownPermission
  | Diverges | Panics

record trash_entry =
  originalParentFID :: "fid option"
  originalName :: string
  originalRelPath :: string
  sharedSnapshots :: "(string \<times> string list) list"

record client_session =
  cs_username :: string
  callbackAddress :: string
  cs_rootFID :: "fid option"
  currentDirFID :: "fid option"
  lastSeenAt :: gotime
  consecutiveFailures :: nat

datatype ms_rpc = RpcRootShare string string string string | RpcRootUnshare string string string string

record file_server =
  serverID :: string
  rootDir :: string
  fs_inodes :: inodes
  fs_users :: "(string, fid) gomap"
  fs_nextInodeID :: u64
  trashMeta :: "(fid, trash_entry) gomap"
  msAddr :: string
  fs_Shared :: "(string, string list) gomap"
  cb_sessions :: "(string, client_session) gomap"
  sessionStore :: session_store
  quotas :: "(string, u64) gomap"
  inodeStore :: inode_store
  fs_disk :: disk
  ms_log :: "ms_rpc list"

record fs_env =
  env_err :: oserr                       \<comment> \<open>which system calls fail\<close>
  json_enc :: "jdoc \<Rightarrow> byte list"         \<comment> \<open>\<^verbatim>\<open>json.Marshal\<close>\<close>
  json_dec :: "byte list \<Rightarrow> jdoc option"  \<comment> \<open>\<^verbatim>\<open>json.Unmarshal\<close> on bytes the server did not write\<close>
  env_short :: nat                       \<comment> \<open>bytes written by a \<open>WriteAt\<close> that fails\<close>
  diskFree :: u64                        \<comment> \<open>\<open>readDiskStats\<close>\<close>
  env_tmp :: string                      \<comment> \<open>the name \<open>os.CreateTemp\<close> picks\<close>
  env_now :: gotime
  adminEmail :: string                   \<comment> \<open>\<^verbatim>\<open>DVFS_ADMIN_EMAIL\<close>\<close>

definition trashDirName :: string where "trashDirName = ''.trash''"

definition DiskSafetyBuffer :: u64 where "DiskSafetyBuffer = 20 * 1024 * 1024 * 1024"

section \<open>ACL files, directory shares, quotas\<close>

definition aclFileName :: string where "aclFileName = ''.acl''"

definition getACLPath :: "string \<Rightarrow> file_server \<Rightarrow> string" where
  "getACLPath path s = Join [rootDir s, path, aclFileName]"

text \<open>\<open>json.Unmarshal\<close> of what a file holds.\<close>

definition parse_json :: "fs_env \<Rightarrow> content \<Rightarrow> jdoc option" where
  "parse_json env c = (case c of Json j \<Rightarrow> Some j | Raw bs \<Rightarrow> json_dec env bs)"

text \<open>Writing a document to a temporary file and renaming it; the temporary file is removed when the
  rename fails. The flags say whether the write and the rename succeeded.\<close>

definition write_rename_doc :: "fs_env \<Rightarrow> string \<Rightarrow> jdoc \<Rightarrow> disk \<Rightarrow> (bool \<times> bool) \<times> disk" where
  "write_rename_doc env path doc d =
     (let tmpPath = path @ ''.tmp'' in
      case os_WriteFile (env_err env) tmpPath (Json doc) d of
        (False, d1) \<Rightarrow> ((False, False), d1)
      | (True, d1) \<Rightarrow>
          (case os_Rename (env_err env) tmpPath path d1 of
             (False, d2) \<Rightarrow> ((True, False), snd (os_Remove (env_err env) tmpPath d2))
           | (True, d2) \<Rightarrow> ((True, True), d2)))"

definition SaveACL :: "fs_env \<Rightarrow> string \<Rightarrow> acl \<Rightarrow> file_server \<Rightarrow> fs_error option \<times> file_server" where
  "SaveACL env path a s =
     (case write_rename_doc env (getACLPath path s) (JAcl (Owner a) (Some (SharedWith a))) (fs_disk s) of
        ((False, _), d) \<Rightarrow> (Some (Kept AclFile WriteFault), s\<lparr>fs_disk := d\<rparr>)
      | ((True, False), d) \<Rightarrow> (Some (Kept AclFile RenameFault), s\<lparr>fs_disk := d\<rparr>)
      | ((True, True), d) \<Rightarrow> (None, s\<lparr>fs_disk := d\<rparr>))"

definition default_acl :: "string \<Rightarrow> acl" where
  "default_acl username = \<lparr>Owner = username, SharedWith = []\<rparr>"

text \<open>Decoding into the two fields \<open>owner\<close> and \<open>shared\<close>: absent fields stay empty, a number in their
  place is an error.\<close>

definition acl_of_doc :: "jdoc \<Rightarrow> acl option" where
  "acl_of_doc j =
     (case j of
        JAcl ow sh \<Rightarrow> Some \<lparr>Owner = ow, SharedWith = (case sh of None \<Rightarrow> [] | Some xs \<Rightarrow> xs)\<rparr>
      | JQuota m \<Rightarrow> if list_ex (\<lambda>(k, v). EqualFold k ''owner'' \<or> EqualFold k ''shared'') m then None
                    else Some \<lparr>Owner = [], SharedWith = []\<rparr>
      | JIndex _ _ \<Rightarrow> Some \<lparr>Owner = [], SharedWith = []\<rparr>
      | JShares _ \<Rightarrow> Some \<lparr>Owner = [], SharedWith = []\<rparr>)"

definition LoadACL :: "fs_env \<Rightarrow> string \<Rightarrow> string \<Rightarrow> file_server \<Rightarrow> fs_error + acl" where
  "LoadACL env username path s =
     (let aclPath = getACLPath path s in
      if os_stat_not_exist (env_err env) (fs_disk s) aclPath then Inr (default_acl username)
      else (case os_ReadFile (env_err env) aclPath (fs_disk s) of
              Got c \<Rightarrow>
                (case parse_json env c of
                   None \<Rightarrow> Inl (Kept AclFile ParseFault)
                 | Some j \<Rightarrow> (case acl_of_doc j of None \<Rightarrow> Inl (Kept AclFile ParseFault) | Some a \<Rightarrow> Inr a))
            | _ \<Rightarrow> Inl (Kept AclFile ReadFault)))"

definition dirSharesFileName :: string where "dirSharesFileName = ''fileserver_shares.json''"

definition SaveDirShares :: "fs_env \<Rightarrow> file_server \<Rightarrow> fs_error option \<times> file_server" where
  "SaveDirShares env s =
     (if rootDir s = [] then (Some (Kept SharesFile NoRoot), s)
      else (case write_rename_doc env (Join [rootDir s, dirSharesFileName]) (JShares (Some (fs_Shared s))) (fs_disk s) of
              ((False, _), d) \<Rightarrow> (Some (Kept SharesFile WriteFault), s\<lparr>fs_disk := d\<rparr>)
            | ((True, False), d) \<Rightarrow> (Some (Kept SharesFile RenameFault), s\<lparr>fs_disk := d\<rparr>)
            | ((True, True), d) \<Rightarrow> (None, s\<lparr>fs_disk := d\<rparr>)))"

definition shares_of_doc :: "jdoc \<Rightarrow> (string, string list) gomap option" where
  "shares_of_doc j =
     (case j of
        JShares m \<Rightarrow> Some (case m of None \<Rightarrow> [] | Some m' \<Rightarrow> m')
      | JQuota m \<Rightarrow> if list_ex (\<lambda>(k, v). EqualFold k ''shares'') m then None else Some []
      | JAcl _ _ \<Rightarrow> Some []
      | JIndex _ _ \<Rightarrow> Some [])"

definition LoadDirShares :: "fs_env \<Rightarrow> file_server \<Rightarrow> fs_error option \<times> file_server" where
  "LoadDirShares env s =
     (if rootDir s = [] then (Some (Kept SharesFile NoRoot), s)
      else
        (let sharesPath = Join [rootDir s, dirSharesFileName] in
         if os_stat_not_exist (env_err env) (fs_disk s) sharesPath then (None, s\<lparr>fs_Shared := []\<rparr>)
         else (case os_ReadFile (env_err env) sharesPath (fs_disk s) of
                 Got c \<Rightarrow>
                   (case parse_json env c of
                      None \<Rightarrow> (Some (Kept SharesFile ParseFault), s)
                    | Some j \<Rightarrow>
                        (case shares_of_doc j of
                           None \<Rightarrow> (Some (Kept SharesFile ParseFault), s)
                         | Some m \<Rightarrow> (None, s\<lparr>fs_Shared := m\<rparr>)))
               | _ \<Rightarrow> (Some (Kept SharesFile ReadFault), s))))"

definition quotaConfigFile :: string where "quotaConfigFile = ''quota_config.json''"

definition defaultStorageQuota :: u64 where "defaultStorageQuota = 16 * 1024 * 1024 * 1024"

definition getUserQuotaLocked :: "string \<Rightarrow> file_server \<Rightarrow> u64" where
  "getUserQuotaLocked username s =
     (case mget (quotas s) username of
        Some q \<Rightarrow> if q > 0 then q else defaultStorageQuota
      | None \<Rightarrow> defaultStorageQuota)"

definition GetUserQuota :: "string \<Rightarrow> file_server \<Rightarrow> u64" where
  "GetUserQuota username s = getUserQuotaLocked username s"

definition saveQuotasLocked :: "fs_env \<Rightarrow> file_server \<Rightarrow> fs_error option \<times> file_server" where
  "saveQuotasLocked env s =
     (let configPath = Join [rootDir s, quotaConfigFile]; tmpName = env_tmp env; er = env_err env; d = fs_disk s in
      if er (CCreateTemp tmpName) \<or> mget d tmpName \<noteq> None \<or> \<not> is_dir d (dir_of tmpName)
      then (Some (Kept QuotaFile TempFault), s)
      else
        (case os_WriteFile er tmpName (Json (JQuota (quotas s))) (mput tmpName (DFile (Raw [])) d) of
           (False, d1) \<Rightarrow> (Some (Kept QuotaFile WriteFault), s\<lparr>fs_disk := snd (os_Remove er tmpName d1)\<rparr>)
         | (True, d1) \<Rightarrow>
             (case os_Rename er tmpName configPath d1 of
                (False, d2) \<Rightarrow> (Some (Kept QuotaFile RenameFault), s\<lparr>fs_disk := snd (os_Remove er tmpName d2)\<rparr>)
              | (True, d2) \<Rightarrow> (None, s\<lparr>fs_disk := d2\<rparr>))))"

definition SetUserQuota :: "fs_env \<Rightarrow> string \<Rightarrow> u64 \<Rightarrow> file_server \<Rightarrow> fs_error option \<times> file_server" where
  "SetUserQuota env username quotaBytes s =
     (if username = [] then (Some (Refused EmptyUser), s)
      else if quotaBytes = 0 then (Some (Refused ZeroQuota), s)
      else saveQuotasLocked env (s\<lparr>quotas := mput username quotaBytes (quotas s)\<rparr>))"

definition quotas_of_doc :: "jdoc \<Rightarrow> (string, u64) gomap option" where
  "quotas_of_doc j =
     (case j of
        JQuota m \<Rightarrow> Some m
      | JShares None \<Rightarrow> Some [(''shares'', 0)]
      | _ \<Rightarrow> None)"

definition loadQuotas :: "fs_env \<Rightarrow> file_server \<Rightarrow> fs_error option \<times> file_server" where
  "loadQuotas env s =
     (case os_ReadFile (env_err env) (Join [rootDir s, quotaConfigFile]) (fs_disk s) of
        NotExist \<Rightarrow> (None, s)
      | ReadErr \<Rightarrow> (Some (Kept QuotaFile ReadFault), s)
      | Got c \<Rightarrow>
          (case parse_json env c of
             None \<Rightarrow> (Some (Kept QuotaFile ParseFault), s)
           | Some j \<Rightarrow>
               (case quotas_of_doc j of
                  None \<Rightarrow> (Some (Kept QuotaFile ParseFault), s)
                | Some loaded \<Rightarrow> (None, s\<lparr>quotas := fold (\<lambda>(u, q). mput u q) loaded (quotas s)\<rparr>))))"

section \<open>Inodes\<close>

definition GetInode :: "fs_env \<Rightarrow> fid \<Rightarrow> file_server \<Rightarrow> inode option \<times> file_server" where
  "GetInode env f s =
     (case mget (fs_inodes s) f of
        None \<Rightarrow> (None, s)
      | Some n \<Rightarrow>
          if Type n = InodeTypeFile then
            (case os_stat_size (env_err env) (json_enc env) (OSPath n) (fs_disk s) of
               Some z \<Rightarrow> (Some (n\<lparr>Size := z\<rparr>), s\<lparr>fs_inodes := mput f (n\<lparr>Size := z\<rparr>) (fs_inodes s)\<rparr>)
             | None \<Rightarrow> (Some n, s))
          else (Some n, s))"

definition upd_inode :: "fid \<Rightarrow> (inode \<Rightarrow> inode) \<Rightarrow> inodes \<Rightarrow> inodes" where
  "upd_inode f g I = (case mget I f of None \<Rightarrow> I | Some n \<Rightarrow> mput f (g n) I)"

definition GetChildInodeByName :: "inodes \<Rightarrow> inode \<Rightarrow> string \<Rightarrow> fid option" where
  "GetChildInodeByName I parent name =
     find (\<lambda>c. case mget I c of None \<Rightarrow> False | Some m \<Rightarrow> Name m = name) (Children parent)"

text \<open>\<open>fs.inodeStore.GetOrAssign\<close> followed by the update of \<open>nextInodeID\<close>, and \<open>Save\<close>, whose error
  is dropped.\<close>

definition assign_id :: "string \<Rightarrow> file_server \<Rightarrow> u64 \<times> file_server" where
  "assign_id relPath s =
     (case GetOrAssign relPath (inodeStore s) of
        (i, st) \<Rightarrow> (i, s\<lparr>inodeStore := st, fs_nextInodeID := store_NextInodeID st\<rparr>))"

definition save_index :: "fs_env \<Rightarrow> file_server \<Rightarrow> file_server" where
  "save_index env s = s\<lparr>fs_disk := snd (store_Save (env_err env) (fs_disk s) (inodeStore s))\<rparr>"

definition new_fid :: "u64 \<Rightarrow> file_server \<Rightarrow> fid" where
  "new_fid i s = \<lparr>FileServerID = serverID s, InodeID = i, GenerationNumber = 1\<rparr>"

section \<open>Authorization\<close>

datatype permission = PermRead | PermWrite | PermDelete | PermAdmin | PermOther

definition Permission_String :: "permission \<Rightarrow> string" where
  "Permission_String p =
     (case p of PermRead \<Rightarrow> ''READ'' | PermWrite \<Rightarrow> ''WRITE'' | PermDelete \<Rightarrow> ''DELETE'' | PermAdmin \<Rightarrow> ''ADMIN''
      | PermOther \<Rightarrow> ''UNKNOWN'')"

text \<open>The method of the fileserver, and the function of the same name, which also refuses the empty user.\<close>

definition fs_userCanAccessInode :: "inode \<Rightarrow> string \<Rightarrow> bool" where
  "fs_userCanAccessInode n user \<longleftrightarrow> Owner (ACL n) = user \<or> list_ex (\<lambda>u. u = user) (SharedWith (ACL n))"

definition userCanAccessInode :: "inode \<Rightarrow> string \<Rightarrow> bool" where
  "userCanAccessInode n username \<longleftrightarrow>
     username \<noteq> [] \<and> (Owner (ACL n) = username \<or> list_ex (\<lambda>u. u = username) (SharedWith (ACL n)))"

text \<open>\<open>caller\<close> is what \<open>UsernameFromContext\<close> finds: \<open>None\<close> without a session.\<close>

definition Authorize ::
  "fs_env \<Rightarrow> string option \<Rightarrow> fid option \<Rightarrow> permission \<Rightarrow> file_server \<Rightarrow> fs_error + (inode \<times> string)" where
  "Authorize env ctxUser fo perm s =
     (case fo of
        None \<Rightarrow> Inl (Lookup NilFID)
      | Some f \<Rightarrow>
          (let caller = (case ctxUser of None \<Rightarrow> [] | Some u \<Rightarrow> u) in
           case mget (fs_inodes s) f of
             None \<Rightarrow> Inl (Lookup InodeNotFound)
           | Some n \<Rightarrow>
               if caller = [] then Inr (n, Owner (ACL n))
               else (case perm of
                       PermRead \<Rightarrow> if \<not> fs_userCanAccessInode n caller then Inl PermissionDenied else Inr (n, caller)
                     | PermWrite \<Rightarrow> if \<not> fs_userCanAccessInode n caller then Inl PermissionDenied else Inr (n, caller)
                     | PermDelete \<Rightarrow> if Owner (ACL n) \<noteq> caller then Inl PermissionDenied else Inr (n, caller)
                     | PermAdmin \<Rightarrow> if adminEmail env = [] \<or> \<not> EqualFold caller (adminEmail env)
                                    then Inl PermissionDenied else Inr (n, caller)
                     | PermOther \<Rightarrow> Inl UnknownPermission)))"

section \<open>User roots and trash directories\<close>

definition getOrCreateTrashDirLocked :: "fs_env \<Rightarrow> string \<Rightarrow> file_server \<Rightarrow> (fs_error + fid) \<times> file_server" where
  "getOrCreateTrashDirLocked env root_user s =
     (case mget (fs_users s) root_user of
        None \<Rightarrow> (Inl (Lookup UserNotRegistered), s)
      | Some rootFID \<Rightarrow>
          (case mget (fs_inodes s) rootFID of
             None \<Rightarrow> (Inl (Lookup RootInodeMissing), s)
           | Some rootInode \<Rightarrow>
               (case GetChildInodeByName (fs_inodes s) rootInode trashDirName of
                  Some c \<Rightarrow>
                    (case mget (fs_inodes s) c of
                       Some child \<Rightarrow>
                         if Type child \<noteq> InodeTypeDirectory then (Inl (Lookup TrashNotDirectory), s)
                         else (Inr c, s)
                     | None \<Rightarrow> (Inl Panics, s))
                | None \<Rightarrow>
                    (let trashPath = Join [OSPath rootInode, trashDirName] in
                     case os_MkdirAll (env_err env) trashPath (fs_disk s) of
                       (False, d) \<Rightarrow> (Inl (Os MkdirFailed), s\<lparr>fs_disk := d\<rparr>)
                     | (True, d) \<Rightarrow>
                         (case assign_id (Join [root_user, trashDirName]) (s\<lparr>fs_disk := d\<rparr>) of
                            (i, s1) \<Rightarrow>
                              (let s2 = save_index env s1; trashFID = new_fid i s2;
                                   trashInode = \<lparr>FID = trashFID, Type = InodeTypeDirectory, Name = trashDirName,
                                     OSPath = trashPath, ACL = default_acl root_user, Children = [], Size = 0,
                                     Parent = Some rootFID\<rparr>;
                                   I = mput trashFID trashInode (fs_inodes s2)
                               in (Inr trashFID,
                                   s2\<lparr>fs_inodes := upd_inode rootFID
                                        (\<lambda>n. n\<lparr>Children := Children n @ [trashFID]\<rparr>) I\<rparr>)))))))"

text \<open>The walk of \<open>GetUserRoot\<close> down the components of the path.\<close>

fun walk_root :: "fs_env \<Rightarrow> fid \<Rightarrow> string list \<Rightarrow> file_server \<Rightarrow> (fs_error + fid) \<times> file_server" where
  "walk_root env cur [] s = (Inr cur, s)"
| "walk_root env cur (component # rest) s =
     (if component = [] \<or> component = ''.'' then walk_root env cur rest s
      else (case GetInode env cur s of
              (None, s1) \<Rightarrow> (Inl (Lookup InodeNotFound), s1)
            | (Some n, s1) \<Rightarrow>
                if Type n \<noteq> InodeTypeDirectory then (Inl (Lookup ComponentNotDirectory), s1)
                else (case GetChildInodeByName (fs_inodes s1) n component of
                        None \<Rightarrow> (Inl (Lookup ComponentNotFound), s1)
                      | Some c \<Rightarrow> walk_root env c rest s1)))"

definition create_user_root :: "fs_env \<Rightarrow> string \<Rightarrow> file_server \<Rightarrow> (fs_error + fid) \<times> file_server" where
  "create_user_root env root_user s =
     (let userDir = Join [rootDir s, root_user] in
      case os_MkdirAll (env_err env) userDir (fs_disk s) of
        (False, d) \<Rightarrow> (Inl (Os MkdirFailed), s\<lparr>fs_disk := d\<rparr>)
      | (True, d) \<Rightarrow>
          (case assign_id root_user (s\<lparr>fs_disk := d\<rparr>) of
             (i, s1) \<Rightarrow>
               (let s2 = save_index env s1; rootFID = new_fid i s2 in
                case LoadACL env root_user root_user s2 of
                  Inl e \<Rightarrow> (Inl e, s2)
                | Inr a \<Rightarrow>
                    (let rootInode = \<lparr>FID = rootFID, Type = InodeTypeDirectory, Name = root_user,
                           OSPath = userDir, ACL = a, Children = [], Size = 0, Parent = Some rootFID\<rparr>
                     in (Inr rootFID,
                         s2\<lparr>fs_inodes := mput rootFID rootInode (fs_inodes s2),
                            fs_users := mput root_user rootFID (fs_users s2)\<rparr>)))))"

definition GetUserRoot :: "fs_env \<Rightarrow> string \<Rightarrow> string \<Rightarrow> file_server \<Rightarrow> (fs_error + fid) \<times> file_server" where
  "GetUserRoot env root_path root_user s =
     (let (r, s1) = (case mget (fs_users s) root_user of
                       Some f \<Rightarrow> (Inr f, s)
                     | None \<Rightarrow> create_user_root env root_user s) in
      case r of
        Inl e \<Rightarrow> (Inl e, s1)
      | Inr rootFID \<Rightarrow>
          (case getOrCreateTrashDirLocked env root_user s1 of
             (Inl e, s2) \<Rightarrow> (Inl e, s2)
           | (Inr _, s2) \<Rightarrow>
               if root_path = root_user then (Inr rootFID, s2)
               else
                 (let comps = Split (TrimPrefix root_path ''/'');
                      rest = (case comps of [] \<Rightarrow> [] | c # cs \<Rightarrow> if c = root_user then cs else comps)
                  in walk_root env rootFID rest s2)))"

definition isTrashDirForUser :: "inode \<Rightarrow> string \<Rightarrow> file_server \<Rightarrow> bool" where
  "isTrashDirForUser n root_user s =
     (if Name n \<noteq> trashDirName then False
      else (case mget (fs_users s) root_user of
              None \<Rightarrow> False
            | Some rootFID \<Rightarrow>
                (case mget (fs_inodes s) rootFID of
                   None \<Rightarrow> False
                 | Some rootInode \<Rightarrow> Parent n = Some (FID rootInode))))"

definition nameExistsInDirLocked :: "inodes \<Rightarrow> inode \<Rightarrow> string \<Rightarrow> bool" where
  "nameExistsInDirLocked I dir name =
     list_ex (\<lambda>c. case mget I c of None \<Rightarrow> False | Some m \<Rightarrow> Name m = name) (Children dir)"

definition uniqueNameInDirLocked :: "inodes \<Rightarrow> inode \<Rightarrow> string \<Rightarrow> u64 \<Rightarrow> string" where
  "uniqueNameInDirLocked I dir desired inodeID =
     (if \<not> nameExistsInDirLocked I dir desired then desired
      else desired @ ''__'' @ dec (unat inodeID))"

text \<open>The search for an inode among those above another, itself included.\<close>

fun on_chain :: "nat \<Rightarrow> inodes \<Rightarrow> fid \<Rightarrow> fid \<Rightarrow> bool option" where
  "on_chain 0 I t f = None"
| "on_chain (Suc k) I t f =
     (if f = t then Some True
      else (case mget I f of
              None \<Rightarrow> Some False
            | Some n \<Rightarrow>
                (case Parent n of
                   None \<Rightarrow> Some False
                 | Some p \<Rightarrow> if p = f then Some False else on_chain k I t p)))"

definition isUnderTrashLocked :: "fs_env \<Rightarrow> fid \<Rightarrow> string \<Rightarrow> file_server \<Rightarrow> bool option \<times> file_server" where
  "isUnderTrashLocked env f root_user s =
     (case getOrCreateTrashDirLocked env root_user s of
        (Inl _, s1) \<Rightarrow> (Some False, s1)
      | (Inr t, s1) \<Rightarrow> (on_chain (fuel (fs_inodes s1)) (fs_inodes s1) t f, s1))"

definition pathContainsTrashSegment :: "string \<Rightarrow> bool" where
  "pathContainsTrashSegment path = list_ex (\<lambda>part. part = trashDirName) (Split path)"

definition isUnderRootTrashLocked :: "fid \<Rightarrow> fid option \<Rightarrow> file_server \<Rightarrow> bool option" where
  "isUnderRootTrashLocked f rootFID s =
     (case rootFID of
        None \<Rightarrow> Some False
      | Some r \<Rightarrow>
          (case mget (fs_inodes s) r of
             None \<Rightarrow> Some False
           | Some rootInode \<Rightarrow>
               (case GetChildInodeByName (fs_inodes s) rootInode trashDirName of
                  None \<Rightarrow> Some False
                | Some t \<Rightarrow> on_chain (fuel (fs_inodes s)) (fs_inodes s) t f)))"

text \<open>Reading the children of a directory: \<open>GetInode\<close> on each, dropping those that are gone.\<close>

fun get_children :: "fs_env \<Rightarrow> fid list \<Rightarrow> file_server \<Rightarrow> inode list \<times> file_server" where
  "get_children env [] s = ([], s)"
| "get_children env (c # cs) s =
     (case GetInode env c s of
        (None, s1) \<Rightarrow> get_children env cs s1
      | (Some n, s1) \<Rightarrow> (case get_children env cs s1 of (ns, s2) \<Rightarrow> (n # ns, s2)))"

definition ShowTrash :: "fs_env \<Rightarrow> string \<Rightarrow> string \<Rightarrow> file_server \<Rightarrow> (fs_error + inode list) \<times> file_server" where
  "ShowTrash env root_user requester0 s =
     (let requester = (if requester0 = [] then root_user else requester0) in
      case getOrCreateTrashDirLocked env root_user s of
        (Inl e, s1) \<Rightarrow> (Inl e, s1)
      | (Inr t, s1) \<Rightarrow>
          (case mget (fs_inodes s1) t of
             None \<Rightarrow> (Inl Panics, s1)
           | Some trashInode \<Rightarrow>
               (case get_children env (Children trashInode) s1 of
                  (ns, s2) \<Rightarrow> (Inr (sort_key Name (filter (\<lambda>n. userCanAccessInode n requester) ns)), s2))))"

section \<open>Moving to the trash and back\<close>

fun updateSubtreePathsLocked :: "nat \<Rightarrow> fid \<Rightarrow> string \<Rightarrow> inodes \<Rightarrow> inodes option" where
  "updateSubtreePathsLocked 0 f newOSPath I = None"
| "updateSubtreePathsLocked (Suc k) f newOSPath I =
     (case mget I f of
        None \<Rightarrow> Some I
      | Some n \<Rightarrow>
          (let I1 = mput f (n\<lparr>OSPath := newOSPath\<rparr>) I in
           if Type n \<noteq> InodeTypeDirectory then Some I1
           else fold (\<lambda>c acc. case acc of
                        None \<Rightarrow> None
                      | Some J \<Rightarrow>
                          (case mget J c of
                             None \<Rightarrow> Some J
                           | Some m \<Rightarrow> updateSubtreePathsLocked k c (Join [newOSPath, Name m]) J))
                  (Children n) (Some I1)))"

definition collectSharedSnapshotsForPathLocked :: "string \<Rightarrow> file_server \<Rightarrow> (string \<times> string list) list" where
  "collectSharedSnapshotsForPathLocked basePath s =
     (if basePath = [] then []
      else sort_key fst (filter (\<lambda>(p, us). p = basePath \<or> HasPrefix p (basePath @ ''/'')) (fs_Shared s)))"

text \<open>\<open>RootShare\<close> and \<open>RootUnshare\<close> of the metaserver client; the callers only log their errors.\<close>

definition notify_ms :: "ms_rpc \<Rightarrow> file_server \<Rightarrow> file_server" where
  "notify_ms rpc s = (if msAddr s = [] then s else s\<lparr>ms_log := ms_log s @ [rpc]\<rparr>)"

definition RootShareRPC :: "string \<Rightarrow> string \<Rightarrow> string \<Rightarrow> string \<Rightarrow> file_server \<Rightarrow> file_server" where
  "RootShareRPC owner name path share_with = notify_ms (RpcRootShare owner path share_with name)"

definition RootUnshareRPC :: "string \<Rightarrow> string \<Rightarrow> string \<Rightarrow> string \<Rightarrow> file_server \<Rightarrow> file_server" where
  "RootUnshareRPC owner name path unshare_with = notify_ms (RpcRootUnshare owner path unshare_with name)"

definition detachSharedSnapshotsLocked ::
  "fs_env \<Rightarrow> string \<Rightarrow> (string \<times> string list) list \<Rightarrow> file_server \<Rightarrow> file_server" where
  "detachSharedSnapshotsLocked env owner snaps s =
     (if snaps = [] then s
      else snd (SaveDirShares env
        (fold (\<lambda>(p, us) t. fold (\<lambda>u. RootUnshareRPC owner (Base p) p u) us
                 (t\<lparr>fs_Shared := mdel p (fs_Shared t)\<rparr>)) snaps s)))"

definition mapped_path :: "string \<Rightarrow> string \<Rightarrow> string \<Rightarrow> string" where
  "mapped_path oldBase newBase p =
     (if p = oldBase then newBase
      else if HasPrefix p (oldBase @ ''/'') then Join [newBase, TrimPrefix p (oldBase @ ''/'')]
      else p)"

definition add_user :: "string \<Rightarrow> string list \<Rightarrow> string list" where
  "add_user u us = (if list_ex (\<lambda>v. v = u) us then us else us @ [u])"

definition reattachSharedSnapshotsLocked ::
  "fs_env \<Rightarrow> string \<Rightarrow> string \<Rightarrow> string \<Rightarrow> (string \<times> string list) list \<Rightarrow> file_server \<Rightarrow> file_server" where
  "reattachSharedSnapshotsLocked env owner oldBase newBase snaps s =
     (if snaps = [] then s
      else snd (SaveDirShares env
        (fold (\<lambda>(p, us) t.
           (let q = mapped_path oldBase newBase p in
            fold (\<lambda>u v. RootShareRPC owner (Base q) q u
                    (v\<lparr>fs_Shared := mput q (add_user u (mslice (fs_Shared v) q)) (fs_Shared v)\<rparr>)) us
              (t\<lparr>fs_Shared := mput q (mslice (fs_Shared t) q) (fs_Shared t)\<rparr>))) snaps s)))"

fun first_error :: "fs_error option list \<Rightarrow> fs_error option" where
  "first_error [] = None"
| "first_error (Some e # es) = Some e"
| "first_error (None # es) = first_error es"

fun validateDeletePermissions :: "nat \<Rightarrow> inodes \<Rightarrow> string \<Rightarrow> bool \<Rightarrow> fid \<Rightarrow> fs_error option" where
  "validateDeletePermissions 0 I root_user recursive f = Some Diverges"
| "validateDeletePermissions (Suc k) I root_user recursive f =
     (case mget I f of
        None \<Rightarrow> None
      | Some n \<Rightarrow>
          if Owner (ACL n) \<noteq> root_user then Some NotOwner
          else if Type n = InodeTypeDirectory \<and> Children n \<noteq> [] then
            (if \<not> recursive then Some (Refused DirectoryNotEmpty)
             else first_error (map (validateDeletePermissions k I root_user recursive) (Children n)))
          else None)"

text \<open>Unlinking an inode from the children of its parent or, failing that, of the first directory that
  lists it.\<close>

definition removeFromParent :: "inode \<Rightarrow> inodes \<Rightarrow> inodes" where
  "removeFromParent n I =
     (let unlink = (\<lambda>m. m\<lparr>Children := filter (\<lambda>c. c \<noteq> FID n) (Children m)\<rparr>);
          fallback =
            (case find (\<lambda>(g, m). Type m = InodeTypeDirectory \<and> FID m \<noteq> FID n \<and> FID n \<in> set (Children m)) I of
               None \<Rightarrow> I
             | Some (g, m) \<Rightarrow> mput g (unlink m) I)
      in case Parent n of
           Some p \<Rightarrow>
             if p = FID n then I
             else (case mget I p of
                     Some m \<Rightarrow> if FID n \<in> set (Children m) then mput p (unlink m) I else fallback
                   | None \<Rightarrow> fallback)
         | None \<Rightarrow> fallback)"

text \<open>The memory updates both moves share: unlink, set parent and name, append to the new parent, rewrite
  the paths below.\<close>

definition relink :: "fid \<Rightarrow> inode \<Rightarrow> fid \<Rightarrow> string \<Rightarrow> string \<Rightarrow> inodes \<Rightarrow> inodes option" where
  "relink f n target finalName newPath I =
     (let I1 = removeFromParent n I;
          I2 = upd_inode f (\<lambda>m. m\<lparr>Parent := Some target, Name := finalName\<rparr>) I1;
          I3 = upd_inode target (\<lambda>m. m\<lparr>Children := Children m @ [FID n]\<rparr>) I2
      in updateSubtreePathsLocked (fuel I3) f newPath I3)"

definition rename_index :: "fs_env \<Rightarrow> string \<Rightarrow> string \<Rightarrow> file_server \<Rightarrow> file_server" where
  "rename_index env oldRel newPath s =
     (if oldRel = [] then s
      else (case Rel (rootDir s) newPath of
              None \<Rightarrow> s
            | Some newRel \<Rightarrow> save_index env (s\<lparr>inodeStore := RenamePrefix oldRel newRel (inodeStore s)\<rparr>)))"

definition rel_or :: "string \<Rightarrow> string \<Rightarrow> file_server \<Rightarrow> string" where
  "rel_or dflt p s = (case Rel (rootDir s) p of None \<Rightarrow> dflt | Some r \<Rightarrow> r)"

text \<open>The refusals of \<open>TrashFile\<close> and \<open>DeleteFile\<close> before anything is changed.\<close>

definition is_user_root :: "fid \<Rightarrow> string \<Rightarrow> file_server \<Rightarrow> bool" where
  "is_user_root f root_user s = (mget (fs_users s) root_user = Some f)"

definition TrashFile :: "fs_env \<Rightarrow> fid option \<Rightarrow> string \<Rightarrow> bool \<Rightarrow> file_server \<Rightarrow> (fs_error + string) \<times> file_server" where
  "TrashFile env fo root_user recursive s =
     (case fo of
        None \<Rightarrow> (Inl (Lookup NilFID), s)
      | Some f \<Rightarrow>
     (case GetInode env f s of
        (None, s1) \<Rightarrow> (Inl (Lookup FileNotFound), s1)
      | (Some n, s1) \<Rightarrow>
          if is_user_root f root_user s1 then (Inl (Refused CannotTrashRoot), s1)
          else if isTrashDirForUser n root_user s1 then (Inl (Refused CannotTrashTrash), s1)
          else (case validateDeletePermissions (fuel (fs_inodes s1)) (fs_inodes s1) root_user recursive f of
                  Some e \<Rightarrow> (Inl e, s1)
                | None \<Rightarrow>
     (case getOrCreateTrashDirLocked env root_user s1 of
        (Inl e, s2) \<Rightarrow> (Inl e, s2)
      | (Inr t, s2) \<Rightarrow>
          if Parent n = Some t then (Inl (Refused AlreadyInTrash), s2)
          else (case mget (fs_inodes s2) t of
                  None \<Rightarrow> (Inl Panics, s2)
                | Some trashInode \<Rightarrow>
     (let finalName = uniqueNameInDirLocked (fs_inodes s2) trashInode (Name n) (InodeID (FID n));
          newPath = Join [OSPath trashInode, finalName];
          origRel = rel_or [] (OSPath n) s2;
          snaps = collectSharedSnapshotsForPathLocked origRel s2
      in case os_Rename (env_err env) (OSPath n) newPath (fs_disk s2) of
           (False, d) \<Rightarrow> (Inl (Os MoveFailed), s2\<lparr>fs_disk := d\<rparr>)
         | (True, d) \<Rightarrow>
             (let s3 = detachSharedSnapshotsLocked env root_user snaps (s2\<lparr>fs_disk := d\<rparr>);
                  s4 = s3\<lparr>trashMeta := mput f \<lparr>originalParentFID = Parent n, originalName = Name n,
                            originalRelPath = origRel, sharedSnapshots = snaps\<rparr> (trashMeta s3)\<rparr>
              in case relink f n t finalName newPath (fs_inodes s4) of
                   None \<Rightarrow> (Inl Diverges, s4)
                 | Some I \<Rightarrow> (Inr finalName, rename_index env origRel newPath (s4\<lparr>fs_inodes := I\<rparr>)))))))))"

definition restore_target :: "trash_entry \<Rightarrow> string \<Rightarrow> file_server \<Rightarrow> fs_error + (fid \<times> inode)" where
  "restore_target meta root_user s =
     (case (case originalParentFID meta of
              None \<Rightarrow> None
            | Some p \<Rightarrow> (case mget (fs_inodes s) p of None \<Rightarrow> None | Some m \<Rightarrow> Some (p, m))) of
        Some pm \<Rightarrow> Inr pm
      | None \<Rightarrow>
          (case mget (fs_users s) root_user of
             None \<Rightarrow> Inl (Lookup UserNotRegistered)
           | Some r \<Rightarrow>
               (case mget (fs_inodes s) r of
                  None \<Rightarrow> Inl (Lookup RootInodeMissing)
                | Some m \<Rightarrow> Inr (r, m))))"

definition RestoreFile :: "fs_env \<Rightarrow> fid option \<Rightarrow> string \<Rightarrow> string \<Rightarrow> file_server \<Rightarrow> (fs_error + string) \<times> file_server" where
  "RestoreFile env fo root_user requester0 s =
     (let requester = (if requester0 = [] then root_user else requester0) in
      case fo of
        None \<Rightarrow> (Inl (Lookup NilFID), s)
      | Some f \<Rightarrow>
     (case GetInode env f s of
        (None, s1) \<Rightarrow> (Inl (Lookup FileNotFound), s1)
      | (Some n, s1) \<Rightarrow>
          if \<not> userCanAccessInode n requester then (Inl PermissionDenied, s1)
          else
     (case getOrCreateTrashDirLocked env root_user s1 of
        (Inl e, s2) \<Rightarrow> (Inl e, s2)
      | (Inr t, s2) \<Rightarrow>
          if Parent n \<noteq> Some t then (Inl (Refused NotInTrash), s2)
          else (case mget (trashMeta s2) f of
                  None \<Rightarrow> (Inl (Lookup NoRestoreMetadata), s2)
                | Some meta \<Rightarrow>
     (case restore_target meta root_user s2 of
        Inl e \<Rightarrow> (Inl e, s2)
      | Inr (p, target) \<Rightarrow>
          if Type target \<noteq> InodeTypeDirectory then (Inl (Lookup RestoreTargetNotDirectory), s2)
          else
     (let finalName = uniqueNameInDirLocked (fs_inodes s2) target (originalName meta) (InodeID (FID n));
          newPath = Join [OSPath target, finalName];
          oldRel = rel_or [] (OSPath n) s2
      in case os_Rename (env_err env) (OSPath n) newPath (fs_disk s2) of
           (False, d) \<Rightarrow> (Inl (Os RestoreFailed), s2\<lparr>fs_disk := d\<rparr>)
         | (True, d) \<Rightarrow>
             (case relink f n p finalName newPath (fs_inodes s2) of
                None \<Rightarrow> (Inl Diverges, s2\<lparr>fs_disk := d\<rparr>)
              | Some I \<Rightarrow>
                  (let s3 = rename_index env oldRel newPath (s2\<lparr>fs_disk := d, fs_inodes := I\<rparr>);
                       s4 = (if sharedSnapshots meta \<noteq> [] \<and> originalRelPath meta \<noteq> []
                             then reattachSharedSnapshotsLocked env root_user (originalRelPath meta)
                                    (rel_or (originalRelPath meta) newPath s3) (sharedSnapshots meta) s3
                             else s3)
                   in (Inr finalName, s4\<lparr>trashMeta := mdel f (trashMeta s4)\<rparr>)))))))))"

section \<open>Sharing\<close>

definition checkStorageQuotaWithAdditional :: "fs_env \<Rightarrow> string \<Rightarrow> u64 \<Rightarrow> file_server \<Rightarrow> fs_error option" where
  "checkStorageQuotaWithAdditional env username additionalBytes s =
     (case mget (fs_users s) username of
        None \<Rightarrow> Some (Lookup UserNotRegistered)
      | Some rootFID \<Rightarrow>
          (case mget (fs_inodes s) rootFID of
             None \<Rightarrow> Some (Lookup RootInodeMissing)
           | Some rootInode \<Rightarrow>
               (let quota = getUserQuotaLocked username s in
                if additionalBytes > quota \<or> Size rootInode > quota - additionalBytes then Some (Limit QuotaExceeded)
                else if additionalBytes > 0 \<and> diskFree env > 0
                        \<and> (diskFree env \<le> DiskSafetyBuffer \<or> additionalBytes > diskFree env - DiskSafetyBuffer)
                then Some (Limit StorageLimit)
                else None)))"

definition checkStorageQuota :: "fs_env \<Rightarrow> string \<Rightarrow> file_server \<Rightarrow> fs_error option" where
  "checkStorageQuota env username s = checkStorageQuotaWithAdditional env username 0 s"

text \<open>One turn of the loops of \<open>Share\<close> and \<open>Unshare\<close> over the subtree.\<close>

definition set_shared :: "fs_env \<Rightarrow> fid \<Rightarrow> inode \<Rightarrow> string list \<Rightarrow> file_server \<Rightarrow> file_server" where
  "set_shared env f n us s =
     (let a = (ACL n)\<lparr>SharedWith := us\<rparr>;
          s1 = s\<lparr>fs_inodes := mput f (n\<lparr>ACL := a\<rparr>) (fs_inodes s)\<rparr>
      in case Rel (rootDir s) (OSPath n) of
           None \<Rightarrow> s1
         | Some p \<Rightarrow> snd (SaveACL env p a s1))"

definition share_inode :: "fs_env \<Rightarrow> string \<Rightarrow> fid \<Rightarrow> file_server \<Rightarrow> file_server" where
  "share_inode env share_with f s =
     (case mget (fs_inodes s) f of
        None \<Rightarrow> s
      | Some n \<Rightarrow>
          if list_ex (\<lambda>u. u = share_with) (SharedWith (ACL n)) then s
          else set_shared env f n (SharedWith (ACL n) @ [share_with]) s)"

definition unshare_inode :: "fs_env \<Rightarrow> string \<Rightarrow> fid \<Rightarrow> file_server \<Rightarrow> file_server" where
  "unshare_inode env unshare_with f s =
     (case mget (fs_inodes s) f of
        None \<Rightarrow> s
      | Some n \<Rightarrow>
          if list_ex (\<lambda>u. u = unshare_with) (SharedWith (ACL n))
          then set_shared env f n (filter (\<lambda>u. u \<noteq> unshare_with) (SharedWith (ACL n))) s
          else s)"

definition Share :: "fs_env \<Rightarrow> string \<Rightarrow> string \<Rightarrow> fid \<Rightarrow> file_server \<Rightarrow> fs_error option \<times> file_server" where
  "Share env username share_with f s =
     (case GetInode env f s of
        (None, s1) \<Rightarrow> (Some (Lookup InodeNotFound), s1)
      | (Some n, s1) \<Rightarrow>
          if Type n \<noteq> InodeTypeDirectory then (Some (Refused OnlyDirectoriesShared), s1)
          else if Owner (ACL n) \<noteq> username then (Some NotOwner, s1)
          else if share_with = Owner (ACL n) then (Some (Refused CannotShareWithSelf), s1)
          else if list_ex (\<lambda>u. u = share_with) (SharedWith (ACL n)) then (Some (Refused AlreadyShared), s1)
          else (case dfs (fuel (fs_inodes s1)) (fs_inodes s1) f of
                  None \<Rightarrow> (Some Diverges, s1)
                | Some subtree \<Rightarrow>
                    (let s2 = fold (share_inode env share_with) subtree s1;
                         path = rel_or (Name n) (OSPath n) s2;
                         s3 = s2\<lparr>fs_Shared := mput path (add_user share_with (mslice (fs_Shared s2) path)) (fs_Shared s2)\<rparr>;
                         s4 = snd (SaveDirShares env s3)
                     in (None, RootShareRPC username (Name n) path share_with s4))))"

definition Unshare :: "fs_env \<Rightarrow> string \<Rightarrow> string \<Rightarrow> fid \<Rightarrow> file_server \<Rightarrow> fs_error option \<times> file_server" where
  "Unshare env username unshare_with f s =
     (case GetInode env f s of
        (None, s1) \<Rightarrow> (Some (Lookup InodeNotFound), s1)
      | (Some n, s1) \<Rightarrow>
          if Owner (ACL n) \<noteq> username then (Some NotOwner, s1)
          else if unshare_with = Owner (ACL n) then (Some (Refused CannotShareWithSelf), s1)
          else if \<not> list_ex (\<lambda>u. u = unshare_with) (SharedWith (ACL n)) then (Some (Refused NotInSharedList), s1)
          else (case dfs (fuel (fs_inodes s1)) (fs_inodes s1) f of
                  None \<Rightarrow> (Some Diverges, s1)
                | Some subtree \<Rightarrow>
                    (let s2 = fold (unshare_inode env unshare_with) subtree s1;
                         dirPath = rel_or (Name n) (OSPath n) s2;
                         s3 = (case mget (fs_Shared s2) dirPath of
                                 None \<Rightarrow> s2
                               | Some us \<Rightarrow>
                                   (let us' = filter (\<lambda>u. u \<noteq> unshare_with) us
                                    in s2\<lparr>fs_Shared := (if us' = [] then mdel dirPath (fs_Shared s2)
                                                        else mput dirPath us' (fs_Shared s2))\<rparr>));
                         s4 = snd (SaveDirShares env s3)
                     in (None, RootUnshareRPC username (Name n) (rel_or [] (OSPath n) s4) unshare_with s4))))"

section \<open>Navigation\<close>

definition Path :: "fs_env \<Rightarrow> fid \<Rightarrow> file_server \<Rightarrow> (fs_error + string) \<times> file_server" where
  "Path env f s =
     (case GetInode env f s of
        (None, s1) \<Rightarrow> (Inl (Lookup InodeNotFound), s1)
      | (Some n, s1) \<Rightarrow>
          if Type n \<noteq> InodeTypeDirectory then (Inl (Lookup NotADirectory), s1)
          else (case Rel (rootDir s1) (OSPath n) of
                  None \<Rightarrow> (Inl (Lookup PathNotComputed), s1)
                | Some p \<Rightarrow> (Inr p, s1)))"

fun cd_walk :: "inodes \<Rightarrow> fid \<Rightarrow> string list \<Rightarrow> fs_error + fid" where
  "cd_walk I cur [] = Inr cur"
| "cd_walk I cur (part # parts) =
     (if part = [] \<or> part = ''.'' then cd_walk I cur parts
      else (case mget I cur of
              None \<Rightarrow> Inl Panics
            | Some n \<Rightarrow>
                if part = ''..'' then
                  (case Parent n of None \<Rightarrow> cd_walk I cur parts | Some p \<Rightarrow> cd_walk I p parts)
                else (case GetChildInodeByName I n part of
                        None \<Rightarrow> Inl (Lookup IncorrectPath)
                      | Some c \<Rightarrow> cd_walk I c parts)))"

text \<open>The new directory is \<open>None\<close> when \<open>/\<close> is asked for without a root FID.\<close>

definition ChangeDir ::
  "fs_env \<Rightarrow> fid \<Rightarrow> string \<Rightarrow> fid option \<Rightarrow> file_server \<Rightarrow> (fs_error + fid option) \<times> file_server" where
  "ChangeDir env cur path rootFID s =
     (if pathContainsTrashSegment path then (Inl (Refused TrashNavigationDenied), s)
      else (case GetInode env cur s of
              (None, s1) \<Rightarrow> (Inl (Lookup InodeNotFound), s1)
            | (Some n, s1) \<Rightarrow>
                if Type n \<noteq> InodeTypeDirectory then (Inl (Lookup NotADirectory), s1)
                else if path = ''/'' then (Inr rootFID, s1)
                else if path = ''..'' then
                  (case Parent n of None \<Rightarrow> (Inl Panics, s1) | Some p \<Rightarrow> (Inr (Some p), s1))
                else (case cd_walk (fs_inodes s1) cur (Split path) of
                        Inl e \<Rightarrow> (Inl e, s1)
                      | Inr dest \<Rightarrow>
                          (case isUnderRootTrashLocked dest rootFID s1 of
                             None \<Rightarrow> (Inl Diverges, s1)
                           | Some True \<Rightarrow> (Inl (Refused TrashNavigationDenied), s1)
                           | Some False \<Rightarrow> (Inr (Some dest), s1)))))"

definition ListDirectory :: "fs_env \<Rightarrow> fid \<Rightarrow> file_server \<Rightarrow> (fs_error + inode list) \<times> file_server" where
  "ListDirectory env f s =
     (case GetInode env f s of
        (None, s1) \<Rightarrow> (Inl (Lookup InodeNotFound), s1)
      | (Some n, s1) \<Rightarrow>
          if Type n \<noteq> InodeTypeDirectory then (Inl (Lookup NotADirectory), s1)
          else (case get_children env (Children n) s1 of (ns, s2) \<Rightarrow> (Inr ns, s2)))"

section \<open>Files\<close>

definition valid_name :: "string \<Rightarrow> bool" where
  "valid_name name \<longleftrightarrow>
     \<not> (name = [] \<or> name = ''.'' \<or> name = ''..'' \<or> ContainsByte name slash \<or> ContainsByte name backslash
        \<or> Clean name \<noteq> name \<or> IsAbs name \<or> Base name \<noteq> name)"

definition reserved_name :: "string \<Rightarrow> bool" where
  "reserved_name name \<longleftrightarrow>
     name = trashDirName \<or> name = inodeIndexFilename \<or> name = quotaConfigFile \<or> HasPrefix name ''.dvfs_''"

definition CreateFile ::
  "fs_env \<Rightarrow> fid \<Rightarrow> string \<Rightarrow> string \<Rightarrow> inode_type \<Rightarrow> file_server \<Rightarrow> (fs_error + fid) \<times> file_server" where
  "CreateFile env parentFID name root_user fileType s =
     (if \<not> valid_name name then (Inl (Refused InvalidName), s)
      else if reserved_name name then (Inl (Refused ReservedName), s)
      else (case GetInode env parentFID s of
        (None, s1) \<Rightarrow> (Inl (Lookup InodeNotFound), s1)
      | (Some parent, s1) \<Rightarrow>
          if Type parent \<noteq> InodeTypeDirectory then (Inl (Lookup NotADirectory), s1)
          else (case GetChildInodeByName (fs_inodes s1) parent name of
        Some c \<Rightarrow> (Inr c, s1)
      | None \<Rightarrow>
          (case isUnderTrashLocked env parentFID root_user s1 of
        (None, s2) \<Rightarrow> (Inl Diverges, s2)
      | (Some True, s2) \<Rightarrow> (Inl (Refused InsideTrash), s2)
      | (Some False, s2) \<Rightarrow>
          (let osPath = Join [OSPath parent, name] in
           case Rel (rootDir s2) osPath of
             None \<Rightarrow> (Inl (Lookup PathNotComputed), s2)
           | Some path \<Rightarrow>
               (case (case fileType of
                        InodeTypeFile \<Rightarrow> os_Create (env_err env) osPath (fs_disk s2)
                      | InodeTypeDirectory \<Rightarrow> os_Mkdir (env_err env) osPath (fs_disk s2)) of
                  (False, d) \<Rightarrow> (Inl (Os CreateFailed), s2\<lparr>fs_disk := d\<rparr>)
                | (True, d) \<Rightarrow>
                    (case assign_id path (s2\<lparr>fs_disk := d\<rparr>) of
                       (i, s3) \<Rightarrow>
                         (let newFID = new_fid i s3;
                              a = \<lparr>Owner = Owner (ACL parent), SharedWith = SharedWith (ACL parent)\<rparr>;
                              newInode = \<lparr>FID = newFID, Type = fileType, Name = name, OSPath = osPath, ACL = a,
                                Children = [], Size = 0, Parent = Some parentFID\<rparr>;
                              s4 = (if fileType = InodeTypeDirectory then snd (SaveACL env path a s3) else s3);
                              I = upd_inode parentFID (\<lambda>m. m\<lparr>Children := Children m @ [newFID]\<rparr>)
                                    (mput newFID newInode (fs_inodes s4))
                          in (Inr newFID, save_index env (s4\<lparr>fs_inodes := I\<rparr>))))))))))"

text \<open>The look-up of a file by name in a directory, shared by reading, hashing and writing.\<close>

definition find_file :: "fs_env \<Rightarrow> fid \<Rightarrow> string \<Rightarrow> file_server \<Rightarrow> (fs_error + (fid \<times> inode)) \<times> file_server" where
  "find_file env parentFID name s =
     (case GetInode env parentFID s of
        (None, s1) \<Rightarrow> (Inl (Lookup InodeNotFound), s1)
      | (Some parent, s1) \<Rightarrow>
          (case GetChildInodeByName (fs_inodes s1) parent name of
             None \<Rightarrow> (Inl (Lookup FileNotFound), s1)
           | Some c \<Rightarrow>
               (case mget (fs_inodes s1) c of
                  None \<Rightarrow> (Inl Panics, s1)
                | Some n \<Rightarrow> if Type n \<noteq> InodeTypeFile then (Inl (Lookup NotAFile), s1) else (Inr (c, n), s1))))"

text \<open>A slice as long as \<open>2 ^ 63\<close> bytes cannot be made.\<close>

definition ReadFile :: "fs_env \<Rightarrow> fid \<Rightarrow> string \<Rightarrow> u64 \<Rightarrow> u64 \<Rightarrow> file_server \<Rightarrow> (fs_error + byte list) \<times> file_server" where
  "ReadFile env parentFID name offset len s =
     (case find_file env parentFID name s of
        (Inl e, s1) \<Rightarrow> (Inl e, s1)
      | (Inr (c, n), s1) \<Rightarrow>
          (case os_Open (env_err env) (json_enc env) (OSPath n) (fs_disk s1) of
             None \<Rightarrow> (Inl (Os OpenFailed), s1)
           | Some bs \<Rightarrow>
               if env_err env (CStat (OSPath n)) then (Inl (Os ReadFailed), s1)
               else
                 (let fileSize = (word_of_nat (length bs) :: u64) in
                  if offset \<ge> fileSize then (Inr [], s1)
                  else
                    (let readLen = (if len = 0 \<or> offset + len > fileSize then fileSize - offset else len) in
                     if 2 ^ 63 \<le> unat readLen then (Inl Panics, s1)
                     else if env_err env (CReadAt (OSPath n)) then (Inl (Os ReadFailed), s1)
                     else (Inr (take (unat readLen) (drop (unat offset) bs)), s1)))))"

text \<open>\<open>H\<close> is the hexadecimal SHA-256 digest.\<close>

definition GetFileHash :: "fs_env \<Rightarrow> (byte list \<Rightarrow> string) \<Rightarrow> fid \<Rightarrow> string \<Rightarrow> file_server \<Rightarrow> (fs_error + string) \<times> file_server" where
  "GetFileHash env H parentFID name s =
     (case find_file env parentFID name s of
        (Inl e, s1) \<Rightarrow> (Inl e, s1)
      | (Inr (c, n), s1) \<Rightarrow>
          (case os_Open (env_err env) (json_enc env) (OSPath n) (fs_disk s1) of
             None \<Rightarrow> (Inl (Os OpenFailed), s1)
           | Some bs \<Rightarrow> if env_err env (CReadAt (OSPath n)) then (Inl (Os ReadFailed), s1) else (Inr (H bs), s1)))"

definition add_sizes :: "u64 \<Rightarrow> fid list \<Rightarrow> inodes \<Rightarrow> inodes" where
  "add_sizes diff chain I = fold (\<lambda>f. upd_inode f (\<lambda>m. m\<lparr>Size := Size m + diff\<rparr>)) chain I"

text \<open>The checks of \<open>WriteFile\<close> before a file grows by \<open>diff\<close> bytes, against the quota of the root's
  user and the free space of the disk.\<close>

definition write_limit :: "fs_env \<Rightarrow> u64 \<Rightarrow> inode \<Rightarrow> file_server \<Rightarrow> fs_error option" where
  "write_limit env diff root s =
     (let quota = getUserQuotaLocked (Name root) s in
      if diff > quota \<or> Size root > quota - diff then Some (Limit QuotaExceeded)
      else if diskFree env > 0 \<and> (diskFree env \<le> DiskSafetyBuffer \<or> diff > diskFree env - DiskSafetyBuffer)
      then Some (Limit StorageLimit)
      else None)"

definition WriteFile :: "fs_env \<Rightarrow> fid \<Rightarrow> string \<Rightarrow> u64 \<Rightarrow> byte list \<Rightarrow> file_server \<Rightarrow> fs_error option \<times> file_server" where
  "WriteFile env parentFID name offset dt s =
     (case find_file env parentFID name s of
        (Inl e, s1) \<Rightarrow> (Some e, s1)
      | (Inr (f, n), s1) \<Rightarrow>
          if os_Open (env_err env) (json_enc env) (OSPath n) (fs_disk s1) = None then (Some (Os OpenFailed), s1)
          else if - 1 - offset < word_of_nat (length dt) then (Some (Limit OffsetOverflow), s1)
          else
            (let end = offset + word_of_nat (length dt);
                 newSize = (if end > Size n then end else Size n);
                 diff = newSize - Size n
             in case up_chain (fuel (fs_inodes s1)) (fs_inodes s1) f of
                  None \<Rightarrow> (if diff \<noteq> 0 then (Some Diverges, s1)
                           else (case os_WriteAt (env_err env) (json_enc env) (env_short env) (OSPath n) dt (sint offset) (fs_disk s1) of
                                   (False, d) \<Rightarrow> (Some (Os WriteFailed), s1\<lparr>fs_disk := d\<rparr>)
                                 | (True, d) \<Rightarrow> (None, s1\<lparr>fs_disk := d\<rparr>)))
                | Some chain \<Rightarrow>
                    (case (if 0 < sint diff
                           then (case mget (fs_inodes s1) (last chain) of
                                   None \<Rightarrow> Some Panics
                                 | Some root \<Rightarrow> write_limit env diff root s1)
                           else None) of
                       Some e \<Rightarrow> (Some e, s1)
                     | None \<Rightarrow>
                         (case os_WriteAt (env_err env) (json_enc env) (env_short env) (OSPath n) dt (sint offset) (fs_disk s1) of
                            (False, d) \<Rightarrow> (Some (Os WriteFailed), s1\<lparr>fs_disk := d\<rparr>)
                          | (True, d) \<Rightarrow>
                              (None, s1\<lparr>fs_disk := d,
                                        fs_inodes := (if diff \<noteq> 0 then add_sizes diff chain (fs_inodes s1) else fs_inodes s1)\<rparr>)))))"

section \<open>Deleting\<close>

definition collectInodesToDelete :: "fid \<Rightarrow> inodes \<Rightarrow> fid list option" where
  "collectInodesToDelete f I = dfs_post (fuel I) I f"

fun remove_each :: "fs_env \<Rightarrow> string list \<Rightarrow> disk \<Rightarrow> bool \<times> disk" where
  "remove_each env [] d = (True, d)"
| "remove_each env (p # ps) d =
     (case os_RemoveAll (env_err env) p d of
        (False, d1) \<Rightarrow> (False, d1)
      | (True, d1) \<Rightarrow> remove_each env ps d1)"

definition deduct_sizes :: "u64 \<Rightarrow> fid list \<Rightarrow> inodes \<Rightarrow> inodes" where
  "deduct_sizes deletedSize chain I =
     fold (\<lambda>f. upd_inode f (\<lambda>m. m\<lparr>Size := (if Size m \<ge> deletedSize then Size m - deletedSize else 0)\<rparr>)) chain I"

definition forget_inode :: "fid \<times> inode \<Rightarrow> file_server \<Rightarrow> file_server" where
  "forget_inode fn s =
     (case fn of (f, n) \<Rightarrow>
        s\<lparr>fs_inodes := mdel f (fs_inodes s), trashMeta := mdel f (trashMeta s),
          inodeStore := (case Rel (rootDir s) (OSPath n) of
                           Some relPath \<Rightarrow> store_Remove relPath (inodeStore s)
                         | None \<Rightarrow> inodeStore s)\<rparr>)"

definition detach_deleted :: "fs_env \<Rightarrow> (string \<times> string list) list \<Rightarrow> file_server \<Rightarrow> file_server" where
  "detach_deleted env snaps s =
     (if snaps = [] then s
      else snd (SaveDirShares env (s\<lparr>fs_Shared := mdel_all (map fst snaps) (fs_Shared s)\<rparr>)))"

text \<open>The memory updates of \<open>DeleteFile\<close>, after the files are gone from the disk.\<close>

definition forget_subtree :: "fs_env \<Rightarrow> inode \<Rightarrow> string \<Rightarrow> fid list \<Rightarrow> fid list \<Rightarrow> file_server \<Rightarrow> file_server" where
  "forget_subtree env n root_user ups doomed s =
     (let I = fs_inodes s;
          victims = map (\<lambda>f. (f, the (mget I f))) doomed;
          s1 = s\<lparr>fs_inodes := (if Size n > 0 then deduct_sizes (Size n) ups I else I)\<rparr>;
          s2 = save_index env (fold forget_inode victims s1);
          snaps = collectSharedSnapshotsForPathLocked (rel_or [] (OSPath n) s2) s2;
          s3 = detach_deleted env snaps s2;
          s4 = s3\<lparr>fs_inodes := removeFromParent n (fs_inodes s3)\<rparr>
      in fold (\<lambda>(p, us). fold (\<lambda>u. RootUnshareRPC root_user (Base p) p u) us) snaps s4)"

definition DeleteFile :: "fs_env \<Rightarrow> fid option \<Rightarrow> string \<Rightarrow> bool \<Rightarrow> file_server \<Rightarrow> fs_error option \<times> file_server" where
  "DeleteFile env fo root_user recursive s =
     (case fo of
        None \<Rightarrow> (Some Panics, s)
      | Some f \<Rightarrow>
     (case GetInode env f s of
        (None, s1) \<Rightarrow> (Some (Lookup FileNotFound), s1)
      | (Some n, s1) \<Rightarrow>
          (let I = fs_inodes s1 in
           if is_user_root f root_user s1 then (Some (Refused CannotDeleteRoot), s1)
           else if isTrashDirForUser n root_user s1 then (Some (Refused CannotDeleteTrash), s1)
           else (case validateDeletePermissions (fuel I) I root_user recursive f of
                   Some e \<Rightarrow> (Some e, s1)
                 | None \<Rightarrow>
     (case (if Type n = InodeTypeDirectory \<and> Children n \<noteq> [] then collectInodesToDelete f I else Some []) of
        None \<Rightarrow> (Some Diverges, s1)
      | Some inner \<Rightarrow>
          (let doomed = inner @ [f] in
           case remove_each env (map (\<lambda>g. OSPath (the (mget I g))) doomed) (fs_disk s1) of
             (False, d) \<Rightarrow> (Some (Os DeleteFailed), s1\<lparr>fs_disk := d\<rparr>)
           | (True, d) \<Rightarrow>
               (case up_chain (fuel I) I f of
                  None \<Rightarrow> (Some Diverges, s1\<lparr>fs_disk := d\<rparr>)
                | Some chain \<Rightarrow> (None, forget_subtree env n root_user (tl chain) doomed (s1\<lparr>fs_disk := d\<rparr>)))))))))"

end
