(* ===== verification/File_Handlers.thy ===== *)
theory File_Handlers
  imports File_Server
begin

text \<open>
  The requests of the fileserver: \<^verbatim>\<open>internal/fileserver/handler.go\<close>, the callback sessions of
  \<^verbatim>\<open>callback_server.go\<close> and the interceptor of \<^verbatim>\<open>auth_google.go\<close>. A handler returns an error or a
  response and the new state. The request context holds the session the interceptor attached, the peer
  address and the two administrator headers. The operation metrics the handlers record are not part of
  the state.
\<close>

section \<open>Callback sessions\<close>

definition activeSessionTTL :: duration where "activeSessionTTL = 45 * second_ns"

definition maxCallbackFailures :: nat where "maxCallbackFailures = 3"

definition RemoveClientSession :: "string \<Rightarrow> file_server \<Rightarrow> file_server" where
  "RemoveClientSession username s =
     (if username = [] then s else s\<lparr>cb_sessions := mdel username (cb_sessions s)\<rparr>)"

definition new_client_session :: "string \<Rightarrow> client_session" where
  "new_client_session username =
     \<lparr>cs_username = username, callbackAddress = [], cs_rootFID = None, currentDirFID = None,
      lastSeenAt = 0, consecutiveFailures = 0\<rparr>"

definition UpsertClientSession :: "fs_env \<Rightarrow> string \<Rightarrow> string \<Rightarrow> fid option \<Rightarrow> file_server \<Rightarrow> file_server" where
  "UpsertClientSession env username cbAddress rootFID s =
     (if username = [] then s
      else
        (let c0 = (case mget (cb_sessions s) username of Some c \<Rightarrow> c | None \<Rightarrow> new_client_session username);
             c1 = (if cbAddress \<noteq> [] then c0\<lparr>callbackAddress := cbAddress\<rparr> else c0);
             c2 = (case rootFID of None \<Rightarrow> c1 | Some f \<Rightarrow> c1\<lparr>cs_rootFID := Some f, currentDirFID := Some f\<rparr>)
         in s\<lparr>cb_sessions := mput username (c2\<lparr>lastSeenAt := env_now env, consecutiveFailures := 0\<rparr>) (cb_sessions s)\<rparr>))"

definition TouchClientActivity :: "fs_env \<Rightarrow> string \<Rightarrow> file_server \<Rightarrow> file_server" where
  "TouchClientActivity env username s =
     (if username = [] then s
      else (case mget (cb_sessions s) username of
              None \<Rightarrow> s
            | Some c \<Rightarrow> s\<lparr>cb_sessions := mput username (c\<lparr>lastSeenAt := env_now env\<rparr>) (cb_sessions s)\<rparr>))"

definition TouchClientActivityByRootFID :: "fs_env \<Rightarrow> fid option \<Rightarrow> file_server \<Rightarrow> file_server" where
  "TouchClientActivityByRootFID env rootFID s =
     (case rootFID of
        None \<Rightarrow> s
      | Some f \<Rightarrow>
          s\<lparr>cb_sessions := mmap (\<lambda>c. if cs_rootFID c = Some f then c\<lparr>lastSeenAt := env_now env\<rparr> else c) (cb_sessions s)\<rparr>)"

definition UpdateClientCurrentDirByRootFID :: "fs_env \<Rightarrow> fid option \<Rightarrow> fid option \<Rightarrow> file_server \<Rightarrow> file_server" where
  "UpdateClientCurrentDirByRootFID env rootFID dirFID s =
     (case (rootFID, dirFID) of
        (Some f, Some g) \<Rightarrow>
          s\<lparr>cb_sessions := mmap (\<lambda>c. if cs_rootFID c = Some f
                                     then c\<lparr>currentDirFID := Some g, lastSeenAt := env_now env\<rparr> else c) (cb_sessions s)\<rparr>
      | _ \<Rightarrow> s)"

definition isSessionActiveLocked :: "client_session \<Rightarrow> gotime \<Rightarrow> bool" where
  "isSessionActiveLocked c now =
     (if time_IsZero (lastSeenAt c) then False else time_Sub now (lastSeenAt c) \<le> activeSessionTTL)"

definition snapshotNotifyTargetsForDirLocked :: "fs_env \<Rightarrow> fid \<Rightarrow> string \<Rightarrow> file_server \<Rightarrow> client_session list" where
  "snapshotNotifyTargetsForDirLocked env dir originUsername s =
     filter (\<lambda>c. callbackAddress c \<noteq> [] \<and> cs_username c \<noteq> originUsername
               \<and> isSessionActiveLocked c (env_now env) \<and> currentDirFID c = Some dir)
       (map snd (cb_sessions s))"

definition recordCallbackResult :: "string \<Rightarrow> bool \<Rightarrow> file_server \<Rightarrow> file_server" where
  "recordCallbackResult username success s =
     (if username = [] then s
      else (case mget (cb_sessions s) username of
              None \<Rightarrow> s
            | Some c \<Rightarrow>
                if success then s\<lparr>cb_sessions := mput username (c\<lparr>consecutiveFailures := 0\<rparr>) (cb_sessions s)\<rparr>
                else
                  (let c1 = c\<lparr>consecutiveFailures := Suc (consecutiveFailures c)\<rparr>
                   in if consecutiveFailures c1 \<ge> maxCallbackFailures
                      then s\<lparr>cb_sessions := mdel username (cb_sessions s)\<rparr>
                      else s\<lparr>cb_sessions := mput username c1 (cb_sessions s)\<rparr>)))"

text \<open>The invalidations a notification starts: whom, which FID, which event. Each is sent by its own
  goroutine, which ends with \<open>recordCallbackResult\<close>.\<close>

datatype callback_event = FileUpdated | DirNewFile | FileDeleted

type_synonym invalidation = "client_session \<times> fid \<times> callback_event"

definition sendInvalidate :: "invalidation \<Rightarrow> bool \<Rightarrow> file_server \<Rightarrow> file_server" where
  "sendInvalidate msg delivered s =
     (case msg of (c, f, e) \<Rightarrow>
        if callbackAddress c = [] then s else recordCallbackResult (cs_username c) delivered s)"

definition NotifyFileUpdated ::
  "fs_env \<Rightarrow> fid option \<Rightarrow> string \<Rightarrow> string \<Rightarrow> file_server \<Rightarrow> invalidation list \<times> file_server" where
  "NotifyFileUpdated env parentFID name originUsername s =
     (case parentFID of
        None \<Rightarrow> ([], s)
      | Some p \<Rightarrow>
          if name = [] then ([], s)
          else (case GetInode env p s of
                  (None, s1) \<Rightarrow> ([], s1)
                | (Some parent, s1) \<Rightarrow>
                    (case GetChildInodeByName (fs_inodes s1) parent name of
                       None \<Rightarrow> ([], s1)
                     | Some c \<Rightarrow>
                         (map (\<lambda>t. (t, c, FileUpdated)) (snapshotNotifyTargetsForDirLocked env p originUsername s1), s1))))"

definition NotifyNewFileInDir :: "fs_env \<Rightarrow> fid option \<Rightarrow> string \<Rightarrow> string \<Rightarrow> file_server \<Rightarrow> invalidation list" where
  "NotifyNewFileInDir env parentFID name originUsername s =
     (case parentFID of
        None \<Rightarrow> []
      | Some p \<Rightarrow> if name = [] then []
                  else map (\<lambda>t. (t, p, DirNewFile)) (snapshotNotifyTargetsForDirLocked env p originUsername s))"

definition NotifyFileDeletedInDir :: "fs_env \<Rightarrow> fid option \<Rightarrow> string \<Rightarrow> string \<Rightarrow> file_server \<Rightarrow> invalidation list" where
  "NotifyFileDeletedInDir env parentFID name originUsername s =
     (case parentFID of
        None \<Rightarrow> []
      | Some p \<Rightarrow> if name = [] then []
                  else map (\<lambda>t. (t, p, FileDeleted)) (snapshotNotifyTargetsForDirLocked env p originUsername s))"

section \<open>Requests\<close>

datatype h_error =
    MissingArgument | NestedPath | RootUserAbsent | AccessRefused | ForAnotherUser | NotAdministrator
  | OnlyFilesDownload | StreamBroken | Fs fs_error

record rpc_ctx =
  ctx_session :: "session option"
  ctx_peer :: "string option"
  md_password_hash :: "string list"
  md_password :: "string list"

definition UsernameFromContext :: "rpc_ctx \<Rightarrow> string option" where
  "UsernameFromContext ctx = map_option sess_Username (ctx_session ctx)"

text \<open>The user a handler acts as: the authenticated caller, or the one the request names.\<close>

definition effective_user :: "string \<Rightarrow> string \<Rightarrow> string" where
  "effective_user caller requested = (if caller \<noteq> [] then caller else requested)"

text \<open>\<open>cb\<close> is the callback address after \<open>normalizeCallbackAddress\<close>; \<open>sst\<close> is the token
  \<open>GenerateSST\<close> made, if it could; \<open>H\<close> hashes it. The response carries the token when a session was
  created.\<close>

definition twelve_hours :: duration where "twelve_hours = 12 * 60 * 60 * second_ns"

definition RegisterClient ::
  "fs_env \<Rightarrow> (string \<Rightarrow> string) \<Rightarrow> string option \<Rightarrow> rpc_ctx \<Rightarrow> string \<Rightarrow> string \<Rightarrow> string \<Rightarrow> string \<Rightarrow> string
   \<Rightarrow> file_server \<Rightarrow> (h_error + (fid \<times> string)) \<times> file_server" where
  "RegisterClient env H sst ctx username rootUser rootPath clientId cb s =
     (if username = [] \<or> rootUser = [] \<or> rootPath = [] then (Inl MissingArgument, s)
      else if username \<noteq> rootUser \<and> mget (fs_users s) rootUser = None then (Inl RootUserAbsent, s)
      else (case GetUserRoot env rootPath rootUser s of
              (Inl e, s1) \<Rightarrow> (Inl (Fs e), s1)
            | (Inr rootFID, s1) \<Rightarrow>
                (case GetInode env rootFID s1 of
                   (None, s2) \<Rightarrow> (Inl (Fs (Lookup InodeNotFound)), s2)
                 | (Some rootInode, s2) \<Rightarrow>
                     if Owner (ACL rootInode) \<noteq> username \<and> \<not> list_ex (\<lambda>u. u = username) (SharedWith (ACL rootInode))
                     then (Inl AccessRefused, s2)
                     else
                       (let s3 = UpsertClientSession env username cb (Some rootFID) s2 in
                        case sst of
                          None \<Rightarrow> (Inr (rootFID, []), s3)
                        | Some rawSST \<Rightarrow>
                            (case CreateSession H (env_now env) rawSST username clientId
                                    (case ctx_peer ctx of None \<Rightarrow> [] | Some p \<Rightarrow> p) cb (FID_String rootFID)
                                    (env_now env + twelve_hours) (sessionStore s3) of
                               (Inl _, st) \<Rightarrow> (Inr (rootFID, []), s3\<lparr>sessionStore := st\<rparr>)
                             | (Inr _, st) \<Rightarrow> (Inr (rootFID, rawSST), s3\<lparr>sessionStore := st\<rparr>))))))"

definition UnregisterClient :: "string \<Rightarrow> string \<Rightarrow> file_server \<Rightarrow> (h_error + unit) \<times> file_server" where
  "UnregisterClient username clientId s =
     (if username = [] then (Inl MissingArgument, s)
      else
        (let s1 = RemoveClientSession username s
         in (Inr (), if clientId \<noteq> [] then s1\<lparr>sessionStore := RevokeByClientID clientId (sessionStore s1)\<rparr> else s1)))"

definition GetAttr :: "fs_env \<Rightarrow> rpc_ctx \<Rightarrow> fid option \<Rightarrow> file_server \<Rightarrow> h_error + (string \<times> inode_type \<times> u64)" where
  "GetAttr env ctx fo s =
     (if fo = None then Inl MissingArgument
      else (case Authorize env (UsernameFromContext ctx) fo PermRead s of
              Inl e \<Rightarrow> Inl (Fs e)
            | Inr (n, _) \<Rightarrow> Inr (Name n, Type n, Size n)))"

definition share_request ::
  "(string \<Rightarrow> string \<Rightarrow> fid \<Rightarrow> file_server \<Rightarrow> fs_error option \<times> file_server) \<Rightarrow> fs_env \<Rightarrow> rpc_ctx \<Rightarrow> string
   \<Rightarrow> fid option \<Rightarrow> string \<Rightarrow> file_server \<Rightarrow> (h_error + unit) \<times> file_server" where
  "share_request act env ctx username fo other s =
     (case fo of
        None \<Rightarrow> (Inl MissingArgument, s)
      | Some f \<Rightarrow>
          if username = [] \<or> other = [] then (Inl MissingArgument, s)
          else (case Authorize env (UsernameFromContext ctx) fo PermDelete s of
                  Inl e \<Rightarrow> (Inl (Fs e), s)
                | Inr (_, caller) \<Rightarrow>
                    if caller \<noteq> [] \<and> \<not> EqualFold caller username then (Inl ForAnotherUser, s)
                    else (case act (effective_user caller username) other f s of
                            (Some e, s1) \<Rightarrow> (Inl (Fs e), s1)
                          | (None, s1) \<Rightarrow> (Inr (), s1))))"

definition Share_handler :: "fs_env \<Rightarrow> rpc_ctx \<Rightarrow> string \<Rightarrow> fid option \<Rightarrow> string \<Rightarrow> file_server \<Rightarrow> (h_error + unit) \<times> file_server" where
  "Share_handler env = share_request (Share env) env"

definition Unshare_handler :: "fs_env \<Rightarrow> rpc_ctx \<Rightarrow> string \<Rightarrow> fid option \<Rightarrow> string \<Rightarrow> file_server \<Rightarrow> (h_error + unit) \<times> file_server" where
  "Unshare_handler env = share_request (Unshare env) env"

definition Path_handler :: "fs_env \<Rightarrow> fid option \<Rightarrow> string \<Rightarrow> string \<Rightarrow> file_server \<Rightarrow> (h_error + string) \<times> file_server" where
  "Path_handler env fo rootUser displayName s =
     (case fo of
        None \<Rightarrow> (Inl MissingArgument, s)
      | Some f \<Rightarrow>
          (case Path env f s of
             (Inl e, s1) \<Rightarrow> (Inl (Fs e), s1)
           | (Inr path, s1) \<Rightarrow>
               (Inr (Join [displayName, (case Rel rootUser path of None \<Rightarrow> [] | Some r \<Rightarrow> r)]), s1)))"

definition ChangeDir_handler ::
  "fs_env \<Rightarrow> rpc_ctx \<Rightarrow> fid option \<Rightarrow> string \<Rightarrow> fid option \<Rightarrow> file_server \<Rightarrow> (h_error + fid) \<times> file_server" where
  "ChangeDir_handler env ctx fo path rootFID s =
     (case fo of
        None \<Rightarrow> (Inl MissingArgument, s)
      | Some f \<Rightarrow>
          (case Authorize env (UsernameFromContext ctx) fo PermRead s of
             Inl e \<Rightarrow> (Inl (Fs e), s)
           | Inr _ \<Rightarrow>
               (case ChangeDir env f path rootFID s of
                  (Inl e, s1) \<Rightarrow> (Inl (Fs e), s1)
                | (Inr dest, s1) \<Rightarrow>
                    (case Authorize env (UsernameFromContext ctx) dest PermRead s1 of
                       Inl e \<Rightarrow> (Inl (Fs e), s1)
                     | Inr _ \<Rightarrow>
                         (case dest of
                            None \<Rightarrow> (Inl (Fs Panics), s1)
                          | Some g \<Rightarrow>
                              (Inr g, UpdateClientCurrentDirByRootFID env rootFID dest
                                        (TouchClientActivityByRootFID env rootFID s1)))))))"

definition ListDir :: "fs_env \<Rightarrow> rpc_ctx \<Rightarrow> fid option \<Rightarrow> file_server
   \<Rightarrow> (h_error + (fid \<times> string \<times> inode_type \<times> u64) list) \<times> file_server" where
  "ListDir env ctx fo s =
     (case fo of
        None \<Rightarrow> (Inl MissingArgument, s)
      | Some f \<Rightarrow>
          (case Authorize env (UsernameFromContext ctx) fo PermRead s of
             Inl e \<Rightarrow> (Inl (Fs e), s)
           | Inr _ \<Rightarrow>
               (case ListDirectory env f s of
                  (Inl e, s1) \<Rightarrow> (Inl (Fs e), s1)
                | (Inr ns, s1) \<Rightarrow> (Inr (map (\<lambda>n. (FID n, Name n, Type n, Size n)) ns), s1))))"

definition CreateFile_handler ::
  "fs_env \<Rightarrow> rpc_ctx \<Rightarrow> string \<Rightarrow> string \<Rightarrow> inode_type \<Rightarrow> u64 \<Rightarrow> fid option \<Rightarrow> file_server
   \<Rightarrow> (h_error + (fid \<times> invalidation list)) \<times> file_server" where
  "CreateFile_handler env ctx name rootUser fileType sz parentFID s =
     (if name = [] \<or> rootUser = [] then (Inl MissingArgument, s)
      else (case checkStorageQuotaWithAdditional env rootUser sz s of
              Some e \<Rightarrow> (Inl (Fs e), s)
            | None \<Rightarrow>
                if ContainsByte name slash \<or> ContainsByte name backslash \<or> name = ''..'' \<or> name = ''.''
                   \<or> Clean name \<noteq> name \<or> IsAbs name
                then (Inl NestedPath, s)
                else (case Authorize env (UsernameFromContext ctx) parentFID PermWrite s of
                        Inl e \<Rightarrow> (Inl (Fs e), s)
                      | Inr (_, caller) \<Rightarrow>
                          (case parentFID of
                             None \<Rightarrow> (Inl (Fs Panics), s)
                           | Some p \<Rightarrow>
                               (case CreateFile env p name (effective_user caller rootUser) fileType s of
                                  (Inl e, s1) \<Rightarrow> (Inl (Fs e), s1)
                                | (Inr f, s1) \<Rightarrow>
                                    (Inr (f, if fileType = InodeTypeFile then NotifyNewFileInDir env parentFID name [] s1 else []),
                                     s1))))))"

section \<open>Streams\<close>

definition cleanupFailedUpload :: "fs_env \<Rightarrow> fid option \<Rightarrow> string \<Rightarrow> string \<Rightarrow> file_server \<Rightarrow> file_server" where
  "cleanupFailedUpload env parentFID name user s =
     (case parentFID of
        None \<Rightarrow> s
      | Some p \<Rightarrow>
          if name = [] then s
          else (case GetInode env p s of
                  (None, s1) \<Rightarrow> s1
                | (Some parent, s1) \<Rightarrow>
                    (case GetChildInodeByName (fs_inodes s1) parent name of
                       None \<Rightarrow> s1
                     | Some c \<Rightarrow> snd (DeleteFile env (Some c) user False s1))))"

record upload_chunk =
  up_ParentFid :: "fid option"
  up_Name :: string
  up_User :: string
  up_Offset :: u64
  up_Chunk :: "byte list"

text \<open>
  The loop of \<open>UploadFile\<close>: the messages of the stream, then its end (\<open>eof\<close>) or its failure. The
  loop variables are \<open>first\<close>, \<open>name\<close>, \<open>parentFID\<close> and \<open>uploadUser\<close>.
\<close>

fun upload_loop ::
  "fs_env \<Rightarrow> (byte list \<Rightarrow> string) \<Rightarrow> rpc_ctx \<Rightarrow> bool \<Rightarrow> upload_chunk list \<Rightarrow> bool \<Rightarrow> string \<Rightarrow> fid option \<Rightarrow> string
   \<Rightarrow> file_server \<Rightarrow> (h_error + invalidation list) \<times> file_server" where
  "upload_loop env H ctx eof [] first name parentFID uploadUser s =
     (if eof then
        (case parentFID of
           None \<Rightarrow> (Inl (Fs Panics), s)
         | Some p \<Rightarrow>
             (case GetFileHash env H p name s of
                (Inl e, s1) \<Rightarrow> (Inl (Fs e), s1)
              | (Inr newHash, s1) \<Rightarrow>
                  (case NotifyFileUpdated env parentFID name uploadUser s1 of (msgs, s2) \<Rightarrow> (Inr msgs, s2))))
      else (Inl StreamBroken,
            if \<not> first \<and> name \<noteq> [] \<and> parentFID \<noteq> None then cleanupFailedUpload env parentFID name uploadUser s else s))"
| "upload_loop env H ctx eof (req # reqs) first name parentFID uploadUser s =
     (case up_ParentFid req of
        None \<Rightarrow> (Inl MissingArgument, s)
      | Some p \<Rightarrow>
          (let user1 = (if up_User req \<noteq> [] then up_User req else uploadUser);
               s0 = (if up_User req \<noteq> [] then TouchClientActivity env (up_User req) s else s)
           in case (if first then
                      (case Authorize env (UsernameFromContext ctx) (Some p) PermWrite s0 of
                         Inl e \<Rightarrow> (Inl e, s0)
                       | Inr (_, caller) \<Rightarrow>
                           (case GetFileHash env H p (up_Name req) s0 of
                              (Inl e, s1) \<Rightarrow> (Inl e, s1)
                            | (Inr _, s1) \<Rightarrow> (Inr (up_Name req, effective_user caller user1), s1)))
                    else (Inr (name, user1), s0)) of
                (Inl e, s1) \<Rightarrow> (Inl (Fs e), s1)
              | (Inr (name', user'), s1) \<Rightarrow>
                  (let s2 = (case ctx_session ctx of
                               None \<Rightarrow> s1
                             | Some sess \<Rightarrow> s1\<lparr>sessionStore := touch_session (env_now env) (sess_HashID sess) (sessionStore s1)\<rparr>)
                   in case WriteFile env p name' (up_Offset req) (up_Chunk req) s2 of
                        (Some e, s3) \<Rightarrow> (Inl (Fs e), cleanupFailedUpload env (Some p) name' user' s3)
                      | (None, s3) \<Rightarrow> upload_loop env H ctx eof reqs False name' (Some p) user' s3)))"

definition UploadFile ::
  "fs_env \<Rightarrow> (byte list \<Rightarrow> string) \<Rightarrow> rpc_ctx \<Rightarrow> upload_chunk list \<Rightarrow> bool \<Rightarrow> file_server
   \<Rightarrow> (h_error + invalidation list) \<times> file_server" where
  "UploadFile env H ctx reqs eof s = upload_loop env H ctx eof reqs True [] None [] s"

definition chunkSize :: nat where "chunkSize = 1024 * 1024 * 4"

text \<open>The messages of a download, with their offsets. A read that fails ends the stream with its error;
  the messages sent before it are not part of the result.\<close>

fun download_chunks :: "nat \<Rightarrow> nat \<Rightarrow> byte list \<Rightarrow> (nat \<times> byte list) list" where
  "download_chunks cs off bs =
     (if bs = [] \<or> cs = 0 then []
      else (off, take cs bs) # download_chunks cs (off + length (take cs bs)) (drop cs bs))"

definition DownloadFile ::
  "fs_env \<Rightarrow> rpc_ctx \<Rightarrow> fid option \<Rightarrow> string \<Rightarrow> file_server \<Rightarrow> (h_error + (nat \<times> byte list) list) \<times> file_server" where
  "DownloadFile env ctx parentFID name s =
     (case Authorize env (UsernameFromContext ctx) parentFID PermRead s of
        Inl e \<Rightarrow> (Inl (Fs e), s)
      | Inr _ \<Rightarrow>
          (case parentFID of
             None \<Rightarrow> (Inl (Fs Panics), s)
           | Some p \<Rightarrow>
               (case GetInode env p s of
                  (None, s1) \<Rightarrow> (Inl (Fs (Lookup InodeNotFound)), s1)
                | (Some parent, s1) \<Rightarrow>
                    (case GetChildInodeByName (fs_inodes s1) parent name of
                       None \<Rightarrow> (Inl (Fs (Lookup FileNotFound)), s1)
                     | Some c \<Rightarrow>
                         (case mget (fs_inodes s1) c of
                            None \<Rightarrow> (Inl (Fs Panics), s1)
                          | Some n \<Rightarrow>
                              if Type n \<noteq> InodeTypeFile then (Inl OnlyFilesDownload, s1)
                              else (case os_Open (env_err env) (json_enc env) (OSPath n) (fs_disk s1) of
                                      None \<Rightarrow> (Inl (Fs (Os OpenFailed)), s1)
                                    | Some bs \<Rightarrow>
                                        if env_err env (CReadAt (OSPath n)) then (Inl (Fs (Os ReadFailed)), s1)
                                        else (Inr (download_chunks chunkSize 0 bs), s1)))))))"

section \<open>Requests on files\<close>

definition ReadFile_handler ::
  "fs_env \<Rightarrow> rpc_ctx \<Rightarrow> fid option \<Rightarrow> string \<Rightarrow> u64 \<Rightarrow> u64 \<Rightarrow> file_server \<Rightarrow> (h_error + byte list) \<times> file_server" where
  "ReadFile_handler env ctx parentFID name offset len s =
     (if name = [] then (Inl MissingArgument, s)
      else (case Authorize env (UsernameFromContext ctx) parentFID PermRead s of
              Inl e \<Rightarrow> (Inl (Fs e), s)
            | Inr _ \<Rightarrow>
                (case parentFID of
                   None \<Rightarrow> (Inl (Fs Panics), s)
                 | Some p \<Rightarrow>
                     (case ReadFile env p name offset len s of
                        (Inl e, s1) \<Rightarrow> (Inl (Fs e), s1)
                      | (Inr dt, s1) \<Rightarrow> (Inr dt, s1)))))"

definition WriteFile_handler ::
  "fs_env \<Rightarrow> rpc_ctx \<Rightarrow> fid option \<Rightarrow> string \<Rightarrow> u64 \<Rightarrow> byte list \<Rightarrow> file_server
   \<Rightarrow> (h_error + invalidation list) \<times> file_server" where
  "WriteFile_handler env ctx parentFID name offset dt s =
     (if name = [] then (Inl MissingArgument, s)
      else (case Authorize env (UsernameFromContext ctx) parentFID PermWrite s of
              Inl e \<Rightarrow> (Inl (Fs e), s)
            | Inr _ \<Rightarrow>
                (case parentFID of
                   None \<Rightarrow> (Inl (Fs Panics), s)
                 | Some p \<Rightarrow>
                     (case WriteFile env p name offset dt s of
                        (Some e, s1) \<Rightarrow> (Inl (Fs e), s1)
                      | (None, s1) \<Rightarrow>
                          (case NotifyFileUpdated env parentFID name [] s1 of (msgs, s2) \<Rightarrow> (Inr msgs, s2))))))"

definition DeleteFile_handler ::
  "fs_env \<Rightarrow> rpc_ctx \<Rightarrow> fid option \<Rightarrow> string \<Rightarrow> bool \<Rightarrow> file_server \<Rightarrow> (h_error + invalidation list) \<times> file_server" where
  "DeleteFile_handler env ctx fo rootUser recursive s =
     (case fo of
        None \<Rightarrow> (Inl MissingArgument, s)
      | Some f \<Rightarrow>
          (case Authorize env (UsernameFromContext ctx) fo PermDelete s of
             Inl e \<Rightarrow> (Inl (Fs e), s)
           | Inr (_, caller) \<Rightarrow>
               (let user = effective_user caller rootUser in
                if user = [] then (Inl MissingArgument, s)
                else
                  (case GetInode env f s of
                     (found, s1) \<Rightarrow>
                       (let deletedName = (case found of None \<Rightarrow> [] | Some n \<Rightarrow> Name n);
                            notifyDir = (case found of None \<Rightarrow> None | Some n \<Rightarrow> Parent n)
                        in case DeleteFile env fo user recursive s1 of
                             (Some e, s2) \<Rightarrow> (Inl (Fs e), s2)
                           | (None, s2) \<Rightarrow> (Inr (NotifyFileDeletedInDir env notifyDir deletedName user s2), s2))))))"

definition TrashFile_handler ::
  "fs_env \<Rightarrow> rpc_ctx \<Rightarrow> fid option \<Rightarrow> string \<Rightarrow> bool \<Rightarrow> file_server \<Rightarrow> (h_error + string) \<times> file_server" where
  "TrashFile_handler env ctx fo rootUser recursive s =
     (case fo of
        None \<Rightarrow> (Inl MissingArgument, s)
      | Some f \<Rightarrow>
          (case Authorize env (UsernameFromContext ctx) fo PermDelete s of
             Inl e \<Rightarrow> (Inl (Fs e), s)
           | Inr (_, caller) \<Rightarrow>
               (let user = effective_user caller rootUser in
                if user = [] then (Inl MissingArgument, s)
                else (case TrashFile env fo user recursive s of
                        (Inl e, s1) \<Rightarrow> (Inl (Fs e), s1)
                      | (Inr trashedName, s1) \<Rightarrow> (Inr trashedName, s1)))))"

text \<open>The checks \<open>RestoreFile\<close> and \<open>ShowTrash\<close> share.\<close>

definition own_trash_only :: "rpc_ctx \<Rightarrow> string \<Rightarrow> string \<Rightarrow> h_error option" where
  "own_trash_only ctx rootUser username =
     (case UsernameFromContext ctx of
        None \<Rightarrow> None
      | Some caller \<Rightarrow>
          if caller \<noteq> [] \<and> \<not> EqualFold caller rootUser then Some ForAnotherUser
          else if caller \<noteq> [] \<and> \<not> EqualFold caller username then Some ForAnotherUser
          else None)"

definition RestoreFile_handler ::
  "fs_env \<Rightarrow> rpc_ctx \<Rightarrow> fid option \<Rightarrow> string \<Rightarrow> string \<Rightarrow> file_server \<Rightarrow> (h_error + string) \<times> file_server" where
  "RestoreFile_handler env ctx fo rootUser username s =
     (if fo = None \<or> rootUser = [] \<or> username = [] then (Inl MissingArgument, s)
      else (case own_trash_only ctx rootUser username of
              Some e \<Rightarrow> (Inl e, s)
            | None \<Rightarrow>
                (case RestoreFile env fo rootUser username s of
                   (Inl e, s1) \<Rightarrow> (Inl (Fs e), s1)
                 | (Inr restoredName, s1) \<Rightarrow> (Inr restoredName, s1))))"

definition ShowTrash_handler ::
  "fs_env \<Rightarrow> rpc_ctx \<Rightarrow> string \<Rightarrow> string \<Rightarrow> file_server
   \<Rightarrow> (h_error + (fid \<times> string \<times> inode_type \<times> u64) list) \<times> file_server" where
  "ShowTrash_handler env ctx rootUser username s =
     (if rootUser = [] \<or> username = [] then (Inl MissingArgument, s)
      else (case own_trash_only ctx rootUser username of
              Some e \<Rightarrow> (Inl e, s)
            | None \<Rightarrow>
                (case ShowTrash env rootUser username s of
                   (Inl e, s1) \<Rightarrow> (Inl (Fs e), s1)
                 | (Inr ns, s1) \<Rightarrow> (Inr (map (\<lambda>n. (FID n, Name n, Type n, Size n)) ns), s1))))"

section \<open>Quotas\<close>

text \<open>\<open>sha\<close> is the hexadecimal SHA-256 digest of a password and \<open>passwordHash\<close> the variable
  \<^verbatim>\<open>ADMIN_PASSWORD_HASH\<close>.\<close>

definition admin_by_password :: "(string \<Rightarrow> string) \<Rightarrow> string \<Rightarrow> rpc_ctx \<Rightarrow> bool" where
  "admin_by_password sha passwordHash ctx \<longleftrightarrow>
     (let expectedHash = TrimSpace (ToLower passwordHash) in
      (case md_password_hash ctx of [] \<Rightarrow> False | h # _ \<Rightarrow> expectedHash \<noteq> [] \<and> ToLower h = expectedHash)
      \<or> (case md_password ctx of [] \<Rightarrow> False | p # _ \<Rightarrow> expectedHash \<noteq> [] \<and> sha p = expectedHash))"

definition SetQuota ::
  "fs_env \<Rightarrow> (string \<Rightarrow> string) \<Rightarrow> string \<Rightarrow> rpc_ctx \<Rightarrow> string \<Rightarrow> u64 \<Rightarrow> file_server \<Rightarrow> (h_error + unit) \<times> file_server" where
  "SetQuota env sha passwordHash ctx username quotaBytes s =
     (if username = [] then (Inl MissingArgument, s)
      else if quotaBytes = 0 then (Inl MissingArgument, s)
      else
        (let email = TrimSpace (ToLower (adminEmail env));
             byPassword = admin_by_password sha passwordHash ctx;
             caller = (case UsernameFromContext ctx of None \<Rightarrow> [] | Some u \<Rightarrow> u);
             adminAuthorized = (byPassword \<or> (caller \<noteq> [] \<and> email \<noteq> [] \<and> EqualFold caller email))
         in if caller \<noteq> [] \<and> \<not> adminAuthorized then (Inl NotAdministrator, s)
            else (case SetUserQuota env username quotaBytes s of
                    (Some e, s1) \<Rightarrow> (Inl (Fs e), s1)
                  | (None, s1) \<Rightarrow> (Inr (), s1))))"

section \<open>The interceptors\<close>

text \<open>
  What the interceptors of the Google build do with a call before its handler runs: refuse it, or let it
  proceed with the session they attach to its context. \<open>verify\<close> is \<open>auth.VerifyToken\<close>: the e-mail of
  the token's owner, for the expected user when one is given. \<open>legacy\<close> is the environment's switch for
  the token fallback.
\<close>

datatype auth_verdict = Unauthenticated | TransportViolation | Proceed "session option"

record rpc_call =
  rc_method :: string
  rc_authorization :: "string list"
  rc_password_hash :: "string list"
  rc_password :: "string list"
  rc_peer :: string
  rc_expectedUser :: string

definition bearer_token :: "rpc_call option \<Rightarrow> string option" where
  "bearer_token md =
     (case md of
        None \<Rightarrow> None
      | Some call \<Rightarrow>
          (case rc_authorization call of
             [] \<Rightarrow> None
           | h # _ \<Rightarrow> if HasPrefix h ''Bearer '' then Some (TrimPrefix h ''Bearer '') else None))"

definition one_hour :: duration where "one_hour = 60 * 60 * second_ns"

definition check_session ::
  "(string \<Rightarrow> string) \<Rightarrow> (string \<Rightarrow> string \<Rightarrow> string option) \<Rightarrow> bool \<Rightarrow> gotime \<Rightarrow> string \<Rightarrow> string
   \<Rightarrow> session_store \<Rightarrow> auth_verdict \<times> session_store" where
  "check_session H verify legacy now rawToken peerIP st =
     (case ValidateSession H now rawToken peerIP st of
        (Inr sess, st1, _) \<Rightarrow> (Proceed (Some sess), st1)
      | (Inl ErrSessionExpired, st1, _) \<Rightarrow> (Unauthenticated, st1)
      | (Inl ErrIPMismatch, st1, _) \<Rightarrow> (TransportViolation, st1)
      | (Inl _, st1, _) \<Rightarrow>
          (if legacy then
             (case verify rawToken [] of
                None \<Rightarrow> (Unauthenticated, st1)
              | Some email \<Rightarrow>
                  (case CreateSession H now rawToken email [] peerIP [] [] (now + one_hour) st1 of
                     (Inl _, st2) \<Rightarrow> (Proceed None, st2)
                   | (Inr sess, st2) \<Rightarrow> (Proceed (Some sess), st2)))
           else (Unauthenticated, st1)))"

definition GetServerAuthInterceptor ::
  "(string \<Rightarrow> string) \<Rightarrow> (string \<Rightarrow> string \<Rightarrow> string option) \<Rightarrow> bool \<Rightarrow> gotime \<Rightarrow> rpc_call option
   \<Rightarrow> session_store \<Rightarrow> auth_verdict \<times> session_store" where
  "GetServerAuthInterceptor H verify legacy now md st =
     (case md of
        None \<Rightarrow> (Unauthenticated, st)
      | Some call \<Rightarrow>
          if rc_method call = ''/fileserver.FileServer/SetQuota''
             \<and> (rc_password_hash call \<noteq> [] \<or> rc_password call \<noteq> [])
          then (Proceed None, st)
          else (case bearer_token md of
                  None \<Rightarrow> (Unauthenticated, st)
                | Some rawToken \<Rightarrow>
                    if rc_method call = ''/fileserver.FileServer/RegisterClient'' then
                      (case verify rawToken (rc_expectedUser call) of
                         None \<Rightarrow> (Unauthenticated, st)
                       | Some _ \<Rightarrow> (Proceed None, st))
                    else check_session H verify legacy now rawToken (rc_peer call) st))"

definition GetServerStreamAuthInterceptor ::
  "(string \<Rightarrow> string) \<Rightarrow> (string \<Rightarrow> string \<Rightarrow> string option) \<Rightarrow> bool \<Rightarrow> gotime \<Rightarrow> rpc_call option
   \<Rightarrow> session_store \<Rightarrow> auth_verdict \<times> session_store" where
  "GetServerStreamAuthInterceptor H verify legacy now md st =
     (case md of
        None \<Rightarrow> (Unauthenticated, st)
      | Some call \<Rightarrow>
          (case bearer_token md of
             None \<Rightarrow> (Unauthenticated, st)
           | Some rawToken \<Rightarrow> check_session H verify legacy now rawToken (rc_peer call) st))"

text \<open>The context a call reaches its handler with.\<close>

definition call_ctx :: "rpc_call \<Rightarrow> session option \<Rightarrow> rpc_ctx" where
  "call_ctx call sess =
     \<lparr>ctx_session = sess, ctx_peer = (if rc_peer call = [] then None else Some (rc_peer call)),
      md_password_hash = rc_password_hash call, md_password = rc_password call\<rparr>"

end
