(* ===== verification/Demo_State.thy ===== *)
theory Demo_State
  imports File_Handlers
begin

text \<open>
  A small fileserver on which the theorems are instantiated: one user \<open>u\<close> whose root holds the trash, a
  file \<open>a\<close> of three bytes and a directory \<open>p\<close> with a file \<open>b\<close> of two bytes.
\<close>

definition dfid :: "u64 \<Rightarrow> fid" where
  "dfid i = \<lparr>FileServerID = ''s'', InodeID = i, GenerationNumber = 1\<rparr>"

definition dnode_at :: "u64 \<Rightarrow> inode_type \<Rightarrow> string \<Rightarrow> string \<Rightarrow> u64 list \<Rightarrow> u64 \<Rightarrow> u64 \<Rightarrow> inode" where
  "dnode_at i ty nm pth cs sz par =
     \<lparr>FID = dfid i, Type = ty, Name = nm, OSPath = pth, ACL = \<lparr>Owner = ''u'', SharedWith = []\<rparr>,
      Children = map dfid cs, Size = sz, Parent = Some (dfid par)\<rparr>"

definition demo_inodes :: inodes where
  "demo_inodes =
     [(dfid 0, dnode_at 0 InodeTypeDirectory ''u'' ''d/u'' [1, 2, 3] 5 0),
      (dfid 1, dnode_at 1 InodeTypeDirectory ''.trash'' ''d/u/.trash'' [] 0 0),
      (dfid 2, dnode_at 2 InodeTypeFile ''a'' ''d/u/a'' [] 3 0),
      (dfid 3, dnode_at 3 InodeTypeDirectory ''p'' ''d/u/p'' [4] 2 0),
      (dfid 4, dnode_at 4 InodeTypeFile ''b'' ''d/u/p/b'' [] 2 3)]"

definition demo_disk :: disk where
  "demo_disk =
     [(''d'', DDir), (''d/u'', DDir), (''d/u/.trash'', DDir), (''d/u/a'', DFile (Raw [1, 2, 3])),
      (''d/u/p'', DDir), (''d/u/p/b'', DFile (Raw [7, 7]))]"

definition demo :: file_server where
  "demo =
     \<lparr>serverID = ''s'', rootDir = ''d'', fs_inodes = demo_inodes, fs_users = [(''u'', dfid 0)], fs_nextInodeID = 5,
      trashMeta = [], msAddr = [], fs_Shared = [], cb_sessions = [], sessionStore = NewStore 0, quotas = [],
      inodeStore = \<lparr>store_rootDir = ''d'', store_indexPath = ''d/i'',
        store_data = \<lparr>NextInodeID = 5,
          PathToID = [(''u'', 0), (''u/.trash'', 1), (''u/a'', 2), (''u/p'', 3), (''u/p/b'', 4)]\<rparr>\<rparr>,
      fs_disk = demo_disk, ms_log = []\<rparr>"

definition demo_env :: fs_env where
  "demo_env =
     \<lparr>env_err = (\<lambda>_. False), json_enc = (\<lambda>_. []), json_dec = (\<lambda>_. None), env_short = 0, diskFree = 0,
      env_tmp = ''d/t'', env_now = 1, adminEmail = []\<rparr>"

lemma dfid_eq [simp]: "dfid i = dfid j \<longleftrightarrow> i = j"
  by (simp add: dfid_def)

lemma dnode_at_sel [simp]:
  "FID (dnode_at i ty nm pth cs sz par) = dfid i" "Type (dnode_at i ty nm pth cs sz par) = ty"
  "Name (dnode_at i ty nm pth cs sz par) = nm" "OSPath (dnode_at i ty nm pth cs sz par) = pth"
  "Owner (ACL (dnode_at i ty nm pth cs sz par)) = ''u''" "SharedWith (ACL (dnode_at i ty nm pth cs sz par)) = []"
  "Children (dnode_at i ty nm pth cs sz par) = map dfid cs" "Size (dnode_at i ty nm pth cs sz par) = sz"
  "Parent (dnode_at i ty nm pth cs sz par) = Some (dfid par)"
  by (simp_all add: dnode_at_def)

lemma demo_sel [simp]:
  "serverID demo = ''s''" "rootDir demo = ''d''" "fs_inodes demo = demo_inodes" "fs_users demo = [(''u'', dfid 0)]"
  "trashMeta demo = []" "msAddr demo = []" "fs_Shared demo = []" "cb_sessions demo = []"
  "quotas demo = []" "fs_disk demo = demo_disk" "ms_log demo = []" "sessionStore demo = NewStore 0"
  by (simp_all add: demo_def)

lemma demo_env_sel [simp]:
  "env_err demo_env c = False" "json_enc demo_env j = []" "json_dec demo_env b = None" "diskFree demo_env = 0"
  "env_tmp demo_env = ''d/t''" "env_now demo_env = 1" "adminEmail demo_env = []"
  by (simp_all add: demo_env_def)

lemma demo_mget:
  "mget demo_inodes (dfid 0) = Some (dnode_at 0 InodeTypeDirectory ''u'' ''d/u'' [1, 2, 3] 5 0)"
  "mget demo_inodes (dfid 1) = Some (dnode_at 1 InodeTypeDirectory ''.trash'' ''d/u/.trash'' [] 0 0)"
  "mget demo_inodes (dfid 2) = Some (dnode_at 2 InodeTypeFile ''a'' ''d/u/a'' [] 3 0)"
  "mget demo_inodes (dfid 3) = Some (dnode_at 3 InodeTypeDirectory ''p'' ''d/u/p'' [4] 2 0)"
  "mget demo_inodes (dfid 4) = Some (dnode_at 4 InodeTypeFile ''b'' ''d/u/p/b'' [] 2 3)"
  by (simp_all add: demo_inodes_def)

lemma demo_mgetE:
  assumes "mget demo_inodes f = Some n"
  obtains "f = dfid 0" "n = dnode_at 0 InodeTypeDirectory ''u'' ''d/u'' [1, 2, 3] 5 0"
  | "f = dfid 1" "n = dnode_at 1 InodeTypeDirectory ''.trash'' ''d/u/.trash'' [] 0 0"
  | "f = dfid 2" "n = dnode_at 2 InodeTypeFile ''a'' ''d/u/a'' [] 3 0"
  | "f = dfid 3" "n = dnode_at 3 InodeTypeDirectory ''p'' ''d/u/p'' [4] 2 0"
  | "f = dfid 4" "n = dnode_at 4 InodeTypeFile ''b'' ''d/u/p/b'' [] 2 3"
  using assms by (auto simp: demo_inodes_def split: if_splits)

lemma demo_tree_ok: "tree_ok demo_inodes"
proof -
  have "gomap_ok demo_inodes" by (simp add: gomap_ok_def demo_inodes_def)
  moreover have "FID n = f" if "mget demo_inodes f = Some n" for f n
    using that by (rule demo_mgetE) simp_all
  moreover have "\<exists>p m. Parent n = Some p \<and> mget demo_inodes p = Some m \<and> (p \<noteq> f \<longrightarrow> f \<in> set (Children m))"
    if "mget demo_inodes f = Some n" for f n
    using that by (rule demo_mgetE) (simp_all add: demo_mget)
  moreover have "c \<noteq> f \<and> (\<exists>m. mget demo_inodes c = Some m \<and> Parent m = Some f)"
    if "mget demo_inodes f = Some n" "c \<in> set (Children n)" for f n c
    using that by (elim demo_mgetE) (auto simp: demo_mget)
  moreover have "distinct (Children n) \<and> (Type n = InodeTypeFile \<longrightarrow> Children n = [])"
    if "mget demo_inodes f = Some n" for f n
    using that by (rule demo_mgetE) simp_all
  moreover have "(if p = dfid 0 then 0 else if p = dfid 4 then 2 else 1 :: nat)
      < (if f = dfid 0 then 0 else if f = dfid 4 then 2 else 1)"
    if "mget demo_inodes f = Some n" "Parent n = Some p" "p \<noteq> f" for f n p
    using that by (elim demo_mgetE) auto
  ultimately show ?thesis unfolding tree_ok_def
    by (intro conjI exI [where x = "\<lambda>f. if f = dfid 0 then 0 else if f = dfid 4 then 2 else 1"]) blast+
qed

lemma demo_root:
  "mget (fs_inodes demo) (dfid 0) = Some (dnode_at 0 InodeTypeDirectory ''u'' ''d/u'' [1, 2, 3] 5 0)"
  "Type (dnode_at 0 InodeTypeDirectory ''u'' ''d/u'' [1, 2, 3] 5 0) = InodeTypeDirectory"
  "tree_ok (fs_inodes demo)"
  by (simp_all add: demo_mget demo_tree_ok)

end
