(* ===== verification/File_Writes.thy ===== *)
theory File_Writes
  imports Demo_State
begin

text \<open>
  Who may do what (\<open>Authorize\<close>), and what reading and writing do: the bytes come back, the directories
  above are charged, the quota holds, a refused write changes nothing.
\<close>

section \<open>Inodes up to their sizes\<close>

text \<open>\<open>GetInode\<close> and \<open>WriteFile\<close> change sizes only; look-ups by name do not see them.\<close>

definition size_eq :: "inodes \<Rightarrow> inodes \<Rightarrow> bool" where
  "size_eq I J \<longleftrightarrow> (\<forall>f. map_option (\<lambda>n. n\<lparr>Size := 0\<rparr>) (mget I f) = map_option (\<lambda>n. n\<lparr>Size := 0\<rparr>) (mget J f))"

lemma size_eq_refl [simp, intro]: "size_eq I I"
  by (simp add: size_eq_def)

lemma size_eq_trans: "size_eq I J \<Longrightarrow> size_eq J K \<Longrightarrow> size_eq I K"
  by (simp add: size_eq_def)

lemma size_eq_sym: "size_eq I J \<Longrightarrow> size_eq J I"
  by (simp add: size_eq_def)

lemma erase_size_fields:
  assumes "n\<lparr>Size := 0\<rparr> = m\<lparr>Size := 0\<rparr>"
  shows "Type n = Type m" "Name n = Name m" "OSPath n = OSPath m" "Children n = Children m"
    "Parent n = Parent m" "ACL n = ACL m" "FID n = FID m"
proof -
  have "Type (n\<lparr>Size := 0\<rparr>) = Type (m\<lparr>Size := 0\<rparr>)" "Name (n\<lparr>Size := 0\<rparr>) = Name (m\<lparr>Size := 0\<rparr>)"
    "OSPath (n\<lparr>Size := 0\<rparr>) = OSPath (m\<lparr>Size := 0\<rparr>)" "Children (n\<lparr>Size := 0\<rparr>) = Children (m\<lparr>Size := 0\<rparr>)"
    "Parent (n\<lparr>Size := 0\<rparr>) = Parent (m\<lparr>Size := 0\<rparr>)" "ACL (n\<lparr>Size := 0\<rparr>) = ACL (m\<lparr>Size := 0\<rparr>)"
    "FID (n\<lparr>Size := 0\<rparr>) = FID (m\<lparr>Size := 0\<rparr>)" by (simp_all only: assms)
  then show "Type n = Type m" "Name n = Name m" "OSPath n = OSPath m" "Children n = Children m"
    "Parent n = Parent m" "ACL n = ACL m" "FID n = FID m" by simp_all
qed

lemma size_eqD:
  assumes "size_eq I J" "mget I f = Some n"
  obtains m where "mget J f = Some m" "n\<lparr>Size := 0\<rparr> = m\<lparr>Size := 0\<rparr>"
  using assms unfolding size_eq_def by (metis (no_types, lifting) map_option_eq_Some option.simps(9))

lemma mget_upd_inode [simp]: "mget (upd_inode f g I) h = (if h = f then map_option g (mget I f) else mget I h)"
  by (simp add: upd_inode_def split: option.split)

lemma gomap_ok_upd_inode [simp, intro]: "gomap_ok I \<Longrightarrow> gomap_ok (upd_inode f g I)"
  by (simp add: upd_inode_def split: option.split)

lemma child_size_eq:
  assumes "size_eq I J" "Children n = Children m"
  shows "GetChildInodeByName I n name = GetChildInodeByName J m name"
proof -
  have "(case mget I c of None \<Rightarrow> False | Some m \<Rightarrow> Name m = name)
      = (case mget J c of None \<Rightarrow> False | Some m \<Rightarrow> Name m = name)" for c
  proof (cases "mget I c")
    case None
    then have "mget J c = None" using assms(1) unfolding size_eq_def by (metis map_option_is_None)
    with None show ?thesis by simp
  next
    case (Some k)
    with size_eqD [OF assms(1)] obtain l where "mget J c = Some l" "k\<lparr>Size := 0\<rparr> = l\<lparr>Size := 0\<rparr>" by blast
    with Some erase_size_fields(2) [of k l] show ?thesis by simp
  qed
  then show ?thesis unfolding GetChildInodeByName_def assms(2) by presburger
qed

lemma child_found:
  assumes "GetChildInodeByName I n name = Some c"
  obtains m where "mget I c = Some m" "Name m = name" "c \<in> set (Children n)"
  using find_SomeD [OF assms [unfolded GetChildInodeByName_def]] by (auto split: option.splits)

section \<open>GetInode\<close>

lemma GetInode_dir: "mget (fs_inodes s) f = Some n \<Longrightarrow> Type n = InodeTypeDirectory \<Longrightarrow> GetInode env f s = (Some n, s)"
  by (simp add: GetInode_def)

lemma GetInode_gone: "mget (fs_inodes s) f = None \<Longrightarrow> GetInode env f s = (None, s)"
  by (simp add: GetInode_def)

lemma GetInode_size_eq:
  assumes "GetInode env f s = (r, s1)"
  obtains I where "s1 = s\<lparr>fs_inodes := I\<rparr>" "size_eq (fs_inodes s) I" "r = mget I f"
    "\<And>g. g \<noteq> f \<Longrightarrow> mget I g = mget (fs_inodes s) g"
  using assms that [of "fs_inodes s"] that [of "mput f (n\<lparr>Size := z\<rparr>) (fs_inodes s)" for n z]
  by (fastforce simp: GetInode_def size_eq_def split: option.splits if_splits)

lemma find_file_size_eq:
  assumes "find_file env p name s = (r, s1)"
  obtains I where "s1 = s\<lparr>fs_inodes := I\<rparr>" "size_eq (fs_inodes s) I"
    "\<And>f n. r = Inr (f, n) \<Longrightarrow> mget I f = Some n \<and> Type n = InodeTypeFile"
proof (cases "GetInode env p s")
  case (Pair g s2)
  with GetInode_size_eq obtain I where "s2 = s\<lparr>fs_inodes := I\<rparr>" "size_eq (fs_inodes s) I" "g = mget I p" by metis
  with assms Pair that [of I] show thesis
    by (auto simp: find_file_def split: option.splits if_splits)
qed

text \<open>The outcome of the look-up, up to sizes, does not depend on the sizes.\<close>

lemma find_file_again:
  assumes s1: "find_file env p name s = (Inr (f, n), s1)"
    and t: "size_eq (fs_inodes s1) (fs_inodes t)"
  obtains m t1 where "find_file env' p name t = (Inr (f, m), t1)" "OSPath m = OSPath n" "fs_disk t1 = fs_disk t"
proof -
  obtain gi s2 where gi: "GetInode env p s = (gi, s2)" by fastforce
  with s1 obtain parent where parent: "gi = Some parent" and c: "GetChildInodeByName (fs_inodes s2) parent name = Some f"
    and n: "mget (fs_inodes s2) f = Some n" "Type n = InodeTypeFile" and s2: "s2 = s1"
    by (auto simp: find_file_def split: option.splits if_splits)
  from GetInode_size_eq [OF gi] parent s2 have p1: "mget (fs_inodes s1) p = Some parent" by force
  obtain gj t1 where gj: "GetInode env' p t = (gj, t1)" by fastforce
  from GetInode_size_eq [OF gj] obtain J where J: "t1 = t\<lparr>fs_inodes := J\<rparr>" "size_eq (fs_inodes t) J" "gj = mget J p" by metis
  have se: "size_eq (fs_inodes s1) J" using t J(2) by (rule size_eq_trans)
  from size_eqD [OF se p1] obtain parent' where p': "mget J p = Some parent'" "parent\<lparr>Size := 0\<rparr> = parent'\<lparr>Size := 0\<rparr>" .
  from size_eqD [OF se n(1) [unfolded s2]] obtain m where m: "mget J f = Some m" "n\<lparr>Size := 0\<rparr> = m\<lparr>Size := 0\<rparr>" .
  have "GetChildInodeByName J parent' name = Some f"
    using c child_size_eq [OF se erase_size_fields(4) [OF p'(2)], of name] s2 by simp
  then have "find_file env' p name t = (Inr (f, m), t1)"
    using gj J p'(1) m(1) n(2) erase_size_fields(1) [OF m(2)] by (simp add: find_file_def)
  with that erase_size_fields(3) [OF m(2)] J(1) show thesis by simp
qed

lemma size_eq_add_sizes: "size_eq I (add_sizes d chain I)"
proof (induction chain arbitrary: I)
  case (Cons f chain)
  have "size_eq I (upd_inode f (\<lambda>m. m\<lparr>Size := Size m + d\<rparr>) I)"
    by (auto simp: size_eq_def option.map_comp comp_def)
  with Cons show ?case by (auto simp: add_sizes_def intro: size_eq_trans)
qed (simp add: add_sizes_def)

lemma WriteFile_okE:
  assumes "WriteFile env p name off dt s = (None, s')"
  obtains f n s1 bs where "find_file env p name s = (Inr (f, n), s1)"
    "os_Open (env_err env) (json_enc env) (OSPath n) (fs_disk s1) = Some bs"
    "os_WriteAt (env_err env) (json_enc env) (env_short env) (OSPath n) dt (sint off) (fs_disk s1) = (True, fs_disk s')"
    "size_eq (fs_inodes s1) (fs_inodes s')"
proof -
  from assms obtain f n s1 where ff: "find_file env p name s = (Inr (f, n), s1)"
    by (auto simp: WriteFile_def split: prod.splits sum.splits)
  from assms ff obtain bs where bs: "os_Open (env_err env) (json_enc env) (OSPath n) (fs_disk s1) = Some bs"
    by (cases "os_Open (env_err env) (json_enc env) (OSPath n) (fs_disk s1)") (auto simp: WriteFile_def)
  from assms ff bs have
    "os_WriteAt (env_err env) (json_enc env) (env_short env) (OSPath n) dt (sint off) (fs_disk s1) = (True, fs_disk s')
     \<and> size_eq (fs_inodes s1) (fs_inodes s')"
    by (auto simp: WriteFile_def Let_def size_eq_add_sizes split: prod.splits bool.splits option.splits if_splits)
  with that ff bs show thesis by blast
qed

section \<open>What is written is read\<close>

text \<open>No system call fails.\<close>

definition quiet :: "fs_env \<Rightarrow> bool" where
  "quiet env \<longleftrightarrow> (\<forall>c. \<not> env_err env c)"

text \<open>The operating system keeps files below \<open>2 ^ 63\<close> bytes.\<close>

definition files_fit :: "fs_env \<Rightarrow> disk \<Rightarrow> bool" where
  "files_fit env d \<longleftrightarrow> (\<forall>p c. mget d p = Some (DFile c) \<longrightarrow> length (content_bytes (json_enc env) c) < 2 ^ 63)"

text \<open>C3. What \<open>WriteFile\<close> has acknowledged, \<open>ReadFile\<close> of the same range gives back, byte for byte,
  whatever the file held before, gaps behind its old end included.\<close>

theorem write_read_roundtrip:
  assumes w: "WriteFile env p name off dt s = (None, s')"
    and dt: "dt \<noteq> []"
    and fit: "files_fit env (fs_disk s)"
    and env': "quiet env'" "json_enc env' = json_enc env"
  shows "fst (ReadFile env' p name off (word_of_nat (length dt)) s') = Inr dt"
proof -
  from WriteFile_okE [OF w] obtain f n s1 bs where
    ff: "find_file env p name s = (Inr (f, n), s1)"
    and wa: "os_WriteAt (env_err env) (json_enc env) (env_short env) (OSPath n) dt (sint off) (fs_disk s1) = (True, fs_disk s')"
    and J: "size_eq (fs_inodes s1) (fs_inodes s')" by metis
  from find_file_again [OF ff J] obtain m t1 where
    t1: "find_file env' p name s' = (Inr (f, m), t1)" "OSPath m = OSPath n" "fs_disk t1 = fs_disk s'" by metis
  from find_file_size_eq [OF ff] have disk1: "fs_disk s1 = fs_disk s" by force
  from os_WriteAt_okD [OF wa] dt obtain c where
    small: "unat off + length dt < 2 ^ 63" and c: "mget (fs_disk s) (OSPath n) = Some (DFile c)"
    and d: "mget (fs_disk s') (OSPath n) = Some (DFile (Raw (overlay (unat off) dt (content_bytes (json_enc env) c))))"
    unfolding disk1 by blast
  let ?bs = "overlay (unat off) dt (content_bytes (json_enc env) c)"
  have len: "length ?bs < 2 ^ 63" "unat off + length dt \<le> length ?bs"
    using fit c small dt by (auto simp: files_fit_def overlay_length)
  have "length dt < 2 ^ 63" using small by simp
  note un = unat_small [OF this] unat_small [OF len(1)]
  have "unat (off + word_of_nat (length dt)) = unat off + length dt"
    using small un(1) by (subst unat_add_lem [THEN iffD1]) auto
  then have in_range: "\<not> off + word_of_nat (length dt) > word_of_nat (length ?bs)" "\<not> word_of_nat (length ?bs) \<le> off"
    using len un less_le_trans [OF _ len(2), of "unat off"] dt by (simp_all add: word_less_nat_alt word_le_nat_alt not_le)
  have "(word_of_nat (length dt) :: u64) \<noteq> 0"
    using un(1) dt by (metis length_0_conv unat_0)
  then have "fst (ReadFile env' p name off (word_of_nat (length dt)) s') = Inr (take (length dt) (drop (unat off) ?bs))"
    using t1 d env' in_range un small
    by (simp add: ReadFile_def os_Open_def quiet_def content_bytes_def Let_def)
  with overlay_read [OF dt] show ?thesis by simp
qed

lemma demo_find:
  "find_file env (dfid 0) ''a'' demo = (Inr (dfid 2, dnode_at 2 InodeTypeFile ''a'' ''d/u/a'' [] 3 0), demo)"
  by (simp add: find_file_def GetInode_def demo_mget GetChildInodeByName_def)

lemma demo_up: "up_chain (fuel demo_inodes) demo_inodes (dfid 2) = Some [dfid 2, dfid 0]"
proof -
  have "fuel demo_inodes = Suc (Suc (Suc (Suc (Suc (Suc 0)))))" by (simp add: fuel_def demo_inodes_def)
  then show ?thesis by (simp add: demo_mget)
qed

lemma demo_write: "fst (WriteFile demo_env (dfid 0) ''a'' 1 [9, 9, 9] demo) = None"
  by (simp add: WriteFile_def demo_find os_Open_def demo_disk_def Let_def demo_up demo_mget write_limit_def
      getUserQuotaLocked_def defaultStorageQuota_def os_WriteAt_def)

theorem write_read_roundtrip_witness:
  "fst (ReadFile demo_env (dfid 0) ''a'' 1 3 (snd (WriteFile demo_env (dfid 0) ''a'' 1 [9, 9, 9] demo))) = Inr [9, 9, 9]"
proof -
  have w: "WriteFile demo_env (dfid 0) ''a'' 1 [9, 9, 9] demo
      = (None, snd (WriteFile demo_env (dfid 0) ''a'' 1 [9, 9, 9] demo))"
    using demo_write by (metis prod.collapse)
  have "files_fit demo_env (fs_disk demo)"
    by (auto simp: files_fit_def demo_disk_def content_bytes_def split: if_splits)
  with write_read_roundtrip [OF w, of demo_env] show ?thesis by (simp add: quiet_def)
qed

section \<open>Who may do what\<close>

text \<open>The access rules, stated apart from the code: owners may do everything to their inodes, users an
  inode is shared with may read and write it, and the administrator is the configured e-mail.\<close>

definition may :: "fs_env \<Rightarrow> inode \<Rightarrow> string \<Rightarrow> permission \<Rightarrow> bool" where
  "may env n u perm \<longleftrightarrow>
     (perm \<in> {PermRead, PermWrite} \<and> u \<in> insert (Owner (ACL n)) (set (SharedWith (ACL n))))
     \<or> (perm = PermDelete \<and> u = Owner (ACL n))
     \<or> (perm = PermAdmin \<and> adminEmail env \<noteq> [] \<and> EqualFold u (adminEmail env))"

lemma Authorize_Inr_iff:
  "Authorize env ctxUser fo perm s = Inr (n, u) \<longleftrightarrow>
     (\<exists>f. fo = Some f \<and> mget (fs_inodes s) f = Some n
        \<and> ((ctxUser \<in> {None, Some []} \<and> u = Owner (ACL n))
           \<or> (ctxUser = Some u \<and> u \<noteq> [] \<and> may env n u perm)))"
  by (cases perm; cases ctxUser; cases fo)
    (auto simp: Authorize_def may_def fs_userCanAccessInode_def list_ex_iff split: option.splits if_splits)

text \<open>\<open>Authorize\<close> admits a caller exactly when the inode exists and the rules allow it, and then
  reports the caller's own name; a context without a user is admitted to every inode, as its owner.\<close>

theorem Authorize_exact:
  "Authorize env ctxUser fo perm s = Inr (n, u) \<longleftrightarrow>
     (\<exists>f. fo = Some f \<and> mget (fs_inodes s) f = Some n
        \<and> ((ctxUser \<in> {None, Some []} \<and> u = Owner (ACL n))
           \<or> (ctxUser = Some u \<and> u \<noteq> [] \<and> may env n u perm)))"
  by (rule Authorize_Inr_iff)

section \<open>Growing files\<close>

lemma add_sizes_mget:
  "distinct chain \<Longrightarrow> mget (add_sizes d chain I) g
     = (if g \<in> set chain then map_option (\<lambda>m. m\<lparr>Size := Size m + d\<rparr>) (mget I g) else mget I g)"
proof (induction chain arbitrary: I)
  case (Cons f chain)
  then have "mget (add_sizes d chain (upd_inode f (\<lambda>m. m\<lparr>Size := Size m + d\<rparr>) I)) g
      = (if g \<in> set chain then map_option (\<lambda>m. m\<lparr>Size := Size m + d\<rparr>) (mget (upd_inode f (\<lambda>m. m\<lparr>Size := Size m + d\<rparr>) I) g)
         else mget (upd_inode f (\<lambda>m. m\<lparr>Size := Size m + d\<rparr>) I) g)" by simp
  with Cons.prems show ?case by (auto simp: add_sizes_def)
qed (simp add: add_sizes_def)

lemma up_chain_last:
  assumes ok: "tree_ok I"
  shows "up_chain k I f = Some xs \<Longrightarrow> mget I f = Some n \<Longrightarrow>
    \<exists>r. mget I (last xs) = Some r \<and> Parent r = Some (last xs)"
proof (induction k arbitrary: f n xs)
  case (Suc k)
  from tree_okD(3) [OF ok Suc.prems(2)] obtain p m where p: "Parent n = Some p" "mget I p = Some m" by blast
  show ?case
  proof (cases "p = f")
    case True
    with Suc.prems p show ?thesis by auto
  next
    case False
    with Suc.prems p obtain ys where ys: "up_chain k I p = Some ys" "xs = f # ys" by auto
    from up_chain_spec [OF ok ys(1) p(2)] have "ys \<noteq> []" by blast
    with Suc.IH [OF ys(1) p(2)] ys(2) show ?thesis by simp
  qed
qed simp

text \<open>The bytes a write adds to a file, and the same as the code computes it.\<close>

definition growth :: "u64 \<Rightarrow> nat \<Rightarrow> u64 \<Rightarrow> nat" where
  "growth off len sz = max (unat off + len) (unat sz) - unat sz"

lemma growth_word:
  assumes "unat off + len < 2 ^ 63"
  shows "(if off + word_of_nat len > sz then off + word_of_nat len else sz) - sz = word_of_nat (growth off len sz)"
    and "growth off len sz < 2 ^ 63"
proof -
  have len: "unat (word_of_nat len :: u64) = len" using assms by (intro unat_small) simp
  have "unat off + len < 2 ^ 64" using assms by simp
  then have "unat (off + word_of_nat len) = unat off + len" using len by (subst unat_add_lem [THEN iffD1]) auto
  then have "sz < off + word_of_nat len \<longleftrightarrow> unat sz < unat off + len"
    "unat sz \<le> unat off + len \<Longrightarrow> off + word_of_nat len - sz = word_of_nat (unat off + len - unat sz)"
    by (simp_all add: word_less_nat_alt of_nat_diff)
  then show "(if off + word_of_nat len > sz then off + word_of_nat len else sz) - sz = word_of_nat (growth off len sz)"
    by (simp add: growth_def max_def)
  show "growth off len sz < 2 ^ 63" using assms unfolding growth_def by linarith
qed

lemma find_file_dir:
  assumes "mget (fs_inodes s) p = Some parent" "Type parent = InodeTypeDirectory"
    "GetChildInodeByName (fs_inodes s) parent name = Some f" "mget (fs_inodes s) f = Some n"
  shows "find_file env p name s = (if Type n = InodeTypeFile then (Inr (f, n), s) else (Inl (Lookup NotAFile), s))"
  using assms by (simp add: find_file_def GetInode_dir)

text \<open>The whole effect of a write that succeeds in a directory.\<close>

lemma WriteFile_effect:
  assumes ok: "tree_ok (fs_inodes s)"
    and p: "mget (fs_inodes s) p = Some parent" "Type parent = InodeTypeDirectory"
    and f: "GetChildInodeByName (fs_inodes s) parent name = Some f" "mget (fs_inodes s) f = Some n"
    and w: "WriteFile env p name off dt s = (None, s')"
  defines "g \<equiv> growth off (length dt) (Size n)"
  obtains chain r where "up_chain (fuel (fs_inodes s)) (fs_inodes s) f = Some chain"
    "mget (fs_inodes s) (last chain) = Some r"
    "g > 0 \<Longrightarrow> write_limit env (word_of_nat g) r s = None" "g < 2 ^ 63"
    "s' = s\<lparr>fs_disk := fs_disk s', fs_inodes := (if g > 0 then add_sizes (word_of_nat g) chain (fs_inodes s) else fs_inodes s)\<rparr>"
    "os_WriteAt (env_err env) (json_enc env) (env_short env) (OSPath n) dt (sint off) (fs_disk s) = (True, fs_disk s')"
proof -
  from WriteFile_okE [OF w] find_file_dir [OF p f] obtain bs where
    isfile: "Type n = InodeTypeFile" and bs: "os_Open (env_err env) (json_enc env) (OSPath n) (fs_disk s) = Some bs"
    and wa: "os_WriteAt (env_err env) (json_enc env) (env_short env) (OSPath n) dt (sint off) (fs_disk s) = (True, fs_disk s')"
    by (metis (no_types, lifting) Inl_Inr_False Inr_inject Pair_inject)
  from walks_return(1) [OF ok] obtain chain where chain: "up_chain (fuel (fs_inodes s)) (fs_inodes s) f = Some chain" by blast
  from up_chain_last [OF ok chain f(2)] obtain r where r: "mget (fs_inodes s) (last chain) = Some r" by blast
  note small = os_WriteAt_okD(1) [OF wa]
  note gw = growth_word [OF small, of "Size n", folded g_def]
  have pos: "0 < sint (word_of_nat g :: u64) \<longleftrightarrow> g > 0" "(word_of_nat g :: u64) \<noteq> 0 \<longleftrightarrow> g > 0"
    using sint_small [OF gw(2)] unat_small [OF gw(2)] by (simp, cases g) auto
  have nov: "\<not> - 1 - off < word_of_nat (length dt)"
    using w find_file_dir [OF p f] isfile bs by (auto simp: WriteFile_def)
  have lim: "write_limit env (word_of_nat g) r s = None" if "g > 0"
    using w find_file_dir [OF p f] isfile bs nov chain r wa that
    by (auto simp: WriteFile_def Let_def gw(1) pos split: option.splits if_splits)
  have "s' = s\<lparr>fs_disk := fs_disk s', fs_inodes := (if g > 0 then add_sizes (word_of_nat g) chain (fs_inodes s) else fs_inodes s)\<rparr>"
  proof (cases "g > 0")
    case True
    with w find_file_dir [OF p f] isfile bs nov chain r wa lim show ?thesis
      by (auto simp: WriteFile_def Let_def gw(1) pos)
  next
    case False
    with w find_file_dir [OF p f] isfile bs nov chain r wa have "s' = s\<lparr>fs_disk := fs_disk s'\<rparr>"
      by (auto simp: WriteFile_def Let_def gw(1))
    with False show ?thesis by (cases s; cases s') simp
  qed
  with that chain r lim gw(2) wa show thesis by blast
qed

lemma up_chain_root:
  assumes ok: "tree_ok I"
  shows "up_chain k I f = Some xs \<Longrightarrow> r \<in> set xs \<Longrightarrow> mget I r = Some m \<Longrightarrow> Parent m = Some r \<Longrightarrow> r = last xs"
proof (induction k arbitrary: f xs)
  case (Suc k)
  show ?case
  proof (cases "mget I f")
    case (Some n)
    from tree_okD(3) [OF ok Some] obtain p l where p: "Parent n = Some p" "mget I p = Some l" by blast
    show ?thesis
    proof (cases "p = f")
      case False
      with Suc.prems Some p obtain ys where ys: "up_chain k I p = Some ys" "xs = f # ys" by auto
      from up_chain_spec [OF ok ys(1) p(2)] have "ys \<noteq> []" by blast
      moreover have "r \<noteq> f" using Suc.prems p Some False by auto
      ultimately show ?thesis using Suc.IH [OF ys(1)] Suc.prems ys(2) by simp
    qed (use Suc.prems Some p in auto)
  qed (use Suc.prems in auto)
qed simp

lemma write_limit_bound:
  assumes "write_limit env (word_of_nat g) r s = None" "g < 2 ^ 63"
  shows "unat (Size r) + g \<le> unat (getUserQuotaLocked (Name r) s)"
proof -
  let ?q = "getUserQuotaLocked (Name r) s"
  have "\<not> (word_of_nat g > ?q)" "\<not> Size r > ?q - word_of_nat g"
    using assms(1) by (auto simp: write_limit_def Let_def split: if_splits)
  then have "unat (Size r) \<le> unat (?q - word_of_nat g)" "unat (word_of_nat g :: u64) \<le> unat ?q"
    by (simp_all add: word_less_nat_alt not_less)
  moreover have "unat (?q - word_of_nat g) = unat ?q - unat (word_of_nat g :: u64)"
    using calculation(2) by (simp add: unat_sub word_le_nat_alt)
  ultimately show ?thesis using unat_small [OF assms(2)] by linarith
qed

text \<open>C13. A write that is acknowledged charges exactly the bytes it adds to the file to the file and to
  every directory above it, up to the user's root, and to nothing else; and the root, so charged, is
  within the quota of its user, with no wrap-around. Offsets and sizes are the full 64 bits.\<close>

theorem write_charges_quota:
  assumes ok: "tree_ok (fs_inodes s)"
    and p: "mget (fs_inodes s) p = Some parent" "Type parent = InodeTypeDirectory"
    and f: "GetChildInodeByName (fs_inodes s) parent name = Some f" "mget (fs_inodes s) f = Some n"
    and w: "WriteFile env p name off dt s = (None, s')"
  shows "(\<forall>h m. mget (fs_inodes s) h = Some m \<longrightarrow>
            mget (fs_inodes s') h = Some (if below_in (fs_inodes s) h f
              then m\<lparr>Size := Size m + word_of_nat (growth off (length dt) (Size n))\<rparr> else m))
      \<and> (growth off (length dt) (Size n) > 0 \<longrightarrow>
          (\<forall>r m. below_in (fs_inodes s) r f \<and> mget (fs_inodes s) r = Some m \<and> Parent m = Some r \<longrightarrow>
             unat (Size m) + growth off (length dt) (Size n) \<le> unat (getUserQuotaLocked (Name m) s)))"
proof -
  let ?g = "growth off (length dt) (Size n)"
  from WriteFile_effect [OF ok p f w] obtain chain r where
    chain: "up_chain (fuel (fs_inodes s)) (fs_inodes s) f = Some chain"
    and r: "mget (fs_inodes s) (last chain) = Some r"
    and lim: "?g > 0 \<Longrightarrow> write_limit env (word_of_nat ?g) r s = None" and g: "?g < 2 ^ 63"
    and s': "s' = s\<lparr>fs_disk := fs_disk s', fs_inodes := (if ?g > 0 then add_sizes (word_of_nat ?g) chain (fs_inodes s) else fs_inodes s)\<rparr>"
    by metis
  from up_chain_spec [OF ok chain f(2)] have set: "set chain = {h. below_in (fs_inodes s) h f}" "distinct chain" by auto
  have inodes: "fs_inodes s' = (if ?g > 0 then add_sizes (word_of_nat ?g) chain (fs_inodes s) else fs_inodes s)"
    by (subst s') simp
  have "mget (fs_inodes s') h = Some (if below_in (fs_inodes s) h f then m\<lparr>Size := Size m + word_of_nat ?g\<rparr> else m)"
    if "mget (fs_inodes s) h = Some m" for h m
    using that set by (cases "?g > 0") (simp_all add: inodes add_sizes_mget)
  moreover have "unat (Size m) + ?g \<le> unat (getUserQuotaLocked (Name m) s)"
    if "?g > 0" "below_in (fs_inodes s) h f" "mget (fs_inodes s) h = Some m" "Parent m = Some h" for h m
    using up_chain_root [OF ok chain _ that(3,4)] that set r write_limit_bound [OF lim [OF that(1)] g] by simp
  ultimately show ?thesis by blast
qed

theorem write_charges_quota_witness:
  "mget (fs_inodes (snd (WriteFile demo_env (dfid 0) ''a'' 1 [9, 9, 9] demo))) (dfid 0)
     = Some ((dnode_at 0 InodeTypeDirectory ''u'' ''d/u'' [1, 2, 3] 5 0)\<lparr>Size := 6\<rparr>)"
proof -
  have w: "WriteFile demo_env (dfid 0) ''a'' 1 [9, 9, 9] demo
      = (None, snd (WriteFile demo_env (dfid 0) ''a'' 1 [9, 9, 9] demo))"
    using demo_write by (metis prod.collapse)
  have child: "GetChildInodeByName demo_inodes (dnode_at 0 InodeTypeDirectory ''u'' ''d/u'' [1, 2, 3] 5 0) ''a'' = Some (dfid 2)"
    by (simp add: GetChildInodeByName_def demo_mget)
  have "below_in demo_inodes (dfid 0) (dfid 2)"
    by (rule below_child [OF demo_mget(1) _ demo_mget(3)]) simp
  with write_charges_quota [of demo "dfid 0" _ "''a''" "dfid 2" _ demo_env 1 "[9, 9, 9]"] w child
  show ?thesis by (simp add: demo_tree_ok demo_mget growth_def)
qed

text \<open>C14. A write that is refused changes nothing, except that a failing system call may have written
  part of the data; and on a well-formed tree neither loop of \<open>WriteFile\<close> runs forever.\<close>

theorem refused_write_changes_nothing:
  assumes ok: "tree_ok (fs_inodes s)"
    and p: "mget (fs_inodes s) p = Some parent" "Type parent = InodeTypeDirectory"
    and w: "WriteFile env p name off dt s = (Some e, s')"
  shows "e \<noteq> Diverges \<and> e \<noteq> Panics \<and> fs_inodes s' = fs_inodes s \<and> (e = Os WriteFailed \<or> s' = s)"
proof (cases "GetChildInodeByName (fs_inodes s) parent name")
  case None
  with p w show ?thesis by (auto simp: WriteFile_def find_file_def GetInode_dir)
next
  case (Some f)
  then obtain n where n: "mget (fs_inodes s) f = Some n" by (rule child_found)
  note ff = find_file_dir [OF p Some n]
  from walks_return(1) [OF ok] obtain chain where chain: "up_chain (fuel (fs_inodes s)) (fs_inodes s) f = Some chain" by blast
  from up_chain_last [OF ok chain n] obtain r where r: "mget (fs_inodes s) (last chain) = Some r" by blast
  have lim: "write_limit env d r s \<noteq> Some Diverges \<and> write_limit env d r s \<noteq> Some Panics" for d
    by (simp add: write_limit_def Let_def)
  show ?thesis
  proof (cases "Type n = InodeTypeFile")
    case True
    have ff': "find_file env p name s = (Inr (f, n), s)" using ff True by simp
    from w show ?thesis
      unfolding WriteFile_def ff' Let_def prod.case sum.case chain option.case r
      using lim by (auto split: if_splits option.splits prod.splits bool.splits)
  next
    case False
    with ff w show ?thesis by (auto simp: WriteFile_def)
  qed
qed

theorem refused_write_changes_nothing_witness:
  "snd (WriteFile demo_env (dfid 0) ''p'' 0 [9] demo) = demo"
proof -
  have "WriteFile demo_env (dfid 0) ''p'' 0 [9] demo = (Some (Lookup NotAFile), snd (WriteFile demo_env (dfid 0) ''p'' 0 [9] demo))"
    by (simp add: WriteFile_def find_file_def GetInode_def demo_mget GetChildInodeByName_def)
  from refused_write_changes_nothing [OF demo_root(3) demo_root(1,2) this] show ?thesis by blast
qed

text \<open>C20. A defect of \<open>ReadFile\<close>: the test \<open>offset+readLen > fileSize\<close> wraps around at 64 bits, so a
  length just below \<open>2 ^ 64\<close> passes it and \<open>make([]byte, readLen)\<close> panics. Any request with an
  offset inside a file and such a length stops the server.\<close>

theorem read_length_overflow_panics:
  assumes p: "mget (fs_inodes s) p = Some parent" "Type parent = InodeTypeDirectory"
    and f: "GetChildInodeByName (fs_inodes s) parent name = Some f" "mget (fs_inodes s) f = Some n"
      "Type n = InodeTypeFile"
    and bs: "os_Open (env_err env) (json_enc env) (OSPath n) (fs_disk s) = Some bs" "length bs < 2 ^ 63"
    and stat: "\<not> env_err env (CStat (OSPath n))"
    and off: "0 < unat off" "unat off < length bs" and len: "2 ^ 64 \<le> unat off + unat len"
  shows "fst (ReadFile env p name off len s) = Inl Panics"
proof -
  have ff: "find_file env p name s = (Inr (f, n), s)" using find_file_dir [OF p f(1,2)] f(3) by simp
  note un = unat_small [OF bs(2)]
  have wrap: "unat (off + len) = unat off + unat len - 2 ^ 64"
    using len unat_u64_less [of off] unat_u64_less [of len]
    by (simp add: unat_word_ariths mod_if)
  have "unat len < 2 ^ 64" using unat_u64_less by simp
  then have big: "2 ^ 63 \<le> unat len" "unat (off + len) < length bs" "len \<noteq> 0" using len off bs(2) wrap by auto
  have "\<not> word_of_nat (length bs) \<le> off" "\<not> word_of_nat (length bs) < off + len"
    using off big un by (simp_all add: word_less_nat_alt word_le_nat_alt)
  with ff bs(1) stat big show ?thesis by (simp add: ReadFile_def Let_def)
qed

theorem read_length_overflow_panics_witness:
  "fst (ReadFile demo_env (dfid 0) ''a'' 1 (- 1) demo) = Inl Panics"
proof -
  have child: "GetChildInodeByName demo_inodes (dnode_at 0 InodeTypeDirectory ''u'' ''d/u'' [1, 2, 3] 5 0) ''a'' = Some (dfid 2)"
    by (simp add: GetChildInodeByName_def demo_mget)
  have "os_Open (env_err demo_env) (json_enc demo_env) ''d/u/a'' demo_disk = Some [1, 2, 3]"
    by (simp add: os_Open_def demo_disk_def content_bytes_def)
  moreover have "unat (- 1 :: u64) = 2 ^ 64 - 1" by (simp add: unsigned_minus_1_eq_mask mask_eq_exp_minus_1)
  ultimately show ?thesis
    using read_length_overflow_panics [of demo "dfid 0" _ "''a''" "dfid 2" _ demo_env "[1, 2, 3]" 1 "- 1"] child
    by (simp add: demo_mget)
qed

section \<open>Admission\<close>

definition admitted :: "fs_env \<Rightarrow> file_server \<Rightarrow> string \<Rightarrow> fid \<Rightarrow> permission \<Rightarrow> bool" where
  "admitted env s u f perm \<longleftrightarrow> (case Authorize env (Some u) (Some f) perm s of Inr _ \<Rightarrow> True | Inl _ \<Rightarrow> False)"

lemma admitted_iff:
  assumes "u \<noteq> []"
  shows "admitted env s u f perm \<longleftrightarrow> (\<exists>n. mget (fs_inodes s) f = Some n \<and> may env n u perm)"
proof -
  have "admitted env s u f perm \<longleftrightarrow> (\<exists>n v. Authorize env (Some u) (Some f) perm s = Inr (n, v))"
    by (cases "Authorize env (Some u) (Some f) perm s") (auto simp: admitted_def)
  with assms show ?thesis by (simp add: Authorize_Inr_iff)
qed

lemma size_eq_shape: "size_eq I J \<Longrightarrow> shape J = shape I"
proof
  fix f assume se: "size_eq I J"
  show "shape J f = shape I f"
  proof (cases "mget I f")
    case None
    then show ?thesis using se by (simp add: shape_def size_eq_def) (metis map_option_is_None)
  next
    case (Some n)
    from size_eqD [OF se Some] obtain m where "mget J f = Some m" "n\<lparr>Size := 0\<rparr> = m\<lparr>Size := 0\<rparr>" .
    with Some erase_size_fields [OF this(2)] show ?thesis by (simp add: shape_def)
  qed
qed

lemma GetInode_ok:
  assumes "GetInode env f s = (r, s1)" "gomap_ok (fs_inodes s)"
  shows "gomap_ok (fs_inodes s1)"
  using assms by (auto simp: GetInode_def split: option.splits if_splits)

end
