(* ===== verification/File_Sharing.thy ===== *)
theory File_Sharing
  imports File_Writes
begin

text \<open>
  Sharing a directory: \<open>Share\<close> and \<open>Unshare\<close> change the access of one user to exactly the inodes
  below the directory, and nobody else's access to anything.
\<close>

section \<open>What saving leaves alone\<close>

named_theorems kept_fields \<open>fields an operation on the disk does not touch\<close>

lemma SaveACL_disk: "\<exists>d. snd (SaveACL env p a s) = s\<lparr>fs_disk := d\<rparr>"
  by (auto simp: SaveACL_def split: prod.split bool.split)

lemma SaveDirShares_disk: "\<exists>d. snd (SaveDirShares env s) = s\<lparr>fs_disk := d\<rparr>"
proof (cases "rootDir s = []")
  case True
  then have "snd (SaveDirShares env s) = s\<lparr>fs_disk := fs_disk s\<rparr>" by (simp add: SaveDirShares_def)
  then show ?thesis ..
qed (auto simp: SaveDirShares_def split: prod.split bool.split)

lemma SaveACL_kept [simp, kept_fields]:
  "fs_inodes (snd (SaveACL env p a s)) = fs_inodes s" "rootDir (snd (SaveACL env p a s)) = rootDir s"
  "fs_Shared (snd (SaveACL env p a s)) = fs_Shared s" "fs_users (snd (SaveACL env p a s)) = fs_users s"
  "msAddr (snd (SaveACL env p a s)) = msAddr s" "ms_log (snd (SaveACL env p a s)) = ms_log s"
  "quotas (snd (SaveACL env p a s)) = quotas s" "trashMeta (snd (SaveACL env p a s)) = trashMeta s"
  "serverID (snd (SaveACL env p a s)) = serverID s" "inodeStore (snd (SaveACL env p a s)) = inodeStore s"
  using SaveACL_disk [of env p a s] by auto

lemma SaveDirShares_kept [simp, kept_fields]:
  "fs_inodes (snd (SaveDirShares env s)) = fs_inodes s" "rootDir (snd (SaveDirShares env s)) = rootDir s"
  "fs_Shared (snd (SaveDirShares env s)) = fs_Shared s" "fs_users (snd (SaveDirShares env s)) = fs_users s"
  "msAddr (snd (SaveDirShares env s)) = msAddr s" "ms_log (snd (SaveDirShares env s)) = ms_log s"
  "quotas (snd (SaveDirShares env s)) = quotas s" "trashMeta (snd (SaveDirShares env s)) = trashMeta s"
  "serverID (snd (SaveDirShares env s)) = serverID s" "inodeStore (snd (SaveDirShares env s)) = inodeStore s"
  using SaveDirShares_disk [of env s] by auto

lemma notify_ms_kept [simp, kept_fields]:
  "fs_inodes (notify_ms r s) = fs_inodes s" "fs_Shared (notify_ms r s) = fs_Shared s"
  "rootDir (notify_ms r s) = rootDir s" "fs_users (notify_ms r s) = fs_users s" "fs_disk (notify_ms r s) = fs_disk s"
  "trashMeta (notify_ms r s) = trashMeta s" "inodeStore (notify_ms r s) = inodeStore s" "serverID (notify_ms r s) = serverID s"
  by (simp_all add: notify_ms_def)

section \<open>The loops over the subtree\<close>

definition with_shared :: "(string list \<Rightarrow> string list) \<Rightarrow> inode \<Rightarrow> inode" where
  "with_shared h n = n\<lparr>ACL := (ACL n)\<lparr>SharedWith := h (SharedWith (ACL n))\<rparr>\<rparr>"

lemma with_shared_sel [simp]:
  "FID (with_shared h n) = FID n" "Type (with_shared h n) = Type n" "Name (with_shared h n) = Name n"
  "OSPath (with_shared h n) = OSPath n" "Children (with_shared h n) = Children n" "Size (with_shared h n) = Size n"
  "Parent (with_shared h n) = Parent n" "Owner (ACL (with_shared h n)) = Owner (ACL n)"
  "SharedWith (ACL (with_shared h n)) = h (SharedWith (ACL n))"
  by (simp_all add: with_shared_def)

lemma with_shared_same: "h (SharedWith (ACL n)) = SharedWith (ACL n) \<Longrightarrow> with_shared h n = n"
  by (simp add: with_shared_def)

lemma set_shared_fields [simp]:
  "fs_inodes (set_shared env f n us s) = mput f (n\<lparr>ACL := (ACL n)\<lparr>SharedWith := us\<rparr>\<rparr>) (fs_inodes s)"
  "rootDir (set_shared env f n us s) = rootDir s" "fs_Shared (set_shared env f n us s) = fs_Shared s"
  "fs_users (set_shared env f n us s) = fs_users s" "msAddr (set_shared env f n us s) = msAddr s"
  "ms_log (set_shared env f n us s) = ms_log s"
  by (simp_all add: set_shared_def Let_def split: option.split)

lemma share_inode_mget:
  "mget (fs_inodes (share_inode env u f s)) g
     = (if g = f then map_option (with_shared (add_user u)) (mget (fs_inodes s) f) else mget (fs_inodes s) g)"
  by (auto simp: share_inode_def with_shared_def add_user_def list_ex_iff with_shared_same [unfolded with_shared_def]
      split: option.split)

lemma unshare_inode_mget:
  "mget (fs_inodes (unshare_inode env u f s)) g
     = (if g = f then map_option (with_shared (filter (\<lambda>v. v \<noteq> u))) (mget (fs_inodes s) f) else mget (fs_inodes s) g)"
proof -
  have "filter (\<lambda>v. v \<noteq> u) xs = xs" if "u \<notin> set xs" for xs using that by (auto simp: filter_id_conv)
  then show ?thesis
    by (auto simp: unshare_inode_def with_shared_def list_ex_iff with_shared_same [unfolded with_shared_def]
        split: option.split)
qed

lemma share_loops_kept:
  "rootDir (fold (share_inode env u) fs s) = rootDir s" "fs_Shared (fold (share_inode env u) fs s) = fs_Shared s"
  "msAddr (fold (share_inode env u) fs s) = msAddr s" "ms_log (fold (share_inode env u) fs s) = ms_log s"
  "rootDir (fold (unshare_inode env u) fs s) = rootDir s" "fs_Shared (fold (unshare_inode env u) fs s) = fs_Shared s"
  "msAddr (fold (unshare_inode env u) fs s) = msAddr s" "ms_log (fold (unshare_inode env u) fs s) = ms_log s"
  by (induction fs arbitrary: s) (simp_all add: share_inode_def unshare_inode_def split: option.split)

text \<open>A loop that applies an idempotent change to each inode it visits applies it to the visited ones.\<close>

lemma fold_inodes_mget:
  assumes step: "\<And>f s g. mget (fs_inodes (step f s)) g
      = (if g = f then map_option h (mget (fs_inodes s) f) else mget (fs_inodes s) g)"
    and idem: "\<And>n. h (h n) = h n"
  shows "mget (fs_inodes (fold step fs s)) g = (if g \<in> set fs then map_option h (mget (fs_inodes s) g) else mget (fs_inodes s) g)"
proof (induction fs arbitrary: s)
  case (Cons f fs)
  then show ?case by (cases "mget (fs_inodes s) f") (auto simp: step idem option.map_comp comp_def)
qed simp

lemma with_shared_idem: "(\<And>xs. h (h xs) = h xs) \<Longrightarrow> with_shared h (with_shared h n) = with_shared h n"
  by (simp add: with_shared_def)

lemma add_user_set [simp]: "set (add_user u xs) = insert u (set xs)"
  by (auto simp: add_user_def list_ex_iff)

lemmas share_loop_mget = fold_inodes_mget [OF share_inode_mget with_shared_idem]
lemmas unshare_loop_mget = fold_inodes_mget [OF unshare_inode_mget with_shared_idem]

lemma shape_with_shared:
  assumes "\<And>g. mget J g = (if g \<in> A then map_option (with_shared h) (mget I g) else mget I g)"
  shows "shape J = shape I"
proof
  fix g show "shape J g = shape I g"
    by (cases "mget I g") (simp_all add: shape_def assms)
qed

section \<open>Share\<close>

lemma Share_okE:
  assumes ok: "tree_ok (fs_inodes s)" and sh: "Share env owner u f s = (None, s')"
  obtains n where "mget (fs_inodes s) f = Some n" "Owner (ACL n) = owner" "u \<noteq> owner" "u \<notin> set (SharedWith (ACL n))"
    "\<And>g. mget (fs_inodes s') g = (if below_in (fs_inodes s) f g
        then map_option (with_shared (add_user u)) (mget (fs_inodes s) g) else mget (fs_inodes s) g)"
    "fs_Shared s' = mput (rel_or (Name n) (OSPath n) s) (add_user u (mslice (fs_Shared s) (rel_or (Name n) (OSPath n) s))) (fs_Shared s)"
    "ms_log s' = ms_log s @ (if msAddr s = [] then [] else [RpcRootShare owner (rel_or (Name n) (OSPath n) s) u (Name n)])"
proof -
  from sh obtain n where n: "mget (fs_inodes s) f = Some n"
    by (cases "mget (fs_inodes s) f") (auto simp: Share_def GetInode_def)
  from sh have dir: "Type n = InodeTypeDirectory"
    using n by (cases "Type n") (auto simp: Share_def GetInode_def split: option.splits)
  note gi = GetInode_dir [OF n dir]
  from walks_return(2) [OF ok] obtain xs where xs: "dfs (fuel (fs_inodes s)) (fs_inodes s) f = Some xs" by blast
  have set: "set xs = {g. below_in (fs_inodes s) f g}" by (rule dfs_spec [OF ok xs])
  have guards: "Owner (ACL n) = owner" "u \<noteq> owner" "u \<notin> set (SharedWith (ACL n))"
    using sh dir by (auto simp: Share_def gi list_ex_iff split: if_splits)
  define t where "t = fold (share_inode env u) xs s"
  define path where "path = rel_or (Name n) (OSPath n) s"
  have t: "rootDir t = rootDir s" "fs_Shared t = fs_Shared s" "msAddr t = msAddr s" "ms_log t = ms_log s"
    by (simp_all add: t_def share_loops_kept)
  have path': "rel_or (Name n) (OSPath n) t = path" by (simp add: path_def rel_or_def t)
  have s': "s' = RootShareRPC owner (Name n) path u (snd (SaveDirShares env
      (t\<lparr>fs_Shared := mput path (add_user u (mslice (fs_Shared s) path)) (fs_Shared s)\<rparr>)))"
    using sh dir guards by (simp add: Share_def gi xs Let_def t_def [symmetric] path' t list_ex_iff split: if_splits)
  have "fs_inodes s' = fs_inodes t" by (simp add: s' RootShareRPC_def)
  moreover have "mget (fs_inodes t) g = (if g \<in> set xs then map_option (with_shared (add_user u)) (mget (fs_inodes s) g)
      else mget (fs_inodes s) g)" for g
    unfolding t_def by (rule share_loop_mget) (simp add: add_user_def list_ex_iff)
  ultimately have "mget (fs_inodes s') g = (if below_in (fs_inodes s) f g
        then map_option (with_shared (add_user u)) (mget (fs_inodes s) g) else mget (fs_inodes s) g)" for g
    by (simp add: set)
  moreover have "fs_Shared s' = mput path (add_user u (mslice (fs_Shared s) path)) (fs_Shared s)"
    by (simp add: s' RootShareRPC_def)
  moreover have "ms_log s' = ms_log s @ (if msAddr s = [] then [] else [RpcRootShare owner path u (Name n)])"
    by (simp add: s' RootShareRPC_def notify_ms_def t)
  ultimately show thesis using that n guards unfolding path_def by metis
qed

lemma may_with_shared: "may env (with_shared (add_user u) n) x perm \<longleftrightarrow> may env n x perm \<or> (x = u \<and> perm \<in> {PermRead, PermWrite})"
  by (auto simp: may_def)

text \<open>C15. \<open>Share\<close> gives the user it names access to the directory and everything below it and to
  nothing else, changes no other user's access and nobody's right to delete; it records the share under
  the directory's path and tells the metaserver once.\<close>

theorem share_grants_exactly_the_subtree:
  assumes ok: "tree_ok (fs_inodes s)" and sh: "Share env owner u f s = (None, s')"
  shows "(\<forall>x g perm. x \<noteq> [] \<longrightarrow> admitted env s' x g perm =
            (admitted env s x g perm \<or> (x = u \<and> perm \<in> {PermRead, PermWrite} \<and> below_in (fs_inodes s) f g)))
       \<and> (\<exists>path. u \<in> set (mslice (fs_Shared s') path)
            \<and> (\<forall>q. q \<noteq> path \<longrightarrow> mget (fs_Shared s') q = mget (fs_Shared s) q))
       \<and> length (ms_log s') = length (ms_log s) + (if msAddr s = [] then 0 else 1)"
proof -
  obtain n where "mget (fs_inodes s) f = Some n" "Owner (ACL n) = owner" "u \<noteq> owner" "u \<notin> set (SharedWith (ACL n))" and
    I: "\<And>g. mget (fs_inodes s') g = (if below_in (fs_inodes s) f g
        then map_option (with_shared (add_user u)) (mget (fs_inodes s) g) else mget (fs_inodes s) g)"
    and S: "fs_Shared s' = mput (rel_or (Name n) (OSPath n) s) (add_user u (mslice (fs_Shared s) (rel_or (Name n) (OSPath n) s))) (fs_Shared s)"
    and L: "ms_log s' = ms_log s @ (if msAddr s = [] then [] else [RpcRootShare owner (rel_or (Name n) (OSPath n) s) u (Name n)])"
    by (rule Share_okE [OF ok sh]) blast
  have "admitted env s' x g perm = (admitted env s x g perm \<or> (x = u \<and> perm \<in> {PermRead, PermWrite} \<and> below_in (fs_inodes s) f g))"
    if "x \<noteq> []" for x g perm
    using below_dom [of "fs_inodes s" f g]
    by (auto simp: admitted_iff [OF that] I may_with_shared)
  moreover have "u \<in> set (mslice (fs_Shared s') (rel_or (Name n) (OSPath n) s))
      \<and> (\<forall>q. q \<noteq> rel_or (Name n) (OSPath n) s \<longrightarrow> mget (fs_Shared s') q = mget (fs_Shared s) q)"
    by (simp add: S)
  ultimately show ?thesis using L by auto
qed

lemma demo_dfs: "dfs (fuel demo_inodes) demo_inodes (dfid 3) = Some [dfid 3, dfid 4]"
proof -
  have "fuel demo_inodes = Suc (Suc (Suc (Suc (Suc (Suc 0)))))" by (simp add: fuel_def demo_inodes_def)
  then show ?thesis by (simp add: demo_mget)
qed

theorem share_grants_exactly_the_subtree_witness:
  "admitted demo_env (snd (Share demo_env ''u'' ''w'' (dfid 3) demo)) ''w'' (dfid 4) PermRead"
proof -
  have "fst (Share demo_env ''u'' ''w'' (dfid 3) demo) = None"
    by (simp add: Share_def GetInode_def demo_mget demo_dfs Let_def)
  then have "Share demo_env ''u'' ''w'' (dfid 3) demo = (None, snd (Share demo_env ''u'' ''w'' (dfid 3) demo))"
    by (metis prod.collapse)
  moreover have "below_in demo_inodes (dfid 3) (dfid 4)"
    by (rule below_child [OF demo_mget(4) _ demo_mget(5)]) simp
  ultimately show ?thesis using share_grants_exactly_the_subtree [OF demo_root(3)] by simp
qed

section \<open>Unshare\<close>

lemma Unshare_okE:
  assumes ok: "tree_ok (fs_inodes s)" and un: "Unshare env owner u f s = (None, s')"
  obtains n J where "mget (fs_inodes s) f = Some n" "Owner (ACL n) = owner" "u \<noteq> owner" "size_eq (fs_inodes s) J"
    "\<And>g. mget (fs_inodes s') g = (if below_in (fs_inodes s) f g
        then map_option (with_shared (filter (\<lambda>v. v \<noteq> u))) (mget J g) else mget J g)"
proof -
  obtain r s1 where gi: "GetInode env f s = (r, s1)" by fastforce
  from GetInode_size_eq [OF gi] obtain J where J: "s1 = s\<lparr>fs_inodes := J\<rparr>" "size_eq (fs_inodes s) J" "r = mget J f" by metis
  from un gi obtain m where m: "mget J f = Some m" using J(3) by (cases "mget J f") (auto simp: Unshare_def)
  from size_eqD [OF size_eq_sym [OF J(2)] m] obtain n where n: "mget (fs_inodes s) f = Some n" "m\<lparr>Size := 0\<rparr> = n\<lparr>Size := 0\<rparr>" .
  have okJ: "tree_ok J"
    using tree_ok_shape [OF ok _ size_eq_shape [OF J(2)]] GetInode_ok [OF gi tree_okD(1) [OF ok]] J(1) by simp
  from walks_return(2) [OF okJ] obtain xs where xs: "dfs (fuel J) J f = Some xs" by blast
  have set: "set xs = {g. below_in (fs_inodes s) f g}"
    using dfs_spec [OF okJ xs] below_in_shape [OF size_eq_shape [OF J(2)]] by simp
  have guards: "Owner (ACL m) = owner" "u \<noteq> owner" "u \<in> set (SharedWith (ACL m))"
    using un by (auto simp: Unshare_def gi J(3) m list_ex_iff split: if_splits)
  define t where "t = fold (unshare_inode env u) xs s1"
  have "fs_inodes s' = fs_inodes t"
    using un guards xs J m
    by (auto simp: Unshare_def gi Let_def t_def list_ex_iff RootUnshareRPC_def split: if_splits option.splits)
  moreover have "mget (fs_inodes t) g = (if g \<in> set xs then map_option (with_shared (filter (\<lambda>v. v \<noteq> u))) (mget J g) else mget J g)" for g
  proof -
    have "mget (fs_inodes t) g = (if g \<in> set xs then map_option (with_shared (filter (\<lambda>v. v \<noteq> u))) (mget (fs_inodes s1) g)
        else mget (fs_inodes s1) g)"
      unfolding t_def by (rule unshare_loop_mget) simp
    then show ?thesis by (simp add: J(1))
  qed
  ultimately show thesis
    using that n(1) guards erase_size_fields(6) [OF n(2)] J(2) set by simp
qed

text \<open>C16. \<open>Unshare\<close> takes the access back from exactly the subtree: the user keeps what they own and
  what lies outside, and everybody else keeps everything.\<close>

theorem unshare_revokes_exactly_the_subtree:
  assumes ok: "tree_ok (fs_inodes s)" and un: "Unshare env owner u f s = (None, s')"
    and x: "x \<noteq> []" and perm: "perm \<in> {PermRead, PermWrite}"
  shows "admitted env s' x g perm \<longleftrightarrow>
     (\<exists>n. mget (fs_inodes s) g = Some n
        \<and> (x = Owner (ACL n) \<or> (x \<in> set (SharedWith (ACL n)) \<and> \<not> (x = u \<and> below_in (fs_inodes s) f g))))"
proof -
  obtain n J where "mget (fs_inodes s) f = Some n" "Owner (ACL n) = owner" "u \<noteq> owner" and J: "size_eq (fs_inodes s) J"
    and I: "\<And>g. mget (fs_inodes s') g = (if below_in (fs_inodes s) f g
        then map_option (with_shared (filter (\<lambda>v. v \<noteq> u))) (mget J g) else mget J g)" by (rule Unshare_okE [OF ok un]) blast
  show ?thesis
  proof (cases "mget (fs_inodes s) g")
    case None
    then have "mget J g = None" using J unfolding size_eq_def by (metis map_option_is_None)
    with None show ?thesis by (simp add: admitted_iff [OF x] I)
  next
    case (Some n)
    from size_eqD [OF J Some] obtain m where m: "mget J g = Some m" "n\<lparr>Size := 0\<rparr> = m\<lparr>Size := 0\<rparr>" .
    with Some perm erase_size_fields(6) [OF m(2)] show ?thesis
      by (auto simp: admitted_iff [OF x] I may_def)
  qed
qed

definition demo_shared :: file_server where
  "demo_shared = demo\<lparr>fs_inodes := mmap (with_shared (\<lambda>_. [''w''])) demo_inodes\<rparr>"

lemma demo_shared_tree: "tree_ok (fs_inodes demo_shared)"
proof (rule tree_ok_shape [OF demo_tree_ok])
  show "gomap_ok (fs_inodes demo_shared)" using tree_okD(1) [OF demo_tree_ok] by (simp add: demo_shared_def)
  show "shape (fs_inodes demo_shared) = shape demo_inodes"
    by (rule shape_with_shared [where A = UNIV and h = "\<lambda>_. [''w'']"]) (simp add: demo_shared_def)
qed

theorem unshare_revokes_exactly_the_subtree_witness:
  "\<not> admitted demo_env (snd (Unshare demo_env ''u'' ''w'' (dfid 3) demo_shared)) ''w'' (dfid 4) PermRead"
proof -
  from walks_return(2) [OF demo_shared_tree] obtain xs where
    xs: "dfs (fuel (fs_inodes demo_shared)) (fs_inodes demo_shared) (dfid 3) = Some xs" by blast
  have "fst (Unshare demo_env ''u'' ''w'' (dfid 3) demo_shared) = None"
    using xs by (simp add: Unshare_def GetInode_def demo_shared_def demo_mget Let_def)
  then have "Unshare demo_env ''u'' ''w'' (dfid 3) demo_shared = (None, snd (Unshare demo_env ''u'' ''w'' (dfid 3) demo_shared))"
    by (metis prod.collapse)
  from unshare_revokes_exactly_the_subtree [OF demo_shared_tree this, of "''w''" PermRead "dfid 4"]
  have "admitted demo_env (snd (Unshare demo_env ''u'' ''w'' (dfid 3) demo_shared)) ''w'' (dfid 4) PermRead \<longleftrightarrow>
     (\<exists>n. mget (fs_inodes demo_shared) (dfid 4) = Some n
        \<and> (''w'' = Owner (ACL n) \<or> (''w'' \<in> set (SharedWith (ACL n)) \<and> \<not> below_in (fs_inodes demo_shared) (dfid 3) (dfid 4))))"
    by simp
  moreover have "below_in (fs_inodes demo_shared) (dfid 3) (dfid 4)"
    by (rule below_child [where n = "with_shared (\<lambda>_. [''w'']) (dnode_at 3 InodeTypeDirectory ''p'' ''d/u/p'' [4] 2 0)"])
      (simp_all add: demo_shared_def demo_mget)
  ultimately show ?thesis by (simp add: demo_shared_def demo_mget)
qed

end
