(* ===== verification/File_Deletion.thy ===== *)
theory File_Deletion
  imports File_Sharing
begin

text \<open>
  Deleting: \<open>DeleteFile\<close> removes exactly the subtree it is asked to, only when the user owns all of it,
  keeps the tree well-formed, and otherwise changes nothing.
\<close>

section \<open>Permission\<close>

lemma first_error_None: "first_error es = None \<longleftrightarrow> (\<forall>e\<in>set es. e = None)"
  by (induction es rule: first_error.induct) auto

lemma validate_owned:
  assumes ok: "tree_ok I"
  shows "validateDeletePermissions k I u r f = None \<Longrightarrow> below_in I f g \<Longrightarrow> mget I g = Some m \<Longrightarrow> Owner (ACL m) = u"
proof (induction k arbitrary: f g m)
  case (Suc k)
  from below_dom [OF Suc.prems(2)] obtain n where n: "mget I f = Some n" by blast
  have own: "Owner (ACL n) = u" using Suc.prems(1) n by (auto split: if_splits)
  show ?case
  proof (cases "g = f")
    case False
    with below_first [OF Suc.prems(2)] n obtain c where c: "c \<in> set (Children n)" "below_in I c g" by auto
    then have "Type n = InodeTypeDirectory" using tree_okD(6) [OF ok n] by (cases "Type n") auto
    with Suc.prems(1) n own c have "first_error (map (validateDeletePermissions k I u r) (Children n)) = None"
      by (auto split: if_splits)
    with c have "validateDeletePermissions k I u r c = None" by (auto simp: first_error_None)
    from Suc.IH [OF this c(2) Suc.prems(3)] show ?thesis .
  qed (use own n Suc.prems(3) in simp)
qed simp

lemma validate_recursive:
  assumes "validateDeletePermissions (Suc k) I u r f = None" "mget I f = Some n" "Type n = InodeTypeDirectory" "Children n \<noteq> []"
  shows r
  using assms by (simp split: if_splits)

lemma first_error_Some: "first_error es = Some e \<Longrightarrow> Some e \<in> set es"
  by (induction es rule: first_error.induct) auto

lemma validate_enough:
  assumes ok: "tree_ok I"
    and r: "\<And>f n c. mget I f = Some n \<Longrightarrow> c \<in> set (Children n) \<Longrightarrow> rank f < rank c"
  shows "deeper I rank f < k \<Longrightarrow> validateDeletePermissions k I u b f \<notin> {Some Diverges, Some Panics}"
proof (induction k arbitrary: f)
  case (Suc k)
  show ?case
  proof (cases "mget I f")
    case (Some n)
    have "validateDeletePermissions k I u b c \<notin> {Some Diverges, Some Panics}" if "c \<in> set (Children n)" for c
      using Suc.IH [of c] Suc.prems deeper_less [where rank = rank, OF Some r [OF Some that]] by force
    then have "first_error (map (validateDeletePermissions k I u b) (Children n)) \<notin> {Some Diverges, Some Panics}"
      by (auto dest!: first_error_Some) (metis insertCI)+
    with Some show ?thesis by (cases b) simp_all
  qed simp
qed simp

lemma validate_returns:
  assumes ok: "tree_ok I"
  shows "validateDeletePermissions (fuel I) I u b f \<notin> {Some Diverges, Some Panics}"
proof -
  from tree_rank_down [OF ok] obtain rank :: "fid \<Rightarrow> nat" where
    down: "\<forall>f n c. mget I f = Some n \<longrightarrow> c \<in> set (Children n) \<longrightarrow> rank f < rank c" ..
  then have r: "\<And>f n c. mget I f = Some n \<Longrightarrow> c \<in> set (Children n) \<Longrightarrow> rank f < rank c" by blast
  show ?thesis
    by (rule validate_enough [OF ok r]) (use above_le [of I rank f] in \<open>auto simp: fuel_def\<close>)
qed

section \<open>Cutting a subtree off\<close>

definition unlinked :: "fid \<Rightarrow> inode \<Rightarrow> inode" where
  "unlinked f m = m\<lparr>Children := filter (\<lambda>c. c \<noteq> f) (Children m)\<rparr>"

lemma unlinked_sel [simp]:
  "FID (unlinked f m) = FID m" "Type (unlinked f m) = Type m" "Name (unlinked f m) = Name m"
  "OSPath (unlinked f m) = OSPath m" "ACL (unlinked f m) = ACL m" "Size (unlinked f m) = Size m"
  "Parent (unlinked f m) = Parent m" "Children (unlinked f m) = filter (\<lambda>c. c \<noteq> f) (Children m)"
  by (simp_all add: unlinked_def)

lemma unlinked_other: "f \<notin> set (Children m) \<Longrightarrow> unlinked f m = m"
proof -
  assume "f \<notin> set (Children m)"
  then have "filter (\<lambda>c. c \<noteq> f) (Children m) = Children m" by (auto simp: filter_id_conv)
  then show ?thesis by (simp add: unlinked_def)
qed

lemma below_last:
  assumes ok: "tree_ok I" and g: "below_in I f g" "g \<noteq> f" and h: "mget I h = Some n" "g \<in> set (Children n)"
  shows "below_in I f h"
  using g(1)
proof (cases rule: below_in.cases)
  case (below_step h' n' m')
  from tree_okD(4) [OF ok below_step(2,3)] tree_okD(4) [OF ok h] have "h' = h" by auto
  with below_step(1) show ?thesis by simp
qed (use g(2) in simp)

lemma tree_ok_cut:
  assumes ok: "tree_ok I" and J: "gomap_ok J"
    and sh: "\<And>g. shape J g = (if below_in I f g then None else shape (mmap (unlinked f) I) g)"
  shows "tree_ok J"
proof -
  have get: "\<not> below_in I f g \<and> (\<exists>m. mget I g = Some m \<and> FID m = FID n \<and> Parent m = Parent n \<and> Type m = Type n
      \<and> Children n = filter (\<lambda>c. c \<noteq> f) (Children m))" if "mget J g = Some n" for g n
    using that sh [of g] by (cases "mget I g") (auto simp: shape_def split: if_splits)
  have put: "\<exists>n. mget J g = Some n \<and> FID n = FID m \<and> Parent n = Parent m \<and> Type n = Type m
      \<and> Children n = filter (\<lambda>c. c \<noteq> f) (Children m)" if "mget I g = Some m" "\<not> below_in I f g" for g m
    using that sh [of g] by (cases "mget J g") (auto simp: shape_def)
  have "FID n = g" if "mget J g = Some n" for g n
    using get [OF that] tree_okD(2) [OF ok] by metis
  moreover have "\<exists>p m. Parent n = Some p \<and> mget J p = Some m \<and> (p \<noteq> g \<longrightarrow> g \<in> set (Children m))"
    if n: "mget J g = Some n" for g n
  proof -
    from get [OF n] obtain k where k: "\<not> below_in I f g" "mget I g = Some k" "Parent k = Parent n" by blast
    from tree_okD(3) [OF ok k(2)] k(3) obtain p m where
      p: "Parent n = Some p" "mget I p = Some m" "p \<noteq> g \<longrightarrow> g \<in> set (Children m)" by auto
    have "\<not> below_in I f p" using k p below_step [of I f p m g k] by (cases "p = g") auto
    from put [OF p(2) this] obtain m' where m': "mget J p = Some m'" "Children m' = filter (\<lambda>c. c \<noteq> f) (Children m)" by blast
    moreover have "g \<noteq> f" using k below_refl by blast
    ultimately show ?thesis using p by auto
  qed
  moreover have "c \<noteq> g \<and> (\<exists>m. mget J c = Some m \<and> Parent m = Some g)"
    if n: "mget J g = Some n" and c: "c \<in> set (Children n)" for g n c
  proof -
    from get [OF n] obtain k where k: "\<not> below_in I f g" "mget I g = Some k" "Children n = filter (\<lambda>c. c \<noteq> f) (Children k)" by blast
    with c have cf: "c \<noteq> f" "c \<in> set (Children k)" by auto
    from tree_okD(4) [OF ok k(2) cf(2)] obtain m where m: "c \<noteq> g" "mget I c = Some m" "Parent m = Some g" by blast
    have "\<not> below_in I f c" using below_last [OF ok _ cf(1) k(2) cf(2)] k(1) by blast
    from put [OF m(2) this] m show ?thesis by auto
  qed
  moreover have "distinct (Children n) \<and> (Type n = InodeTypeFile \<longrightarrow> Children n = [])" if "mget J g = Some n" for g n
    using get [OF that] tree_okD(5,6) [OF ok] by (metis distinct_filter filter.simps(1))
  moreover have "\<exists>rank. \<forall>g n p. mget J g = Some n \<and> Parent n = Some p \<and> p \<noteq> g \<longrightarrow> (rank p :: nat) < rank g"
  proof -
    from ok obtain rank :: "fid \<Rightarrow> nat" where
      r: "\<forall>g n p. mget I g = Some n \<and> Parent n = Some p \<and> p \<noteq> g \<longrightarrow> rank p < rank g"
      unfolding tree_ok_def by blast
    have "rank p < rank g" if "mget J g = Some n" "Parent n = Some p" "p \<noteq> g" for g n p
      using get [OF that(1)] that r by metis
    then show ?thesis by blast
  qed
  ultimately show ?thesis using J unfolding tree_ok_def by blast
qed

section \<open>DeleteFile\<close>

lemma size_eq_deduct: "size_eq I (deduct_sizes d chain I)"
proof (induction chain arbitrary: I)
  case (Cons f chain)
  let ?h = "\<lambda>m :: inode. m\<lparr>Size := (if Size m \<ge> d then Size m - d else 0)\<rparr>"
  have "size_eq I (upd_inode f ?h I)" by (auto simp: size_eq_def option.map_comp comp_def)
  with Cons [of "upd_inode f ?h I"] show ?case by (auto simp: deduct_sizes_def intro: size_eq_trans)
qed (simp add: deduct_sizes_def)

lemma gomap_ok_deduct: "gomap_ok I \<Longrightarrow> gomap_ok (deduct_sizes d chain I)"
  by (induction chain arbitrary: I) (simp_all add: deduct_sizes_def)

lemma fold_forget:
  "fs_inodes (fold forget_inode vs s) = mdel_all (map fst vs) (fs_inodes s)"
  "rootDir (fold forget_inode vs s) = rootDir s" "fs_Shared (fold forget_inode vs s) = fs_Shared s"
  by (induction vs arbitrary: s) (auto simp: forget_inode_def mdel_all_def split: prod.split)

lemma save_index_kept [simp, kept_fields]:
  "fs_inodes (save_index env s) = fs_inodes s" "rootDir (save_index env s) = rootDir s"
  "fs_Shared (save_index env s) = fs_Shared s" "fs_users (save_index env s) = fs_users s"
  "trashMeta (save_index env s) = trashMeta s" "msAddr (save_index env s) = msAddr s" "ms_log (save_index env s) = ms_log s"
  "serverID (save_index env s) = serverID s" "inodeStore (save_index env s) = inodeStore s" "quotas (save_index env s) = quotas s"
  by (simp_all add: save_index_def)

lemma detach_deleted_kept [simp]: "fs_inodes (detach_deleted env snaps s) = fs_inodes s"
  by (simp add: detach_deleted_def)

lemma notify_all_kept [simp]:
  "fs_inodes (fold (\<lambda>(p, us). fold (\<lambda>u. RootUnshareRPC w (Base p) p u) us) snaps s) = fs_inodes s"
proof (induction snaps arbitrary: s)
  case (Cons a snaps)
  have "fs_inodes (fold (\<lambda>u. RootUnshareRPC w b p u) us t) = fs_inodes t" for b p us t
    by (induction us arbitrary: t) (simp_all add: RootUnshareRPC_def)
  with Cons show ?case by (cases a) simp
qed simp

lemma forget_subtree_inodes:
  "fs_inodes (forget_subtree env n w ups doomed s) = removeFromParent n (mdel_all doomed
     (if Size n > 0 then deduct_sizes (Size n) ups (fs_inodes s) else fs_inodes s))"
proof -
  have "map fst (map (\<lambda>f. (f, the (mget (fs_inodes s) f))) doomed) = doomed" by (simp add: comp_def)
  then show ?thesis by (simp add: forget_subtree_def Let_def fold_forget split: if_split)
qed

lemma removeFromParent_mget:
  assumes ok: "tree_ok I" and f: "mget I f = Some n"
    and J: "gomap_ok J" "\<And>g. mget J g = (if below_in I f g then None else mget I' g)" and I': "size_eq I I'"
    and n': "FID n' = f" "Parent n' = Parent n"
  shows "mget (removeFromParent n' J) g = (if below_in I f g then None else map_option (unlinked f) (mget I' g))"
    and "gomap_ok (removeFromParent n' J)"
proof -
  from tree_okD(3) [OF ok f] obtain p m where p: "Parent n = Some p" "mget I p = Some m" "p \<noteq> f \<longrightarrow> f \<in> set (Children m)" by blast
  have lone: "unlinked f k' = k'" if "h \<noteq> p \<or> p = f" "mget I' h = Some k'" for h k'
  proof (rule unlinked_other)
    from size_eqD [OF size_eq_sym [OF I'] that(2)] obtain k where k: "mget I h = Some k" "k'\<lparr>Size := 0\<rparr> = k\<lparr>Size := 0\<rparr>" .
    show "f \<notin> set (Children k')"
    proof
      assume "f \<in> set (Children k')"
      then have "f \<in> set (Children k)" using erase_size_fields(4) [OF k(2)] by simp
      from tree_okD(4) [OF ok k(1) this] f p(1) that(1) show False by auto
    qed
  qed
  have "mget (removeFromParent n' J) g = (if below_in I f g then None else map_option (unlinked f) (mget I' g))
      \<and> gomap_ok (removeFromParent n' J)"
  proof (cases "p = f")
    case True
    with p(1) n' have "removeFromParent n' J = J" by (simp add: removeFromParent_def Let_def)
    with J lone True show ?thesis by (cases "mget I' g") auto
  next
    case False
    with p(3) have child: "f \<in> set (Children m)" by blast
    have "\<not> below_in I f p" by (rule child_not_above [OF ok p(2) child])
    moreover from size_eqD [OF I' p(2)] obtain m' where m': "mget I' p = Some m'" "m\<lparr>Size := 0\<rparr> = m'\<lparr>Size := 0\<rparr>" .
    ultimately have Jp: "mget J p = Some m'" using J(2) by simp
    have "f \<in> set (Children m')" using child erase_size_fields(4) [OF m'(2)] by simp
    then have rp: "removeFromParent n' J = mput p (unlinked f m') J"
      using p(1) n' False Jp by (simp add: removeFromParent_def Let_def unlinked_def)
    show ?thesis
    proof (cases "g = p")
      case True
      with rp m' J(1) \<open>\<not> below_in I f p\<close> show ?thesis by simp
    next
      case False
      with rp J lone [of g] show ?thesis by (cases "mget I' g") auto
    qed
  qed
  then show "mget (removeFromParent n' J) g = (if below_in I f g then None else map_option (unlinked f) (mget I' g))"
    and "gomap_ok (removeFromParent n' J)" by simp_all
qed

lemma tree_ok_deleted:
  assumes ok: "tree_ok I" and gok: "gomap_ok J" and I': "size_eq I I'"
    and J: "\<And>g. mget J g = (if below_in I f g then None else map_option (unlinked f) (mget I' g))"
  shows "tree_ok J"
proof (rule tree_ok_cut [OF ok gok])
  show "shape J g = (if below_in I f g then None else shape (mmap (unlinked f) I) g)" for g
    using fun_cong [OF size_eq_shape [OF I'], of g] J [of g]
    by (cases "mget I' g"; cases "mget I g") (auto simp: shape_def)
qed

text \<open>A deletion that succeeds has walked the whole subtree and forgets exactly that.\<close>

lemma DeleteFile_doomedE:
  assumes ok: "tree_ok (fs_inodes s)" and del: "DeleteFile env (Some f) u r s = (None, s')"
  obtains s1 n ups doomed d where "GetInode env f s = (Some n, s1)" "set doomed = {g. below_in (fs_inodes s) f g}"
    "s' = forget_subtree env n u ups doomed (s1\<lparr>fs_disk := d\<rparr>)" "\<not> is_user_root f u s1"
    "validateDeletePermissions (fuel (fs_inodes s1)) (fs_inodes s1) u r f = None"
proof -
  obtain fo s1 where gi: "GetInode env f s = (fo, s1)" by fastforce
  from GetInode_size_eq [OF gi] obtain J where J: "s1 = s\<lparr>fs_inodes := J\<rparr>" "size_eq (fs_inodes s) J" "fo = mget J f" by metis
  have okJ: "tree_ok J"
    using tree_ok_shape [OF ok _ size_eq_shape [OF J(2)]] GetInode_ok [OF gi tree_okD(1) [OF ok]] J(1) by simp
  have bel: "below_in J = below_in (fs_inodes s)" by (rule below_in_shape [OF size_eq_shape [OF J(2)]])
  from del gi obtain n where n: "mget J f = Some n" using J(3) by (cases "mget J f") (auto simp: DeleteFile_def)
  have sel: "fs_inodes s1 = J" "fs_disk s1 = fs_disk s" using J(1) by simp_all
  note del' = del [unfolded DeleteFile_def option.case gi J(3) n prod.case Let_def sel]
  have guards: "\<not> is_user_root f u s1" "\<not> isTrashDirForUser n u s1" using del' by (auto split: if_splits)
  have val: "validateDeletePermissions (fuel J) J u r f = None"
    using del' guards by (cases "validateDeletePermissions (fuel J) J u r f") auto
  from dfs_post_returns [OF okJ] obtain zs where zs: "dfs_post (fuel J) J f = Some zs" by blast
  define inner where "inner = (if Type n = InodeTypeDirectory \<and> Children n \<noteq> [] then zs else [])"
  have inner: "set (inner @ [f]) = {g. below_in (fs_inodes s) f g}"
  proof (cases "Type n = InodeTypeDirectory \<and> Children n \<noteq> []")
    case True
    with dfs_post_spec [OF okJ n zs] below_refl [OF n] bel show ?thesis by (auto simp: inner_def)
  next
    case False
    then have "Children n = []" using tree_okD(6) [OF okJ n] by (cases "Type n") auto
    with below_unfold [OF n] bel False show ?thesis by (simp add: inner_def)
  qed
  from walks_return(1) [OF okJ] obtain chain where chain: "up_chain (fuel J) J f = Some chain" by blast
  obtain b d where rm: "remove_each env (map (\<lambda>g. OSPath (the (mget J g))) (inner @ [f])) (fs_disk s) = (b, d)" by fastforce
  have coll: "(if Type n = InodeTypeDirectory \<and> Children n \<noteq> [] then collectInodesToDelete f J else Some []) = Some inner"
    by (simp add: collectInodesToDelete_def zs inner_def)
  have s': "s' = forget_subtree env n u (tl chain) (inner @ [f]) (s1\<lparr>fs_disk := d\<rparr>)"
    using del' [unfolded coll] guards val chain rm by (cases b) simp_all
  show thesis by (rule that [OF _ inner s' guards(1)]) (simp_all add: gi J(3) n sel val)
qed

lemma DeleteFile_okE:
  assumes ok: "tree_ok (fs_inodes s)" and del: "DeleteFile env (Some f) u r s = (None, s')"
  obtains n I' where "mget (fs_inodes s) f = Some n" "size_eq (fs_inodes s) I'" "gomap_ok (fs_inodes s')"
    "\<And>g. mget (fs_inodes s') g = (if below_in (fs_inodes s) f g then None else map_option (unlinked f) (mget I' g))"
    "\<And>g m. below_in (fs_inodes s) f g \<Longrightarrow> mget (fs_inodes s) g = Some m \<Longrightarrow> Owner (ACL m) = u"
proof -
  obtain s1 n ups doomed d where gi: "GetInode env f s = (Some n, s1)" and doomed: "set doomed = {g. below_in (fs_inodes s) f g}"
    and s': "s' = forget_subtree env n u ups doomed (s1\<lparr>fs_disk := d\<rparr>)"
    and val: "validateDeletePermissions (fuel (fs_inodes s1)) (fs_inodes s1) u r f = None"
    by (rule DeleteFile_doomedE [OF ok del])
  from GetInode_size_eq [OF gi] obtain J where J: "s1 = s\<lparr>fs_inodes := J\<rparr>" "size_eq (fs_inodes s) J" "mget J f = Some n" by metis
  have okJ: "tree_ok J"
    using tree_ok_shape [OF ok _ size_eq_shape [OF J(2)]] GetInode_ok [OF gi tree_okD(1) [OF ok]] J(1) by simp
  have bel: "below_in J = below_in (fs_inodes s)" by (rule below_in_shape [OF size_eq_shape [OF J(2)]])
  define I' where "I' = (if Size n > 0 then deduct_sizes (Size n) ups J else J)"
  have I': "size_eq (fs_inodes s) I'" "gomap_ok I'"
    using size_eq_deduct J(2) size_eq_trans gomap_ok_deduct tree_okD(1) [OF okJ] by (auto simp: I'_def)
  have f: "FID n = f" by (rule tree_okD(2) [OF okJ J(3)])
  from size_eqD [OF size_eq_sym [OF J(2)] J(3)] obtain n0 where n0: "mget (fs_inodes s) f = Some n0" "n\<lparr>Size := 0\<rparr> = n0\<lparr>Size := 0\<rparr>" .
  have inodes: "fs_inodes s' = removeFromParent n (mdel_all doomed I')"
    by (simp add: s' forget_subtree_inodes I'_def J(1))
  have "mget (mdel_all doomed I') g = (if below_in (fs_inodes s) f g then None else mget I' g)" for g
    by (simp only: mget_mdel_all doomed mem_Collect_eq)
  from removeFromParent_mget [OF ok n0(1) _ this I'(1) f erase_size_fields(5) [OF n0(2)]] I'(2) inodes
  have "mget (fs_inodes s') g = (if below_in (fs_inodes s) f g then None else map_option (unlinked f) (mget I' g))"
    "gomap_ok (fs_inodes s')" for g by simp_all
  moreover have "Owner (ACL m) = u" if "below_in (fs_inodes s) f g" "mget (fs_inodes s) g = Some m" for g m
  proof -
    from size_eqD [OF J(2) that(2)] obtain m' where m': "mget J g = Some m'" "m\<lparr>Size := 0\<rparr> = m'\<lparr>Size := 0\<rparr>" .
    from validate_owned [OF okJ _ _ m'(1)] val J(1) that(1) bel erase_size_fields(6) [OF m'(2)] show ?thesis by simp
  qed
  ultimately show thesis using that n0(1) I'(1) by blast
qed

text \<open>C17. A deletion that succeeds removes the inode and everything below it, all of which the user owns,
  and nothing else: every other inode keeps its type, name, path, access list and links, except that the
  parent no longer lists the deleted inode and directory sizes shrink. The tree stays well-formed.\<close>

theorem delete_removes_exactly_the_subtree:
  assumes ok: "tree_ok (fs_inodes s)" and del: "DeleteFile env (Some f) u r s = (None, s')"
  shows "tree_ok (fs_inodes s')
      \<and> (\<forall>g m. mget (fs_inodes s) g = Some m \<and> below_in (fs_inodes s) f g \<longrightarrow>
             mget (fs_inodes s') g = None \<and> Owner (ACL m) = u)
      \<and> (\<forall>g m. mget (fs_inodes s) g = Some m \<and> \<not> below_in (fs_inodes s) f g \<longrightarrow>
             (\<exists>m'. mget (fs_inodes s') g = Some m' \<and> m'\<lparr>Size := 0\<rparr> = (unlinked f m)\<lparr>Size := 0\<rparr>))"
proof -
  obtain n I' where n: "mget (fs_inodes s) f = Some n" and I': "size_eq (fs_inodes s) I'" and gok: "gomap_ok (fs_inodes s')"
    and J: "\<And>g. mget (fs_inodes s') g = (if below_in (fs_inodes s) f g then None else map_option (unlinked f) (mget I' g))"
    and own: "\<And>g m. below_in (fs_inodes s) f g \<Longrightarrow> mget (fs_inodes s) g = Some m \<Longrightarrow> Owner (ACL m) = u"
    by (rule DeleteFile_okE [OF ok del]) blast
  have other: "\<exists>m'. mget (fs_inodes s') g = Some m' \<and> m'\<lparr>Size := 0\<rparr> = (unlinked f m)\<lparr>Size := 0\<rparr>"
    if "mget (fs_inodes s) g = Some m" "\<not> below_in (fs_inodes s) f g" for g m
  proof -
    from size_eqD [OF I' that(1)] obtain k where k: "mget I' g = Some k" "m\<lparr>Size := 0\<rparr> = k\<lparr>Size := 0\<rparr>" .
    have "(unlinked f k)\<lparr>Size := 0\<rparr> = (unlinked f (k\<lparr>Size := 0\<rparr>))" "(unlinked f m)\<lparr>Size := 0\<rparr> = (unlinked f (m\<lparr>Size := 0\<rparr>))"
      by (simp_all add: unlinked_def)
    with k J [of g] that(2) show ?thesis by auto
  qed
  have "tree_ok (fs_inodes s')" by (rule tree_ok_deleted [OF ok gok I' J])
  with J own other show ?thesis by auto
qed

theorem delete_removes_exactly_the_subtree_witness:
  "mget (fs_inodes (snd (DeleteFile demo_env (Some (dfid 3)) ''u'' True demo))) (dfid 4) = None"
proof -
  have fuel: "fuel demo_inodes = Suc (Suc (Suc (Suc (Suc (Suc 0)))))" by (simp add: fuel_def demo_inodes_def)
  have "fst (DeleteFile demo_env (Some (dfid 3)) ''u'' True demo) = None"
    by (simp add: DeleteFile_def GetInode_def demo_mget is_user_root_def isTrashDirForUser_def trashDirName_def Let_def
        fuel collectInodesToDelete_def os_RemoveAll_def)
  then have "DeleteFile demo_env (Some (dfid 3)) ''u'' True demo = (None, snd (DeleteFile demo_env (Some (dfid 3)) ''u'' True demo))"
    by (metis prod.collapse)
  moreover have "below_in demo_inodes (dfid 3) (dfid 4)"
    by (rule below_child [OF demo_mget(4) _ demo_mget(5)]) simp
  ultimately show ?thesis using delete_removes_exactly_the_subtree [OF demo_root(3)] by (simp add: demo_mget)
qed

text \<open>A deletion that is refused leaves the inode table as it was (up to the refreshed size of a
  file), and the disk too unless a removal on disk failed half way; and neither the validation nor the
  collection nor the size loop can run forever.\<close>

theorem refused_delete_changes_nothing:
  assumes ok: "tree_ok (fs_inodes s)" and del: "DeleteFile env (Some f) u r s = (Some e, s')"
  shows "e \<noteq> Diverges \<and> e \<noteq> Panics \<and> size_eq (fs_inodes s) (fs_inodes s')
      \<and> fs_Shared s' = fs_Shared s \<and> (e = Os DeleteFailed \<or> fs_disk s' = fs_disk s)"
proof -
  obtain fo s1 where gi: "GetInode env f s = (fo, s1)" by fastforce
  from GetInode_size_eq [OF gi] obtain J where J: "s1 = s\<lparr>fs_inodes := J\<rparr>" "size_eq (fs_inodes s) J" "fo = mget J f" by metis
  have okJ: "tree_ok J"
    using tree_ok_shape [OF ok _ size_eq_shape [OF J(2)]] GetInode_ok [OF gi tree_okD(1) [OF ok]] J(1) by simp
  have sel: "fs_inodes s1 = J" "fs_disk s1 = fs_disk s" "fs_Shared s1 = fs_Shared s" using J(1) by simp_all
  show ?thesis
  proof (cases "mget J f")
    case None
    with del gi J(3) have "e = Lookup FileNotFound" "s' = s1" by (auto simp: DeleteFile_def)
    then show ?thesis using J(2) sel by simp
  next
    case (Some n)
    note del' = del [unfolded DeleteFile_def option.case gi J(3) Some prod.case Let_def sel]
    from dfs_post_returns [OF okJ] obtain zs where zs: "dfs_post (fuel J) J f = Some zs" by blast
    from walks_return(1) [OF okJ] obtain chain where chain: "up_chain (fuel J) J f = Some chain" by blast
    have coll: "\<exists>xs. (if Type n = InodeTypeDirectory \<and> Children n \<noteq> [] then collectInodesToDelete f J else Some []) = Some xs"
      by (simp add: collectInodesToDelete_def zs)
    then obtain xs where xs: "(if Type n = InodeTypeDirectory \<and> Children n \<noteq> [] then collectInodesToDelete f J else Some []) = Some xs" ..
    obtain b d where rm: "remove_each env (map (\<lambda>g. OSPath (the (mget J g))) (xs @ [f])) (fs_disk s) = (b, d)" by fastforce
    have "s' = s1 \<and> e \<noteq> Diverges \<and> e \<noteq> Panics \<or> e = Os DeleteFailed \<and> s' = s1\<lparr>fs_disk := d\<rparr>"
      using del' [unfolded xs option.case rm prod.case chain] validate_returns [OF okJ, of u r f]
      by (auto split: if_splits option.splits bool.splits)
    then show ?thesis using J(2) sel by auto
  qed
qed

theorem refused_delete_changes_nothing_witness:
  "size_eq (fs_inodes demo) (fs_inodes (snd (DeleteFile demo_env (Some (dfid 3)) ''u'' False demo)))"
proof -
  have fuel: "fuel demo_inodes = Suc (Suc (Suc (Suc (Suc (Suc 0)))))" by (simp add: fuel_def demo_inodes_def)
  have "fst (DeleteFile demo_env (Some (dfid 3)) ''u'' False demo) = Some (Refused DirectoryNotEmpty)"
    by (simp add: DeleteFile_def GetInode_def demo_mget is_user_root_def isTrashDirForUser_def trashDirName_def Let_def fuel)
  then have "DeleteFile demo_env (Some (dfid 3)) ''u'' False demo
      = (Some (Refused DirectoryNotEmpty), snd (DeleteFile demo_env (Some (dfid 3)) ''u'' False demo))"
    by (metis prod.collapse)
  from refused_delete_changes_nothing [OF demo_root(3) this] show ?thesis by blast
qed

end
