(* ===== verification/File_Access.thy ===== *)
theory File_Access
  imports File_Deletion
begin

text \<open>
  Requests end to end: what the interceptor lets through, as whom the handlers act, and where the checks
  have gaps.
\<close>

section \<open>The interceptors\<close>






section \<open>Deleting on behalf of a session\<close>





section \<open>Gaps\<close>

text \<open>A defect in the protection of quotas. The interceptor passes every \<open>SetQuota\<close> call that
  carries an administrator header on to the handler, which is meant to verify it; the handler refuses
  only callers that have a session. So with any wrong password and no session, anyone can set any
  user's quota: the call is carried out exactly as an administrator's.\<close>

theorem set_quota_needs_no_authentication:
  assumes call: "rc_method call = ''/fileserver.FileServer/SetQuota''" "rc_password call \<noteq> []"
    and wrong: "\<not> admin_by_password sha passwordHash (call_ctx call None)"
    and args: "username \<noteq> []" "quotaBytes \<noteq> 0"
  shows "GetServerAuthInterceptor H verify legacy now (Some call) st = (Proceed None, st)
    \<and> mget (quotas (snd (SetQuota env sha passwordHash (call_ctx call None) username quotaBytes s))) username = Some quotaBytes"
proof -
  have "quotas (snd (saveQuotasLocked env t)) = quotas t" for t
    by (auto simp: saveQuotasLocked_def Let_def split: prod.split bool.split)
  then have "quotas (snd (SetUserQuota env username quotaBytes s)) = mput username quotaBytes (quotas s)"
    using args by (simp add: SetUserQuota_def)
  moreover have "snd (SetQuota env sha passwordHash (call_ctx call None) username quotaBytes s) = snd (SetUserQuota env username quotaBytes s)"
    using args wrong by (simp add: SetQuota_def Let_def UsernameFromContext_def call_ctx_def split: prod.split option.split)
  ultimately show ?thesis using call by (simp add: GetServerAuthInterceptor_def)
qed

definition forged_call :: rpc_call where
  "forged_call = \<lparr>rc_method = ''/fileserver.FileServer/SetQuota'', rc_authorization = [], rc_password_hash = [],
     rc_password = [''guess''], rc_peer = [], rc_expectedUser = []\<rparr>"

theorem set_quota_needs_no_authentication_witness:
  "mget (quotas (snd (SetQuota demo_env (\<lambda>_. ''x'') ''secret'' (call_ctx forged_call None) ''u'' 1 demo))) ''u'' = Some 1"
proof -
  have "TrimSpace (ToLower ''secret'') = ''secret''" by code_simp
  then have "\<not> admin_by_password (\<lambda>_. ''x'') ''secret'' (call_ctx forged_call None)"
    by (simp add: admin_by_password_def forged_call_def call_ctx_def Let_def)
  from set_quota_needs_no_authentication [OF _ _ this, of "''u''" 1 _ _ _ _ _ demo_env demo] show ?thesis
    by (simp add: forged_call_def)
qed

end
