(* ===== verification/File_Scanner.thy ===== *)
theory File_Scanner
  imports File_Server
begin

text \<open>
  Start-up of a fileserver: the scan of the data directory (\<^verbatim>\<open>internal/fileserver/filescanner.go\<close>)
  and \<^verbatim>\<open>NewFileServer\<close>. The breadth-first loop of \<open>scanUserDirectory\<close> visits each directory of
  the disk once, so the number of disk entries is enough fuel.
\<close>

definition acl_or_default :: "fs_env \<Rightarrow> string \<Rightarrow> string \<Rightarrow> file_server \<Rightarrow> acl" where
  "acl_or_default env username path s =
     (case LoadACL env username path s of Inl _ \<Rightarrow> default_acl username | Inr a \<Rightarrow> a)"

text \<open>One entry of a directory: its inode, and its place in the queue when it is a directory.\<close>

definition scan_entry ::
  "fs_env \<Rightarrow> string \<Rightarrow> string \<Rightarrow> fid \<Rightarrow> string \<times> dnode \<Rightarrow> file_server
   \<Rightarrow> fs_error + ((string \<times> fid) list \<times> file_server)" where
  "scan_entry env username dirPath parentFID entry s =
     (case entry of (name, node) \<Rightarrow>
        if name = aclFileName then Inr ([], s)
        else
          (let itemPath = Join [dirPath, name] in
           case Rel (rootDir s) itemPath of
             None \<Rightarrow> Inl (Os ScanFailed)
           | Some relPath \<Rightarrow>
               (case assign_id relPath s of
                  (i, s1) \<Rightarrow>
                    (let newFID = new_fid i s1;
                         isDir = (node = DDir);
                         newInode = \<lparr>FID = newFID,
                           Type = (if isDir then InodeTypeDirectory else InodeTypeFile), Name = name,
                           OSPath = itemPath, ACL = acl_or_default env username relPath s1, Children = [],
                           Size = (if isDir then 0
                                   else (case os_stat_size (env_err env) (json_enc env) itemPath (fs_disk s1) of
                                           Some z \<Rightarrow> z | None \<Rightarrow> 0)),
                           Parent = Some parentFID\<rparr>;
                         I = upd_inode parentFID (\<lambda>m. m\<lparr>Children := Children m @ [newFID]\<rparr>)
                               (mput newFID newInode (fs_inodes s1))
                     in Inr (if isDir then [(itemPath, newFID)] else [], s1\<lparr>fs_inodes := I\<rparr>)))))"

fun scan_entries ::
  "fs_env \<Rightarrow> string \<Rightarrow> string \<Rightarrow> fid \<Rightarrow> (string \<times> dnode) list \<Rightarrow> file_server
   \<Rightarrow> fs_error + ((string \<times> fid) list \<times> file_server)" where
  "scan_entries env username dirPath parentFID [] s = Inr ([], s)"
| "scan_entries env username dirPath parentFID (e # es) s =
     (case scan_entry env username dirPath parentFID e s of
        Inl err \<Rightarrow> Inl err
      | Inr (q, s1) \<Rightarrow>
          (case scan_entries env username dirPath parentFID es s1 of
             Inl err \<Rightarrow> Inl err
           | Inr (q', s2) \<Rightarrow> Inr (q @ q', s2)))"

fun scan_queue :: "nat \<Rightarrow> fs_env \<Rightarrow> string \<Rightarrow> (string \<times> fid) list \<Rightarrow> file_server \<Rightarrow> fs_error + file_server" where
  "scan_queue k env username [] s = Inr s"
| "scan_queue 0 env username (x # queue) s = Inl Diverges"
| "scan_queue (Suc k) env username ((dirPath, parentFID) # queue) s =
     (case os_ReadDir (env_err env) dirPath (fs_disk s) of
        None \<Rightarrow> Inl (Os ScanFailed)
      | Some entries \<Rightarrow>
          (case scan_entries env username dirPath parentFID entries s of
             Inl e \<Rightarrow> Inl e
           | Inr (q, s1) \<Rightarrow> scan_queue k env username (queue @ q) s1))"

definition scanUserDirectory :: "fs_env \<Rightarrow> string \<Rightarrow> string \<Rightarrow> fid \<Rightarrow> file_server \<Rightarrow> fs_error + file_server" where
  "scanUserDirectory env username userDir parentFID s =
     scan_queue (length (fs_disk s)) env username [(userDir, parentFID)] s"

text \<open>The directory sizes from the leaves up; the children are summed in order.\<close>

fun sum_children :: "(inodes \<Rightarrow> fid \<Rightarrow> fs_error + (u64 \<times> inodes)) \<Rightarrow> fid list \<Rightarrow> u64 \<Rightarrow> inodes \<Rightarrow> fs_error + (u64 \<times> inodes)" where
  "sum_children calc [] totalSize I = Inr (totalSize, I)"
| "sum_children calc (c # cs) totalSize I =
     (case calc I c of
        Inl e \<Rightarrow> Inl e
      | Inr (z, J) \<Rightarrow> sum_children calc cs (totalSize + z) J)"

fun calculateSize :: "nat \<Rightarrow> inodes \<Rightarrow> fid \<Rightarrow> fs_error + (u64 \<times> inodes)" where
  "calculateSize 0 I f = Inl Diverges"
| "calculateSize (Suc k) I f =
     (case mget I f of
        None \<Rightarrow> Inl (Lookup ChildInodeMissing)
      | Some n \<Rightarrow>
          if Type n = InodeTypeFile then Inr (Size n, I)
          else (case sum_children (calculateSize k) (Children n) 0 I of
                  Inl e \<Rightarrow> Inl e
                | Inr (totalSize, J) \<Rightarrow> Inr (totalSize, upd_inode f (\<lambda>m. m\<lparr>Size := totalSize\<rparr>) J)))"

definition calculateDirectorySizes :: "fid \<Rightarrow> inodes \<Rightarrow> fs_error + (u64 \<times> inodes)" where
  "calculateDirectorySizes rootFID I = calculateSize (fuel I) I rootFID"

definition scan_user :: "fs_env \<Rightarrow> string \<Rightarrow> file_server \<Rightarrow> fs_error + file_server" where
  "scan_user env username s =
     (let userDir = Join [rootDir s, username];
          a = acl_or_default env username username s in
      case assign_id username s of
        (i, s1) \<Rightarrow>
          (let userRootFID = new_fid i s1;
               rootInode = \<lparr>FID = userRootFID, Type = InodeTypeDirectory, Name = username, OSPath = userDir,
                 ACL = a, Children = [], Size = 0, Parent = Some userRootFID\<rparr>;
               s2 = s1\<lparr>fs_users := mput username userRootFID (fs_users s1),
                       fs_inodes := mput userRootFID rootInode (fs_inodes s1)\<rparr>
           in case scanUserDirectory env username userDir userRootFID s2 of
                Inl e \<Rightarrow> Inl e
              | Inr s3 \<Rightarrow>
                  (case calculateDirectorySizes userRootFID (fs_inodes s3) of
                     Inl e \<Rightarrow> Inl e
                   | Inr (_, I) \<Rightarrow> Inr (s3\<lparr>fs_inodes := I\<rparr>))))"

fun scan_users :: "fs_env \<Rightarrow> (string \<times> dnode) list \<Rightarrow> file_server \<Rightarrow> fs_error + file_server" where
  "scan_users env [] s = Inr s"
| "scan_users env ((name, node) # es) s =
     (if node \<noteq> DDir \<or> HasPrefix name ''.'' then scan_users env es s
      else (case scan_user env name s of Inl e \<Rightarrow> Inl e | Inr s1 \<Rightarrow> scan_users env es s1))"

definition loadExistingData :: "fs_env \<Rightarrow> file_server \<Rightarrow> fs_error + file_server" where
  "loadExistingData env s =
     (case os_ReadDir (env_err env) (rootDir s) (fs_disk s) of
        None \<Rightarrow> Inl (Os ScanFailed)
      | Some entries \<Rightarrow>
          (case scan_users env entries s of
             Inl e \<Rightarrow> Inl e
           | Inr s1 \<Rightarrow> Inr (save_index env (s1\<lparr>fs_nextInodeID := store_NextInodeID (inodeStore s1)\<rparr>))))"

definition blank_server :: "string \<Rightarrow> string \<Rightarrow> string \<Rightarrow> disk \<Rightarrow> file_server" where
  "blank_server sid root ms d =
     \<lparr>serverID = sid, rootDir = root, fs_inodes = [], fs_users = [], fs_nextInodeID = 0, trashMeta = [],
      msAddr = ms, fs_Shared = [], cb_sessions = [], sessionStore = NewStore DefaultIdleTTL, quotas = [],
      inodeStore = \<lparr>store_rootDir = root, store_indexPath = Join [root, inodeIndexFilename],
                    store_data = \<lparr>NextInodeID = 0, PathToID = []\<rparr>\<rparr>,
      fs_disk = d, ms_log = []\<rparr>"

definition NewFileServer :: "fs_env \<Rightarrow> string \<Rightarrow> string \<Rightarrow> string \<Rightarrow> disk \<Rightarrow> fs_error + file_server" where
  "NewFileServer env sid root ms d =
     (let s = snd (loadQuotas env (blank_server sid root ms d)) in
      case os_MkdirAll (env_err env) root (fs_disk s) of
        (False, _) \<Rightarrow> Inl (Os RootDirFailed)
      | (True, d1) \<Rightarrow>
          (case NewInodeStore (env_err env) d1 root of
             Inl _ \<Rightarrow> Inl (Kept IndexFile ReadFault)
           | Inr st \<Rightarrow>
               (case loadExistingData env (s\<lparr>fs_disk := d1, inodeStore := st, fs_nextInodeID := store_NextInodeID st\<rparr>) of
                  Inl e \<Rightarrow> Inl e
                | Inr s1 \<Rightarrow>
                    (case LoadDirShares env s1 of
                       (None, s2) \<Rightarrow> Inr s2
                     | (Some _, s2) \<Rightarrow> Inr (s2\<lparr>fs_Shared := []\<rparr>)))))"

end
