(* ===== verification/File_Durability.thy ===== *)
theory File_Durability
  imports File_Access File_Scanner
begin

text \<open>
  What a fileserver keeps in files of its own: the access control lists, the list of shared
  directories and the quotas. The three share one discipline, a temporary file renamed over the old
  one, and so one interface: a save that is acknowledged can be read back, and one that fails leaves the
  old document where it was.
\<close>

section \<open>The interface\<close>

locale kept_document =
  fixes save :: "file_server \<Rightarrow> fs_error option \<times> file_server"
    and path :: "file_server \<Rightarrow> string"
    and doc :: "file_server \<Rightarrow> jdoc"
    and usable :: "file_server \<Rightarrow> bool"
  assumes frame: "save s = (r, s') \<Longrightarrow> s' = s\<lparr>fs_disk := fs_disk s'\<rparr>"
    and written: "save s = (None, s') \<Longrightarrow> usable s \<Longrightarrow> mget (fs_disk s') (path s) = Some (DFile (Json (doc s)))"
    and failed: "save s = (Some e, s') \<Longrightarrow> usable s \<Longrightarrow> mget (fs_disk s') (path s) = mget (fs_disk s) (path s)"
begin

lemma reads_back:
  assumes "save s = (None, s')" "usable s" "\<not> er (CReadFile (path s))"
  shows "os_ReadFile er (path s) (fs_disk s') = Got (Json (doc s))"
    and "\<not> os_stat_not_exist er (fs_disk s') (path s)"
  using written [OF assms(1,2)] assms(3) by (simp_all add: os_ReadFile_def os_stat_not_exist_def)

lemma all_or_nothing:
  assumes "usable s"
  shows "mget (fs_disk (snd (save s))) (path s) =
    (if fst (save s) = None then Some (DFile (Json (doc s))) else mget (fs_disk s) (path s))"
  using written [of s "snd (save s)"] failed [of s _ "snd (save s)"] assms
  by (cases "save s") auto

end

section \<open>The three files\<close>

lemma write_rename_doc_laws:
  assumes "write_rename_doc env p j d = ((w, r), d')"
  shows "w \<and> r \<Longrightarrow> mget d' p = Some (DFile (Json j))"
    and "\<not> (w \<and> r) \<Longrightarrow> mget d' p = mget d p"
proof -
  let ?tmp = "p @ ''.tmp''"
  obtain ok1 d1 where d1: "os_WriteFile (env_err env) ?tmp (Json j) d = (ok1, d1)" by fastforce
  obtain ok2 d2 where d2: "os_Rename (env_err env) ?tmp p d1 = (ok2, d2)" by fastforce
  show "mget d' p = Some (DFile (Json j))" if "w \<and> r"
  proof -
    from assms that d1 d2 have ok: "ok1" "ok2" "d' = d2"
      by (auto simp: write_rename_doc_def Let_def split: bool.splits)
    with os_Rename_target [of "env_err env" ?tmp p d1 d2] d2 os_WriteFile_read [of "env_err env" ?tmp "Json j" d d1] d1
    show ?thesis by simp
  qed
  show "mget d' p = mget d p" if "\<not> (w \<and> r)"
    using assms that d1 d2
    by (auto simp: write_rename_doc_def Let_def os_WriteFile_def os_Rename_def split: bool.splits if_splits)
qed

interpretation acl_file: kept_document "SaveACL env p a" "getACLPath p" "\<lambda>_. JAcl (Owner a) (Some (SharedWith a))" "\<lambda>_. True"
  for env p a
proof
  fix s r s'
  assume sv: "SaveACL env p a s = (r, s')"
  with SaveACL_disk [of env p a s] show "s' = s\<lparr>fs_disk := fs_disk s'\<rparr>" by auto
next
  fix s s'
  assume sv: "SaveACL env p a s = (None, s')"
  then have "write_rename_doc env (getACLPath p s) (JAcl (Owner a) (Some (SharedWith a))) (fs_disk s) = ((True, True), fs_disk s')"
    by (auto simp: SaveACL_def split: prod.splits bool.splits)
  from write_rename_doc_laws(1) [OF this]
  show "mget (fs_disk s') (getACLPath p s) = Some (DFile (Json (JAcl (Owner a) (Some (SharedWith a)))))" by simp
next
  fix s e s'
  assume sv: "SaveACL env p a s = (Some e, s')"
  then obtain w r where "write_rename_doc env (getACLPath p s) (JAcl (Owner a) (Some (SharedWith a))) (fs_disk s) = ((w, r), fs_disk s')"
    "\<not> (w \<and> r)"
    by (auto simp: SaveACL_def split: prod.splits bool.splits)
  from write_rename_doc_laws(2) [OF this]
  show "mget (fs_disk s') (getACLPath p s) = mget (fs_disk s) (getACLPath p s)" .
qed

interpretation shares_file: kept_document "SaveDirShares env" "\<lambda>s. Join [rootDir s, dirSharesFileName]" "\<lambda>s. JShares (Some (fs_Shared s))" "\<lambda>_. True"
  for env
proof
  fix s r s'
  assume sv: "SaveDirShares env s = (r, s')"
  with SaveDirShares_disk [of env s] show "s' = s\<lparr>fs_disk := fs_disk s'\<rparr>" by auto
next
  fix s s'
  assume sv: "SaveDirShares env s = (None, s')"
  then have "write_rename_doc env (Join [rootDir s, dirSharesFileName]) (JShares (Some (fs_Shared s))) (fs_disk s) = ((True, True), fs_disk s')"
    by (auto simp: SaveDirShares_def split: prod.splits bool.splits if_splits)
  from write_rename_doc_laws(1) [OF this]
  show "mget (fs_disk s') (Join [rootDir s, dirSharesFileName]) = Some (DFile (Json (JShares (Some (fs_Shared s)))))" by simp
next
  fix s e s'
  assume sv: "SaveDirShares env s = (Some e, s')"
  show "mget (fs_disk s') (Join [rootDir s, dirSharesFileName]) = mget (fs_disk s) (Join [rootDir s, dirSharesFileName])"
  proof (cases "rootDir s = []")
    case False
    with sv obtain w r where "write_rename_doc env (Join [rootDir s, dirSharesFileName]) (JShares (Some (fs_Shared s))) (fs_disk s) = ((w, r), fs_disk s')"
      "\<not> (w \<and> r)"
      by (auto simp: SaveDirShares_def split: prod.splits bool.splits)
    from write_rename_doc_laws(2) [OF this] show ?thesis .
  qed (use sv in \<open>simp add: SaveDirShares_def\<close>)
qed

interpretation quota_file: kept_document "saveQuotasLocked env" "\<lambda>s. Join [rootDir s, quotaConfigFile]" "\<lambda>s. JQuota (quotas s)"
  "\<lambda>s. env_tmp env \<noteq> Join [rootDir s, quotaConfigFile]"
  for env
proof
  fix s r s'
  assume "saveQuotasLocked env s = (r, s')"
  then show "s' = s\<lparr>fs_disk := fs_disk s'\<rparr>"
    by (auto simp: saveQuotasLocked_def Let_def split: prod.splits bool.splits if_splits)
next
  fix s s'
  assume tmp: "env_tmp env \<noteq> Join [rootDir s, quotaConfigFile]" and sv: "saveQuotasLocked env s = (None, s')"
  from sv obtain d1 where "os_WriteFile (env_err env) (env_tmp env) (Json (JQuota (quotas s))) (mput (env_tmp env) (DFile (Raw [])) (fs_disk s)) = (True, d1)"
    "os_Rename (env_err env) (env_tmp env) (Join [rootDir s, quotaConfigFile]) d1 = (True, fs_disk s')"
    by (auto simp: saveQuotasLocked_def Let_def split: prod.splits bool.splits if_splits)
  with tmp os_Rename_target os_WriteFile_read
  show "mget (fs_disk s') (Join [rootDir s, quotaConfigFile]) = Some (DFile (Json (JQuota (quotas s))))" by metis
next
  fix s e s'
  assume "env_tmp env \<noteq> Join [rootDir s, quotaConfigFile]" "saveQuotasLocked env s = (Some e, s')"
  then show "mget (fs_disk s') (Join [rootDir s, quotaConfigFile]) = mget (fs_disk s) (Join [rootDir s, quotaConfigFile])"
    by (auto simp: saveQuotasLocked_def Let_def os_WriteFile_def os_Rename_def split: prod.splits bool.splits if_splits)
qed


lemma demo_paths:
  "Join [''d'', dirSharesFileName] = ''d/fileserver_shares.json''" "Join [''d'', quotaConfigFile] = ''d/quota_config.json''"
  "dir_of ''d/t'' = ''d''" "dir_of ''d/quota_config.json'' = ''d''" "dir_of ''d/fileserver_shares.json'' = ''d''"
  "dir_of ''d/fileserver_shares.json.tmp'' = ''d''"
  by code_simp+


section \<open>Access control lists\<close>

text \<open>An access control list that \<open>SaveACL\<close> has acknowledged is the one \<open>LoadACL\<close> gives back, for every
  path and whatever user name is passed as the default owner.\<close>

theorem access_list_roundtrip:
  assumes save: "SaveACL env p a s = (None, s')" and read: "\<not> env_err env' (CReadFile (getACLPath p s))"
  shows "LoadACL env' username p s' = Inr a"
proof -
  have "rootDir s' = rootDir s" by (metis SaveACL_kept(2) save snd_conv)
  then have "getACLPath p s' = getACLPath p s" by (simp add: getACLPath_def)
  with acl_file.reads_back [OF save TrueI, where er = "env_err env'"] read show ?thesis
    by (simp add: LoadACL_def parse_json_def acl_of_doc_def)
qed

theorem access_list_roundtrip_witness:
  "LoadACL demo_env ''x'' ''u'' (snd (SaveACL demo_env ''u'' \<lparr>Owner = ''u'', SharedWith = [''v'']\<rparr> demo))
     = Inr \<lparr>Owner = ''u'', SharedWith = [''v'']\<rparr>"
proof -
  let ?r = "SaveACL demo_env ''u'' \<lparr>Owner = ''u'', SharedWith = [''v'']\<rparr> demo"
  have acl: "Join [''d'', ''u'', aclFileName] = ''d/u/.acl''" "dir_of ''d/u/.acl'' = ''d/u''" "dir_of ''d/u/.acl.tmp'' = ''d/u''"
    by code_simp+
  have "fst ?r = None"
    by (simp add: SaveACL_def write_rename_doc_def getACLPath_def acl is_dir_def demo_disk_def os_WriteFile_def os_Rename_def
        under_def HasPrefix_def Let_def)
  then have "?r = (None, snd ?r)" by (metis prod.collapse)
  from access_list_roundtrip [OF this, of demo_env] show ?thesis by simp
qed

section \<open>Restarts\<close>

text \<open>The files in the root directory have paths with a common prefix, and so different names mean
  different paths.\<close>

lemma Join_file: "\<exists>P. \<forall>x. plain x \<longrightarrow> Join [root, x] = P @ x"
proof (cases "root = []")
  case True
  have "Join [[], x] = [] @ x" if "plain x" for x
    using that Clean_render [of False "[x]"] by (auto simp: Join_def normal_plain render_def plain_def)
  with True show ?thesis by metis
next
  case False
  define cs where "cs = clean_comps (IsAbs root) (Split root)"
  have "Join [root, x] = render (IsAbs root) (cs @ [x])" if "plain x" for x
  proof -
    have "IsAbs (root @ slash # x) = IsAbs root" using False by (cases root) (auto simp: IsAbs_def HasPrefix_def)
    moreover have "Split (root @ slash # x) = Split root @ [x]"
      using that by (simp add: Split_def split_at_append_gen split_at_no_sep plain_def)
    ultimately show ?thesis
      using False that by (simp add: Join_def Clean_def cs_def clean_comps_def clean_step_def plain_def)
  qed
  moreover have "\<exists>P. \<forall>x. render r (cs @ [x]) = P @ x" for r
    by (cases "cs = []") (auto simp: render_def join_with_snoc)
  ultimately show ?thesis by metis
qed

text \<open>The scan reads the disk and assigns inode numbers; what concerns the kept files it leaves alone.\<close>

definition same_files :: "file_server \<Rightarrow> file_server \<Rightarrow> bool" where
  "same_files s t \<longleftrightarrow> quotas t = quotas s \<and> fs_disk t = fs_disk s \<and> rootDir t = rootDir s
     \<and> store_indexPath (inodeStore t) = store_indexPath (inodeStore s)"

lemma same_files_refl [simp]: "same_files s s"
  by (simp add: same_files_def)

lemma same_files_trans: "same_files s t \<Longrightarrow> same_files t u \<Longrightarrow> same_files s u"
  by (simp add: same_files_def)

lemma same_files_assign: "same_files s (snd (assign_id p s))"
  by (auto simp: assign_id_def GetOrAssign_def same_files_def Let_def split: prod.splits option.splits)

lemma same_files_entry: "scan_entry env u d f e s = Inr (q, t) \<Longrightarrow> same_files s t"
  using same_files_assign [of s]
  by (auto simp: scan_entry_def split_beta Let_def same_files_def split: option.splits if_splits)

lemma same_files_entries: "scan_entries env u d f es s = Inr (q, t) \<Longrightarrow> same_files s t"
  by (induction es arbitrary: s q)
     (auto split: sum.splits prod.splits dest!: same_files_entry intro: same_files_trans)

lemma same_files_queue: "scan_queue k env u queue s = Inr t \<Longrightarrow> same_files s t"
proof (induction k env u queue s rule: scan_queue.induct)
  case (3 k env u d f queue s)
  then show ?case
    by (auto split: sum.splits prod.splits option.splits dest: same_files_entries intro: same_files_trans)
qed simp_all

lemma same_files_user:
  assumes "scan_user env u s = Inr t" shows "same_files s t"
proof -
  obtain i s1 where s1: "assign_id u s = (i, s1)" by fastforce
  with assms obtain k q U J s3 I where q: "scan_queue k env u q (s1\<lparr>fs_users := U, fs_inodes := J\<rparr>) = Inr s3"
    and t: "t = s3\<lparr>fs_inodes := I\<rparr>"
    by (simp add: scan_user_def scanUserDirectory_def Let_def split: sum.splits prod.splits) blast
  from same_files_queue [OF q] t same_files_assign [of s u] s1 show ?thesis by (simp add: same_files_def)
qed

lemma same_files_users: "scan_users env es s = Inr t \<Longrightarrow> same_files s t"
  by (induction env es s rule: scan_users.induct)
     (auto split: sum.splits if_splits dest!: same_files_user intro: same_files_trans)

lemma mget_map_moved_other:
  assumes "q \<noteq> new" "\<not> under new q" "q \<noteq> old" "\<not> under old q"
  shows "mget (map (\<lambda>(p, n). (moved old new p, n)) d) q = mget d q"
proof -
  have eq: "moved old new p = q \<longleftrightarrow> p = q" "q = moved old new p \<longleftrightarrow> p = q" for p
    using assms by (auto simp: moved_def under_def HasPrefix_iff)
  show ?thesis by (induction d) (auto simp: eq)
qed

lemma store_Save_other:
  assumes "q \<noteq> store_indexPath st" "\<not> under (store_indexPath st) q"
    "q \<noteq> store_indexPath st @ ''.tmp''" "\<not> under (store_indexPath st @ ''.tmp'') q"
  shows "mget (snd (store_Save er d st)) q = mget d q"
  using assms by (auto simp: store_Save_def Let_def os_WriteFile_def os_Rename_def mget_map_moved_other)


lemma restart_steps:
  assumes "NewFileServer env sid root ms d = Inr t"
  obtains s1 where "quotas t = quotas (snd (loadQuotas env (blank_server sid root ms d)))"
    and "rootDir s1 = root" "fs_disk s1 = fs_disk t"
    and "fs_Shared t = (case LoadDirShares env s1 of (None, s2) \<Rightarrow> fs_Shared s2 | (Some _, s2) \<Rightarrow> [])"
    and "\<And>q c. mget d q = Some (DFile c) \<Longrightarrow> q \<noteq> Join [root, inodeIndexFilename] \<Longrightarrow> \<not> under (Join [root, inodeIndexFilename]) q
      \<Longrightarrow> q \<noteq> Join [root, inodeIndexFilename] @ ''.tmp'' \<Longrightarrow> \<not> under (Join [root, inodeIndexFilename] @ ''.tmp'') q
      \<Longrightarrow> mget (fs_disk s1) q = Some (DFile c)"
proof -
  let ?b = "blank_server sid root ms d" and ?idx = "Join [root, inodeIndexFilename]"
  have lq: "snd (loadQuotas env ?b) = ?b\<lparr>quotas := quotas (snd (loadQuotas env ?b))\<rparr>"
    by (auto simp: loadQuotas_def split: os_read.split option.split)
  have lsd: "fs_disk (snd (LoadDirShares env x)) = fs_disk x" "quotas (snd (LoadDirShares env x)) = quotas x" for x
    by (auto simp: LoadDirShares_def Let_def split: os_read.split option.split)
  have disk: "fs_disk (snd (loadQuotas env ?b)) = d" by (subst lq) (simp add: blank_server_def)
  from assms obtain d1 st s1 where d1: "os_MkdirAll (env_err env) root d = (True, d1)"
    and st: "NewInodeStore (env_err env) d1 root = Inr st"
    and s1: "loadExistingData env (snd (loadQuotas env ?b)\<lparr>fs_disk := d1, inodeStore := st, fs_nextInodeID := store_NextInodeID st\<rparr>) = Inr s1"
    and t: "t = (case LoadDirShares env s1 of (None, s2) \<Rightarrow> s2 | (Some _, s2) \<Rightarrow> s2\<lparr>fs_Shared := []\<rparr>)"
    by (auto simp: NewFileServer_def Let_def disk split: prod.splits bool.splits sum.splits option.splits)
  let ?x = "snd (loadQuotas env ?b)\<lparr>fs_disk := d1, inodeStore := st, fs_nextInodeID := store_NextInodeID st\<rparr>"
  from s1 obtain es s0 where s0: "scan_users env es ?x = Inr s0"
    and s1': "s1 = save_index env (s0\<lparr>fs_nextInodeID := store_NextInodeID (inodeStore s0)\<rparr>)"
    by (auto simp: loadExistingData_def split: option.splits sum.splits)
  have root: "rootDir (snd (loadQuotas env ?b)) = root" by (subst lq) (simp add: blank_server_def)
  have idx: "store_indexPath st = ?idx"
    using st by (auto simp: NewInodeStore_def store_load_def split: os_read.splits file_content.splits jdoc.splits)
  from same_files_users [OF s0] root idx
  have s0': "quotas s0 = quotas (snd (loadQuotas env ?b))" "rootDir s0 = root" "fs_disk s0 = d1" "store_indexPath (inodeStore s0) = ?idx"
    by (simp_all add: same_files_def)
  have made: "mget d1 q = Some (DFile c)" if "mget d q = Some (DFile c)" for q c
  proof -
    have "q \<notin> set (ancestors root)"
      using d1 that by (auto simp: os_MkdirAll_def list_all_iff is_dir_def split: if_splits)
    moreover have "mget (fold (\<lambda>q. mput q DDir) qs e) q = mget e q" if "q \<notin> set qs" for qs and e :: disk
      using that by (induction qs arbitrary: e) auto
    ultimately show ?thesis using d1 that by (auto simp: os_MkdirAll_def split: if_splits)
  qed
  show ?thesis
  proof (rule that [of s1])
    show "quotas t = quotas (snd (loadQuotas env ?b))"
      using lsd(2) [of s1] s0'(1) by (auto simp: t s1' save_index_def split: prod.split option.split)
    show "rootDir s1 = root" by (simp add: s1' save_index_def s0')
    show "fs_disk s1 = fs_disk t" using lsd(1) [of s1] by (auto simp: t split: prod.split option.split)
    show "fs_Shared t = (case LoadDirShares env s1 of (None, s2) \<Rightarrow> fs_Shared s2 | (Some _, s2) \<Rightarrow> [])"
      by (auto simp: t split: prod.split option.split)
    show "mget (fs_disk s1) q = Some (DFile c)"
      if "mget d q = Some (DFile c)" "q \<noteq> ?idx" "\<not> under ?idx q" "q \<noteq> ?idx @ ''.tmp''" "\<not> under (?idx @ ''.tmp'') q" for q c
      using store_Save_other [of q "inodeStore s0" "env_err env" d1] that made [OF that(1)]
      by (simp add: s1' save_index_def s0')
  qed
qed

lemma mget_fold_pairs:
  "gomap_ok m \<Longrightarrow> mget (fold (\<lambda>(k, v). mput k v) m []) k = mget m k"
proof -
  assume m: "gomap_ok m"
  have "mget (fold (\<lambda>(k, v). mput k v) m acc) k = (case map_of (rev m) k of None \<Rightarrow> mget acc k | Some v \<Rightarrow> Some v)" for acc
    by (induction m arbitrary: acc) (auto simp: map_add_def split: option.splits)
  moreover have "map_of (rev m) = map_of m"
    using m by (subst map_of_inject_set) (simp_all add: gomap_ok_def rev_map [symmetric])
  ultimately show ?thesis by (auto split: option.split)
qed


text \<open>A quota change that was acknowledged is in force after a restart: the quotas of all users that a new
  fileserver on the same directory enforces are those the old one enforced.\<close>

theorem quotas_survive_restart:
  assumes set: "SetUserQuota env u q s = (None, s')" and m: "gomap_ok (quotas s)"
    and tmp: "env_tmp env \<noteq> Join [rootDir s, quotaConfigFile]"
    and read: "\<not> env_err env' (CReadFile (Join [rootDir s, quotaConfigFile]))"
    and start: "NewFileServer env' sid (rootDir s) ms (fs_disk s') = Inr t"
  shows "GetUserQuota v t = GetUserQuota v s'"
proof -
  let ?s1 = "s\<lparr>quotas := mput u q (quotas s)\<rparr>"
  from set have save: "saveQuotasLocked env ?s1 = (None, s')" by (auto simp: SetUserQuota_def split: if_splits)
  have reads: "os_ReadFile (env_err env') (Join [rootDir s, quotaConfigFile]) (fs_disk s') = Got (Json (JQuota (mput u q (quotas s))))"
    using quota_file.reads_back(1) [OF save, where er = "env_err env'"] tmp read by simp
  have q': "quotas s' = mput u q (quotas s)"
    by (subst quota_file.frame [OF save]) simp
  have "mget (quotas t) v = mget (mput u q (quotas s)) v"
    by (rule restart_steps [OF start])
      (use reads m in \<open>simp add: loadQuotas_def blank_server_def parse_json_def quotas_of_doc_def mget_fold_pairs\<close>)
  then show ?thesis by (simp add: GetUserQuota_def getUserQuotaLocked_def q')
qed

definition bare :: "file_server" where
  "bare = demo\<lparr>fs_inodes := [], fs_users := [], fs_disk := [(''d'', DDir)], fs_Shared := [(''k'', [''v''])]\<rparr>"

theorem quotas_survive_restart_witness:
  "\<exists>t. NewFileServer demo_env ''s'' ''d'' [] (fs_disk (snd (SetUserQuota demo_env ''u'' 7 bare))) = Inr t
     \<and> GetUserQuota ''u'' t = 7"
proof -
  let ?r = "SetUserQuota demo_env ''u'' 7 bare"
  have "fst ?r = None" by code_simp
  then have r: "?r = (None, snd ?r)" by (metis prod.collapse)
  have "isl (NewFileServer demo_env ''s'' ''d'' [] (fs_disk (snd ?r))) = False" by code_simp
  then obtain t where t: "NewFileServer demo_env ''s'' (rootDir bare) [] (fs_disk (snd ?r)) = Inr t"
    by (cases "NewFileServer demo_env ''s'' ''d'' [] (fs_disk (snd ?r))") (auto simp: bare_def)
  have "GetUserQuota ''u'' (snd ?r) = 7" by code_simp
  with quotas_survive_restart [OF r _ _ _ t, of "''u''"] t show ?thesis by (simp add: bare_def demo_paths)
qed

text \<open>C22. The directories whose sharing \<open>SaveDirShares\<close> recorded are known to a new fileserver on the same
  directory, whatever else the start-up scan finds and writes.\<close>

theorem shares_survive_restart:
  assumes save: "SaveDirShares env s = (None, s')"
    and read: "\<not> env_err env' (CReadFile (Join [rootDir s, dirSharesFileName]))"
    and start: "NewFileServer env' sid (rootDir s) ms (fs_disk s') = Inr t"
  shows "fs_Shared t = fs_Shared s"
proof -
  let ?q = "Join [rootDir s, dirSharesFileName]" and ?doc = "Json (JShares (Some (fs_Shared s)))"
  have names: "plain dirSharesFileName" "plain inodeIndexFilename" by code_simp+
  obtain P where "?q = P @ dirSharesFileName" "Join [rootDir s, inodeIndexFilename] = P @ inodeIndexFilename"
    using Join_file [of "rootDir s"] names by metis
  then have other: "?q \<noteq> Join [rootDir s, inodeIndexFilename]" "\<not> under (Join [rootDir s, inodeIndexFilename]) ?q"
    "?q \<noteq> Join [rootDir s, inodeIndexFilename] @ ''.tmp''" "\<not> under (Join [rootDir s, inodeIndexFilename] @ ''.tmp'') ?q"
    by (auto simp: dirSharesFileName_def inodeIndexFilename_def under_def HasPrefix_iff)
  have root: "rootDir s \<noteq> []" using save by (auto simp: SaveDirShares_def)
  have "mget (fs_disk s') ?q = Some (DFile ?doc)" by (rule shares_file.written [OF save TrueI])
  with read root show ?thesis
    by (rule_tac restart_steps [OF start])
      (simp add: LoadDirShares_def os_stat_not_exist_def os_ReadFile_def parse_json_def shares_of_doc_def other)
qed



theorem shares_survive_restart_witness:
  "\<exists>t. NewFileServer demo_env ''s'' ''d'' [] (fs_disk (snd (SaveDirShares demo_env bare))) = Inr t
     \<and> fs_Shared t = [(''k'', [''v''])]"
proof -
  let ?r = "SaveDirShares demo_env bare"
  have "fst ?r = None" by code_simp
  then have r: "?r = (None, snd ?r)" by (metis prod.collapse)
  have "isl (NewFileServer demo_env ''s'' ''d'' [] (fs_disk (snd ?r))) = False" by code_simp
  then obtain t where t: "NewFileServer demo_env ''s'' (rootDir bare) [] (fs_disk (snd ?r)) = Inr t"
    by (cases "NewFileServer demo_env ''s'' ''d'' [] (fs_disk (snd ?r))") (auto simp: bare_def)
  from shares_survive_restart [OF r _ t] t show ?thesis by (simp add: bare_def)
qed

lemma Join_render3:
  assumes "normal r cs" "list_all plain ds" "ds \<noteq> []" "plain x"
  shows "Join [render r cs, join_with [slash] ds, x] = render r (cs @ ds @ [x])"
  using Join_render [of r cs "ds @ [x]"] assms by (simp add: Join_def join_with_snoc)

lemma dir_of_render: "normal r (cs @ [x]) \<Longrightarrow> dir_of (render r (cs @ [x])) = render r cs"
  by (simp add: dir_of_def clean_comps_def foldl_clean_render)

text \<open>A defect of sharing. \<open>Share\<close> records the new list of everything below the directory with \<open>SaveACL\<close>,
  which puts it into a file \<^verbatim>\<open>.acl\<close> below the path; below a file there is no room for one. For files
  the save always fails, the error is dropped, and the scan at the next start gives the file the default
  list: the grants on the files of a shared directory are lost.\<close>

theorem file_grants_lost_at_restart:
  assumes root: "rootDir s = render r cs" "normal r cs" and p: "p = join_with [slash] ds" "list_all plain ds" "ds \<noteq> []"
    and on_disk: "mget (fs_disk s) (render r (cs @ ds)) = Some (DFile c)" "mget (fs_disk s) (getACLPath p s) = None"
  shows "fst (SaveACL env p a s) = Some (Kept AclFile WriteFault)
    \<and> acl_or_default env' username p (snd (SaveACL env p a s)) = default_acl username"
proof -
  let ?acl = "render r (cs @ ds @ [aclFileName])"
  have pl: "plain aclFileName" "plain (aclFileName @ ''.tmp'')" by code_simp+
  have path: "getACLPath p s = ?acl" using root p pl by (simp add: getACLPath_def Join_render3)
  have n: "normal r (cs @ ds @ [aclFileName])" "normal r (cs @ ds @ [aclFileName @ ''.tmp''])" "normal r (cs @ ds)"
    using normal_append_plain [OF root(2)] p(2) pl by simp_all
  have tmp: "?acl @ ''.tmp'' = render r (cs @ ds @ [aclFileName @ ''.tmp''])"
    using p(3) by (simp add: render_def join_with_snoc flip: append_assoc)
  have "dir_of (?acl @ ''.tmp'') = render r (cs @ ds)"
    using dir_of_render [of r "cs @ ds" "aclFileName @ ''.tmp''"] n by (simp add: tmp)
  then have sv: "SaveACL env p a s = (Some (Kept AclFile WriteFault), s)"
    using on_disk(1) by (simp add: SaveACL_def write_rename_doc_def path os_WriteFile_def is_dir_def Let_def)
  have "acl_or_default env' username p s = default_acl username"
    using on_disk(2) by (simp add: acl_or_default_def LoadACL_def os_ReadFile_def os_stat_not_exist_def Let_def)
  with sv show ?thesis by simp
qed

theorem file_grants_lost_at_restart_witness:
  "acl_or_default demo_env ''u'' ''u/a'' (snd (SaveACL demo_env ''u/a'' \<lparr>Owner = ''u'', SharedWith = [''v'']\<rparr> demo)) = default_acl ''u''"
proof -
  have "plain ''u''" "plain ''a''" "plain ''d''" by code_simp+
  moreover have "Join [''d'', ''u/a'', aclFileName] = ''d/u/a/.acl''" by code_simp
  ultimately show ?thesis
    using file_grants_lost_at_restart [of demo False "[''d'']" "''u/a''" "[''u'', ''a'']"]
    by (simp add: render_def normal_plain getACLPath_def demo_disk_def)
qed

end
