(* ===== verification/File_Paths.thy ===== *)
theory File_Paths
  imports File_Access
begin

text \<open>
  The invariant of a fileserver's tables. Every inode has a place: the names from its user's root down to
  it. Its path on disk, its name, its number in the index and its parent all follow from that place, so
  two inodes never share one.
\<close>

section \<open>Names and joined paths\<close>

definition name_ok :: "string \<Rightarrow> bool" where
  "name_ok c \<longleftrightarrow> plain c \<and> backslash \<notin> set c"

abbreviation joined :: "string list \<Rightarrow> string" where
  "joined ds \<equiv> join_with [slash] ds"

lemma name_ok_plain: "list_all name_ok ds \<Longrightarrow> list_all plain ds"
  by (induction ds) (simp_all add: name_ok_def)

lemma joined_inj:
  assumes "list_all plain ds" "list_all plain es" "ds \<noteq> []" "es \<noteq> []" "joined ds = joined es"
  shows "ds = es"
  using Split_join [OF normal_plain [OF assms(1), of False] assms(3)] Split_join [OF normal_plain [OF assms(2), of False] assms(4)]
  unfolding assms(5) by (rule trans [OF sym])

lemma joined_append: "ds \<noteq> [] \<Longrightarrow> es \<noteq> [] \<Longrightarrow> joined (ds @ es) = joined ds @ slash # joined es"
  by (simp add: join_with_append)

lemma below_joined:
  assumes "list_all plain ds" "list_all plain es" "ds \<noteq> []" "es \<noteq> []"
  shows "below (joined ds) (joined es) \<longleftrightarrow> (\<exists>ts. es = ds @ ts)"
proof
  assume "below (joined ds) (joined es)"
  then consider "joined es = joined ds" | t where "joined es = joined ds @ slash # t"
    by (auto simp: below_def HasPrefix_iff)
  then show "\<exists>ts. es = ds @ ts"
  proof cases
    case 1
    then show ?thesis using joined_inj [OF assms(2,1,4,3)] by auto
  next
    case 2
    have "Split (joined es) = Split (joined ds) @ Split t"
      unfolding Split_def 2 by (rule split_at_append_gen)
    then show ?thesis
      using Split_join [OF normal_plain [OF assms(1), of False] assms(3)]
        Split_join [OF normal_plain [OF assms(2), of False] assms(4)] by auto
  qed
next
  assume "\<exists>ts. es = ds @ ts"
  then obtain ts where "es = ds @ ts" ..
  then show "below (joined ds) (joined es)"
    using assms(3) by (cases "ts = []") (auto simp: below_def HasPrefix_iff joined_append)
qed

lemma rebase_joined:
  assumes "ds \<noteq> []" "es \<noteq> []"
  shows "rebase (joined ds) (joined es) (joined (ds @ ts)) = joined (es @ ts)"
  using assms by (cases "ts = []") (simp_all add: rebase_def joined_append)

lemma ReplaceByte_absent: "a \<notin> set p \<Longrightarrow> ReplaceByte p a b = p"
  by (induction p) (auto simp: ReplaceByte_def)

lemma set_joined: "set (joined ds) \<subseteq> insert slash (\<Union> (set ` set ds))"
proof (induction ds)
  case (Cons d ds)
  then show ?case by (cases "ds = []") (auto simp: joined_append [of "[d]", simplified])
qed simp

lemma normalizePath_joined:
  assumes ds: "list_all name_ok ds" "ds \<noteq> []"
  shows "normalizePath (joined ds) = joined ds"
proof -
  have pl: "list_all plain ds" by (rule name_ok_plain [OF ds(1)])
  have "backslash \<noteq> slash" by (simp add: backslash_def)
  then have "backslash \<notin> set (joined ds)" using set_joined [of ds] ds(1) by (auto simp: name_ok_def list_all_iff)
  then have rep: "ReplaceByte (joined ds) backslash slash = joined ds" by (rule ReplaceByte_absent)
  have clean: "Clean (joined ds) = joined ds"
    using Clean_render [OF normal_plain [OF pl], of False] ds(2) by (simp add: render_def)
  obtain d es where d: "ds = d # es" using ds(2) by (cases ds) auto
  then obtain c d' where c: "d = c # d'" "c \<noteq> slash" "d \<noteq> ''.''" using pl by (cases d) (auto simp: plain_def)
  have d': "slash \<notin> set d'" using pl d c by (auto simp: plain_def)
  obtain rest where j: "joined ds = c # d' @ rest" using d c by (cases es) auto
  have "\<not> HasPrefix (joined ds) ''/''" using c(2) by (simp add: j HasPrefix_def)
  moreover have "\<not> HasPrefix (joined ds) ''./''"
    using c(1,3) d' by (cases d') (auto simp: j HasPrefix_def)
  ultimately show ?thesis by (simp add: normalizePath_def rep clean TrimPrefix_def Let_def)
qed

section \<open>Places\<close>

definition node_ok ::
  "bool \<Rightarrow> string list \<Rightarrow> (fid \<Rightarrow> string list) \<Rightarrow> string \<Rightarrow> (string, fid) gomap \<Rightarrow> (string \<rightharpoonup> u64) \<Rightarrow> fid \<Rightarrow> inode \<Rightarrow> bool" where
  "node_ok r cs P sid U ids f n \<longleftrightarrow>
     FileServerID f = sid \<and> GenerationNumber f = 1 \<and> P f \<noteq> [] \<and> list_all name_ok (P f)
     \<and> OSPath n = render r (cs @ P f) \<and> Name n = last (P f) \<and> ids (joined (P f)) = Some (InodeID f)
     \<and> (\<forall>p. Parent n = Some p \<longrightarrow>
          (if p = f then length (P f) = 1 \<and> mget U (hd (P f)) = Some f else P p = butlast (P f)))"

definition root_ok :: "(fid \<Rightarrow> string list) \<Rightarrow> inodes \<Rightarrow> string \<Rightarrow> fid \<Rightarrow> bool" where
  "root_ok P I u f \<longleftrightarrow>
     (\<exists>n. mget I f = Some n \<and> P f = [u] \<and> Parent n = Some f \<and> Type n = InodeTypeDirectory \<and> Owner (ACL n) = u)"

definition paths_ok ::
  "bool \<Rightarrow> string list \<Rightarrow> (fid \<Rightarrow> string list) \<Rightarrow> string \<Rightarrow> (string, fid) gomap \<Rightarrow> (string \<rightharpoonup> u64) \<Rightarrow> inodes \<Rightarrow> bool" where
  "paths_ok r cs P sid U ids I \<longleftrightarrow>
     (\<forall>f n. mget I f = Some n \<longrightarrow> node_ok r cs P sid U ids f n) \<and> (\<forall>u f. mget U u = Some f \<longrightarrow> root_ok P I u f)"

definition fs_wf :: "bool \<Rightarrow> string list \<Rightarrow> (fid \<Rightarrow> string list) \<Rightarrow> file_server \<Rightarrow> bool" where
  "fs_wf r cs P s \<longleftrightarrow>
     rootDir s = render r cs \<and> normal r cs \<and> tree_ok (fs_inodes s) \<and> store_inv (inodeStore s)
     \<and> paths_ok r cs P (serverID s) (fs_users s) (path_ids (inodeStore s)) (fs_inodes s)"

definition fs_inv :: "file_server \<Rightarrow> bool" where
  "fs_inv s \<longleftrightarrow> (\<exists>r cs P. fs_wf r cs P s)"

lemma fs_wfD:
  assumes "fs_wf r cs P s"
  shows "rootDir s = render r cs" "normal r cs" "tree_ok (fs_inodes s)" "store_inv (inodeStore s)"
    "paths_ok r cs P (serverID s) (fs_users s) (path_ids (inodeStore s)) (fs_inodes s)"
  using assms by (simp_all add: fs_wf_def)

lemma node_okD:
  assumes "paths_ok r cs P sid U ids I" "mget I f = Some n"
  shows "FileServerID f = sid" "GenerationNumber f = 1" "P f \<noteq> []" "list_all name_ok (P f)"
    "OSPath n = render r (cs @ P f)" "Name n = last (P f)" "ids (joined (P f)) = Some (InodeID f)"
    "Parent n = Some f \<Longrightarrow> length (P f) = 1 \<and> mget U (hd (P f)) = Some f"
    "Parent n = Some p \<Longrightarrow> p \<noteq> f \<Longrightarrow> P p = butlast (P f)"
proof -
  have n: "node_ok r cs P sid U ids f n" using assms unfolding paths_ok_def by blast
  show "FileServerID f = sid" "GenerationNumber f = 1" "P f \<noteq> []" "list_all name_ok (P f)"
    "OSPath n = render r (cs @ P f)" "Name n = last (P f)" "ids (joined (P f)) = Some (InodeID f)"
    using n unfolding node_ok_def by blast+
  show "length (P f) = 1 \<and> mget U (hd (P f)) = Some f" if "Parent n = Some f" using n that unfolding node_ok_def by simp
  show "P p = butlast (P f)" if "Parent n = Some p" "p \<noteq> f" using n that unfolding node_ok_def by simp
qed

lemma root_okE:
  assumes "paths_ok r cs P sid U ids I" "mget U u = Some f"
  obtains n where "mget I f = Some n" "P f = [u]" "Parent n = Some f" "Type n = InodeTypeDirectory" "Owner (ACL n) = u"
  using assms unfolding paths_ok_def root_ok_def by blast

text \<open>The depth of its place ranks an inode, so places alone rule out cycles.\<close>

lemma tree_ok_ranked:
  assumes "gomap_ok I" "\<And>f n. mget I f = Some n \<Longrightarrow> FID n = f"
    "\<And>f n. mget I f = Some n \<Longrightarrow> \<exists>p m. Parent n = Some p \<and> mget I p = Some m \<and> (p \<noteq> f \<longrightarrow> f \<in> set (Children m))"
    "\<And>f n c. mget I f = Some n \<Longrightarrow> c \<in> set (Children n) \<Longrightarrow> c \<noteq> f \<and> (\<exists>m. mget I c = Some m \<and> Parent m = Some f)"
    "\<And>f n. mget I f = Some n \<Longrightarrow> distinct (Children n) \<and> (Type n = InodeTypeFile \<longrightarrow> Children n = [])"
    and paths: "paths_ok r cs P sid U ids I"
  shows "tree_ok I"
proof -
  have "length (P p) < length (P f)" if "mget I f = Some n" "Parent n = Some p" "p \<noteq> f" for f n p
    using node_okD(3,9) [OF paths that(1)] that(2,3) by (cases "P f" rule: rev_cases) auto
  then show ?thesis unfolding tree_ok_def using assms(1-5)
    by (intro conjI exI [where x = "\<lambda>f. length (P f)"]) blast+
qed

lemma place_unique:
  assumes wf: "fs_wf r cs P s" and "mget (fs_inodes s) f = Some n" "mget (fs_inodes s) g = Some m" "P f = P g"
  shows "f = g"
proof -
  note p = fs_wfD(5) [OF wf]
  have "InodeID f = InodeID g" using node_okD(7) [OF p assms(2)] node_okD(7) [OF p assms(3)] assms(4) by simp
  with node_okD(1,2) [OF p assms(2)] node_okD(1,2) [OF p assms(3)] show ?thesis by (intro fid.equality) auto
qed

lemma place_child:
  assumes wf: "fs_wf r cs P s" and p: "mget (fs_inodes s) p = Some m" and g: "mget (fs_inodes s) g = Some k"
    and pl: "P g = P p @ [x]"
  shows "g \<in> set (Children m) \<and> Parent k = Some p \<and> Name k = x"
proof -
  note w = fs_wfD(3,5) [OF wf]
  obtain q l where q: "Parent k = Some q" "mget (fs_inodes s) q = Some l" "q \<noteq> g \<longrightarrow> g \<in> set (Children l)"
    using tree_okD(3) [OF w(1) g] by blast
  have "P p \<noteq> []" by (rule node_okD(3) [OF w(2) p])
  then have "q \<noteq> g" using node_okD(8) [OF w(2) g] q(1) pl by auto
  moreover from this have "P q = P p" using node_okD(9) [OF w(2) g q(1)] pl by simp
  then have "q = p" by (rule place_unique [OF wf q(2) p])
  ultimately show ?thesis using q p node_okD(6) [OF w(2) g] pl by auto
qed

lemma child_place:
  assumes wf: "fs_wf r cs P s" and p: "mget (fs_inodes s) p = Some m" and c: "c \<in> set (Children m)"
  obtains k where "mget (fs_inodes s) c = Some k" "P c = P p @ [Name k]" "Parent k = Some p" "c \<noteq> p"
proof -
  note w = fs_wfD(3,5) [OF wf]
  from tree_okD(4) [OF w(1) p c] obtain k where k: "c \<noteq> p" "mget (fs_inodes s) c = Some k" "Parent k = Some p" by blast
  have "P p = butlast (P c)" using node_okD(9) [OF w(2) k(2,3)] k(1) by blast
  then have "P c = P p @ [Name k]" using node_okD(3,6) [OF w(2) k(2)] by simp
  with k that show thesis by blast
qed

lemma child_by_name:
  assumes wf: "fs_wf r cs P s" and p: "mget (fs_inodes s) p = Some m"
  shows "GetChildInodeByName (fs_inodes s) m x = None \<longleftrightarrow> (\<forall>g k. mget (fs_inodes s) g = Some k \<longrightarrow> P g \<noteq> P p @ [x])"
proof
  assume none: "GetChildInodeByName (fs_inodes s) m x = None"
  show "\<forall>g k. mget (fs_inodes s) g = Some k \<longrightarrow> P g \<noteq> P p @ [x]"
  proof (intro allI impI notI)
    fix g k assume "mget (fs_inodes s) g = Some k" "P g = P p @ [x]"
    with place_child [OF wf p this] none show False
      by (auto simp: GetChildInodeByName_def find_None_iff)
  qed
next
  assume free: "\<forall>g k. mget (fs_inodes s) g = Some k \<longrightarrow> P g \<noteq> P p @ [x]"
  show "GetChildInodeByName (fs_inodes s) m x = None"
  proof (rule ccontr)
    assume "GetChildInodeByName (fs_inodes s) m x \<noteq> None"
    then obtain c where "GetChildInodeByName (fs_inodes s) m x = Some c" by auto
    then obtain k where c: "mget (fs_inodes s) c = Some k" "Name k = x" "c \<in> set (Children m)" by (rule child_found)
    from child_place [OF wf p c(3)] c free show False by (metis option.inject)
  qed
qed

lemma place_above:
  assumes wf: "fs_wf r cs P s"
  shows "mget (fs_inodes s) g = Some k \<Longrightarrow> P g = es @ ts \<Longrightarrow> es \<noteq> []
    \<Longrightarrow> \<exists>h m. mget (fs_inodes s) h = Some m \<and> P h = es \<and> below_in (fs_inodes s) h g"
proof (induction ts arbitrary: g k rule: rev_induct)
  case Nil
  then show ?case using below_refl by auto
next
  case (snoc t ts)
  note w = fs_wfD(3,5) [OF wf]
  obtain q l where q: "Parent k = Some q" "mget (fs_inodes s) q = Some l" "q \<noteq> g \<longrightarrow> g \<in> set (Children l)"
    using tree_okD(3) [OF w(1) snoc.prems(1)] by blast
  have ne: "q \<noteq> g" using node_okD(8) [OF w(2) snoc.prems(1)] q(1) snoc.prems(2,3) by (cases es) auto
  have "P q = es @ ts" using node_okD(9) [OF w(2) snoc.prems(1) q(1) ne] snoc.prems(2) by (simp add: butlast_append)
  from snoc.IH [OF q(2) this snoc.prems(3)] obtain h m where
    "mget (fs_inodes s) h = Some m" "P h = es" "below_in (fs_inodes s) h q" by blast
  with below_step [OF _ q(2) _ snoc.prems(1)] q(3) ne show ?case by blast
qed

lemma below_place:
  assumes wf: "fs_wf r cs P s" and "mget (fs_inodes s) f = Some n" "mget (fs_inodes s) g = Some m"
  shows "below_in (fs_inodes s) f g \<longleftrightarrow> (\<exists>ts. P g = P f @ ts)"
proof
  assume "below_in (fs_inodes s) f g"
  then show "\<exists>ts. P g = P f @ ts"
  proof (induction rule: below_in.induct)
    case (below_step f g n c m)
    from child_place [OF wf below_step(2,3)] below_step.IH show ?case by (metis append_assoc)
  qed simp
next
  assume "\<exists>ts. P g = P f @ ts"
  then obtain ts where "P g = P f @ ts" ..
  from place_above [OF wf assms(3) this node_okD(3) [OF fs_wfD(5) [OF wf] assms(2)]]
  show "below_in (fs_inodes s) f g" using place_unique [OF wf _ assms(2)] by metis
qed

section \<open>Changes that keep the places\<close>

text \<open>Sizes and the users a node is shared with do not matter.\<close>

definition bare_node :: "inode \<Rightarrow> inode" where
  "bare_node n = n\<lparr>Size := 0, ACL := (ACL n)\<lparr>SharedWith := []\<rparr>\<rparr>"

definition alike :: "inodes \<Rightarrow> inodes \<Rightarrow> bool" where
  "alike I J \<longleftrightarrow> (\<forall>f. map_option bare_node (mget I f) = map_option bare_node (mget J f))"

lemma bare_node_fields:
  assumes "bare_node n = bare_node m"
  shows "Type n = Type m" "Name n = Name m" "OSPath n = OSPath m" "Children n = Children m"
    "Parent n = Parent m" "Owner (ACL n) = Owner (ACL m)" "FID n = FID m"
proof -
  have sel: "Type (bare_node n) = Type n" "Name (bare_node n) = Name n" "OSPath (bare_node n) = OSPath n" "Children (bare_node n) = Children n"
    "Parent (bare_node n) = Parent n" "Owner (ACL (bare_node n)) = Owner (ACL n)" "FID (bare_node n) = FID n" for n
    by (simp_all add: bare_node_def)
  from sel [of n] show "Type n = Type m" "Name n = Name m" "OSPath n = OSPath m" "Children n = Children m"
    "Parent n = Parent m" "Owner (ACL n) = Owner (ACL m)" "FID n = FID m" unfolding assms sel by simp_all
qed

lemma alike_refl [simp, intro]: "alike I I"
  by (simp add: alike_def)

lemma alike_trans: "alike I J \<Longrightarrow> alike J K \<Longrightarrow> alike I K"
  by (simp add: alike_def)

lemma alike_sym: "alike I J \<Longrightarrow> alike J I"
  by (simp add: alike_def)

lemma alikeD:
  assumes "alike I J" "mget I f = Some n"
  obtains m where "mget J f = Some m" "bare_node n = bare_node m"
  using assms unfolding alike_def by (metis (no_types, lifting) map_option_eq_Some option.simps(9))

lemma alike_size: "size_eq I J \<Longrightarrow> alike I J"
proof -
  assume se: "size_eq I J"
  have *: "bare_node n = bare_node (n\<lparr>Size := 0\<rparr>)" for n by (simp add: bare_node_def)
  have "map_option bare_node (mget I f) = map_option bare_node (map_option (\<lambda>n. n\<lparr>Size := 0\<rparr>) (mget I f))" for I :: inodes and f
    by (cases "mget I f") (simp_all add: * [symmetric])
  with se show ?thesis by (simp add: alike_def size_eq_def)
qed

lemma alike_shape: "alike I J \<Longrightarrow> shape J = shape I"
proof
  fix f assume a: "alike I J"
  show "shape J f = shape I f"
  proof (cases "mget I f")
    case None
    then have "mget J f = None" using a unfolding alike_def by (metis map_option_is_None)
    with None show ?thesis by (simp add: shape_def)
  next
    case (Some n)
    from alikeD [OF a Some] obtain m where "mget J f = Some m" "bare_node n = bare_node m" .
    with Some bare_node_fields [of n m] show ?thesis by (simp add: shape_def)
  qed
qed

text \<open>What the invariant reads of a state.\<close>

definition same_tables :: "file_server \<Rightarrow> file_server \<Rightarrow> bool" where
  "same_tables s t \<longleftrightarrow> rootDir t = rootDir s \<and> serverID t = serverID s \<and> fs_users t = fs_users s
     \<and> inodeStore t = inodeStore s \<and> alike (fs_inodes s) (fs_inodes t) \<and> (gomap_ok (fs_inodes s) \<longrightarrow> gomap_ok (fs_inodes t))"

lemma same_tables_refl [simp, intro]: "same_tables s s"
  by (simp add: same_tables_def)

lemma same_tables_trans: "same_tables s t \<Longrightarrow> same_tables t u \<Longrightarrow> same_tables s u"
  by (auto simp: same_tables_def intro: alike_trans)

lemma fs_wf_same:
  assumes wf: "fs_wf r cs P s" and st: "same_tables s t"
  shows "fs_wf r cs P t"
proof -
  note w = fs_wfD [OF wf]
  have al: "alike (fs_inodes s) (fs_inodes t)" using st by (simp add: same_tables_def)
  have "tree_ok (fs_inodes t)"
    using tree_ok_shape [OF w(3) _ alike_shape [OF al]] st tree_okD(1) [OF w(3)] by (simp add: same_tables_def)
  moreover have "node_ok r cs P (serverID s) (fs_users s) (path_ids (inodeStore s)) f m" if "mget (fs_inodes t) f = Some m" for f m
  proof -
    from alikeD [OF alike_sym [OF al] that] obtain n where n: "mget (fs_inodes s) f = Some n" "bare_node m = bare_node n" .
    have "node_ok r cs P (serverID s) (fs_users s) (path_ids (inodeStore s)) f n"
      using w(5) n(1) unfolding paths_ok_def by blast
    then show ?thesis unfolding node_ok_def bare_node_fields(2,3,5) [OF n(2)] .
  qed
  moreover have "root_ok P (fs_inodes t) u f" if "mget (fs_users s) u = Some f" for u f
  proof (rule root_okE [OF w(5) that])
    fix n assume n: "mget (fs_inodes s) f = Some n" "P f = [u]" "Parent n = Some f" "Type n = InodeTypeDirectory" "Owner (ACL n) = u"
    from alikeD [OF al n(1)] obtain m where m: "mget (fs_inodes t) f = Some m" "bare_node n = bare_node m" .
    with n bare_node_fields [OF m(2)] show ?thesis unfolding root_ok_def by auto
  qed
  ultimately show ?thesis using st w unfolding fs_wf_def same_tables_def paths_ok_def by auto
qed

section \<open>New nodes\<close>

lemma fresh_number:
  assumes wf: "fs_wf r cs P s" and room: "store_room (inodeStore s)" and ds: "list_all name_ok ds" "ds \<noteq> []"
    and free: "\<forall>g k. mget (fs_inodes s) g = Some k \<longrightarrow> P g \<noteq> ds"
    and asg: "GetOrAssign (joined ds) (inodeStore s) = (i, st)"
  shows "mget (fs_inodes s) \<lparr>FileServerID = serverID s, InodeID = i, GenerationNumber = 1\<rparr> = None"
    and "path_ids st (joined ds) = Some i" and "store_inv st"
    and "\<And>q j. path_ids (inodeStore s) q = Some j \<Longrightarrow> path_ids st q = Some j"
proof -
  note w = fs_wfD [OF wf]
  have key: "normalizePath (joined ds) = joined ds" by (rule normalizePath_joined [OF ds])
  show "path_ids st (joined ds) = Some i" using path_alloc.assign_stable [OF w(4) room, of "joined ds"] asg key by simp
  show "store_inv st" using store_inv_assign [OF w(4) room, of "joined ds"] asg by simp
  show "path_ids st q = Some j" if "path_ids (inodeStore s) q = Some j" for q j
    using path_alloc.assign_keeps [OF w(4) room that, of "joined ds"] asg by simp
  show "mget (fs_inodes s) \<lparr>FileServerID = serverID s, InodeID = i, GenerationNumber = 1\<rparr> = None"
  proof (rule ccontr)
    let ?f = "\<lparr>FileServerID = serverID s, InodeID = i, GenerationNumber = 1\<rparr>"
    assume "mget (fs_inodes s) ?f \<noteq> None"
    then obtain k where k: "mget (fs_inodes s) ?f = Some k" by auto
    note nk = node_okD [OF w(5) k]
    have "joined ds \<noteq> joined (P ?f)"
      using joined_inj [OF name_ok_plain [OF ds(1)] name_ok_plain [OF nk(4)] ds(2) nk(3)] free k by auto
    then show False
      using path_alloc.assign_distinct [OF w(4) room, of "joined ds" "joined (P ?f)" i] nk(7) asg key by simp
  qed
qed


definition linked :: "fid \<Rightarrow> fid \<Rightarrow> inode \<Rightarrow> inodes \<Rightarrow> inodes" where
  "linked p f n I = upd_inode p (\<lambda>m. m\<lparr>Children := Children m @ [f]\<rparr>) (mput f n I)"

lemma linked_get:
  assumes "mget I p = Some m" "mget I f = None"
  shows "mget (linked p f n I) g = (if g = p then Some (m\<lparr>Children := Children m @ [f]\<rparr>) else if g = f then Some n else mget I g)"
  using assms by (auto simp: linked_def)

lemma linked_old:
  assumes "mget I p = Some m" "mget I f = None" "mget (linked p f n I) g = Some k" "g \<noteq> f"
  obtains l where "mget I g = Some l" "FID k = FID l" "Parent k = Parent l" "Name k = Name l" "OSPath k = OSPath l" "Type k = Type l"
    "Owner (ACL k) = Owner (ACL l)" "Children k = (if g = p then Children l @ [f] else Children l)"
  using assms by (auto simp: linked_get split: if_splits)

lemma linked_new:
  assumes "mget I p = Some m" "mget I f = None" "mget (linked p f n I) f = Some k"
  shows "k = n"
  using assms by (auto simp: linked_get split: if_splits)

lemma paths_ok_linked:
  assumes ok: "tree_ok I" and paths: "paths_ok r cs P sid U ids I" and p: "mget I p = Some m"
    and f: "mget I f = None" "FileServerID f = sid" "GenerationNumber f = 1"
    and x: "name_ok x" "ids' (joined (P p @ [x])) = Some (InodeID f)" "\<And>q j. ids q = Some j \<Longrightarrow> ids' q = Some j"
    and n: "Name n = x" "OSPath n = render r (cs @ P p @ [x])" "Parent n = Some p"
  shows "paths_ok r cs (P(f := P p @ [x])) sid U ids' (linked p f n I)"
  unfolding paths_ok_def
proof (intro conjI allI impI)
  have pf: "p \<noteq> f" using p f(1) by auto
  fix g k assume k: "mget (linked p f n I) g = Some k"
  show "node_ok r cs (P(f := P p @ [x])) sid U ids' g k"
  proof (cases "g = f")
    case True
    then have "k = n" using linked_new [OF p f(1)] k by simp
    with True n f x node_okD(3,4) [OF paths p] pf show ?thesis by (simp add: node_ok_def)
  next
    case False
    from linked_old [OF p f(1) k False] obtain l where
      l: "mget I g = Some l" "Parent k = Parent l" "Name k = Name l" "OSPath k = OSPath l" by metis
    have "q \<noteq> f" if "Parent l = Some q" for q using tree_okD(3) [OF ok l(1)] that f(1) by auto
    with l node_okD [OF paths l(1)] False x(3) show ?thesis by (auto simp: node_ok_def)
  qed
next
  fix u g assume u: "mget U u = Some g"
  show "root_ok (P(f := P p @ [x])) (linked p f n I) u g"
    by (rule root_okE [OF paths u]) (use f(1) p in \<open>auto simp: root_ok_def linked_get\<close>)
qed

lemma tree_ok_linked:
  assumes ok: "tree_ok I" and p: "mget I p = Some m" "Type m = InodeTypeDirectory" and f: "mget I f = None"
    and n: "FID n = f" "Children n = []" "Parent n = Some p" and pok: "paths_ok r cs Q sid U ids (linked p f n I)"
  shows "tree_ok (linked p f n I)"
proof (rule tree_ok_ranked [OF _ _ _ _ _ pok])
  let ?J = "linked p f n I"
  note get = linked_get [OF p(1) f] and old = linked_old [OF p(1) f] and new = linked_new [OF p(1) f]
  show "gomap_ok ?J" using tree_okD(1) [OF ok] by (simp add: linked_def)
  show "FID k = g" if "mget ?J g = Some k" for g k
  proof (cases "g = f")
    case False
    from old [OF that False] tree_okD(2) [OF ok] show ?thesis by metis
  qed (use new [of n k] n(1) that in auto)
  show "\<exists>q l. Parent k = Some q \<and> mget ?J q = Some l \<and> (q \<noteq> g \<longrightarrow> g \<in> set (Children l))" if "mget ?J g = Some k" for g k
  proof (cases "g = f")
    case True
    with new [of n k] that n(3) show ?thesis by (simp add: get)
  next
    case False
    from old [OF that False] obtain l where l: "mget I g = Some l" "Parent k = Parent l" by metis
    from tree_okD(3) [OF ok l(1)] obtain q h where q: "Parent l = Some q" "mget I q = Some h" "q \<noteq> g \<longrightarrow> g \<in> set (Children h)" by blast
    then have "q \<noteq> f" using f by auto
    with q l(2) p show ?thesis by (cases "q = p") (auto simp: get)
  qed
  have gone: "f \<notin> set (Children l)" if "mget I h = Some l" for h l using tree_okD(4) [OF ok that, of f] f by auto
  show "c \<noteq> g \<and> (\<exists>l. mget ?J c = Some l \<and> Parent l = Some g)" if k: "mget ?J g = Some k" and c: "c \<in> set (Children k)" for g k c
  proof -
    have "g \<noteq> f" using c new [of n k] k n(2) by auto
    from old [OF k this] obtain l where l: "mget I g = Some l" "Children k = (if g = p then Children l @ [f] else Children l)" by metis
    show ?thesis
    proof (cases "c = f")
      case True
      with gone [OF l(1)] l(2) c have "g = p" by (auto split: if_splits)
      with True \<open>g \<noteq> f\<close> n(3) show ?thesis by (simp add: get)
    next
      case False
      with l(2) c have "c \<in> set (Children l)" by (auto split: if_splits)
      from tree_okD(4) [OF ok l(1) this] p False show ?thesis by (auto simp: get)
    qed
  qed
  show "distinct (Children k) \<and> (Type k = InodeTypeFile \<longrightarrow> Children k = [])" if k: "mget ?J g = Some k" for g k
  proof (cases "g = f")
    case False
    with k gone [OF p(1)] tree_okD(5,6) [OF ok] p show ?thesis by (auto simp: get split: if_splits)
  qed (use new [of n k] k n(2) in auto)
qed

lemma fs_wf_linked:
  assumes wf: "fs_wf r cs P s" and p: "mget (fs_inodes s) p = Some m" "Type m = InodeTypeDirectory"
    and f: "mget (fs_inodes s) f = None" "FileServerID f = serverID s" "GenerationNumber f = 1"
    and x: "name_ok x" and st: "store_inv (inodeStore t)" "path_ids (inodeStore t) (joined (P p @ [x])) = Some (InodeID f)"
      "\<And>q j. path_ids (inodeStore s) q = Some j \<Longrightarrow> path_ids (inodeStore t) q = Some j"
    and n: "FID n = f" "Name n = x" "OSPath n = render r (cs @ P p @ [x])" "Children n = []" "Parent n = Some p"
    and t: "rootDir t = rootDir s" "serverID t = serverID s" "fs_users t = fs_users s" "fs_inodes t = linked p f n (fs_inodes s)"
  shows "fs_wf r cs (P(f := P p @ [x])) t"
proof -
  note w = fs_wfD [OF wf]
  have pok: "paths_ok r cs (P(f := P p @ [x])) (serverID s) (fs_users s) (path_ids (inodeStore t)) (linked p f n (fs_inodes s))"
    by (rule paths_ok_linked [OF w(3,5) p(1) f x]) (use st n in auto)
  from tree_ok_linked [OF w(3) p f(1) n(1,4,5) pok] pok w(1,2) st(1) show ?thesis by (simp add: fs_wf_def t)
qed

text \<open>A new user root is its own parent.\<close>

lemma fs_wf_root:
  assumes wf: "fs_wf r cs P s" and f: "mget (fs_inodes s) f = None" "FileServerID f = serverID s" "GenerationNumber f = 1"
    and u: "name_ok u" and st: "store_inv (inodeStore t)" "path_ids (inodeStore t) u = Some (InodeID f)"
      "\<And>q j. path_ids (inodeStore s) q = Some j \<Longrightarrow> path_ids (inodeStore t) q = Some j"
    and n: "FID n = f" "Name n = u" "OSPath n = render r (cs @ [u])" "Children n = []" "Parent n = Some f"
      "Type n = InodeTypeDirectory" "Owner (ACL n) = u"
    and t: "rootDir t = rootDir s" "serverID t = serverID s" "fs_users t = mput u f (fs_users s)" "fs_inodes t = mput f n (fs_inodes s)"
    and no: "mget (fs_users s) u = None"
  shows "fs_wf r cs (P(f := [u])) t"
proof -
  note w = fs_wfD [OF wf]
  have pok: "paths_ok r cs (P(f := [u])) (serverID s) (mput u f (fs_users s)) (path_ids (inodeStore t)) (mput f n (fs_inodes s))"
    unfolding paths_ok_def
  proof (intro conjI allI impI)
    fix g k assume k: "mget (mput f n (fs_inodes s)) g = Some k"
    show "node_ok r cs (P(f := [u])) (serverID s) (mput u f (fs_users s)) (path_ids (inodeStore t)) g k"
    proof (cases "g = f")
      case True
      with k n f u st(2) show ?thesis by (simp add: node_ok_def)
    next
      case False
      with k have l: "mget (fs_inodes s) g = Some k" by simp
      have "q \<noteq> f" if "Parent k = Some q" for q using tree_okD(3) [OF w(3) l] that f(1) by auto
      moreover have "hd (P g) \<noteq> u" if "Parent k = Some g" using node_okD(8) [OF w(5) l that] no by auto
      ultimately show ?thesis using node_okD [OF w(5) l] False st(3) by (auto simp: node_ok_def)
    qed
  next
    fix v g assume g: "mget (mput u f (fs_users s)) v = Some g"
    show "root_ok (P(f := [u])) (mput f n (fs_inodes s)) v g"
    proof (cases "v = u")
      case True
      with g n show ?thesis by (simp add: root_ok_def)
    next
      case False
      with g have "mget (fs_users s) v = Some g" by simp
      then show ?thesis by (rule root_okE [OF w(5)]) (use f(1) in \<open>auto simp: root_ok_def\<close>)
    qed
  qed
  have "tree_ok (mput f n (fs_inodes s))"
  proof (rule tree_ok_ranked [OF _ _ _ _ _ pok])
    show "gomap_ok (mput f n (fs_inodes s))" using tree_okD(1) [OF w(3)] by simp
    fix g k assume k: "mget (mput f n (fs_inodes s)) g = Some k"
    show "FID k = g" using k n(1) tree_okD(2) [OF w(3)] by (auto split: if_splits)
    show "\<exists>q l. Parent k = Some q \<and> mget (mput f n (fs_inodes s)) q = Some l \<and> (q \<noteq> g \<longrightarrow> g \<in> set (Children l))"
    proof (cases "g = f")
      case False
      with k have "mget (fs_inodes s) g = Some k" by simp
      from tree_okD(3) [OF w(3) this] obtain q l where
        q: "Parent k = Some q" "mget (fs_inodes s) q = Some l" "q \<noteq> g \<longrightarrow> g \<in> set (Children l)" by blast
      moreover have "q \<noteq> f" using q(2) f(1) by auto
      ultimately show ?thesis by auto
    qed (use k n(5) in auto)
    show "c \<noteq> g \<and> (\<exists>l. mget (mput f n (fs_inodes s)) c = Some l \<and> Parent l = Some g)" if "c \<in> set (Children k)" for c
      using k that n(4) tree_okD(4) [OF w(3), of g k c] f(1) by (cases "g = f") auto
    show "distinct (Children k) \<and> (Type k = InodeTypeFile \<longrightarrow> Children k = [])"
      using k n(4) tree_okD(5,6) [OF w(3), of g k] by (cases "g = f") auto
  qed
  with pok w(1,2) st(1) show ?thesis by (simp add: fs_wf_def t)
qed

end
