(* ===== verification/File_Invariant.thy ===== *)
theory File_Invariant
  imports File_Paths
begin

text \<open>
  Every operation of a fileserver keeps its tables consistent: the places of \<open>File_Paths\<close> exist before
  and after. The creating operations extend the places, the moves to the trash and back rewrite them for
  one subtree, a deletion drops one.
\<close>

section \<open>Creating\<close>

definition room_left :: "file_server \<Rightarrow> bool" where
  "room_left s \<longleftrightarrow> NextInodeID (store_data (inodeStore s)) < - 2"

lemma u64_room: "(x :: u64) < - 2 \<Longrightarrow> x < - 1 \<and> x + 1 < - 1"
proof -
  have m: "(- 1 :: u64) = 18446744073709551615" "(- 2 :: u64) = 18446744073709551614" by simp_all
  assume "x < - 2"
  then show ?thesis unfolding m by uint_arith
qed

lemma room_assign:
  assumes "room_left s"
  shows "store_room (inodeStore s)" "store_room (snd (GetOrAssign p (inodeStore s)))"
  using u64_room [OF assms [unfolded room_left_def]]
  by (auto simp: store_room_def GetOrAssign_def Let_def split: option.split)

lemma assign_id_eq:
  "assign_id p s = (fst (GetOrAssign p (inodeStore s)), s\<lparr>inodeStore := snd (GetOrAssign p (inodeStore s)),
     fs_nextInodeID := store_NextInodeID (snd (GetOrAssign p (inodeStore s)))\<rparr>)"
  by (simp add: assign_id_def split: prod.split)

text \<open>What the new places of a step have to do with the old ones.\<close>

definition extends :: "(fid \<Rightarrow> string list) \<Rightarrow> file_server \<Rightarrow> (fid \<Rightarrow> string list) \<Rightarrow> file_server \<Rightarrow> bool" where
  "extends P s Q t \<longleftrightarrow> rootDir t = rootDir s \<and> serverID t = serverID s
     \<and> (\<forall>g n. mget (fs_inodes s) g = Some n \<longrightarrow> Q g = P g \<and> (\<exists>m. mget (fs_inodes t) g = Some m \<and> Type m = Type n
          \<and> Parent m = Parent n \<and> OSPath m = OSPath n \<and> Name m = Name n \<and> ACL m = ACL n))"

lemma extends_refl [simp]: "extends P s P s"
  by (simp add: extends_def)

lemma extends_linked:
  assumes "mget (fs_inodes s) p = Some m" "mget (fs_inodes s) f = None" "fs_inodes t = linked p f n (fs_inodes s)"
    "rootDir t = rootDir s" "serverID t = serverID s"
  shows "extends P s (P(f := ds)) t"
  using assms by (auto simp: extends_def linked_get)

lemma trash_name: "name_ok trashDirName"
  by code_simp

lemma Join_place:
  assumes "normal r cs" "list_all name_ok ds" "name_ok x"
  shows "Join [render r (cs @ ds), x] = render r (cs @ ds @ [x])"
  using Join_render1 [OF normal_append_plain [OF assms(1) name_ok_plain [OF assms(2)]]] assms(3) by (simp add: name_ok_def)

lemma Join_names: "name_ok u \<Longrightarrow> name_ok x \<Longrightarrow> Join [u, x] = joined [u, x]"
  using Join_render1 [of False "[u]" x] by (simp add: render_def name_ok_def normal_plain)

lemma getOrCreateTrash_wf:
  assumes wf: "fs_wf r cs P s" and room: "store_room (inodeStore s)"
    and tr: "getOrCreateTrashDirLocked env u s = (res, s')"
  obtains Q where "fs_wf r cs Q s'" "extends P s Q s'" "fs_users s' = fs_users s"
    "\<And>g k. mget (fs_inodes s') g = Some k \<Longrightarrow> mget (fs_inodes s) g = None \<Longrightarrow> Q g = [u, trashDirName]"
    "\<And>t. res = Inr t \<Longrightarrow> \<exists>k. mget (fs_inodes s') t = Some k \<and> Type k = InodeTypeDirectory \<and> Q t = [u, trashDirName]"
    "inodeStore s' = inodeStore s \<or> inodeStore s' = snd (GetOrAssign (joined [u, trashDirName]) (inodeStore s))"
proof (cases "mget (fs_users s) u")
  case None
  with tr have "s' = s" "\<And>t. res \<noteq> Inr t" by (auto simp: getOrCreateTrashDirLocked_def)
  with wf that [of P] show thesis by simp
next
  case (Some f)
  note w = fs_wfD [OF wf]
  from root_okE [OF w(5) Some] obtain n where n: "mget (fs_inodes s) f = Some n" "P f = [u]" "Type n = InodeTypeDirectory" by metis
  note nf = node_okD [OF w(5) n(1)]
  have u: "name_ok u" using nf(4) n(2) by simp
  show thesis
  proof (cases "GetChildInodeByName (fs_inodes s) n trashDirName")
    case child: (Some c)
    then obtain k where k: "mget (fs_inodes s) c = Some k" "Name k = trashDirName" "c \<in> set (Children n)" by (rule child_found)
    from child_place [OF wf n(1) k(3)] k(1,2) n(2) have pc: "P c = [u, trashDirName]" by (metis append_Cons append_Nil option.inject)
    from tr Some n(1) child k(1) have "s' = s" "res = (if Type k \<noteq> InodeTypeDirectory then Inl (Lookup TrashNotDirectory) else Inr c)"
      by (auto simp: getOrCreateTrashDirLocked_def split: if_splits)
    with wf that [of P] k(1) pc show thesis by (auto split: if_splits)
  next
    case none: None
    obtain ok d where mk: "os_MkdirAll (env_err env) (Join [OSPath n, trashDirName]) (fs_disk s) = (ok, d)" by fastforce
    show thesis
    proof (cases ok)
      case False
      with tr Some n(1) none mk have s': "s' = s\<lparr>fs_disk := d\<rparr>" "\<And>t. res \<noteq> Inr t" by (auto simp: getOrCreateTrashDirLocked_def Let_def)
      then have "fs_wf r cs P s'" using wf by (intro fs_wf_same [OF wf]) (simp add: same_tables_def)
      with s' that [of P] show thesis by (simp add: extends_def)
    next
      case True
      define st where "st = snd (GetOrAssign (joined [u, trashDirName]) (inodeStore s))"
      define i where "i = fst (GetOrAssign (joined [u, trashDirName]) (inodeStore s))"
      define t where "t = \<lparr>FileServerID = serverID s, InodeID = i, GenerationNumber = 1\<rparr>"
      have t_sel: "FileServerID t = serverID s" "InodeID t = i" "GenerationNumber t = 1" by (simp_all add: t_def)
      define tn where "tn = \<lparr>FID = t, Type = InodeTypeDirectory, Name = trashDirName, OSPath = Join [OSPath n, trashDirName],
        ACL = default_acl u, Children = [], Size = 0, Parent = Some f\<rparr>"
      have free: "\<forall>g k. mget (fs_inodes s) g = Some k \<longrightarrow> P g \<noteq> [u, trashDirName]"
        using child_by_name [OF wf n(1), of trashDirName] none n(2) by auto
      have asg: "GetOrAssign (joined [u, trashDirName]) (inodeStore s) = (i, st)" by (simp add: i_def st_def)
      have names: "list_all name_ok [u, trashDirName]" "[u, trashDirName] \<noteq> []" using u trash_name by simp_all
      note fresh = fresh_number [OF wf room names free asg, folded t_def]
      have s': "rootDir s' = rootDir s" "serverID s' = serverID s" "fs_users s' = fs_users s" "inodeStore s' = st"
        "fs_inodes s' = linked f t tn (fs_inodes s)" "res = Inr t"
        using tr Some n(1) none mk True asg Join_names [OF u trash_name]
        by (auto simp: getOrCreateTrashDirLocked_def Let_def assign_id_eq new_fid_def linked_def t_def tn_def)
      have new: "mget (fs_inodes s) t = None" by (rule fresh(1))
      have "fs_wf r cs (P(t := P f @ [trashDirName])) s'"
      proof (rule fs_wf_linked [OF wf n(1,3) new])
        show "OSPath tn = render r (cs @ P f @ [trashDirName])"
          using nf(4,5) w(2) trash_name by (simp add: tn_def Join_place)
        show "path_ids (inodeStore s') (joined (P f @ [trashDirName])) = Some (InodeID t)"
          using fresh(2) n(2) by (simp add: s'(4) t_sel)
        show "path_ids (inodeStore s') q = Some j" if "path_ids (inodeStore s) q = Some j" for q j
          using fresh(4) that by (simp add: s'(4))
        show "store_inv (inodeStore s')" using fresh(3) by (simp add: s'(4))
        show "fs_inodes s' = linked f t tn (fs_inodes s)" by (rule s'(5))
      qed (simp_all add: t_sel tn_def trash_name s'(1-3))
      moreover have "extends P s (P(t := P f @ [trashDirName])) s'"
        by (rule extends_linked [OF n(1) new s'(5,1,2)])
      moreover have "g = t" if "mget (fs_inodes s') g = Some k" "mget (fs_inodes s) g = None" for g k
        using that n(1) new by (auto simp: s'(5) linked_get split: if_splits)
      moreover have "mget (fs_inodes s') t = Some tn" using n(1) new by (auto simp: s'(5) linked_get)
      ultimately show thesis using that [of "P(t := P f @ [trashDirName])"] s'(3,4,6) n(2) by (auto simp: st_def tn_def)
    qed
  qed
qed


lemma GetInode_same: "same_tables s (snd (GetInode env f s))"
proof -
  obtain r s1 where gi: "GetInode env f s = (r, s1)" by fastforce
  from GetInode_size_eq [OF gi] obtain I where I: "s1 = s\<lparr>fs_inodes := I\<rparr>" "size_eq (fs_inodes s) I" by metis
  from GetInode_ok [OF gi] have "gomap_ok (fs_inodes s) \<longrightarrow> gomap_ok I" using I(1) by simp
  with I alike_size show ?thesis by (simp add: gi same_tables_def)
qed

lemma same_tables_disk [simp]: "same_tables s (s\<lparr>fs_disk := d\<rparr>)"
  by (simp add: same_tables_def)

lemma GetInode_found:
  assumes wf: "fs_wf r cs P s" and gi: "GetInode env f s = (Some n, s1)"
  shows "fs_wf r cs P s1" "mget (fs_inodes s1) f = Some n" "inodeStore s1 = inodeStore s" "fs_users s1 = fs_users s"
    "rootDir s1 = rootDir s" "serverID s1 = serverID s"
proof -
  have same: "same_tables s s1" using GetInode_same [of s env f] gi by simp
  then show "fs_wf r cs P s1" by (rule fs_wf_same [OF wf])
  from same show "inodeStore s1 = inodeStore s" "fs_users s1 = fs_users s" "rootDir s1 = rootDir s" "serverID s1 = serverID s"
    by (simp_all add: same_tables_def)
  from GetInode_size_eq [OF gi] show "mget (fs_inodes s1) f = Some n" by force
qed

lemma walk_root_same: "same_tables s (snd (walk_root env cur comps s))"
proof (induction env cur comps s rule: walk_root.induct)
  case (2 env cur c rest s)
  have gi: "same_tables s s1" if "GetInode env cur s = (r, s1)" for r s1
    using GetInode_same [of s env cur] that by simp
  from 2 show ?case
    by (auto split: option.splits prod.splits intro: same_tables_trans dest: gi)
qed simp

lemma paths_ok_index:
  "paths_ok r cs P sid U ids I \<Longrightarrow> (\<forall>q j. ids q = Some j \<longrightarrow> ids' q = Some j) \<Longrightarrow> paths_ok r cs P sid U ids' I"
  unfolding paths_ok_def node_ok_def by blast

lemma create_user_root_wf:
  assumes wf: "fs_wf r cs P s" and room: "store_room (inodeStore s)" and u: "name_ok u" and no: "mget (fs_users s) u = None"
    and cr: "create_user_root env u s = (res, s')"
    and own: "\<forall>f n. res = Inr f \<longrightarrow> mget (fs_inodes s') f = Some n \<longrightarrow> Owner (ACL n) = u"
  obtains Q where "fs_wf r cs Q s'" "inodeStore s' = inodeStore s \<or> inodeStore s' = snd (GetOrAssign u (inodeStore s))"
proof -
  note w = fs_wfD [OF wf]
  obtain ok d where mk: "os_MkdirAll (env_err env) (Join [rootDir s, u]) (fs_disk s) = (ok, d)" by fastforce
  obtain i st where asg: "GetOrAssign u (inodeStore s) = (i, st)" by fastforce
  have free: "\<forall>g k. mget (fs_inodes s) g = Some k \<longrightarrow> P g \<noteq> [u]"
  proof (intro allI impI notI)
    fix g k assume live: "mget (fs_inodes s) g = Some k" and "P g = [u]"
    moreover from tree_okD(3) [OF w(3) live] obtain q l where q: "Parent k = Some q" "mget (fs_inodes s) q = Some l" by blast
    moreover have "P q \<noteq> []" by (rule node_okD(3) [OF w(5) q(2)])
    ultimately show False using node_okD(8,9) [OF w(5) live] no by (cases "q = g") auto
  qed
  have names: "list_all name_ok [u]" "[u] \<noteq> []" using u by simp_all
  define f where "f = \<lparr>FileServerID = serverID s, InodeID = i, GenerationNumber = 1\<rparr>"
  have f: "FileServerID f = serverID s" "InodeID f = i" "GenerationNumber f = 1" by (simp_all add: f_def)
  have "GetOrAssign (joined [u]) (inodeStore s) = (i, st)" using asg by simp
  note fresh = fresh_number [OF wf room names free this, folded f_def]
  define s2 where "s2 = save_index env (s\<lparr>fs_disk := d, inodeStore := st, fs_nextInodeID := store_NextInodeID st\<rparr>)"
  have s2: "rootDir s2 = rootDir s" "serverID s2 = serverID s" "fs_users s2 = fs_users s" "fs_inodes s2 = fs_inodes s" "inodeStore s2 = st"
    by (simp_all add: s2_def)
  have wf2: "fs_wf r cs P s2"
    using w fresh(3,4) paths_ok_index [OF w(5), of "path_ids st"] unfolding fs_wf_def s2 by blast
  show thesis
  proof (cases ok)
    case False
    with cr mk have "s' = s\<lparr>fs_disk := d\<rparr>" by (simp add: create_user_root_def)
    with fs_wf_same [OF wf same_tables_disk, of d] that [of P] show thesis by simp
  next
    case True
    show thesis
    proof (cases "LoadACL env u u s2")
      case (Inl e)
      with cr mk True asg have "s' = s2" by (simp add: create_user_root_def assign_id_eq Let_def s2_def)
      with wf2 that [of P] s2(5) asg show thesis by simp
    next
      case (Inr a)
      define n where "n = \<lparr>FID = f, Type = InodeTypeDirectory, Name = u, OSPath = Join [rootDir s, u], ACL = a, Children = [],
        Size = 0, Parent = Some f\<rparr>"
      from cr mk True asg Inr have s': "res = Inr f" "s' = s2\<lparr>fs_inodes := mput f n (fs_inodes s2), fs_users := mput u f (fs_users s2)\<rparr>"
        by (simp_all add: create_user_root_def assign_id_eq Let_def s2_def new_fid_def f_def n_def)
      have "fs_wf r cs (P(f := [u])) s'"
      proof (rule fs_wf_root [OF wf])
        show "mget (fs_inodes s) f = None" by (rule fresh(1))
        show "OSPath n = render r (cs @ [u])" using w(1,2) u Join_render1 [OF w(2)] by (simp add: n_def name_ok_def)
        show "Owner (ACL n) = u" using own s'(1) by (simp add: s'(2) s2)
        show "path_ids (inodeStore s') u = Some (InodeID f)" using fresh(2) by (simp add: s'(2) s2 f)
        show "path_ids (inodeStore s') q = Some j" if "path_ids (inodeStore s) q = Some j" for q j
          using fresh(4) that by (simp add: s'(2) s2)
        show "store_inv (inodeStore s')" using fresh(3) by (simp add: s'(2) s2)
        show "fs_inodes s' = mput f n (fs_inodes s)" by (simp add: s'(2) s2)
      qed (use u no f in \<open>simp_all add: s'(2) s2 n_def\<close>)
      then show thesis using that [of "P(f := [u])"] asg by (simp add: s'(2) s2)
    qed
  qed
qed


definition root_owned :: "fs_env \<Rightarrow> string \<Rightarrow> file_server \<Rightarrow> bool" where
  "root_owned env u s \<longleftrightarrow>
     (case create_user_root env u s of
        (Inr f, s') \<Rightarrow> (case mget (fs_inodes s') f of None \<Rightarrow> True | Some n \<Rightarrow> Owner (ACL n) = u)
      | (Inl _, _) \<Rightarrow> True)"

lemma GetUserRoot_wf:
  assumes wf: "fs_wf r cs P s" and room: "room_left s" and u: "mget (fs_users s) u = None \<longrightarrow> name_ok u \<and> root_owned env u s"
  shows "\<exists>Q. fs_wf r cs Q (snd (GetUserRoot env path u s))"
proof -
  obtain res s1 where s1: "(case mget (fs_users s) u of Some f \<Rightarrow> (Inr f, s) | None \<Rightarrow> create_user_root env u s) = (res, s1)" by fastforce
  have "\<exists>Q. fs_wf r cs Q s1 \<and> store_room (inodeStore s1)"
  proof (cases "mget (fs_users s) u")
    case None
    with s1 have cr: "create_user_root env u s = (res, s1)" by simp
    have own: "\<forall>f n. res = Inr f \<longrightarrow> mget (fs_inodes s1) f = Some n \<longrightarrow> Owner (ACL n) = u"
      using u None by (auto simp: root_owned_def cr)
    have nu: "name_ok u" using u None by simp
    from create_user_root_wf [OF wf room_assign(1) [OF room] nu None cr own]
    obtain Q where "fs_wf r cs Q s1" "inodeStore s1 = inodeStore s \<or> inodeStore s1 = snd (GetOrAssign u (inodeStore s))" by metis
    with room_assign [OF room] show ?thesis by auto
  qed (use s1 wf room_assign [OF room] in auto)
  then obtain Q where Q: "fs_wf r cs Q s1" "store_room (inodeStore s1)" by blast
  show ?thesis
  proof (cases res)
    case (Inl e)
    with s1 Q(1) show ?thesis by (auto simp: GetUserRoot_def Let_def)
  next
    case (Inr f)
    obtain tr s2 where tr: "getOrCreateTrashDirLocked env u s1 = (tr, s2)" by fastforce
    from getOrCreateTrash_wf [OF Q tr] obtain Q2 where Q2: "fs_wf r cs Q2 s2" by metis
    have "fs_wf r cs Q2 (snd (walk_root env g comps s2))" for g comps by (rule fs_wf_same [OF Q2 walk_root_same])
    with s1 tr Q2 Inr show ?thesis by (auto simp: GetUserRoot_def Let_def simp del: walk_root.simps split: sum.split list.split)
  qed
qed

lemma extendsE:
  assumes "extends P s Q t" "mget (fs_inodes s) g = Some n"
  obtains m where "Q g = P g" "mget (fs_inodes t) g = Some m" "Type m = Type n" "Parent m = Parent n"
    "OSPath m = OSPath n" "Name m = Name n" "ACL m = ACL n"
  using assms unfolding extends_def by blast

lemma extends_trans: "extends P s Q t \<Longrightarrow> extends Q t R v \<Longrightarrow> extends P s R v"
proof -
  assume st: "extends P s Q t" and tv: "extends Q t R v"
  have "R g = P g \<and> (\<exists>m. mget (fs_inodes v) g = Some m \<and> Type m = Type n \<and> Parent m = Parent n \<and> OSPath m = OSPath n
      \<and> Name m = Name n \<and> ACL m = ACL n)" if "mget (fs_inodes s) g = Some n" for g n
  proof -
    from st that obtain m where m: "Q g = P g" "mget (fs_inodes t) g = Some m" "Type m = Type n" "Parent m = Parent n"
      "OSPath m = OSPath n" "Name m = Name n" "ACL m = ACL n" unfolding extends_def by blast
    from tv m(2) obtain k where "R g = Q g" "mget (fs_inodes v) g = Some k" "Type k = Type m" "Parent k = Parent m"
      "OSPath k = OSPath m" "Name k = Name m" "ACL k = ACL m" unfolding extends_def by blast
    with m show ?thesis by simp
  qed
  with st tv show ?thesis by (simp add: extends_def)
qed

lemma extends_disk: "extends P s Q t \<Longrightarrow> extends P s Q (t\<lparr>fs_disk := d\<rparr>)"
  by (simp add: extends_def)

lemma GetInode_extends:
  assumes "GetInode env f s = (res, s1)"
  shows "extends P s P s1"
proof -
  from GetInode_size_eq [OF assms] obtain I where I: "s1 = s\<lparr>fs_inodes := I\<rparr>" "size_eq (fs_inodes s) I" by metis
  have "\<exists>m. mget I g = Some m \<and> Type m = Type n \<and> Parent m = Parent n \<and> OSPath m = OSPath n \<and> Name m = Name n \<and> ACL m = ACL n"
    if "mget (fs_inodes s) g = Some n" for g n
    using size_eqD [OF I(2) that] erase_size_fields by metis
  with I(1) show ?thesis by (simp add: extends_def)
qed

lemma valid_name_ok: "valid_name x \<Longrightarrow> name_ok x"
  by (auto simp: valid_name_def name_ok_def plain_def ContainsByte_def)

lemma CreateFile_new:
  assumes wf: "fs_wf r cs P s" and room: "room_left s" and m: "mget (fs_inodes s) p = Some m" "Type m = InodeTypeDirectory"
    and none: "GetChildInodeByName (fs_inodes s) m x = None" and x: "valid_name x" "\<not> reserved_name x"
    and cf: "CreateFile env p x u ty s = (res, s')"
  obtains Q where "fs_wf r cs Q s'" "extends P s Q s'"
    "\<And>f. res = Inr f \<Longrightarrow> \<exists>n. mget (fs_inodes s') f = Some n \<and> Q f = P p @ [x] \<and> Type n = ty \<and> Parent n = Some p
        \<and> Owner (ACL n) = Owner (ACL m) \<and> SharedWith (ACL n) = SharedWith (ACL m)"
proof -
  have gi: "GetInode env p s = (Some m, s)" by (rule GetInode_dir [OF m])
  obtain tr s2 where tr: "getOrCreateTrashDirLocked env u s = (tr, s2)" by fastforce
  from getOrCreateTrash_wf [OF wf room_assign(1) [OF room] tr] obtain Q where
    Q: "fs_wf r cs Q s2" "extends P s Q s2" "\<forall>g k. mget (fs_inodes s2) g = Some k \<longrightarrow> mget (fs_inodes s) g = None \<longrightarrow> Q g = [u, trashDirName]"
    and st2: "inodeStore s2 = inodeStore s \<or> inodeStore s2 = snd (GetOrAssign (joined [u, trashDirName]) (inodeStore s))" by metis
  have room2: "store_room (inodeStore s2)" using st2 room_assign [OF room] by auto
  note w = fs_wfD [OF Q(1)]
  from extendsE [OF Q(2) m(1)] obtain m2 where
    m2: "mget (fs_inodes s2) p = Some m2" "Type m2 = Type m" "OSPath m2 = OSPath m" and Qp: "Q p = P p" by metis
  have nx: "name_ok x" "x \<noteq> trashDirName" using x valid_name_ok by (auto simp: reserved_name_def)
  have pp: "list_all name_ok (P p)" "OSPath m = render r (cs @ P p)" using node_okD(4,5) [OF w(5) m2(1)] Qp m2(3) by simp_all
  have osp: "Join [OSPath m, x] = render r (cs @ P p @ [x])" by (simp add: pp(2) Join_place [OF w(2) pp(1) nx(1)])
  have names: "list_all name_ok (P p @ [x])" "P p @ [x] \<noteq> []" using pp(1) nx(1) by simp_all
  have rel: "Rel (rootDir s2) (Join [OSPath m, x]) = Some (joined (P p @ [x]))"
    using Rel_render [OF _ w(2) name_ok_plain [OF names(1)] names(2)] w(1,2) by (simp add: osp)
  have free: "\<forall>g k. mget (fs_inodes s2) g = Some k \<longrightarrow> Q g \<noteq> P p @ [x]"
  proof (intro allI impI notI)
    fix g k assume g: "mget (fs_inodes s2) g = Some k" "Q g = P p @ [x]"
    show False
    proof (cases "mget (fs_inodes s) g")
      case None
      with Q(3) g nx(2) show False by (cases "P p") auto
    next
      case (Some l)
      with Q(2) g have "P g = P p @ [x]" unfolding extends_def by metis
      with child_by_name [OF wf m(1), of x] none Some show False by blast
    qed
  qed
  obtain i st where asg: "GetOrAssign (joined (P p @ [x])) (inodeStore s2) = (i, st)" by fastforce
  define f where "f = \<lparr>FileServerID = serverID s2, InodeID = i, GenerationNumber = 1\<rparr>"
  have f: "FileServerID f = serverID s2" "InodeID f = i" "GenerationNumber f = 1" by (simp_all add: f_def)
  note fresh = fresh_number [OF Q(1) room2 names free asg, folded f_def]
  define a where "a = \<lparr>Owner = Owner (ACL m), SharedWith = SharedWith (ACL m)\<rparr>"
  define n where "n = \<lparr>FID = f, Type = ty, Name = x, OSPath = Join [OSPath m, x], ACL = a, Children = [], Size = 0, Parent = Some p\<rparr>"
  obtain ok d where mk: "(case ty of InodeTypeFile \<Rightarrow> os_Create (env_err env) (Join [OSPath m, x]) (fs_disk s2)
      | InodeTypeDirectory \<Rightarrow> os_Mkdir (env_err env) (Join [OSPath m, x]) (fs_disk s2)) = (ok, d)" by fastforce
  define s3 where "s3 = s2\<lparr>fs_disk := d, inodeStore := st, fs_nextInodeID := store_NextInodeID st\<rparr>"
  define s4 where "s4 = (if ty = InodeTypeDirectory then snd (SaveACL env (joined (P p @ [x])) a s3) else s3)"
  have s4: "rootDir s4 = rootDir s2" "serverID s4 = serverID s2" "fs_users s4 = fs_users s2" "inodeStore s4 = st" "fs_inodes s4 = fs_inodes s2"
    by (simp_all add: s4_def s3_def)
  obtain verdict where ut: "isUnderTrashLocked env p u s = (verdict, s2)"
    using tr by (cases tr) (auto simp: isUnderTrashLocked_def)
  show thesis
  proof (cases "verdict = Some False \<and> ok")
    case False
    have "(s' = s2 \<or> s' = s2\<lparr>fs_disk := d\<rparr>) \<and> (\<forall>f. res \<noteq> Inr f)"
      using cf x none m(2) False rel mk
      by (auto simp: CreateFile_def gi ut Let_def split: option.splits bool.splits)
    moreover have "fs_wf r cs Q (s2\<lparr>fs_disk := d\<rparr>)" by (rule fs_wf_same [OF Q(1)]) simp
    ultimately show thesis using that [of Q] Q(1,2) extends_disk by auto
  next
    case True
    have s': "res = Inr f" "s' = save_index env (s4\<lparr>fs_inodes := linked p f n (fs_inodes s2)\<rparr>)"
      using cf x none m(2) True rel mk asg
      by (cases ty; auto simp: CreateFile_def gi ut Let_def assign_id_eq new_fid_def linked_def f_def n_def a_def s3_def s4_def)+
    have wf': "fs_wf r cs (Q(f := Q p @ [x])) s'"
    proof (rule fs_wf_linked [OF Q(1) m2(1) _ fresh(1)])
      show "OSPath n = render r (cs @ Q p @ [x])" by (simp add: n_def osp Qp)
      show "path_ids (inodeStore s') (joined (Q p @ [x])) = Some (InodeID f)" using fresh(2) by (simp add: s'(2) s4 f Qp)
      show "path_ids (inodeStore s') q = Some j" if "path_ids (inodeStore s2) q = Some j" for q j
        using fresh(4) that by (simp add: s'(2) s4)
      show "store_inv (inodeStore s')" using fresh(3) by (simp add: s'(2) s4)
      show "fs_inodes s' = linked p f n (fs_inodes s2)" by (simp add: s'(2))
    qed (use f nx m(2) m2(2) in \<open>simp_all add: n_def s'(2) s4\<close>)
    have "extends Q s2 (Q(f := Q p @ [x])) s'"
      by (rule extends_linked [OF m2(1) fresh(1)]) (simp_all add: s'(2) s4)
    note ext = extends_trans [OF Q(2) this]
    have "p \<noteq> f" using m2(1) fresh(1) by auto
    then have "mget (fs_inodes s') f = Some n" by (simp add: s'(2) linked_get [OF m2(1) fresh(1)])
    with ext wf' that [of "Q(f := Q p @ [x])"] show thesis by (simp add: s'(1) Qp n_def a_def)
  qed
qed

text \<open>A \<open>CreateFile\<close> that succeeds gives the inode at the requested place, which it has made unless it was there.\<close>

lemma CreateFile_wf:
  assumes wf: "fs_wf r cs P s" and room: "room_left s" and cf: "CreateFile env p x u ty s = (res, s')"
  obtains Q where "fs_wf r cs Q s'" "extends P s Q s'"
    "\<And>f. res = Inr f \<Longrightarrow> \<exists>m n. mget (fs_inodes s) p = Some m \<and> mget (fs_inodes s') f = Some n \<and> Q f = P p @ [x]
        \<and> (mget (fs_inodes s) f = None \<longrightarrow> Type n = ty \<and> Owner (ACL n) = Owner (ACL m) \<and> SharedWith (ACL n) = SharedWith (ACL m))"
proof -
  obtain gi s1 where gi: "GetInode env p s = (gi, s1)" by fastforce
  have wf1: "fs_wf r cs P s1" using fs_wf_same [OF wf GetInode_same [of s env p]] gi by simp
  note ext1 = GetInode_extends [OF gi]
  consider (refused) "s' = s \<or> s' = s1" "\<And>f. res \<noteq> Inr f"
    | (live) m where "valid_name x" "\<not> reserved_name x" "gi = Some m" "Type m = InodeTypeDirectory"
    using cf gi by (cases gi) (auto simp: CreateFile_def split: if_splits)
  then show thesis
  proof cases
    case refused
    with wf wf1 ext1 that [of P] show thesis by auto
  next
    case (live m)
    then have m: "mget (fs_inodes s) p = Some m" "s1 = s"
      using gi by (auto simp: GetInode_def split: option.splits if_splits)
    show thesis
    proof (cases "GetChildInodeByName (fs_inodes s) m x")
      case (Some c)
      then obtain k where k: "mget (fs_inodes s) c = Some k" "Name k = x" "c \<in> set (Children m)" by (rule child_found)
      from cf gi live Some m(2) have s': "s' = s" "res = Inr c" by (auto simp: CreateFile_def)
      from child_place [OF wf m(1) k(3)] k(1,2) have "P c = P p @ [x]" by (metis option.inject)
      with s' wf k(1) m(1) that [of P] show thesis by simp
    next
      case None
      from CreateFile_new [OF wf room m(1) live(4) None live(1,2) cf] that m(1) show thesis by metis
    qed
  qed
qed

end
