(* ===== verification/File_Moves.thy ===== *)
theory File_Moves
  imports File_Invariant
begin

text \<open>
  Moving a subtree to the trash and back: the inode is unlinked, renamed and linked to its new parent,
  the paths below it are rewritten, and the index follows. The places of everything else stay.
\<close>

section \<open>Rewriting paths\<close>

definition repath :: "(fid \<Rightarrow> string) \<Rightarrow> fid set \<Rightarrow> inodes \<Rightarrow> inodes" where
  "repath W S I = map (\<lambda>(g, m). (g, if g \<in> S then m\<lparr>OSPath := W g\<rparr> else m)) I"

lemma mget_repath: "mget (repath W S I) g = map_option (\<lambda>m. if g \<in> S then m\<lparr>OSPath := W g\<rparr> else m) (mget I g)"
  by (induction I) (auto simp: repath_def)

lemma gomap_ok_repath [simp]: "gomap_ok (repath W S I) = gomap_ok I"
  by (simp add: gomap_ok_def repath_def comp_def split_beta)

lemma repath_repath: "repath W A (repath W B I) = repath W (A \<union> B) I"
  by (simp add: repath_def split_beta comp_def)

lemma mput_repath:
  assumes "gomap_ok I" "mget I f = Some n"
  shows "mput f (n\<lparr>OSPath := W f\<rparr>) I = repath W {f} I"
  using assms
proof (induction I)
  case (Cons e I)
  obtain g m where e: "e = (g, m)" by (cases e)
  show ?case
  proof (cases "g = f")
    case True
    then have "f \<notin> fst ` set I" using Cons.prems(1) by (auto simp: e gomap_ok_def)
    then have "repath W {f} I = I" by (force simp: repath_def intro!: map_idI)
    with True Cons.prems(2) show ?thesis by (simp add: e repath_def)
  next
    case False
    with Cons show ?thesis by (simp add: e repath_def gomap_ok_def)
  qed
qed simp

lemma update_paths:
  assumes ok: "gomap_ok I" and leaf: "\<And>g m. mget I g = Some m \<Longrightarrow> Type m = InodeTypeFile \<Longrightarrow> Children m = []"
    and there: "\<And>g m c. mget I g = Some m \<Longrightarrow> c \<in> set (Children m) \<Longrightarrow> mget I c \<noteq> None"
    and coh: "\<And>g m c k. mget I g = Some m \<Longrightarrow> c \<in> set (Children m) \<Longrightarrow> mget I c = Some k \<Longrightarrow> below_in I f0 g \<Longrightarrow> W c = Join [W g, Name k]"
  shows "updateSubtreePathsLocked k f (W f) (repath W S I) = Some J \<Longrightarrow> below_in I f0 f
    \<Longrightarrow> J = repath W (S \<union> {g. below_in I f g}) I"
proof (induction k arbitrary: f S J)
  case (Suc k)
  from below_dom [OF Suc.prems(2)] obtain n where n: "mget I f = Some n" by blast
  let ?n = "if f \<in> S then n\<lparr>OSPath := W f\<rparr> else n"
  have n': "mget (repath W S I) f = Some ?n" by (simp add: mget_repath n)
  have I1: "mput f (?n\<lparr>OSPath := W f\<rparr>) (repath W S I) = repath W (S \<union> {f}) I"
    using mput_repath [OF _ n', of W] ok by (simp add: repath_repath Un_commute)
  show ?case
  proof (cases "Type n = InodeTypeDirectory")
    case False
    then have "Children n = []" using leaf [OF n] by (cases "Type n") auto
    with below_unfold [OF n] have "{g. below_in I f g} = {f}" by simp
    with Suc.prems(1) False I1 n' show ?thesis by (auto simp: Let_def split: if_splits)
  next
    case True
    let ?step = "\<lambda>c acc. case acc of None \<Rightarrow> None
      | Some J \<Rightarrow> (case mget J c of None \<Rightarrow> Some J | Some m \<Rightarrow> updateSubtreePathsLocked k c (Join [W f, Name m]) J)"
    have none: "fold ?step xs None = None" for xs by (induction xs) simp_all
    have loop: "J = repath W (A \<union> (\<Union>c\<in>set xs. {g. below_in I c g})) I"
      if "fold ?step xs (Some (repath W A I)) = Some J" "set xs \<subseteq> set (Children n)" for xs A J
      using that
    proof (induction xs arbitrary: A)
      case (Cons c xs)
      from Cons.prems(2) there [OF n, of c] obtain l where l: "mget I c = Some l" by auto
      have cin: "c \<in> set (Children n)" using Cons.prems(2) by simp
      have bc: "below_in I f0 c" by (rule below_step [OF Suc.prems(2) n cin l])
      have nm: "Join [W f, Name (if c \<in> A then l\<lparr>OSPath := W c\<rparr> else l)] = W c"
        using coh [OF n cin l Suc.prems(2)] by simp
      from Cons.prems(1) obtain K where K: "updateSubtreePathsLocked k c (W c) (repath W A I) = Some K" "fold ?step xs (Some K) = Some J"
        using nm by (cases "updateSubtreePathsLocked k c (W c) (repath W A I)") (auto simp: mget_repath l none)
      from Suc.IH [OF K(1) bc] K(2) have "fold ?step xs (Some (repath W (A \<union> {g. below_in I c g}) I)) = Some J" by simp
      from Cons.IH [OF this] Cons.prems(2) show ?case by (simp add: Un_assoc)
    qed simp
    have "fold ?step (Children n) (Some (repath W (S \<union> {f}) I)) = Some J"
      using Suc.prems(1) True I1 n' by (auto simp: Let_def split: if_splits)
    from loop [OF this] below_unfold [OF n] show ?thesis by (simp add: Un_assoc)
  qed
qed simp

section \<open>Relinking\<close>

text \<open>What a move makes of a node: \<open>W\<close> are the new paths below \<open>f\<close>.\<close>

definition relinked :: "fid \<Rightarrow> fid \<Rightarrow> string \<Rightarrow> inode \<Rightarrow> fid \<Rightarrow> inode" where
  "relinked f t x m g =
     m\<lparr>Name := (if g = f then x else Name m), Parent := (if g = f then Some t else Parent m),
       Children := filter (\<lambda>c. c \<noteq> f) (Children m) @ (if g = t then [f] else [])\<rparr>"

lemma removeFromParent_unlinks:
  assumes ok: "tree_ok I" and n0: "mget I f = Some n0" and n: "FID n = f" "Parent n = Parent n0" "Parent n0 \<noteq> Some f"
  shows "mget (removeFromParent n I) g = map_option (unlinked f) (mget I g)" "gomap_ok (removeFromParent n I)"
proof -
  from tree_okD(3) [OF ok n0] n(3) obtain p m where p: "Parent n0 = Some p" "mget I p = Some m" "f \<in> set (Children m)" "p \<noteq> f" by auto
  have rp: "removeFromParent n I = mput p (unlinked f m) I"
    using p n by (simp add: removeFromParent_def Let_def unlinked_def)
  then show "gomap_ok (removeFromParent n I)" using tree_okD(1) [OF ok] by simp
  show "mget (removeFromParent n I) g = map_option (unlinked f) (mget I g)"
  proof (cases "mget I g")
    case (Some k)
    have "f \<notin> set (Children k)" if "g \<noteq> p"
      using tree_okD(4) [OF ok Some, of f] n0 p(1) that by auto
    with Some p(2) show ?thesis by (cases "g = p") (simp_all add: rp unlinked_other)
  qed (use p(2) in \<open>auto simp: rp\<close>)
qed

lemma relink_start:
  assumes ok: "tree_ok I" and n0: "mget I f = Some n0" and n: "FID n = f" "Parent n = Parent n0" "Parent n0 \<noteq> Some f"
    and t: "t \<noteq> f"
    and I3_def: "I3 = upd_inode t (\<lambda>m. m\<lparr>Children := Children m @ [FID n]\<rparr>)
      (upd_inode f (\<lambda>m. m\<lparr>Parent := Some t, Name := x\<rparr>) (removeFromParent n I))"
  shows "mget I3 g = map_option (\<lambda>m. relinked f t x m g) (mget I g)" "gomap_ok I3"
proof -
  note rp = removeFromParent_unlinks [OF ok n0 n]
  show "gomap_ok I3" by (simp add: I3_def rp(2))
  show "mget I3 g = map_option (\<lambda>m. relinked f t x m g) (mget I g)"
    using n0 n(1) t by (cases "mget I g") (auto simp: I3_def rp(1) relinked_def unlinked_def)
qed

text \<open>The subtree that moves keeps its shape.\<close>

lemma below_local:
  assumes ok: "tree_ok I" and f: "mget I f = Some n"
    and same: "\<And>g m. below_in I f g \<Longrightarrow> mget I g = Some m \<Longrightarrow> \<exists>m'. mget J g = Some m' \<and> Children m' = Children m"
  shows "below_in J f g \<longleftrightarrow> below_in I f g"
proof
  have "below_in I f g" if "below_in J f' g" "f' = f" for f'
    using that
  proof (induction rule: below_in.induct)
    case (below_step f' g m c k)
    then have g: "below_in I f g" by simp
    from below_dom [OF g] obtain m0 where m0: "mget I g = Some m0" by blast
    from same [OF g m0] below_step.hyps(2,3) have c: "c \<in> set (Children m0)" by auto
    from tree_okD(4) [OF ok m0 c] obtain l where l: "mget I c = Some l" by blast
    show ?case by (rule below_in.below_step [OF g m0 c l])
  qed (use f below_refl in auto)
  then show "below_in J f g \<Longrightarrow> below_in I f g" by blast
next
  have "below_in J f g" if "below_in I f' g" "f' = f" for f'
    using that
  proof (induction rule: below_in.induct)
    case (below_refl f' m)
    with same [of f n] f below_in.below_refl show ?case by blast
  next
    case (below_step f' g m c k)
    then have g: "below_in I f g" "below_in J f g" by auto
    have c: "below_in I f c" by (rule below_in.below_step [OF g(1) below_step.hyps(2-4)])
    from same [OF g(1) below_step.hyps(2)] same [OF c below_step.hyps(4)] below_step.hyps(3) show ?case
      using below_in.below_step [OF g(2)] by metis
  qed
  then show "below_in I f g \<Longrightarrow> below_in J f g" by blast
qed


definition moved_place :: "(fid \<Rightarrow> string list) \<Rightarrow> inodes \<Rightarrow> fid \<Rightarrow> fid \<Rightarrow> string \<Rightarrow> fid \<Rightarrow> string list" where
  "moved_place P I f t x g = (if below_in I f g then P t @ x # drop (length (P f)) (P g) else P g)"

text \<open>A move: a node other than a root goes under the name \<open>x\<close> to a directory that is not below it and has
  no entry of that name.\<close>

definition movable :: "bool \<Rightarrow> string list \<Rightarrow> (fid \<Rightarrow> string list) \<Rightarrow> file_server \<Rightarrow> fid \<Rightarrow> inode \<Rightarrow> fid \<Rightarrow> string \<Rightarrow> bool" where
  "movable r cs P s f n t x \<longleftrightarrow>
     fs_wf r cs P s \<and> mget (fs_inodes s) f = Some n \<and> Parent n \<noteq> Some f
     \<and> (\<exists>m. mget (fs_inodes s) t = Some m \<and> Type m = InodeTypeDirectory) \<and> \<not> below_in (fs_inodes s) f t
     \<and> name_ok x \<and> (\<forall>g k. mget (fs_inodes s) g = Some k \<longrightarrow> P g \<noteq> P t @ [x])"

lemma moved_place_names:
  assumes mv: "movable r cs P s f n t x" and g: "mget (fs_inodes s) g = Some m"
  shows "list_all name_ok (moved_place P (fs_inodes s) f t x g)" "moved_place P (fs_inodes s) f t x g \<noteq> []"
proof -
  have wf: "fs_wf r cs P s" and x: "name_ok x" using mv by (simp_all add: movable_def)
  obtain k where k: "mget (fs_inodes s) t = Some k" using mv by (auto simp: movable_def)
  note w = fs_wfD(5) [OF wf]
  have "list_all name_ok (drop i (P g))" for i using node_okD(4) [OF w g] by (auto simp: list_all_iff dest: in_set_dropD)
  with x node_okD(3,4) [OF w g] node_okD(4) [OF w k]
  show "list_all name_ok (moved_place P (fs_inodes s) f t x g)" "moved_place P (fs_inodes s) f t x g \<noteq> []"
    by (simp_all add: moved_place_def)
qed

lemma moved_place_child:
  assumes mv: "movable r cs P s f n t x" and g: "mget (fs_inodes s) g = Some m" "c \<in> set (Children m)" "mget (fs_inodes s) c = Some k" "c \<noteq> f"
  shows "moved_place P (fs_inodes s) f t x c = moved_place P (fs_inodes s) f t x g @ [Name k]"
proof -
  have wf: "fs_wf r cs P s" and f: "mget (fs_inodes s) f = Some n" using mv by (simp_all add: movable_def)
  from child_place [OF wf g(1,2)] g(3) have pc: "P c = P g @ [Name k]" by (metis option.inject)
  have bel: "below_in (fs_inodes s) f c \<longleftrightarrow> below_in (fs_inodes s) f g"
    using below_step [OF _ g(1,2,3)] below_last [OF fs_wfD(3) [OF wf] _ g(4,1,2)] by blast
  show ?thesis
  proof (cases "below_in (fs_inodes s) f g")
    case True
    with below_place [OF wf f g(1)] obtain ts where "P g = P f @ ts" by blast
    with True bel pc show ?thesis by (simp add: moved_place_def)
  qed (use bel pc in \<open>simp add: moved_place_def\<close>)
qed

lemma moved_place_self: "mget I f = Some n \<Longrightarrow> moved_place P I f t x f = P t @ [x]"
  using below_refl by (simp add: moved_place_def)

lemma relink_result:
  assumes mv: "movable r cs P s f n t x" and n': "FID n' = f" "Parent n' = Parent n"
    and J: "relink f n' t x (render r (cs @ P t @ [x])) (fs_inodes s) = Some J"
  defines "Q \<equiv> moved_place P (fs_inodes s) f t x"
  shows "mget J g = map_option (\<lambda>m. (relinked f t x m g)\<lparr>OSPath := render r (cs @ Q g)\<rparr>) (mget (fs_inodes s) g)" "gomap_ok J"
proof -
  let ?I = "fs_inodes s"
  obtain tm where wf: "fs_wf r cs P s" and f: "mget ?I f = Some n" "Parent n \<noteq> Some f" and tm: "mget ?I t = Some tm" "Type tm = InodeTypeDirectory"
    and nb: "\<not> below_in ?I f t" and x: "name_ok x" using mv by (auto simp: movable_def)
  note w = fs_wfD [OF wf]
  have tf: "t \<noteq> f" using nb f(1) below_refl by blast
  define I3 where "I3 = upd_inode t (\<lambda>m. m\<lparr>Children := Children m @ [FID n']\<rparr>)
      (upd_inode f (\<lambda>m. m\<lparr>Parent := Some t, Name := x\<rparr>) (removeFromParent n' ?I))"
  note I3 = relink_start [OF w(3) f(1) n' f(2) tf I3_def]
  let ?W = "\<lambda>g. render r (cs @ Q g)"
  have kids: "Children (relinked f t x m g) = Children m" if "below_in ?I f g" "mget ?I g = Some m" for g m
  proof -
    have "f \<notin> set (Children m)" using child_not_above [OF w(3) that(2)] that(1) by blast
    moreover have "g \<noteq> t" using that nb by auto
    ultimately show ?thesis by (auto simp: relinked_def filter_id_conv)
  qed
  have bel: "below_in I3 f g \<longleftrightarrow> below_in ?I f g" for g
    by (rule below_local [OF w(3) f(1)]) (use kids in \<open>auto simp: I3(1)\<close>)
  have Qf: "Q f = P t @ [x]" by (simp add: Q_def moved_place_self [OF f(1)])
  have "updateSubtreePathsLocked (fuel I3) f (?W f) (repath ?W {} I3) = Some J"
    using J by (simp add: relink_def Let_def I3_def [symmetric] Qf repath_def)
  moreover have "?W c = Join [?W g, Name k]"
    if "mget I3 g = Some m" "c \<in> set (Children m)" "mget I3 c = Some k" "below_in I3 f g" for g m c k
  proof -
    from that I3(1) obtain m0 k0 where m0: "mget ?I g = Some m0" "m = relinked f t x m0 g" "mget ?I c = Some k0" "k = relinked f t x k0 c" by auto
    have c: "c \<in> set (Children m0)" using that(2,4) kids [of g m0] m0(1,2) bel by simp
    have "c \<noteq> f" using child_not_above [OF w(3) m0(1) c] that(4) bel by blast
    then have "Q c = Q g @ [Name k]" using moved_place_child [OF mv m0(1) c m0(3)] m0(4) by (simp add: Q_def relinked_def)
    with moved_place_names [OF mv m0(3)] moved_place_names [OF mv m0(1)] show ?thesis
      using Join_place [OF w(2), of "Q g" "Name k"] by (simp add: Q_def)
  qed
  moreover have "mget I3 c \<noteq> None" if "mget I3 g = Some m" "c \<in> set (Children m)" for g m c
  proof -
    from that I3(1) obtain m0 where m0: "mget ?I g = Some m0" "m = relinked f t x m0 g" by auto
    with that(2) have "c \<in> set (Children m0) \<or> c = f" by (auto simp: relinked_def split: if_splits)
    with tree_okD(4) [OF w(3) m0(1), of c] f(1) I3(1) show ?thesis by auto
  qed
  moreover have "Children m = []" if "mget I3 g = Some m" "Type m = InodeTypeFile" for g m
    using that I3(1) tree_okD(6) [OF w(3)] tm by (auto simp: relinked_def split: if_splits)
  ultimately have J': "J = repath ?W ({} \<union> {g. below_in I3 f g}) I3"
    using update_paths [OF I3(2), of f ?W "fuel I3" f "{}" J] below_refl [of I3 f] f(1) I3(1) by simp
  then show "gomap_ok J" using I3(2) by simp
  show "mget J g = map_option (\<lambda>m. (relinked f t x m g)\<lparr>OSPath := render r (cs @ Q g)\<rparr>) (mget ?I g)"
  proof (cases "mget ?I g")
    case (Some m)
    have "OSPath m = ?W g" if "\<not> below_in ?I f g" using node_okD(5) [OF w(5) Some] that by (simp add: Q_def moved_place_def)
    with Some show ?thesis by (auto simp: J' mget_repath I3(1) bel relinked_def)
  qed (simp add: J' mget_repath I3(1))
qed


text \<open>The numbers follow the places.\<close>

lemma moved_index:
  assumes mv: "movable r cs P s f n t x" and g: "mget (fs_inodes s) g = Some m"
  shows "ren (joined (P f)) (joined (P t @ [x])) (path_ids (inodeStore s)) (joined (moved_place P (fs_inodes s) f t x g)) = Some (InodeID g)"
    and "apart (joined (P f)) (joined (P t @ [x]))"
proof -
  let ?I = "fs_inodes s" and ?new = "P t @ [x]"
  obtain tm where wf: "fs_wf r cs P s" and f: "mget ?I f = Some n" and tm: "mget ?I t = Some tm"
    and nb: "\<not> below_in ?I f t" and x: "name_ok x" and free: "\<forall>g k. mget ?I g = Some k \<longrightarrow> P g \<noteq> ?new"
    using mv by (auto simp: movable_def)
  note w = fs_wfD(5) [OF wf]
  have pf: "list_all plain (P f)" "P f \<noteq> []" using node_okD(3,4) [OF w f] name_ok_plain by auto
  have pn: "list_all plain ?new" "?new \<noteq> []" using node_okD(4) [OF w tm] x name_ok_plain [of ?new] by auto
  have above: "P h \<noteq> ?new @ ts" if "mget ?I h = Some k" for h k ts
    using place_above [OF wf that, of ?new ts] free by auto
  have "\<not> below (joined ?new) (joined (P f))" using below_joined [OF pn(1) pf(1) pn(2) pf(2)] above [OF f] by auto
  moreover have "\<not> below (joined (P f)) (joined ?new)"
  proof
    assume "below (joined (P f)) (joined ?new)"
    then obtain ts where ts: "?new = P f @ ts" using below_joined [OF pf(1) pn(1) pf(2) pn(2)] by blast
    show False
    proof (cases ts rule: rev_cases)
      case Nil
      with ts free f show False by auto
    next
      case (snoc us u)
      with ts have "P t = P f @ us" by simp
      with below_place [OF wf f tm] nb show False by blast
    qed
  qed
  ultimately show apart: "apart (joined (P f)) (joined ?new)" by (simp add: apart_def)
  have pg: "list_all plain (P g)" "P g \<noteq> []" using node_okD(3,4) [OF w g] name_ok_plain by auto
  have id: "path_ids (inodeStore s) (joined (P g)) = Some (InodeID g)" by (rule node_okD(7) [OF w g])
  show "ren (joined (P f)) (joined ?new) (path_ids (inodeStore s)) (joined (moved_place P ?I f t x g)) = Some (InodeID g)"
  proof (cases "below_in ?I f g")
    case True
    with below_place [OF wf f g] obtain ts where ts: "P g = P f @ ts" by blast
    then have q: "moved_place P ?I f t x g = ?new @ ts" using True by (simp add: moved_place_def)
    have "list_all plain ts" using pg(1) ts by simp
    then have b: "below (joined ?new) (joined (?new @ ts))" using below_joined [OF pn(1) _ pn(2), of "?new @ ts"] pn(1) by simp
    then have "\<not> below (joined (P f)) (joined (?new @ ts))" by (rule not_below_both [OF apart])
    moreover have "rebase (joined ?new) (joined (P f)) (joined (?new @ ts)) = joined (P f @ ts)"
      by (rule rebase_joined [OF pn(2) pf(2)])
    ultimately show ?thesis using b id ts by (simp only: q ren_def) simp
  next
    case False
    then have "\<not> below (joined (P f)) (joined (P g))"
      using below_joined [OF pf(1) pg(1) pf(2) pg(2)] below_place [OF wf f g] by blast
    moreover have "\<not> below (joined ?new) (joined (P g))"
      using below_joined [OF pn(1) pg(1) pn(2) pg(2)] above [OF g] by blast
    ultimately show ?thesis using id False by (simp add: ren_def moved_place_def)
  qed
qed

lemma moved_place_root:
  assumes mv: "movable r cs P s f n t x" and h: "mget (fs_inodes s) h = Some k" "P h = [u]"
  shows "moved_place P (fs_inodes s) f t x h = P h \<and> h \<noteq> f"
proof -
  have wf: "fs_wf r cs P s" and f: "mget (fs_inodes s) f = Some n" "Parent n \<noteq> Some f" using mv by (simp_all add: movable_def)
  note w = fs_wfD(3,5) [OF wf]
  obtain p m where p: "Parent n = Some p" "p \<noteq> f" "mget (fs_inodes s) p = Some m" using tree_okD(3) [OF w(1) f(1)] f(2) by auto
  have "P p = butlast (P f)" by (rule node_okD(9) [OF w(2) f(1) p(1,2)])
  with node_okD(3) [OF w(2) p(3)] have "P f \<noteq> [u]" by auto
  moreover from this have "\<not> below_in (fs_inodes s) f h"
    using node_okD(3) [OF w(2) f(1)] below_place [OF wf f(1) h(1)] h(2) by (auto simp: Cons_eq_append_conv)
  ultimately show ?thesis using h(2) by (auto simp: moved_place_def)
qed

lemma paths_ok_moved:
  assumes mv: "movable r cs P s f n t x"
    and J: "\<And>g. mget J g = map_option (\<lambda>m. (relinked f t x m g)\<lparr>OSPath := render r (cs @ moved_place P (fs_inodes s) f t x g)\<rparr>) (mget (fs_inodes s) g)"
    and ids: "ids = ren (joined (P f)) (joined (P t @ [x])) (path_ids (inodeStore s))"
  shows "paths_ok r cs (moved_place P (fs_inodes s) f t x) (serverID s) (fs_users s) ids J"
  unfolding paths_ok_def
proof (intro conjI allI impI)
  let ?I = "fs_inodes s" and ?Q = "moved_place P (fs_inodes s) f t x"
  obtain tm where wf: "fs_wf r cs P s" and f: "mget ?I f = Some n" "Parent n \<noteq> Some f" and tm: "mget ?I t = Some tm"
    and nb: "\<not> below_in ?I f t" using mv by (auto simp: movable_def)
  note w = fs_wfD(3,5) [OF wf]
  note still = moved_place_root [OF mv]
  fix g k assume k: "mget J g = Some k"
  then obtain m where m: "mget ?I g = Some m" and k': "k = (relinked f t x m g)\<lparr>OSPath := render r (cs @ ?Q g)\<rparr>" by (auto simp: J)
  note ng = node_okD [OF w(2) m]
  have "Name k = last (?Q g)"
  proof (cases "g = f")
    case True
    then show ?thesis by (simp add: k' relinked_def moved_place_self [OF f(1)])
  next
    case False
    from tree_okD(3) [OF w(1) m] obtain p l where p: "Parent m = Some p" "mget ?I p = Some l" "p \<noteq> g \<longrightarrow> g \<in> set (Children l)" by blast
    show ?thesis
    proof (cases "p = g")
      case True
      with ng(8) p(1) have "length (P g) = 1" by simp
      then obtain u where "P g = [u]" by (auto simp: length_Suc_conv)
      with still [OF m] ng(6) False show ?thesis by (simp add: k' relinked_def)
    next
      case pg: False
      with moved_place_child [OF mv p(2) _ m False] p(3) False show ?thesis by (simp add: k' relinked_def)
    qed
  qed
  moreover have "(if p = g then length (?Q g) = 1 \<and> mget (fs_users s) (hd (?Q g)) = Some g else ?Q p = butlast (?Q g))"
    if "Parent k = Some p" for p
  proof (cases "g = f")
    case True
    then have "p = t" "t \<noteq> f" using that nb below_refl [OF f(1)] by (auto simp: k' relinked_def)
    with True nb show ?thesis by (simp add: moved_place_self [OF f(1)]) (simp add: moved_place_def)
  next
    case False
    then have p: "Parent m = Some p" using that by (simp add: k' relinked_def)
    from tree_okD(3) [OF w(1) m] p obtain l where l: "mget ?I p = Some l" "p \<noteq> g \<longrightarrow> g \<in> set (Children l)" by auto
    show ?thesis
    proof (cases "p = g")
      case True
      with ng(8) p have 1: "length (P g) = 1" "mget (fs_users s) (hd (P g)) = Some g" by simp_all
      then obtain u where "P g = [u]" by (auto simp: length_Suc_conv)
      with still [OF m] 1 True show ?thesis by simp
    next
      case pg: False
      with moved_place_child [OF mv l(1) _ m False] l(2) show ?thesis by simp
    qed
  qed
  ultimately show "node_ok r cs ?Q (serverID s) (fs_users s) ids g k"
    using ng(1,2) moved_place_names [OF mv m] moved_index(1) [OF mv m] by (simp add: node_ok_def k' ids)
next
  fix u h assume u: "mget (fs_users s) u = Some h"
  have "fs_wf r cs P s" using mv by (simp add: movable_def)
  from root_okE [OF fs_wfD(5) [OF this] u] obtain k where
    k: "mget (fs_inodes s) h = Some k" "P h = [u]" "Parent k = Some h" "Type k = InodeTypeDirectory" "Owner (ACL k) = u" by metis
  with moved_place_root [OF mv k(1,2)] show "root_ok (moved_place P (fs_inodes s) f t x) J u h"
    by (simp add: root_ok_def J relinked_def)
qed


lemma tree_ok_moved:
  assumes mv: "movable r cs P s f n t x" and Jok: "gomap_ok J"
    and J: "\<And>g. mget J g = map_option (\<lambda>m. (relinked f t x m g)\<lparr>OSPath := W g\<rparr>) (mget (fs_inodes s) g)"
    and pok: "paths_ok r cs Q sid U ids J"
  shows "tree_ok J"
proof (rule tree_ok_ranked [OF Jok _ _ _ _ pok])
  let ?I = "fs_inodes s"
  obtain tm where wf: "fs_wf r cs P s" and f: "mget ?I f = Some n" and tm: "mget ?I t = Some tm" "Type tm = InodeTypeDirectory"
    and nb: "\<not> below_in ?I f t" using mv by (auto simp: movable_def)
  note ok = fs_wfD(3) [OF wf]
  have tf: "t \<noteq> f" using nb below_refl [OF f] by auto
  fix g k assume k: "mget J g = Some k"
  then obtain m where m: "mget ?I g = Some m" and k': "k = (relinked f t x m g)\<lparr>OSPath := W g\<rparr>" by (auto simp: J)
  show "FID k = g" using tree_okD(2) [OF ok m] by (simp add: k' relinked_def)
  show "\<exists>p l. Parent k = Some p \<and> mget J p = Some l \<and> (p \<noteq> g \<longrightarrow> g \<in> set (Children l))"
  proof (cases "g = f")
    case True
    with tm(1) tf show ?thesis by (simp add: k' J relinked_def)
  next
    case False
    from tree_okD(3) [OF ok m] obtain p l where "Parent m = Some p" "mget ?I p = Some l" "p \<noteq> g \<longrightarrow> g \<in> set (Children l)" by blast
    with False show ?thesis by (auto simp: k' J relinked_def)
  qed
  show "c \<noteq> g \<and> (\<exists>l. mget J c = Some l \<and> Parent l = Some g)" if c: "c \<in> set (Children k)" for c
  proof (cases "c = f")
    case True
    with c have "g = t" by (auto simp: k' relinked_def split: if_splits)
    with True f tf show ?thesis by (simp add: J relinked_def)
  next
    case False
    with c have "c \<in> set (Children m)" by (auto simp: k' relinked_def split: if_splits)
    from tree_okD(4) [OF ok m this] False show ?thesis by (auto simp: J relinked_def)
  qed
  show "distinct (Children k) \<and> (Type k = InodeTypeFile \<longrightarrow> Children k = [])"
    using tree_okD(5,6) [OF ok m] m tm by (auto simp: k' relinked_def)
qed

lemma path_ids_RenamePrefix:
  assumes "list_all name_ok ds" "ds \<noteq> []" "list_all name_ok es" "es \<noteq> []" "apart (joined ds) (joined es)"
  shows "path_ids (RenamePrefix (joined ds) (joined es) st) = ren (joined ds) (joined es) (path_ids st)"
proof -
  have ne: "joined ds \<noteq> []" "joined es \<noteq> []" "joined ds \<noteq> joined es"
    using join_hd [OF normal_plain [OF name_ok_plain]] assms by (auto simp: apart_def)
  have "map_of (fold (rename_visit (joined ds) (joined es)) (mkeys (PathToID (store_data st))) (PathToID (store_data st)))
      = ren (joined ds) (joined es) (map_of (PathToID (store_data st)))"
    by (rule fold_rename [OF assms(5)]) simp
  with ne normalizePath_joined [OF assms(1,2)] normalizePath_joined [OF assms(3,4)] show ?thesis
    by (simp add: RenamePrefix_def RenamePrefix_visiting_def path_ids_def Let_def)
qed

lemma fs_wf_moved:
  assumes mv: "movable r cs P s f n t x" and n': "FID n' = f" "Parent n' = Parent n"
    and J: "relink f n' t x (render r (cs @ P t @ [x])) (fs_inodes s) = Some J"
    and v: "rootDir v = rootDir s" "serverID v = serverID s" "fs_users v = fs_users s" "fs_inodes v = J"
      "inodeStore v = RenamePrefix (joined (P f)) (joined (P t @ [x])) (inodeStore s)"
  shows "fs_wf r cs (moved_place P (fs_inodes s) f t x) v"
proof -
  obtain tm where wf: "fs_wf r cs P s" and f: "mget (fs_inodes s) f = Some n" and tm: "mget (fs_inodes s) t = Some tm"
    and x: "name_ok x" using mv by (auto simp: movable_def)
  note w = fs_wfD [OF wf] and r = relink_result [OF mv n' J]
  have names: "list_all name_ok (P f)" "P f \<noteq> []" "list_all name_ok (P t @ [x])" "P t @ [x] \<noteq> []"
    using node_okD(3,4) [OF w(5) f] node_okD(4) [OF w(5) tm] x by simp_all
  have ids: "path_ids (inodeStore v) = ren (joined (P f)) (joined (P t @ [x])) (path_ids (inodeStore s))"
    unfolding v(5) by (rule path_ids_RenamePrefix [OF names moved_index(2) [OF mv f]])
  have pok: "paths_ok r cs (moved_place P (fs_inodes s) f t x) (serverID s) (fs_users s) (path_ids (inodeStore v)) J"
    by (rule paths_ok_moved [OF mv r(1) ids])
  have "tree_ok J" by (rule tree_ok_moved [OF mv r(2) r(1) pok])
  moreover have "store_inv (inodeStore v)" unfolding v(5) RenamePrefix_def by (rule store_inv_rename [OF w(4)])
  ultimately show ?thesis using pok w(1,2) by (simp add: fs_wf_def v)
qed


section \<open>Trash and restore\<close>

lemma render_under:
  assumes "cs \<noteq> []" "ds \<noteq> []" shows "under (render r cs) (render r (cs @ ds))"
  using assms by (auto simp: under_def HasPrefix_iff render_def joined_append)

lemma rel_or_place:
  assumes wf: "fs_wf r cs P s" and f: "mget (fs_inodes s) f = Some n" and root: "rootDir v = rootDir s"
  shows "rel_or dflt (OSPath n) v = joined (P f)" "joined (P f) \<noteq> []"
proof -
  note w = fs_wfD [OF wf] and nf = node_okD [OF w(5) f]
  have pl: "list_all plain (P f)" by (rule name_ok_plain [OF nf(4)])
  show "rel_or dflt (OSPath n) v = joined (P f)"
    using Rel_render [OF _ w(2) pl nf(3)] w(1,2) by (simp add: rel_or_def root nf(5))
  show "joined (P f) \<noteq> []" using join_hd [OF normal_plain [OF pl] nf(3)] by blast
qed

lemma move_target:
  assumes wf: "fs_wf r cs P s" and f: "mget (fs_inodes s) f = Some n"
    and t: "mget (fs_inodes s) t = Some m" and x: "name_ok x"
  shows "Join [OSPath m, x] = render r (cs @ P t @ [x])"
    and "rootDir v = rootDir s \<Longrightarrow> Rel (rootDir v) (Join [OSPath m, x]) = Some (joined (P t @ [x]))"
    and "os_Rename er (OSPath n) (Join [OSPath m, x]) d = (True, d') \<Longrightarrow> \<not> below_in (fs_inodes s) f t \<and> t \<noteq> f"
proof -
  note w = fs_wfD [OF wf] and nf = node_okD [OF w(5) f] and nt = node_okD [OF w(5) t]
  show path: "Join [OSPath m, x] = render r (cs @ P t @ [x])"
    unfolding nt(5) by (rule Join_place [OF w(2) nt(4) x])
  have pl: "list_all plain (P t @ [x])" using name_ok_plain [of "P t @ [x]"] nt(4) x by simp
  show "Rel (rootDir v) (Join [OSPath m, x]) = Some (joined (P t @ [x]))" if "rootDir v = rootDir s"
    unfolding path using Rel_render [OF _ w(2) pl] w(1,2) that by simp
  show "\<not> below_in (fs_inodes s) f t \<and> t \<noteq> f" if ren: "os_Rename er (OSPath n) (Join [OSPath m, x]) d = (True, d')"
  proof -
    have "\<not> below_in (fs_inodes s) f t"
    proof
      assume "below_in (fs_inodes s) f t"
      then obtain ts where "P t = P f @ ts" using below_place [OF wf f t] by blast
      then have "under (OSPath n) (Join [OSPath m, x])"
        using render_under [of "cs @ P f" "ts @ [x]" r] nf(3) by (simp add: path nf(5))
      with ren show False by (auto simp: os_Rename_def split: if_splits)
    qed
    with below_refl [OF f] show ?thesis by auto
  qed
qed

text \<open>Rewriting the paths changes nothing else.\<close>

lemma update_keeps:
  fixes bare :: "inode \<Rightarrow> 'a"
  assumes bare: "\<And>n p. bare (n\<lparr>OSPath := p\<rparr>) = bare n"
  shows "updateSubtreePathsLocked k f p I = Some J \<Longrightarrow> map_option bare (mget J g) = map_option bare (mget I g)"
proof (induction k arbitrary: f p I J)
  case (Suc k)
  let ?step = "\<lambda>c acc. case acc of None \<Rightarrow> None
    | Some J \<Rightarrow> (case mget J c of None \<Rightarrow> Some J | Some m \<Rightarrow> updateSubtreePathsLocked k c (Join [p, Name m]) J)"
  have none: "fold ?step xs None = None" for xs by (induction xs) simp_all
  have loop: "map_option bare (mget J g) = map_option bare (mget K g)" if "fold ?step xs (Some K) = Some J" for xs K
    using that
  proof (induction xs arbitrary: K)
    case (Cons c xs)
    show ?case
    proof (cases "?step c (Some K)")
      case None
      with Cons.prems none show ?thesis by simp
    next
      case (Some L)
      with Cons have "map_option bare (mget J g) = map_option bare (mget L g)" by simp
      with Some Suc.IH [of c _ K L] show ?thesis by (auto split: option.splits)
    qed
  qed simp
  show ?case
  proof (cases "mget I f")
    case (Some n)
    with Suc.prems loop [of _ "mput f (n\<lparr>OSPath := p\<rparr>) I"] show ?thesis
      by (auto simp: Let_def bare split: if_splits)
  qed (use Suc.prems in simp)
qed simp

text \<open>The rewriting ends: each call is one level deeper, and every inode below is ranked higher.\<close>

lemma update_returns:
  assumes down: "\<And>g m c. g \<in> S \<Longrightarrow> mget I g = Some m \<Longrightarrow> c \<in> set (Children m) \<Longrightarrow> c \<in> S \<and> rank g < rank c"
  shows "f \<in> S \<Longrightarrow> deeper I rank f < k \<Longrightarrow> (\<And>g. map_option Children (mget K g) = map_option Children (mget I g))
    \<Longrightarrow> updateSubtreePathsLocked k f p K \<noteq> None"
proof (induction k arbitrary: f p K)
  case (Suc k)
  let ?step = "\<lambda>c acc. case acc of None \<Rightarrow> None
    | Some J \<Rightarrow> (case mget J c of None \<Rightarrow> Some J | Some m \<Rightarrow> updateSubtreePathsLocked k c (Join [p, Name m]) J)"
  have loop: "fold ?step xs (Some L) \<noteq> None"
    if "\<And>c. c \<in> set xs \<Longrightarrow> c \<in> S \<and> deeper I rank c < k" "\<And>g. map_option Children (mget L g) = map_option Children (mget I g)" for xs L
    using that
  proof (induction xs arbitrary: L)
    case (Cons c xs)
    from Cons.prems(1) [of c] Suc.IH [of c L] Cons.prems(2) have "?step c (Some L) \<noteq> None" by (auto split: option.split)
    then obtain M where M: "?step c (Some L) = Some M" by blast
    then have "map_option Children (mget M g) = map_option Children (mget L g)" for g
      using update_keeps [of Children k c _ L M g] by (auto split: option.splits)
    with Cons.IH [of M] Cons.prems have "fold ?step xs (Some M) \<noteq> None" by simp
    with M show ?case by simp
  qed simp
  show ?case
  proof (cases "mget K f")
    case (Some n)
    with Suc.prems(3) [of f] obtain m where m: "mget I f = Some m" "Children n = Children m" by (cases "mget I f") auto
    have "c \<in> S \<and> deeper I rank c < k" if "c \<in> set (Children n)" for c
      using down [OF Suc.prems(1) m(1), of c] deeper_less [where rank = rank, OF m(1), of c] that m(2) Suc.prems(2) by auto
    moreover have "map_option Children (mget (mput f (n\<lparr>OSPath := p\<rparr>) K) g) = map_option Children (mget I g)" for g
      using Suc.prems(3) [of g] Some by (cases "g = f") auto
    ultimately show ?thesis using loop [of "Children n" "mput f (n\<lparr>OSPath := p\<rparr>) K"] by (simp add: Some Let_def)
  qed simp
qed simp

lemma relink_kept:
  assumes ok: "tree_ok I" and n0: "mget I f = Some n0" and n: "FID n = f" "Parent n = Parent n0" "Parent n0 \<noteq> Some f"
    and t: "t \<noteq> f" and J: "relink f n t x p I = Some J"
  shows "map_option Parent (mget J f) = Some (Some t)"
    "mget I g = Some m \<Longrightarrow> \<exists>m'. mget J g = Some m' \<and> Type m' = Type m \<and> ACL m' = ACL m"
proof -
  note st = relink_start(1) [OF ok n0 n t refl, of x]
  show "map_option Parent (mget J f) = Some (Some t)"
    using update_keeps [OF _ J [unfolded relink_def Let_def], of Parent f] st [of f] n0 by (simp add: relinked_def)
  show "\<exists>m'. mget J g = Some m' \<and> Type m' = Type m \<and> ACL m' = ACL m" if "mget I g = Some m"
    using update_keeps [OF _ J [unfolded relink_def Let_def], of "\<lambda>n. (Type n, ACL n)" g] st [of g] that
    by (auto simp: relinked_def)
qed

lemma relink_dom:
  assumes ok: "tree_ok I" and n0: "mget I f = Some n0" and n: "FID n = f" "Parent n = Parent n0" "Parent n0 \<noteq> Some f"
    and t: "\<not> below_in I f t" and J: "relink f n t x p I = Some J"
  shows "mget J g = None \<longleftrightarrow> mget I g = None"
proof -
  have "t \<noteq> f" using t below_refl [OF n0] by blast
  note st = relink_start(1) [OF ok n0 n this refl, of x g]
  show ?thesis using update_keeps [OF _ J [unfolded relink_def Let_def], of Type g] st
    by (cases "mget J g"; cases "mget I g") auto
qed

lemma relink_returns:
  assumes ok: "tree_ok I" and n0: "mget I f = Some n0" and n: "FID n = f" "Parent n = Parent n0" "Parent n0 \<noteq> Some f"
    and t: "\<not> below_in I f t"
  shows "relink f n t x p I \<noteq> None"
proof -
  define I3 where "I3 = upd_inode t (\<lambda>m. m\<lparr>Children := Children m @ [FID n]\<rparr>)
      (upd_inode f (\<lambda>m. m\<lparr>Parent := Some t, Name := x\<rparr>) (removeFromParent n I))"
  have tf: "t \<noteq> f" using t below_refl [OF n0] by blast
  note st = relink_start(1) [OF ok n0 n tf I3_def]
  from tree_rank_down [OF ok] obtain rank :: "fid \<Rightarrow> nat" where
    r: "\<forall>f n c. mget I f = Some n \<longrightarrow> c \<in> set (Children n) \<longrightarrow> rank f < rank c" ..
  have down: "c \<in> {g. below_in I f g} \<and> rank g < rank c"
    if "g \<in> {g. below_in I f g}" "mget I3 g = Some m" "c \<in> set (Children m)" for g m c
  proof -
    from that(2) st obtain k where k: "mget I g = Some k" "m = relinked f t x k g" by auto
    with that t have c: "c \<in> set (Children k)" by (auto simp: relinked_def split: if_splits)
    from tree_okD(4) [OF ok k(1) c] obtain l where "mget I c = Some l" by blast
    with below_step [OF _ k(1) c] r k(1) c that(1) show ?thesis by blast
  qed
  have "updateSubtreePathsLocked (fuel I3) f p I3 \<noteq> None"
    by (rule update_returns [where S = "{g. below_in I f g}" and rank = rank and I = I3, OF down])
      (use below_refl [OF n0] above_le(2) [of I3 rank f] in \<open>auto simp: fuel_def\<close>)
  then show ?thesis by (simp add: relink_def Let_def I3_def)
qed

lemma unique_name_ok:
  assumes "name_ok y" shows "name_ok (uniqueNameInDirLocked I dir y i)"
proof -
  have "slash \<notin> set (dec k)" "backslash \<notin> set (dec k)" for k
    using dec_digits [of _ k] by (force simp: backslash_def)+
  with assms have "name_ok (y @ ''__'' @ dec k)" for k
    by (auto simp: name_ok_def plain_def backslash_def append_eq_Cons_conv)
  with assms show ?thesis by (simp add: uniqueNameInDirLocked_def)
qed

text \<open>The name a moved node got was not taken in its new directory.\<close>

definition unclashing :: "fid \<Rightarrow> file_server \<Rightarrow> (fs_error + string) \<times> file_server \<Rightarrow> bool" where
  "unclashing f s outcome \<longleftrightarrow>
     (case outcome of
        (Inl _, _) \<Rightarrow> True
      | (Inr x, s') \<Rightarrow>
          (case mget (fs_inodes s') f of
             None \<Rightarrow> True
           | Some n \<Rightarrow>
               (case Parent n of
                  None \<Rightarrow> True
                | Some p \<Rightarrow> (case mget (fs_inodes s) p of None \<Rightarrow> True | Some dir \<Rightarrow> \<not> nameExistsInDirLocked (fs_inodes s) dir x))))"

lemma name_exists_child: "nameExistsInDirLocked I dir x \<longleftrightarrow> GetChildInodeByName I dir x \<noteq> None"
  by (auto simp: nameExistsInDirLocked_def GetChildInodeByName_def find_None_iff list_ex_iff split: option.splits)

text \<open>A free name stays free when the trash directory is made on the way.\<close>

lemma free_after_trash:
  assumes wf: "fs_wf r cs P s" and wf2: "fs_wf r cs Q s2" and ext: "extends P s Q s2"
    and new: "\<forall>g k. mget (fs_inodes s2) g = Some k \<longrightarrow> mget (fs_inodes s) g = None \<longrightarrow> Q g \<noteq> Q t @ [x]"
    and t: "mget (fs_inodes s2) t = Some m"
    and free: "\<And>dir. mget (fs_inodes s) t = Some dir \<Longrightarrow> \<not> nameExistsInDirLocked (fs_inodes s) dir x"
  shows "\<forall>g k. mget (fs_inodes s2) g = Some k \<longrightarrow> Q g \<noteq> Q t @ [x]"
proof (intro allI impI notI)
  fix g k assume g: "mget (fs_inodes s2) g = Some k" "Q g = Q t @ [x]"
  show False
  proof (cases "mget (fs_inodes s) g")
    case None
    with new g show False by blast
  next
    case (Some l)
    with ext have Pg: "P g = Q t @ [x]" using g(2) by (rule_tac extendsE [OF ext Some]) simp
    from place_above [OF wf Some Pg] node_okD(3) [OF fs_wfD(5) [OF wf2] t] obtain h b where h: "mget (fs_inodes s) h = Some b" "P h = Q t" by auto
    from extendsE [OF ext h(1)] obtain c where "mget (fs_inodes s2) h = Some c" "Q h = P h" by metis
    with place_unique [OF wf2 _ t] h(2) have "h = t" by simp
    with free [of b] h(1) have "GetChildInodeByName (fs_inodes s) b x = None" by (simp add: name_exists_child)
    with child_by_name [OF wf h(1), of x] h(2) Pg Some show False by metis
  qed
qed


lemma same_tables_fields:
  "same_tables s (s\<lparr>fs_Shared := x\<rparr>)" "same_tables s (s\<lparr>trashMeta := y\<rparr>)" "same_tables s (notify_ms rpc s)"
  "same_tables s (snd (SaveDirShares env s))"
  using SaveDirShares_disk [of env s] by (auto simp: same_tables_def notify_ms_def)

lemma same_tables_fold: "(\<And>x v. same_tables v (h x v)) \<Longrightarrow> same_tables s (fold h xs s)"
  by (induction xs arbitrary: s) (auto intro: same_tables_trans)

lemma detach_same: "same_tables s (detachSharedSnapshotsLocked env u snaps s)"
proof -
  have "same_tables v (case e of (p, us) \<Rightarrow> fold (\<lambda>w. RootUnshareRPC u (Base p) p w) us (v\<lparr>fs_Shared := mdel p (fs_Shared v)\<rparr>))" for e v
    by (cases e) (auto simp: RootUnshareRPC_def intro: same_tables_trans same_tables_fields same_tables_fold)
  then have "same_tables s (fold (\<lambda>(p, us) t. fold (\<lambda>w. RootUnshareRPC u (Base p) p w) us (t\<lparr>fs_Shared := mdel p (fs_Shared t)\<rparr>)) snaps s)"
    by (intro same_tables_fold) (simp add: split_beta)
  from same_tables_trans [OF this same_tables_fields(4)] show ?thesis by (simp add: detachSharedSnapshotsLocked_def)
qed

lemma detach_inodes: "fs_inodes (detachSharedSnapshotsLocked env u snaps s) = fs_inodes s"
proof -
  have "fs_inodes (fold (\<lambda>w. RootUnshareRPC u b p w) us v) = fs_inodes v" for b p us v
    by (induction us arbitrary: v) (simp_all add: RootUnshareRPC_def)
  then have "fs_inodes (fold (\<lambda>(p, us) t. fold (\<lambda>w. RootUnshareRPC u (Base p) p w) us (t\<lparr>fs_Shared := mdel p (fs_Shared t)\<rparr>)) snaps s) = fs_inodes s"
    by (induction snaps arbitrary: s) auto
  then show ?thesis by (simp add: detachSharedSnapshotsLocked_def)
qed

lemma reattach_same: "same_tables s (reattachSharedSnapshotsLocked env u oldBase newBase snaps s)"
proof -
  define h where "h = (\<lambda>(p, us) v. (let q = mapped_path oldBase newBase p in
      fold (\<lambda>w v. RootShareRPC u (Base q) q w (v\<lparr>fs_Shared := mput q (add_user w (mslice (fs_Shared v) q)) (fs_Shared v)\<rparr>)) us
        (v\<lparr>fs_Shared := mput q (mslice (fs_Shared v) q) (fs_Shared v)\<rparr>)))"
  have step: "same_tables v (h e v)" for e v
  proof (cases e)
    case (Pair p us)
    have one: "same_tables v (RootShareRPC u b q w (v\<lparr>fs_Shared := y\<rparr>))" for b q w y and v :: file_server
      by (simp add: RootShareRPC_def same_tables_def notify_ms_def)
    show ?thesis unfolding Pair h_def prod.case Let_def
      by (rule same_tables_trans [OF same_tables_fields(1)]) (rule same_tables_fold [OF one])
  qed
  have "same_tables s (snd (SaveDirShares env (fold h snaps s)))"
    by (rule same_tables_trans [OF same_tables_fold [of h, OF step] same_tables_fields(4)])
  then show ?thesis by (simp add: reattachSharedSnapshotsLocked_def h_def)
qed

lemma reattach_inodes: "fs_inodes (reattachSharedSnapshotsLocked env u oldBase newBase snaps s) = fs_inodes s"
proof -
  have "fs_inodes (fold (\<lambda>w v. RootShareRPC u b q w (v\<lparr>fs_Shared := y w v\<rparr>)) us v) = fs_inodes v" for b q y us v
    by (induction us arbitrary: v) (simp_all add: RootShareRPC_def)
  then have "fs_inodes (fold (\<lambda>(p, us) t. (let q = mapped_path oldBase newBase p in
      fold (\<lambda>w v. RootShareRPC u (Base q) q w (v\<lparr>fs_Shared := mput q (add_user w (mslice (fs_Shared v) q)) (fs_Shared v)\<rparr>)) us
        (t\<lparr>fs_Shared := mput q (mslice (fs_Shared t) q) (fs_Shared t)\<rparr>))) snaps s) = fs_inodes s"
    by (induction snaps arbitrary: s) (auto simp: Let_def)
  then show ?thesis by (simp add: reattachSharedSnapshotsLocked_def)
qed

text \<open>A user root cannot be moved: its owner is the user, whose root is refused.\<close>

lemma owned_not_root:
  assumes wf: "fs_wf r cs P s" and f: "mget (fs_inodes s) f = Some n" "Owner (ACL n) = u" and nr: "\<not> is_user_root f u s"
  shows "Parent n \<noteq> Some f"
proof
  assume "Parent n = Some f"
  from node_okD(8) [OF fs_wfD(5) [OF wf] f(1) this] have h: "mget (fs_users s) (hd (P f)) = Some f" by blast
  from root_okE [OF fs_wfD(5) [OF wf] h] f have "hd (P f) = u" by (metis list.sel(1) option.inject)
  with h nr show False by (simp add: is_user_root_def)
qed

lemma TrashFile_cases:
  assumes tf: "TrashFile env (Some f) u rec s = (res, s')" and gi: "GetInode env f s = (Some n, s1)"
    and guards: "\<not> is_user_root f u s1" "\<not> isTrashDirForUser n u s1"
      "validateDeletePermissions (fuel (fs_inodes s1)) (fs_inodes s1) u rec f = None"
    and tr: "getOrCreateTrashDirLocked env u s1 = (tr, s2)"
  obtains (stays) "same_tables s2 s'" "\<exists>e. res = Inl e"
    | (moves) t m x d s4 J where "tr = Inr t" "Parent n \<noteq> Some t" "mget (fs_inodes s2) t = Some m"
      "x = uniqueNameInDirLocked (fs_inodes s2) m (Name n) (InodeID (FID n))"
      "os_Rename (env_err env) (OSPath n) (Join [OSPath m, x]) (fs_disk s2) = (True, d)"
      "same_tables s2 s4" "fs_inodes s4 = fs_inodes s2" "relink f n t x (Join [OSPath m, x]) (fs_inodes s2) = Some J"
      "res = Inr x" "s' = rename_index env (rel_or [] (OSPath n) s2) (Join [OSPath m, x]) (s4\<lparr>fs_inodes := J\<rparr>)"
proof (cases "\<exists>t m. tr = Inr t \<and> Parent n \<noteq> Some t \<and> mget (fs_inodes s2) t = Some m")
  case False
  then show thesis
    using tf gi guards tr stays by (cases tr) (auto simp: TrashFile_def split: if_splits option.splits)
next
  case True
  then obtain t m where t: "tr = Inr t" "Parent n \<noteq> Some t" "mget (fs_inodes s2) t = Some m" by blast
  define x where "x = uniqueNameInDirLocked (fs_inodes s2) m (Name n) (InodeID (FID n))"
  define snaps where "snaps = collectSharedSnapshotsForPathLocked (rel_or [] (OSPath n) s2) s2"
  obtain ok d where rn: "os_Rename (env_err env) (OSPath n) (Join [OSPath m, x]) (fs_disk s2) = (ok, d)" by fastforce
  define s3 where "s3 = detachSharedSnapshotsLocked env u snaps (s2\<lparr>fs_disk := d\<rparr>)"
  define s4 where "s4 = s3\<lparr>trashMeta := mput f \<lparr>originalParentFID = Parent n, originalName = Name n,
      originalRelPath = rel_or [] (OSPath n) s2, sharedSnapshots = snaps\<rparr> (trashMeta s3)\<rparr>"
  have s4: "same_tables s2 s4" unfolding s4_def s3_def
    by (rule same_tables_trans [OF same_tables_trans [OF same_tables_disk detach_same] same_tables_fields(2)])
  have inodes: "fs_inodes s4 = fs_inodes s2" by (simp add: s4_def s3_def detach_inodes)
  note eqs = tf gi guards tr t(1,2,3)
  show thesis
  proof (cases ok)
    case False
    with eqs rn stays show thesis by (auto simp: TrashFile_def Let_def x_def [symmetric])
  next
    case True
    have out: "(case relink f n t x (Join [OSPath m, x]) (fs_inodes s2) of None \<Rightarrow> (Inl Diverges, s4)
        | Some J \<Rightarrow> (Inr x, rename_index env (rel_or [] (OSPath n) s2) (Join [OSPath m, x]) (s4\<lparr>fs_inodes := J\<rparr>))) = (res, s')"
      using eqs rn True unfolding x_def s4_def s3_def snaps_def by (simp add: TrashFile_def Let_def detach_inodes)
    show thesis
    proof (cases "relink f n t x (Join [OSPath m, x]) (fs_inodes s2)")
      case None
      with out s4 stays show thesis by auto
    next
      case (Some J)
      with out moves t x_def rn True s4 inodes show thesis by auto
    qed
  qed
qed


lemma rename_index_tables:
  assumes "oldRel \<noteq> []" "Rel (rootDir v) newPath = Some newRel"
  shows "rename_index env oldRel newPath v = save_index env (v\<lparr>inodeStore := RenamePrefix oldRel newRel (inodeStore v)\<rparr>)"
  using assms by (simp add: rename_index_def)

text \<open>The common end of both moves.\<close>

lemma move_wf:
  assumes mv: "movable r cs P s2 f n2 t x" and n: "FID n = f" "Parent n = Parent n2" "OSPath n = OSPath n2"
    and path: "newPath = render r (cs @ P t @ [x])" and J: "relink f n t x newPath (fs_inodes s2) = Some J"
    and s4: "same_tables s2 s4" and rel: "Rel (rootDir s4) newPath = Some (joined (P t @ [x]))"
  shows "fs_wf r cs (moved_place P (fs_inodes s2) f t x) (rename_index env (rel_or [] (OSPath n) s2) newPath (s4\<lparr>fs_inodes := J\<rparr>))"
proof -
  have wf: "fs_wf r cs P s2" and f: "mget (fs_inodes s2) f = Some n2" using mv by (auto simp: movable_def)
  note old = rel_or_place [OF wf f refl]
  show ?thesis
    by (rule fs_wf_moved [OF mv n(1,2) J [unfolded path]])
      (use s4 rename_index_tables [OF old(2), of "s4\<lparr>fs_inodes := J\<rparr>" newPath "joined (P t @ [x])" env] rel in
        \<open>simp_all add: n(3) old(1) same_tables_def\<close>)
qed

lemma rename_index_kept [simp]: "fs_inodes (rename_index env a b v) = fs_inodes v" "trashMeta (rename_index env a b v) = trashMeta v"
  by (simp_all add: rename_index_def split: option.split)

lemma extends_below:
  assumes wf: "fs_wf r cs P s" "fs_wf r cs Q t" "extends P s Q t" and "mget (fs_inodes s) f = Some n" "mget (fs_inodes s) g = Some m"
  shows "below_in (fs_inodes t) f g \<longleftrightarrow> below_in (fs_inodes s) f g"
proof -
  from extendsE [OF assms(3,4)] obtain n' where n': "Q f = P f" "mget (fs_inodes t) f = Some n'" by metis
  from extendsE [OF assms(3,5)] obtain m' where m': "Q g = P g" "mget (fs_inodes t) g = Some m'" by metis
  show ?thesis using below_place [OF wf(1) assms(4,5)] below_place [OF wf(2) n'(2) m'(2)] n'(1) m'(1) by simp
qed

lemma same_below: "same_tables s t \<Longrightarrow> below_in (fs_inodes t) = below_in (fs_inodes s)"
  unfolding same_tables_def by (metis alike_shape below_in_shape)

lemma alike_names:
  assumes al: "alike I J" and free: "\<And>dir. mget I t = Some dir \<Longrightarrow> \<not> nameExistsInDirLocked I dir x" and dir: "mget J t = Some dir"
  shows "\<not> nameExistsInDirLocked J dir x"
proof -
  from alikeD [OF alike_sym [OF al] dir] obtain d where d: "mget I t = Some d" "bare_node dir = bare_node d" .
  have "(case mget J c of None \<Rightarrow> False | Some m \<Rightarrow> Name m = x) = (case mget I c of None \<Rightarrow> False | Some m \<Rightarrow> Name m = x)" for c
  proof (cases "mget J c")
    case None
    then have "mget I c = None" using al unfolding alike_def by (metis map_option_is_None)
    with None show ?thesis by simp
  next
    case (Some m)
    from alikeD [OF alike_sym [OF al] Some] obtain k where "mget I c = Some k" "bare_node m = bare_node k" .
    with Some bare_node_fields(2) [of m k] show ?thesis by simp
  qed
  with free [OF d(1)] show ?thesis by (simp add: nameExistsInDirLocked_def bare_node_fields(4) [OF d(2)])
qed

text \<open>What a successful move to the trash has found before it moves anything.\<close>

lemma TrashFile_prepared:
  assumes wf: "fs_wf r cs P s" and room: "room_left s" and tf: "TrashFile env (Some f) u rec s = (res, s')"
  obtains (stays) Q e where "fs_wf r cs Q s'" "res = Inl e"
    | (moves) n s1 s2 Q n2 t m x s4 J where
      "GetInode env f s = (Some n, s1)" "FID n = f" "fs_wf r cs Q s2" "extends P s Q s2"
      "\<forall>g k. mget (fs_inodes s2) g = Some k \<longrightarrow> mget (fs_inodes s) g = None \<longrightarrow> Q g = [u, trashDirName]"
      "mget (fs_inodes s2) f = Some n2" "Parent n2 = Parent n" "OSPath n2 = OSPath n" "Q f = P f" "Parent n2 \<noteq> Some f"
      "mget (fs_inodes s2) t = Some m" "Type m = InodeTypeDirectory" "Q t = [u, trashDirName]" "Parent n2 \<noteq> Some t"
      "name_ok x" "\<not> below_in (fs_inodes s2) f t" "relink f n t x (Join [OSPath m, x]) (fs_inodes s2) = Some J" "res = Inr x"
      "s' = rename_index env (rel_or [] (OSPath n) s2) (Join [OSPath m, x]) (s4\<lparr>fs_inodes := J\<rparr>)" "same_tables s2 s4"
      "map_option Parent (mget (fs_inodes s') f) = Some (Some t)"
      "\<forall>g k. mget (fs_inodes s2) g = Some k \<longrightarrow> (\<exists>k'. mget (fs_inodes s') g = Some k' \<and> Type k' = Type k \<and> ACL k' = ACL k)"
proof -
  obtain gi s1 where gi: "GetInode env f s = (gi, s1)" by fastforce
  have same1: "same_tables s s1" using GetInode_same [of s env f] gi by simp
  have wf1: "fs_wf r cs P s1" by (rule fs_wf_same [OF wf same1])
  show thesis
  proof (cases "s' = s1 \<and> (\<exists>e. res = Inl e)")
    case True
    with wf1 stays [of P] show thesis by auto
  next
    case False
    with tf gi obtain n where n: "gi = Some n" and guards: "\<not> is_user_root f u s1" "\<not> isTrashDirForUser n u s1"
      "validateDeletePermissions (fuel (fs_inodes s1)) (fs_inodes s1) u rec f = None"
      by (auto simp: TrashFile_def split: option.splits if_splits)
    note gi' = gi [unfolded n] and n1 = GetInode_found(2) [OF wf gi [unfolded n]]
    obtain tr s2 where tr: "getOrCreateTrashDirLocked env u s1 = (tr, s2)" by fastforce
    have room1: "store_room (inodeStore s1)" using same1 room_assign(1) [OF room] by (simp add: same_tables_def)
    obtain Q where Q: "fs_wf r cs Q s2" "extends P s1 Q s2"
      "\<forall>g k. mget (fs_inodes s2) g = Some k \<longrightarrow> mget (fs_inodes s1) g = None \<longrightarrow> Q g = [u, trashDirName]"
      "\<forall>t. tr = Inr t \<longrightarrow> (\<exists>k. mget (fs_inodes s2) t = Some k \<and> Type k = InodeTypeDirectory \<and> Q t = [u, trashDirName])"
      by (rule getOrCreateTrash_wf [OF wf1 room1 tr]) blast
    have new: "\<forall>g k. mget (fs_inodes s2) g = Some k \<longrightarrow> mget (fs_inodes s) g = None \<longrightarrow> Q g = [u, trashDirName]"
      using Q(3) same1 unfolding same_tables_def alike_def by (metis map_option_is_None)
    have own: "Owner (ACL n) = u" by (rule validate_owned [OF fs_wfD(3) [OF wf1] guards(3) below_refl [OF n1] n1])
    have nr: "Parent n \<noteq> Some f" by (rule owned_not_root [OF wf1 n1 own guards(1)])
    from extendsE [OF Q(2) n1] obtain n2 where n2: "mget (fs_inodes s2) f = Some n2" "Parent n2 = Parent n" "OSPath n2 = OSPath n" "Q f = P f" by metis
    show thesis
    proof (rule TrashFile_cases [OF tf gi' guards tr])
      assume "same_tables s2 s'" "\<exists>e. res = Inl e"
      with fs_wf_same [OF Q(1)] stays [of Q] show thesis by auto
    next
      fix t m x d s4 J
      assume t: "tr = Inr t" "mget (fs_inodes s2) t = Some m" "Parent n \<noteq> Some t"
        and x: "x = uniqueNameInDirLocked (fs_inodes s2) m (Name n) (InodeID (FID n))"
        and ren: "os_Rename (env_err env) (OSPath n) (Join [OSPath m, x]) (fs_disk s2) = (True, d)"
        and s4: "same_tables s2 s4" and J: "relink f n t x (Join [OSPath m, x]) (fs_inodes s2) = Some J"
        and out: "res = Inr x" "s' = rename_index env (rel_or [] (OSPath n) s2) (Join [OSPath m, x]) (s4\<lparr>fs_inodes := J\<rparr>)"
      from Q(4) t(1,2) have Qt: "Type m = InodeTypeDirectory" "Q t = [u, trashDirName]" by auto
      have xok: "name_ok x" unfolding x
        by (rule unique_name_ok) (use node_okD(3,4,6) [OF fs_wfD(5) [OF wf1] n1] in \<open>auto simp: list_all_iff\<close>)
      have nb: "\<not> below_in (fs_inodes s2) f t" "t \<noteq> f" using move_target(3) [OF Q(1) n2(1) t(2) xok ren [folded n2(3)]] by simp_all
      have fid: "FID n = f" by (rule tree_okD(2) [OF fs_wfD(3) [OF wf1] n1])
      have nr2: "Parent n2 \<noteq> Some f" "Parent n2 \<noteq> Some t" using nr t(3) n2(2) by simp_all
      note rk = relink_kept [OF fs_wfD(3) [OF Q(1)] n2(1) fid n2(2) [symmetric] nr2(1) nb(2) J]
      have par: "map_option Parent (mget (fs_inodes s') f) = Some (Some t)" using rk(1) by (simp add: out(2))
      have kept: "\<forall>g k. mget (fs_inodes s2) g = Some k \<longrightarrow> (\<exists>k'. mget (fs_inodes s') g = Some k' \<and> Type k' = Type k \<and> ACL k' = ACL k)"
        using rk(2) by (simp add: out(2))
      show thesis
        by (rule moves [OF gi' fid Q(1) extends_trans [OF GetInode_extends [OF gi] Q(2)] new n2 nr2(1) t(2) Qt nr2(2) xok nb(1) J out s4 par kept])
    qed
  qed
qed

lemma TrashFile_wf:
  assumes wf: "fs_wf r cs P s" and room: "room_left s" and tf: "TrashFile env (Some f) u rec s = (res, s')"
    and guard: "unclashing f s (res, s')"
  obtains Q where "fs_wf r cs Q s'"
    "\<And>x g m. res = Inr x \<Longrightarrow> mget (fs_inodes s) g = Some m \<Longrightarrow>
       Q g = (if below_in (fs_inodes s) f g then [u, trashDirName, x] @ drop (length (P f)) (P g) else P g)
       \<and> (\<exists>m'. mget (fs_inodes s') g = Some m' \<and> Type m' = Type m \<and> ACL m' = ACL m)"
    "\<And>x. res = Inr x \<Longrightarrow> butlast (P f) \<notin> {[], [u, trashDirName]} \<and> P f \<noteq> [u, trashDirName]
       \<and> (\<forall>g k. mget (fs_inodes s') g = Some k \<longrightarrow> mget (fs_inodes s) g = None \<longrightarrow> Q g = [u, trashDirName])"
proof (rule TrashFile_prepared [OF wf room tf])
  fix Q e assume "fs_wf r cs Q s'" "res = Inl e"
  with that [of Q] show thesis by auto
next
  fix n s1 s2 Q n2 t m x s4 J
  assume gi: "GetInode env f s = (Some n, s1)" and fid: "FID n = f" and Q: "fs_wf r cs Q s2" "extends P s Q s2"
    and new: "\<forall>g k. mget (fs_inodes s2) g = Some k \<longrightarrow> mget (fs_inodes s) g = None \<longrightarrow> Q g = [u, trashDirName]"
    and n2: "mget (fs_inodes s2) f = Some n2" "Parent n2 = Parent n" "OSPath n2 = OSPath n" "Q f = P f" "Parent n2 \<noteq> Some f"
    and t: "mget (fs_inodes s2) t = Some m" "Type m = InodeTypeDirectory" "Q t = [u, trashDirName]" "Parent n2 \<noteq> Some t"
    and xok: "name_ok x" and nb: "\<not> below_in (fs_inodes s2) f t"
    and J: "relink f n t x (Join [OSPath m, x]) (fs_inodes s2) = Some J" and out: "res = Inr x"
      "s' = rename_index env (rel_or [] (OSPath n) s2) (Join [OSPath m, x]) (s4\<lparr>fs_inodes := J\<rparr>)" "same_tables s2 s4"
    and par: "map_option Parent (mget (fs_inodes s') f) = Some (Some t)"
    and kept: "\<forall>g k. mget (fs_inodes s2) g = Some k \<longrightarrow> (\<exists>k'. mget (fs_inodes s') g = Some k' \<and> Type k' = Type k \<and> ACL k' = ACL k)"
  note tgt = move_target [OF Q(1) n2(1) t(1) xok]
  have "same_tables s s1" using GetInode_same [of s env f] gi by simp
  with GetInode_found(2) [OF wf gi] obtain n0 where n0: "mget (fs_inodes s) f = Some n0"
    using alikeD [OF alike_sym] unfolding same_tables_def by metis
  have "\<not> nameExistsInDirLocked (fs_inodes s) dir x" if "mget (fs_inodes s) t = Some dir" for dir
    using guard out(1) par that by (auto simp: unclashing_def)
  from free_after_trash [OF wf Q(1,2) _ t(1) this] new t(3)
  have free: "\<forall>g k. mget (fs_inodes s2) g = Some k \<longrightarrow> Q g \<noteq> Q t @ [x]" by auto
  have mv: "movable r cs Q s2 f n2 t x" using Q(1) n2(1,5) t(1,2) nb xok free by (auto simp: movable_def)
  from move_wf [OF mv fid n2(2,3) [symmetric] tgt(1) J out(3)] tgt(2) [of s4] out(2,3)
  have wf': "fs_wf r cs (moved_place Q (fs_inodes s2) f t x) s'" by (simp add: same_tables_def)
  from tree_okD(3) [OF fs_wfD(3) [OF Q(1)] n2(1)] obtain pp k where pp: "Parent n2 = Some pp" "mget (fs_inodes s2) pp = Some k" by blast
  have place: "Q pp = butlast (P f)" using node_okD(9) [OF fs_wfD(5) [OF Q(1)] n2(1) pp(1)] pp(1) n2(4,5) by auto
  have above: "butlast (P f) \<noteq> []" "butlast (P f) \<noteq> [u, trashDirName]" "P f \<noteq> [u, trashDirName]"
    using node_okD(3) [OF fs_wfD(5) [OF Q(1)] pp(2)] place_unique [OF Q(1) pp(2) t(1)] place_unique [OF Q(1) n2(1) t(1)]
      place pp(1) t(3,4) n2(4) nb below_refl [OF n2(1)] by auto
  show thesis
  proof (rule that [OF wf'])
    fix y g k assume y: "res = Inr y" and k: "mget (fs_inodes s) g = Some k"
    from extendsE [OF Q(2) k] obtain k2 where k2: "Q g = P g" "mget (fs_inodes s2) g = Some k2" "Type k2 = Type k" "ACL k2 = ACL k" by metis
    moreover have "below_in (fs_inodes s2) f g = below_in (fs_inodes s) f g" by (rule extends_below [OF wf Q(1,2) n0 k])
    moreover have "\<exists>k'. mget (fs_inodes s') g = Some k' \<and> Type k' = Type k \<and> ACL k' = ACL k" using kept k2 by metis
    ultimately show "moved_place Q (fs_inodes s2) f t x g =
        (if below_in (fs_inodes s) f g then [u, trashDirName, y] @ drop (length (P f)) (P g) else P g)
        \<and> (\<exists>k'. mget (fs_inodes s') g = Some k' \<and> Type k' = Type k \<and> ACL k' = ACL k)"
      using y out(1) t(3) n2(4) by (simp add: moved_place_def)
  next
    have "moved_place Q (fs_inodes s2) f t x g = [u, trashDirName]" if g: "mget (fs_inodes s') g = Some k" "mget (fs_inodes s) g = None" for g k
    proof -
      obtain k2 where k2: "mget (fs_inodes s2) g = Some k2"
        using relink_dom [OF fs_wfD(3) [OF Q(1)] n2(1) fid n2(2) [symmetric] n2(5) nb J, of g] g(1) out(2) by auto
      with new g(2) have Qg: "Q g = [u, trashDirName]" by blast
      then have "g = t" using place_unique [OF Q(1) k2 t(1)] t(3) by simp
      with nb Qg show ?thesis by (simp add: moved_place_def)
    qed
    with above show "butlast (P f) \<notin> {[], [u, trashDirName]} \<and> P f \<noteq> [u, trashDirName]
       \<and> (\<forall>g k. mget (fs_inodes s') g = Some k \<longrightarrow> mget (fs_inodes s) g = None \<longrightarrow> moved_place Q (fs_inodes s2) f t x g = [u, trashDirName])"
      by blast
  qed
qed

lemma TrashFile_records:
  assumes "TrashFile env (Some f) u rec s = (Inr x, s')"
  obtains n s1 e where "GetInode env f s = (Some n, s1)" "mget (trashMeta s') f = Some e"
    "originalParentFID e = Parent n" "originalName e = Name n"
  using assms by (auto simp: TrashFile_def Let_def split: option.splits if_splits prod.splits sum.splits bool.splits)

lemma GetInode_meta: "trashMeta (snd (GetInode env f s)) = trashMeta s"
  by (simp add: GetInode_def split: option.split)

lemma getOrCreateTrash_meta: "trashMeta (snd (getOrCreateTrashDirLocked env u s)) = trashMeta s"
  by (simp add: getOrCreateTrashDirLocked_def assign_id_eq Let_def split: option.split prod.split bool.split)

lemma RestoreFile_cases:
  assumes rf: "RestoreFile env (Some f) u q s = (res, s')" and gi: "GetInode env f s = (Some n, s1)"
    and may: "userCanAccessInode n (if q = [] then u else q)" and tr: "getOrCreateTrashDirLocked env u s1 = (tr, s2)"
  obtains (stays) "same_tables s2 s'" "\<exists>e. res = Inl e"
    | (moves) t meta p m x d J v where "tr = Inr t" "Parent n = Some t" "mget (trashMeta s2) f = Some meta"
      "restore_target meta u s2 = Inr (p, m)" "Type m = InodeTypeDirectory"
      "x = uniqueNameInDirLocked (fs_inodes s2) m (originalName meta) (InodeID (FID n))"
      "os_Rename (env_err env) (OSPath n) (Join [OSPath m, x]) (fs_disk s2) = (True, d)"
      "relink f n p x (Join [OSPath m, x]) (fs_inodes s2) = Some J" "res = Inr x"
      "v = rename_index env (rel_or [] (OSPath n) s2) (Join [OSPath m, x]) (s2\<lparr>fs_disk := d, fs_inodes := J\<rparr>)"
      "same_tables v s'" "fs_inodes s' = fs_inodes v"
proof (cases "\<exists>t meta p m. tr = Inr t \<and> Parent n = Some t \<and> mget (trashMeta s2) f = Some meta
    \<and> restore_target meta u s2 = Inr (p, m) \<and> Type m = InodeTypeDirectory")
  case False
  then have "s' = s2 \<and> (\<exists>e. res = Inl e)"
    using rf gi may tr by (cases tr) (auto simp: RestoreFile_def Let_def split: if_splits option.splits sum.splits prod.splits)
  with stays show thesis by auto
next
  case True
  then obtain t meta p m where t: "tr = Inr t" "Parent n = Some t" "mget (trashMeta s2) f = Some meta"
    "restore_target meta u s2 = Inr (p, m)" "Type m = InodeTypeDirectory" by blast
  define x where "x = uniqueNameInDirLocked (fs_inodes s2) m (originalName meta) (InodeID (FID n))"
  obtain ok d where rn: "os_Rename (env_err env) (OSPath n) (Join [OSPath m, x]) (fs_disk s2) = (ok, d)" by fastforce
  note eqs = rf gi may tr t
  show thesis
  proof (cases "ok \<and> relink f n p x (Join [OSPath m, x]) (fs_inodes s2) \<noteq> None")
    case False
    then have "s' = s2\<lparr>fs_disk := d\<rparr> \<and> (\<exists>e. res = Inl e)"
      using eqs rn unfolding x_def by (cases ok) (auto simp: RestoreFile_def Let_def)
    with stays show thesis by auto
  next
    case True
    then obtain J where J: "relink f n p x (Join [OSPath m, x]) (fs_inodes s2) = Some J" by auto
    define v where "v = rename_index env (rel_or [] (OSPath n) s2) (Join [OSPath m, x]) (s2\<lparr>fs_disk := d, fs_inodes := J\<rparr>)"
    define w where "w = (if sharedSnapshots meta \<noteq> [] \<and> originalRelPath meta \<noteq> []
      then reattachSharedSnapshotsLocked env u (originalRelPath meta) (rel_or (originalRelPath meta) (Join [OSPath m, x]) v) (sharedSnapshots meta) v
      else v)"
    have s': "res = Inr x" "s' = w\<lparr>trashMeta := mdel f (trashMeta w)\<rparr>"
      using eqs rn True J unfolding x_def v_def w_def by (simp_all add: RestoreFile_def Let_def)
    have "same_tables v w" "fs_inodes w = fs_inodes v" by (simp_all add: w_def reattach_same reattach_inodes)
    then have vs: "same_tables v s'" "fs_inodes s' = fs_inodes v" using same_tables_trans [OF _ same_tables_fields(2)] by (simp_all add: s'(2))
    have rn': "os_Rename (env_err env) (OSPath n) (Join [OSPath m, x]) (fs_disk s2) = (True, d)" using rn True by simp
    show thesis by (rule moves [OF t x_def rn' J s'(1) v_def vs])
  qed
qed

text \<open>What a successful restore has found before it moves anything.\<close>

lemma RestoreFile_prepared:
  assumes wf: "fs_wf r cs P s" and room: "room_left s" and rf: "RestoreFile env (Some f) u q s = (res, s')"
    and names: "\<And>e. mget (trashMeta s) f = Some e \<Longrightarrow> name_ok (originalName e)"
  obtains (stays) Q e where "fs_wf r cs Q s'" "res = Inl e"
    | (moves) n s1 s2 Q n2 meta p m x d J v where
      "GetInode env f s = (Some n, s1)" "FID n = f" "fs_wf r cs Q s2" "extends P s1 Q s2"
      "\<forall>g k. mget (fs_inodes s2) g = Some k \<longrightarrow> mget (fs_inodes s1) g \<noteq> None"
      "mget (fs_inodes s2) f = Some n2" "Parent n2 = Parent n" "OSPath n2 = OSPath n" "Q f = P f" "Parent n2 \<noteq> Some f"
      "mget (trashMeta s) f = Some meta" "restore_target meta u s2 = Inr (p, m)" "Type m = InodeTypeDirectory"
      "mget (fs_inodes s2) p = Some m" "name_ok x" "\<not> below_in (fs_inodes s2) f p"
      "x = uniqueNameInDirLocked (fs_inodes s2) m (originalName meta) (InodeID f)"
      "relink f n p x (Join [OSPath m, x]) (fs_inodes s2) = Some J" "res = Inr x"
      "v = rename_index env (rel_or [] (OSPath n) s2) (Join [OSPath m, x]) (s2\<lparr>fs_disk := d, fs_inodes := J\<rparr>)"
      "same_tables v s'" "map_option Parent (mget (fs_inodes s') f) = Some (Some p)"
      "\<forall>g k. mget (fs_inodes s2) g = Some k \<longrightarrow> (\<exists>k'. mget (fs_inodes s') g = Some k' \<and> Type k' = Type k \<and> ACL k' = ACL k)"
proof -
  obtain gi s1 where gi: "GetInode env f s = (gi, s1)" by fastforce
  have same1: "same_tables s s1" using GetInode_same [of s env f] gi by simp
  have wf1: "fs_wf r cs P s1" by (rule fs_wf_same [OF wf same1])
  show thesis
  proof (cases "s' = s1 \<and> (\<exists>e. res = Inl e)")
    case True
    with wf1 stays [of P] show thesis by auto
  next
    case False
    with rf gi obtain n where n: "gi = Some n" and may: "userCanAccessInode n (if q = [] then u else q)"
      by (auto simp: RestoreFile_def Let_def split: option.splits if_splits)
    note gi' = gi [unfolded n] and n1 = GetInode_found(2) [OF wf gi [unfolded n]]
    obtain tr s2 where tr: "getOrCreateTrashDirLocked env u s1 = (tr, s2)" by fastforce
    have room1: "store_room (inodeStore s1)" using same1 room_assign(1) [OF room] by (simp add: same_tables_def)
    obtain Q where Q: "fs_wf r cs Q s2" "extends P s1 Q s2"
      "\<forall>g k. mget (fs_inodes s2) g = Some k \<longrightarrow> mget (fs_inodes s1) g = None \<longrightarrow> Q g = [u, trashDirName]"
      "\<forall>t. tr = Inr t \<longrightarrow> (\<exists>k. mget (fs_inodes s2) t = Some k \<and> Type k = InodeTypeDirectory \<and> Q t = [u, trashDirName])"
      by (rule getOrCreateTrash_wf [OF wf1 room1 tr]) blast
    from extendsE [OF Q(2) n1] obtain n2 where n2: "mget (fs_inodes s2) f = Some n2" "Parent n2 = Parent n" "OSPath n2 = OSPath n" "Q f = P f" by metis
    have meta2: "trashMeta s2 = trashMeta s" using GetInode_meta [of env f s] getOrCreateTrash_meta [of env u s1] gi tr by simp
    show thesis
    proof (rule RestoreFile_cases [OF rf gi' may tr])
      assume "same_tables s2 s'" "\<exists>e. res = Inl e"
      with fs_wf_same [OF Q(1)] stays [of Q] show thesis by auto
    next
      fix t meta p m x d J v
      assume t: "tr = Inr t" "Parent n = Some t" and meta: "mget (trashMeta s2) f = Some meta"
        and tg: "restore_target meta u s2 = Inr (p, m)" "Type m = InodeTypeDirectory"
        and x: "x = uniqueNameInDirLocked (fs_inodes s2) m (originalName meta) (InodeID (FID n))"
        and ren: "os_Rename (env_err env) (OSPath n) (Join [OSPath m, x]) (fs_disk s2) = (True, d)"
        and J: "relink f n p x (Join [OSPath m, x]) (fs_inodes s2) = Some J"
        and out: "res = Inr x" "v = rename_index env (rel_or [] (OSPath n) s2) (Join [OSPath m, x]) (s2\<lparr>fs_disk := d, fs_inodes := J\<rparr>)"
          "same_tables v s'" "fs_inodes s' = fs_inodes v"
      have pm: "mget (fs_inodes s2) p = Some m" using tg(1) by (auto simp: restore_target_def split: option.splits)
      from Q(4) t obtain tk where tk: "mget (fs_inodes s2) t = Some tk" "Q t = [u, trashDirName]" by auto
      have nr2: "Parent n2 \<noteq> Some f" using node_okD(8) [OF fs_wfD(5) [OF Q(1)] n2(1)] n2(2) t(2) tk(2) by auto
      from tree_okD(3) [OF fs_wfD(3) [OF wf1] n1] t(2) obtain tk1 where tk1: "mget (fs_inodes s1) t = Some tk1" by auto
      have old: "mget (fs_inodes s1) g \<noteq> None" if "mget (fs_inodes s2) g = Some k" for g k
        using Q(3) that place_unique [OF Q(1) that tk(1)] tk(2) tk1 by auto
      have xok: "name_ok x" unfolding x by (rule unique_name_ok) (use names meta meta2 in simp)
      have nb: "\<not> below_in (fs_inodes s2) f p" "p \<noteq> f" using move_target(3) [OF Q(1) n2(1) pm xok ren [folded n2(3)]] by simp_all
      have fid: "FID n = f" by (rule tree_okD(2) [OF fs_wfD(3) [OF wf1] n1])
      note rk = relink_kept [OF fs_wfD(3) [OF Q(1)] n2(1) fid n2(2) [symmetric] nr2 nb(2) J]
      have par: "map_option Parent (mget (fs_inodes s') f) = Some (Some p)" using rk(1) by (simp add: out(2,4))
      have kept: "\<forall>g k. mget (fs_inodes s2) g = Some k \<longrightarrow> (\<exists>k'. mget (fs_inodes s') g = Some k' \<and> Type k' = Type k \<and> ACL k' = ACL k)"
        using rk(2) by (simp add: out(2,4))
      show thesis
        by (rule moves [OF gi' fid Q(1,2) _ n2 nr2 _ tg pm xok nb(1) _ J out(1,2,3) par kept]) (use old meta meta2 x fid in auto)
    qed
  qed
qed

text \<open>The name the restored node gets is the old one when that is free.\<close>

lemma RestoreFile_named:
  assumes wf: "fs_wf r cs P s" and room: "room_left s" and rf: "RestoreFile env (Some f) u q s = (Inr y, s')"
    and meta: "mget (trashMeta s) f = Some e" "name_ok (originalName e)" "originalParentFID e = Some p" "mget (fs_inodes s) p = Some k"
    and free: "\<And>g m. mget (fs_inodes s) g = Some m \<Longrightarrow> P g \<noteq> P p @ [originalName e]"
  shows "y = originalName e \<and> unclashing f s (Inr y, s') \<and> map_option Parent (mget (fs_inodes s') f) = Some (Some p)"
proof -
  have names: "\<And>e. mget (trashMeta s) f = Some e \<Longrightarrow> name_ok (originalName e)" using meta(1,2) by simp
  show ?thesis
  proof (rule RestoreFile_prepared [OF wf room rf names])
    fix n s1 s2 Q n2 meta' p' m x d J v
    assume gi: "GetInode env f s = (Some n, s1)" and Q: "fs_wf r cs Q s2" "extends P s1 Q s2"
      "\<forall>g k. mget (fs_inodes s2) g = Some k \<longrightarrow> mget (fs_inodes s1) g \<noteq> None"
      and tg: "mget (trashMeta s) f = Some meta'" "restore_target meta' u s2 = Inr (p', m)" "mget (fs_inodes s2) p' = Some m"
      and x: "x = uniqueNameInDirLocked (fs_inodes s2) m (originalName meta') (InodeID f)"
      and out: "Inr y = Inr x" "map_option Parent (mget (fs_inodes s') f) = Some (Some p')"
    have al: "alike (fs_inodes s) (fs_inodes s1)" using GetInode_same [of s env f] gi by (simp add: same_tables_def)
    from alikeD [OF al meta(4)] obtain k1 where k1: "mget (fs_inodes s1) p = Some k1" .
    from extendsE [OF Q(2) k1] obtain k2 where k2: "mget (fs_inodes s2) p = Some k2" "Q p = P p" by metis
    have p': "p' = p" "meta' = e" using tg(1,2) meta(1,3) k2(1) by (auto simp: restore_target_def)
    have "\<forall>g l. mget (fs_inodes s2) g = Some l \<longrightarrow> Q g \<noteq> Q p @ [originalName e]"
    proof (intro allI impI)
      fix g l assume "mget (fs_inodes s2) g = Some l"
      with Q(3) obtain l1 where l1: "mget (fs_inodes s1) g = Some l1" by blast
      from alikeD [OF alike_sym [OF al] l1] obtain l0 where "mget (fs_inodes s) g = Some l0" .
      from free [OF this] extendsE [OF Q(2) l1] k2(2) show "Q g \<noteq> Q p @ [originalName e]" by metis
    qed
    then have "\<not> nameExistsInDirLocked (fs_inodes s2) k2 (originalName e)"
      using child_by_name [OF Q(1) k2(1), of "originalName e"] by (simp add: name_exists_child)
    then have y: "y = originalName e" using x out(1) tg(3) k2(1) by (simp add: p' uniqueNameInDirLocked_def)
    have "\<not> nameExistsInDirLocked (fs_inodes s) k (originalName e)"
      using child_by_name [OF wf meta(4), of "originalName e"] free by (simp add: name_exists_child)
    with y out(2) meta(4) p'(1) show ?thesis by (auto simp: unclashing_def)
  qed simp_all
qed

lemma RestoreFile_wf:
  assumes wf: "fs_wf r cs P s" and room: "room_left s" and rf: "RestoreFile env (Some f) u q s = (res, s')"
    and guard: "unclashing f s (res, s')"
    and names: "\<And>e. mget (trashMeta s) f = Some e \<Longrightarrow> name_ok (originalName e)"
  obtains Q where "fs_wf r cs Q s'"
    "\<And>x. res = Inr x \<Longrightarrow> \<exists>p k. mget (fs_inodes s) p = Some k \<and> map_option Parent (mget (fs_inodes s') f) = Some (Some p)
       \<and> (\<forall>g m. mget (fs_inodes s) g = Some m \<longrightarrow>
            Q g = (if below_in (fs_inodes s) f g then P p @ x # drop (length (P f)) (P g) else P g)
            \<and> (\<exists>m'. mget (fs_inodes s') g = Some m' \<and> Type m' = Type m \<and> ACL m' = ACL m))"
proof (rule RestoreFile_prepared [OF wf room rf names])
  fix Q e assume "fs_wf r cs Q s'" "res = Inl e"
  with that [of Q] show thesis by auto
next
  fix n s1 s2 Q n2 meta p m x d J v
  assume gi: "GetInode env f s = (Some n, s1)" and fid: "FID n = f" and Q: "fs_wf r cs Q s2" "extends P s1 Q s2"
    and old: "\<forall>g k. mget (fs_inodes s2) g = Some k \<longrightarrow> mget (fs_inodes s1) g \<noteq> None"
    and n2: "mget (fs_inodes s2) f = Some n2" "Parent n2 = Parent n" "OSPath n2 = OSPath n" "Q f = P f" "Parent n2 \<noteq> Some f"
    and tg: "Type m = InodeTypeDirectory" "mget (fs_inodes s2) p = Some m" and xok: "name_ok x" and nb: "\<not> below_in (fs_inodes s2) f p"
    and J: "relink f n p x (Join [OSPath m, x]) (fs_inodes s2) = Some J" and out: "res = Inr x"
      "v = rename_index env (rel_or [] (OSPath n) s2) (Join [OSPath m, x]) (s2\<lparr>fs_disk := d, fs_inodes := J\<rparr>)"
      "same_tables v s'" and par: "map_option Parent (mget (fs_inodes s') f) = Some (Some p)"
    and kept: "\<forall>g k. mget (fs_inodes s2) g = Some k \<longrightarrow> (\<exists>k'. mget (fs_inodes s') g = Some k' \<and> Type k' = Type k \<and> ACL k' = ACL k)"
  have same1: "same_tables s s1" using GetInode_same [of s env f] gi by simp
  have wf1: "fs_wf r cs P s1" by (rule fs_wf_same [OF wf same1])
  have al: "alike (fs_inodes s) (fs_inodes s1)" using same1 by (simp add: same_tables_def)
  note n1 = GetInode_found(2) [OF wf gi] and tgt = move_target [OF Q(1) n2(1) tg(2) xok]
  have "\<not> nameExistsInDirLocked (fs_inodes s) dir x" if "mget (fs_inodes s) p = Some dir" for dir
    using guard out(1) par that by (auto simp: unclashing_def)
  then have "\<not> nameExistsInDirLocked (fs_inodes s1) dir x" if "mget (fs_inodes s1) p = Some dir" for dir
    using alike_names [OF al] that by blast
  from free_after_trash [OF wf1 Q(1,2) _ tg(2) this] old
  have free: "\<forall>g k. mget (fs_inodes s2) g = Some k \<longrightarrow> Q g \<noteq> Q p @ [x]" by auto
  have mv: "movable r cs Q s2 f n2 p x" using Q(1) n2(1,5) tg nb xok free by (auto simp: movable_def)
  from move_wf [OF mv fid n2(2,3) [symmetric] tgt(1) J same_tables_disk [of s2 d]] tgt(2) [of "s2\<lparr>fs_disk := d\<rparr>"] out(2)
  have "fs_wf r cs (moved_place Q (fs_inodes s2) f p x) v" by simp
  from fs_wf_same [OF this out(3)] have wf': "fs_wf r cs (moved_place Q (fs_inodes s2) f p x) s'" .
  from old tg(2) obtain k1 where k1: "mget (fs_inodes s1) p = Some k1" by blast
  from alikeD [OF alike_sym [OF al] k1] obtain k where k: "mget (fs_inodes s) p = Some k" .
  have "moved_place Q (fs_inodes s2) f p x g = (if below_in (fs_inodes s) f g then P p @ x # drop (length (P f)) (P g) else P g)
      \<and> (\<exists>l'. mget (fs_inodes s') g = Some l' \<and> Type l' = Type l \<and> ACL l' = ACL l)"
    if g: "mget (fs_inodes s) g = Some l" for g l
  proof -
    from alikeD [OF al g] obtain l1 where l1: "mget (fs_inodes s1) g = Some l1" .
    from extendsE [OF extends_trans [OF GetInode_extends [OF gi, of P] Q(2)] g] obtain l2 where
      l2: "Q g = P g" "mget (fs_inodes s2) g = Some l2" "Type l2 = Type l" "ACL l2 = ACL l" by metis
    then have "\<exists>l'. mget (fs_inodes s') g = Some l' \<and> Type l' = Type l \<and> ACL l' = ACL l" using kept by metis
    moreover note l2(1)
    moreover from extendsE [OF Q(2) k1] have "Q p = P p" by metis
    moreover have "below_in (fs_inodes s2) f g = below_in (fs_inodes s) f g"
      using extends_below [OF wf1 Q(1,2) n1 l1] same_below [OF same1] by simp
    ultimately show ?thesis using n2(4) by (simp add: moved_place_def)
  qed
  with k par out(1) show thesis by (intro that [OF wf']) auto
qed

end
