(* ===== verification/File_Runs.thy ===== *)
theory File_Runs
  imports File_Moves
begin

text \<open>
  Runs of a fileserver: any sequence of its operations keeps the tables consistent, as long as inode
  numbers are left, new users have proper names, and no move meets a taken name.
\<close>

section \<open>Deleting\<close>

lemma fold_forget_ids:
  assumes "\<And>g n. (g, n) \<in> set vs \<Longrightarrow> Rel (rootDir s) (OSPath n) = Some (joined (P g)) \<and> list_all name_ok (P g) \<and> P g \<noteq> []"
    "store_inv (inodeStore s)"
  shows "path_ids (inodeStore (fold forget_inode vs s)) q
      = (if \<exists>g\<in>set (map fst vs). q = joined (P g) then None else path_ids (inodeStore s) q)
    \<and> store_inv (inodeStore (fold forget_inode vs s))"
  using assms
proof (induction vs arbitrary: s)
  case (Cons v vs)
  obtain g n where v: "v = (g, n)" by (cases v)
  have rel: "Rel (rootDir s) (OSPath n) = Some (joined (P g))" "list_all name_ok (P g)" "P g \<noteq> []" using Cons.prems(1) [of g n] by (simp_all add: v)
  have st: "inodeStore (forget_inode v s) = store_Remove (joined (P g)) (inodeStore s)" "rootDir (forget_inode v s) = rootDir s"
    by (simp_all add: forget_inode_def v rel(1))
  have ids: "path_ids (store_Remove (joined (P g)) (inodeStore s)) q = (if q = joined (P g) then None else path_ids (inodeStore s) q)" for q
    by (simp add: path_ids_def store_Remove_def normalizePath_joined [OF rel(2,3)])
  have prem: "Rel (rootDir (forget_inode v s)) (OSPath k) = Some (joined (P h)) \<and> list_all name_ok (P h) \<and> P h \<noteq> []" if "(h, k) \<in> set vs" for h k
    using Cons.prems(1) [of h k] that by (simp add: st(2))
  have inv: "store_inv (inodeStore (forget_inode v s))" unfolding st(1) by (rule store_inv_remove [OF Cons.prems(2)])
  from Cons.IH [OF prem inv] show ?case unfolding st(1) ids by (cases "q = joined (P g)") (simp_all add: v)
qed simp_all

lemma fold_forget_kept [simp]:
  "serverID (fold forget_inode vs s) = serverID s" "fs_users (fold forget_inode vs s) = fs_users s"
  by (induction vs arbitrary: s) (auto simp: forget_inode_def split: prod.split)

lemma forget_subtree_tables:
  "rootDir (forget_subtree env n u ups doomed s) = rootDir s" "serverID (forget_subtree env n u ups doomed s) = serverID s"
  "fs_users (forget_subtree env n u ups doomed s) = fs_users s"
  "inodeStore (forget_subtree env n u ups doomed s)
     = inodeStore (fold forget_inode (map (\<lambda>f. (f, the (mget (fs_inodes s) f))) doomed)
         (s\<lparr>fs_inodes := (if Size n > 0 then deduct_sizes (Size n) ups (fs_inodes s) else fs_inodes s)\<rparr>))"
proof -
  have "same_tables v (fold (\<lambda>(p, us). fold (\<lambda>w. RootUnshareRPC u (Base p) p w) us) snaps v)" for snaps v
    by (rule same_tables_fold) (auto simp: RootUnshareRPC_def split: prod.split intro!: same_tables_fold same_tables_fields)
  moreover have "same_tables v (detach_deleted env snaps v)" for snaps v
    using same_tables_trans [OF same_tables_fields(1) same_tables_fields(4)] by (simp add: detach_deleted_def)
  ultimately show "rootDir (forget_subtree env n u ups doomed s) = rootDir s" "serverID (forget_subtree env n u ups doomed s) = serverID s"
    "fs_users (forget_subtree env n u ups doomed s) = fs_users s"
    "inodeStore (forget_subtree env n u ups doomed s)
     = inodeStore (fold forget_inode (map (\<lambda>f. (f, the (mget (fs_inodes s) f))) doomed)
         (s\<lparr>fs_inodes := (if Size n > 0 then deduct_sizes (Size n) ups (fs_inodes s) else fs_inodes s)\<rparr>))"
    by (simp_all add: forget_subtree_def Let_def same_tables_def fold_forget)
qed

lemma DeleteFile_refused:
  assumes "DeleteFile env fo u rec s = (Some e, s')"
  shows "same_tables s s'"
proof (cases fo)
  case None
  with assms show ?thesis by (simp add: DeleteFile_def)
next
  case (Some f)
  obtain gi s1 where gi: "GetInode env f s = (gi, s1)" by fastforce
  have "s' = s1 \<or> (\<exists>d. s' = s1\<lparr>fs_disk := d\<rparr>)"
    using assms gi by (auto simp: Some DeleteFile_def Let_def split: option.splits if_splits prod.splits bool.splits)
  with GetInode_same [of s env f] gi same_tables_trans [OF _ same_tables_disk] show ?thesis by auto
qed

lemma DeleteFile_wf:
  assumes wf: "fs_wf r cs P s"
  shows "fs_wf r cs P (snd (DeleteFile env fo u rec s))"
proof (cases "DeleteFile env fo u rec s")
  case (Pair res s')
  show ?thesis
  proof (cases "res = None")
    case False
    with Pair DeleteFile_refused [of env fo u rec s _ s'] fs_wf_same [OF wf] show ?thesis by auto
  next
    case True
    then obtain f where fo: "fo = Some f" using Pair by (cases fo) (auto simp: DeleteFile_def)
    have del: "DeleteFile env (Some f) u rec s = (None, s')" using Pair True fo by simp
    note w = fs_wfD [OF wf]
    obtain s1 n ups doomed d where gi: "GetInode env f s = (Some n, s1)" and doomed: "set doomed = {g. below_in (fs_inodes s) f g}"
      and s': "s' = forget_subtree env n u ups doomed (s1\<lparr>fs_disk := d\<rparr>)" and nr: "\<not> is_user_root f u s1"
      and val: "validateDeletePermissions (fuel (fs_inodes s1)) (fs_inodes s1) u rec f = None"
      by (rule DeleteFile_doomedE [OF w(3) del])
    obtain n0 I' where n0: "mget (fs_inodes s) f = Some n0" and I': "size_eq (fs_inodes s) I'" and gok: "gomap_ok (fs_inodes s')"
      and J: "\<And>g. mget (fs_inodes s') g = (if below_in (fs_inodes s) f g then None else map_option (unlinked f) (mget I' g))"
      by (rule DeleteFile_okE [OF w(3) del]) blast
    have same1: "same_tables s s1" using GetInode_same [of s env f] gi by simp
    have wf1: "fs_wf r cs P s1" by (rule fs_wf_same [OF wf same1])
    note w1 = fs_wfD [OF wf1] and n1 = GetInode_found(2) [OF wf gi]
    have own: "Owner (ACL n) = u" by (rule validate_owned [OF w1(3) val below_refl [OF n1] n1])
    have nroot: "Parent n \<noteq> Some f" by (rule owned_not_root [OF wf1 n1 own nr])
    have bel: "below_in (fs_inodes s1) = below_in (fs_inodes s)" by (rule same_below [OF same1])
    have st: "path_ids (inodeStore s') q = (if \<exists>g\<in>set doomed. q = joined (P g) then None else path_ids (inodeStore s1) q)
        \<and> store_inv (inodeStore s')" for q
    proof -
      let ?vs = "map (\<lambda>g. (g, the (mget (fs_inodes s1) g))) doomed"
      define I1 where "I1 = (if Size n > 0 then deduct_sizes (Size n) ups (fs_inodes s1) else fs_inodes s1)"
      let ?s = "s1\<lparr>fs_disk := d, fs_inodes := I1\<rparr>"
      have "Rel (rootDir ?s) (OSPath k) = Some (joined (P g)) \<and> list_all name_ok (P g) \<and> P g \<noteq> []" if "(g, k) \<in> set ?vs" for g k
      proof -
        from that doomed bel have "below_in (fs_inodes s1) f g" "k = the (mget (fs_inodes s1) g)" by auto
        with below_dom have k: "mget (fs_inodes s1) g = Some k" by fastforce
        note nk = node_okD [OF w1(5) k]
        from Rel_render [OF _ w1(2) name_ok_plain [OF nk(4)] nk(3)] w1(1,2) nk show ?thesis by simp
      qed
      from fold_forget_ids [of ?vs ?s P q, OF this] w1(4)
      have "path_ids (inodeStore (fold forget_inode ?vs ?s)) q = (if \<exists>g\<in>set doomed. q = joined (P g) then None else path_ids (inodeStore s1) q)
          \<and> store_inv (inodeStore (fold forget_inode ?vs ?s))" by simp
      moreover have "inodeStore s' = inodeStore (fold forget_inode ?vs ?s)" by (simp only: s' forget_subtree_tables I1_def) simp
      ultimately show ?thesis by simp
    qed
    have pok: "paths_ok r cs P (serverID s) (fs_users s) (path_ids (inodeStore s')) (fs_inodes s')"
      unfolding paths_ok_def
    proof (intro conjI allI impI)
      fix g k assume "mget (fs_inodes s') g = Some k"
      then obtain m' where nb: "\<not> below_in (fs_inodes s) f g" and m': "mget I' g = Some m'" "k = unlinked f m'" using J [of g] by (auto split: if_splits)
      from size_eqD [OF size_eq_sym [OF I'] m'(1)] obtain m where m: "mget (fs_inodes s) g = Some m" "m'\<lparr>Size := 0\<rparr> = m\<lparr>Size := 0\<rparr>" .
      note ng = node_okD [OF w(5) m(1)]
      have "\<not> (\<exists>h\<in>set doomed. joined (P g) = joined (P h))"
      proof
        assume "\<exists>h\<in>set doomed. joined (P g) = joined (P h)"
        then obtain h where h: "below_in (fs_inodes s) f h" "joined (P g) = joined (P h)" using doomed by auto
        from below_dom [OF h(1)] obtain l where l: "mget (fs_inodes s) h = Some l" by blast
        have "P g = P h"
          by (rule joined_inj [OF name_ok_plain [OF ng(4)] name_ok_plain [OF node_okD(4) [OF w(5) l]] ng(3) node_okD(3) [OF w(5) l] h(2)])
        with place_unique [OF wf m(1) l] h(1) nb show False by simp
      qed
      then have "path_ids (inodeStore s') (joined (P g)) = Some (InodeID g)"
        using st ng(7) same1 by (simp add: same_tables_def)
      with ng erase_size_fields [OF m(2)] show "node_ok r cs P (serverID s) (fs_users s) (path_ids (inodeStore s')) g k"
        by (auto simp: node_ok_def m'(2))
    next
      fix v h assume v: "mget (fs_users s) v = Some h"
      from root_okE [OF w(5) v] obtain k where
        k: "mget (fs_inodes s) h = Some k" "P h = [v]" "Parent k = Some h" "Type k = InodeTypeDirectory" "Owner (ACL k) = v" by metis
      have "\<not> below_in (fs_inodes s) f h"
      proof
        assume "below_in (fs_inodes s) f h"
        then have "P h = P f" using below_place [OF wf n0 k(1)] k(2) node_okD(3) [OF w(5) n0] by (auto simp: Cons_eq_append_conv)
        then have "h = f" by (rule place_unique [OF wf k(1) n0])
        moreover from alikeD [of "fs_inodes s" "fs_inodes s1" f n0] same1 n0 n1 have "Parent n = Parent n0"
          by (metis bare_node_fields(5) option.inject same_tables_def)
        ultimately show False using nroot k(1,3) n0 by simp
      qed
      moreover from size_eqD [OF I' k(1)] obtain k' where k': "mget I' h = Some k'" "k\<lparr>Size := 0\<rparr> = k'\<lparr>Size := 0\<rparr>" .
      ultimately show "root_ok P (fs_inodes s') v h" using k erase_size_fields [OF k'(2)] J [of h] by (simp add: root_ok_def)
    qed
    have "tree_ok (fs_inodes s')" by (rule tree_ok_deleted [OF w(3) gok I' J])
    with pok st same1 w(1,2) show ?thesis by (simp add: Pair fs_wf_def s' forget_subtree_tables same_tables_def)
  qed
qed


section \<open>Operations that leave the places alone\<close>

definition undisturbed :: "file_server \<Rightarrow> file_server \<Rightarrow> bool" where
  "undisturbed s t \<longleftrightarrow> same_tables s t \<and> trashMeta t = trashMeta s"

lemma undisturbed_refl [simp, intro]: "undisturbed s s"
  by (simp add: undisturbed_def)

lemma undisturbed_trans: "undisturbed s t \<Longrightarrow> undisturbed t v \<Longrightarrow> undisturbed s v"
  by (auto simp: undisturbed_def intro: same_tables_trans)

lemma undisturbed_fold: "(\<And>x v. undisturbed v (h x v)) \<Longrightarrow> undisturbed s (fold h xs s)"
  by (induction xs arbitrary: s) (auto intro: undisturbed_trans)

lemma undisturbed_parts:
  "undisturbed s (s\<lparr>fs_disk := d\<rparr>)" "undisturbed s (s\<lparr>fs_Shared := x\<rparr>)" "undisturbed s (notify_ms rpc s)"
  "undisturbed s (snd (SaveDirShares env s))" "undisturbed s (snd (SaveACL env p a s))" "undisturbed s (s\<lparr>quotas := q\<rparr>)"
  using same_tables_fields SaveDirShares_kept(8) SaveACL_disk [of env p a s]
  by (auto simp: undisturbed_def same_tables_def notify_ms_def)

lemma undisturbed_GetInode: "undisturbed s (snd (GetInode env f s))"
  by (simp add: undisturbed_def GetInode_same GetInode_meta)

lemma undisturbed_get: "GetInode env f s = (n, s1) \<Longrightarrow> undisturbed s s1"
  using undisturbed_GetInode [of s env f] by simp

lemma undisturbed_walk: "undisturbed s (snd (walk_root env cur comps s))"
proof (induction env cur comps s rule: walk_root.induct)
  case (2 env cur c rest s)
  then show ?case by (auto split: option.splits prod.splits dest: undisturbed_get intro: undisturbed_trans)
qed simp

lemma undisturbed_children: "undisturbed s (snd (get_children env cs s))"
proof (induction env cs s rule: get_children.induct)
  case (2 env c cs s)
  then show ?case by (auto split: option.splits prod.splits dest: undisturbed_get intro: undisturbed_trans)
qed simp

lemma undisturbed_set_shared:
  assumes "mget (fs_inodes s) f = Some n"
  shows "undisturbed s (set_shared env f n us s)"
proof -
  let ?n = "n\<lparr>ACL := (ACL n)\<lparr>SharedWith := us\<rparr>\<rparr>"
  have "undisturbed s (s\<lparr>fs_inodes := mput f ?n (fs_inodes s)\<rparr>)"
    using assms by (auto simp: undisturbed_def same_tables_def alike_def bare_node_def)
  with undisturbed_trans [OF this undisturbed_parts(5)] show ?thesis
    by (simp add: set_shared_def Let_def split: option.split)
qed

lemma undisturbed_share_loops:
  "undisturbed s (fold (share_inode env u) fs s)" "undisturbed s (fold (unshare_inode env u) fs s)"
  by (rule undisturbed_fold, simp add: share_inode_def unshare_inode_def undisturbed_set_shared split: option.split)+

lemma undisturbed_Share: "undisturbed s (snd (Share env owner u f s))"
proof (cases "GetInode env f s")
  case (Pair gi s1)
  have "undisturbed s1 (RootShareRPC a b c e (snd (SaveDirShares env ((fold (share_inode env u) xs s1)\<lparr>fs_Shared := x\<rparr>))))" for a b c e xs x
    unfolding RootShareRPC_def
    by (rule undisturbed_trans [OF undisturbed_trans [OF undisturbed_trans [OF undisturbed_share_loops(1)
          undisturbed_parts(2)] undisturbed_parts(4)] undisturbed_parts(3)])
  with undisturbed_get [OF Pair] show ?thesis
    by (auto simp: Share_def Pair Let_def split: option.split intro: undisturbed_trans)
qed

lemma undisturbed_Unshare: "undisturbed s (snd (Unshare env owner u f s))"
proof (cases "GetInode env f s")
  case (Pair gi s1)
  have rpc: "undisturbed v (RootUnshareRPC a b c e (snd (SaveDirShares env v)))" for v a b c e
    unfolding RootUnshareRPC_def by (rule undisturbed_trans [OF undisturbed_parts(4) undisturbed_parts(3)])
  have s1: "undisturbed s s1" by (rule undisturbed_get [OF Pair])
  have "undisturbed s (fold (unshare_inode env u) xs s1)" "undisturbed s ((fold (unshare_inode env u) xs s1)\<lparr>fs_Shared := x\<rparr>)" for xs x
    using undisturbed_trans [OF s1 undisturbed_share_loops(2)] undisturbed_trans [OF _ undisturbed_parts(2)] by blast+
  note loops = undisturbed_trans [OF this(1) rpc] undisturbed_trans [OF this(2) rpc]
  from s1 loops show ?thesis by (auto simp: Unshare_def Pair Let_def split: option.split)
qed

lemma undisturbed_find: "undisturbed s (snd (find_file env p x s))"
proof (cases "GetInode env p s")
  case (Pair gi s1)
  from undisturbed_get [OF Pair] show ?thesis by (auto simp: find_file_def Pair split: option.split)
qed

lemma undisturbed_WriteFile: "undisturbed s (snd (WriteFile env p x off dt s))"
proof (cases "find_file env p x s")
  case (Pair ff s1)
  have gok: "gomap_ok I \<Longrightarrow> gomap_ok (add_sizes d chain I)" for d chain I
    by (induction chain arbitrary: I) (simp_all add: add_sizes_def)
  have sizes: "undisturbed s1 (s1\<lparr>fs_disk := d, fs_inodes := add_sizes z chain (fs_inodes s1)\<rparr>)" for d z chain
    using gok alike_size [OF size_eq_add_sizes] by (simp add: undisturbed_def same_tables_def)
  have "undisturbed s s1" using undisturbed_find [of s env p x] Pair by simp
  with undisturbed_trans [OF this sizes] undisturbed_trans [OF this undisturbed_parts(1)] show ?thesis
    by (auto simp: WriteFile_def Pair Let_def split: sum.split option.split prod.split bool.split)
qed

lemma undisturbed_reads:
  "undisturbed s (snd (ReadFile env p x off len s))" "undisturbed s (snd (GetFileHash env H p x s))"
  using undisturbed_find [of s env p x]
  by (auto simp: ReadFile_def GetFileHash_def Let_def split: prod.split sum.split option.split)

lemma undisturbed_lists:
  "undisturbed s (snd (ListDirectory env f s))" "undisturbed s (snd (Path env f s))" "undisturbed s (snd (ChangeDir env f pth ro s))"
proof -
  obtain gi s1 where gi: "GetInode env f s = (gi, s1)" by fastforce
  note s1 = undisturbed_get [OF gi]
  show "undisturbed s (snd (Path env f s))" using s1 by (auto simp: Path_def gi split: option.split)
  show "undisturbed s (snd (ListDirectory env f s))"
    using s1 undisturbed_trans [OF s1 undisturbed_children] by (auto simp: ListDirectory_def gi split_beta split: option.split)
  show "undisturbed s (snd (ChangeDir env f pth ro s))"
    using s1 by (auto simp: ChangeDir_def gi split: option.split sum.split bool.split)
qed


lemma undisturbed_SetUserQuota: "undisturbed s (snd (SetUserQuota env u q s))"
proof -
  have "undisturbed v (snd (saveQuotasLocked env v))" for v
    by (auto simp: saveQuotasLocked_def Let_def undisturbed_parts split: prod.split bool.split)
  from undisturbed_trans [OF undisturbed_parts(6) this] show ?thesis by (simp add: SetUserQuota_def)
qed

section \<open>The names kept for a restore\<close>

definition metas_ok :: "file_server \<Rightarrow> bool" where
  "metas_ok s \<longleftrightarrow> (\<forall>f e. mget (trashMeta s) f = Some e \<longrightarrow> name_ok (originalName e))"

lemma metas_less:
  assumes "metas_ok s" "\<And>f. mget (trashMeta t) f = mget (trashMeta s) f \<or> mget (trashMeta t) f = None"
  shows "metas_ok t"
  using assms unfolding metas_ok_def by (metis option.distinct(1))

lemma assign_meta [simp]: "trashMeta (snd (assign_id p s)) = trashMeta s"
  by (simp add: assign_id_eq)

lemma GetUserRoot_meta: "trashMeta (snd (GetUserRoot env path u s)) = trashMeta s"
proof -
  have cr: "trashMeta (snd (create_user_root env u s)) = trashMeta s"
    by (simp add: create_user_root_def assign_id_eq Let_def split: prod.split bool.split sum.split)
  have wk: "trashMeta (snd (walk_root env g comps v)) = trashMeta v" for g comps v
    using undisturbed_walk [of v env g comps] by (simp add: undisturbed_def)
  show ?thesis
    using cr getOrCreateTrash_meta [of env u] wk
    by (auto simp: GetUserRoot_def Let_def split_beta simp del: walk_root.simps split: option.split sum.split list.split)
qed

lemma CreateFile_meta: "trashMeta (snd (CreateFile env p x u ty s)) = trashMeta s"
proof -
  have ut: "trashMeta (snd (isUnderTrashLocked env p u v)) = trashMeta v" for v
    using getOrCreateTrash_meta [of env u v] by (auto simp: isUnderTrashLocked_def split: prod.split sum.split)
  obtain gi s1 where gi: "GetInode env p s = (gi, s1)" by fastforce
  have s1: "trashMeta s1 = trashMeta s" using GetInode_meta [of env p s] gi by simp
  obtain verdict s2 where v: "isUnderTrashLocked env p u s1 = (verdict, s2)" by fastforce
  have "trashMeta s2 = trashMeta s" using ut [of s1] v s1 by simp
  with s1 show ?thesis
    by (auto simp: CreateFile_def gi v Let_def assign_id_eq split: option.split bool.split prod.split)
qed

lemma detach_meta: "trashMeta (detachSharedSnapshotsLocked env u snaps s) = trashMeta s"
proof -
  have "trashMeta (fold (\<lambda>w. RootUnshareRPC u b p w) us v) = trashMeta v" for b p us v
    by (induction us arbitrary: v) (simp_all add: RootUnshareRPC_def)
  then have "trashMeta (fold (\<lambda>(p, us) t. fold (\<lambda>w. RootUnshareRPC u (Base p) p w) us (t\<lparr>fs_Shared := mdel p (fs_Shared t)\<rparr>)) snaps s) = trashMeta s"
    by (induction snaps arbitrary: s) auto
  then show ?thesis by (simp add: detachSharedSnapshotsLocked_def)
qed

lemma reattach_meta: "trashMeta (reattachSharedSnapshotsLocked env u oldBase newBase snaps s) = trashMeta s"
proof -
  have "trashMeta (fold (\<lambda>w v. RootShareRPC u b q w (v\<lparr>fs_Shared := y w v\<rparr>)) us v) = trashMeta v" for b q y us v
    by (induction us arbitrary: v) (simp_all add: RootShareRPC_def)
  then have "trashMeta (fold (\<lambda>(p, us) t. (let q = mapped_path oldBase newBase p in
      fold (\<lambda>w v. RootShareRPC u (Base q) q w (v\<lparr>fs_Shared := mput q (add_user w (mslice (fs_Shared v) q)) (fs_Shared v)\<rparr>)) us
        (t\<lparr>fs_Shared := mput q (mslice (fs_Shared t) q) (fs_Shared t)\<rparr>))) snaps s) = trashMeta s"
    by (induction snaps arbitrary: s) (auto simp: Let_def)
  then show ?thesis by (simp add: reattachSharedSnapshotsLocked_def)
qed

lemma TrashFile_meta:
  assumes wf: "fs_wf r cs P s" and ok: "metas_ok s"
  shows "metas_ok (snd (TrashFile env fo u rec s))"
proof (cases fo)
  case (Some f)
  obtain gi s1 where gi: "GetInode env f s = (gi, s1)" by fastforce
  obtain tr s2 where tr: "getOrCreateTrashDirLocked env u s1 = (tr, s2)" by fastforce
  have s1: "trashMeta s1 = trashMeta s" using GetInode_meta [of env f s] gi by simp
  have s2: "trashMeta s2 = trashMeta s" using getOrCreateTrash_meta [of env u s1] tr s1 by simp
  have nm: "name_ok (Name n)" if "gi = Some n" for n
  proof -
    note g = gi [unfolded that]
    from node_okD(3,4,6) [OF fs_wfD(5) [OF GetInode_found(1) [OF wf g]] GetInode_found(2) [OF wf g]] show ?thesis
      by (auto simp: list_all_iff)
  qed
  show ?thesis using s1 s2 ok nm
    by (auto simp: TrashFile_def Some gi tr Let_def detach_meta metas_ok_def split: option.split bool.split prod.split sum.split)
qed (use ok in \<open>simp add: TrashFile_def\<close>)

lemma RestoreFile_meta: "metas_ok s \<Longrightarrow> metas_ok (snd (RestoreFile env fo u q s))"
proof (cases fo)
  case (Some f)
  assume ok: "metas_ok s"
  obtain gi s1 where gi: "GetInode env f s = (gi, s1)" by fastforce
  obtain tr s2 where tr: "getOrCreateTrashDirLocked env u s1 = (tr, s2)" by fastforce
  have s1: "trashMeta s1 = trashMeta s" using GetInode_meta [of env f s] gi by simp
  have s2: "trashMeta s2 = trashMeta s" using getOrCreateTrash_meta [of env u s1] tr s1 by simp
  have "trashMeta (snd (RestoreFile env fo u q s)) = trashMeta s \<or> trashMeta (snd (RestoreFile env fo u q s)) = mdel f (trashMeta s)"
    using s1 s2 by (auto simp: RestoreFile_def Some gi tr Let_def reattach_meta split: option.split bool.split prod.split sum.split)
  with ok show ?thesis by (auto simp: metas_ok_def split: if_splits)
qed (simp add: RestoreFile_def)

lemma forget_subtree_meta:
  "trashMeta (forget_subtree env n u ups doomed s) = mdel_all doomed (trashMeta s)"
proof -
  have forget: "trashMeta (fold forget_inode vs v) = mdel_all (map fst vs) (trashMeta v)" for vs v
    by (induction vs arbitrary: v) (auto simp: forget_inode_def mdel_all_def split: prod.split)
  have rpc: "trashMeta (fold (\<lambda>w. RootUnshareRPC u b p w) us v) = trashMeta v" for b p us v
    by (induction us arbitrary: v) (simp_all add: RootUnshareRPC_def)
  have "trashMeta (fold (\<lambda>(p, us). fold (\<lambda>w. RootUnshareRPC u (Base p) p w) us) snaps v) = trashMeta v" for snaps v
    by (induction snaps arbitrary: v) (auto simp: rpc)
  moreover have "trashMeta (detach_deleted env snaps v) = trashMeta v" for snaps v by (simp add: detach_deleted_def)
  ultimately show ?thesis by (simp add: forget_subtree_def Let_def forget comp_def)
qed

lemma DeleteFile_meta:
  assumes wf: "fs_wf r cs P s" and ok: "metas_ok s"
  shows "metas_ok (snd (DeleteFile env fo u rec s))"
proof (cases "DeleteFile env fo u rec s")
  case (Pair res s')
  show ?thesis
  proof (cases "\<exists>f. fo = Some f \<and> res = None")
    case True
    then obtain f where "DeleteFile env (Some f) u rec s = (None, s')" using Pair by auto
    then obtain s1 n ups xs d where gi: "GetInode env f s = (Some n, s1)" and "s' = forget_subtree env n u ups xs (s1\<lparr>fs_disk := d\<rparr>)"
      by (rule DeleteFile_doomedE [OF fs_wfD(3) [OF wf]])
    then have "trashMeta s' = mdel_all xs (trashMeta s)" using GetInode_meta [of env f s] by (simp add: forget_subtree_meta)
    with ok show ?thesis by (auto simp: Pair metas_ok_def split: if_splits)
  next
    case False
    have "trashMeta s' = trashMeta s"
    proof (cases fo)
      case (Some f)
      with False Pair obtain e where "DeleteFile env (Some f) u rec s = (Some e, s')" by auto
      moreover obtain gi s1 where gi: "GetInode env f s = (gi, s1)" by fastforce
      ultimately have "s' = s1 \<or> (\<exists>d. s' = s1\<lparr>fs_disk := d\<rparr>)"
        by (auto simp: DeleteFile_def Let_def split: option.splits if_splits prod.splits bool.splits)
      with GetInode_meta [of env f s] gi show ?thesis by auto
    qed (use Pair in \<open>simp add: DeleteFile_def\<close>)
    with ok show ?thesis by (simp add: Pair metas_ok_def)
  qed
qed

section \<open>Runs\<close>

datatype fs_op =
    FRoot string string
  | FCreate fid string string inode_type
  | FWrite fid string u64 "byte list"
  | FRead fid string u64 u64
  | FHash "byte list \<Rightarrow> string" fid string
  | FShare string string fid
  | FUnshare string string fid
  | FTrash "fid option" string bool
  | FRestore "fid option" string string
  | FDelete "fid option" string bool
  | FShowTrash string string
  | FList fid
  | FPath fid
  | FCd fid string "fid option"
  | FQuota string u64

fun fs_exec :: "fs_env \<Rightarrow> fs_op \<Rightarrow> file_server \<Rightarrow> file_server" where
  "fs_exec env (FRoot path u) s = snd (GetUserRoot env path u s)"
| "fs_exec env (FCreate p x u ty) s = snd (CreateFile env p x u ty s)"
| "fs_exec env (FWrite p x off dt) s = snd (WriteFile env p x off dt s)"
| "fs_exec env (FRead p x off len) s = snd (ReadFile env p x off len s)"
| "fs_exec env (FHash H p x) s = snd (GetFileHash env H p x s)"
| "fs_exec env (FShare ow u f) s = snd (Share env ow u f s)"
| "fs_exec env (FUnshare ow u f) s = snd (Unshare env ow u f s)"
| "fs_exec env (FTrash fo u rec) s = snd (TrashFile env fo u rec s)"
| "fs_exec env (FRestore fo u q) s = snd (RestoreFile env fo u q s)"
| "fs_exec env (FDelete fo u rec) s = snd (DeleteFile env fo u rec s)"
| "fs_exec env (FShowTrash u q) s = snd (ShowTrash env u q s)"
| "fs_exec env (FList f) s = snd (ListDirectory env f s)"
| "fs_exec env (FPath f) s = snd (Path env f s)"
| "fs_exec env (FCd f p ro) s = snd (ChangeDir env f p ro s)"
| "fs_exec env (FQuota u q) s = snd (SetUserQuota env u q s)"

text \<open>
  The conditions of a step: inode numbers are left; a user seen for the first time has a name that is one
  path component, and an access list found for them on disk names them as owner; a move does not end on a
  name that is taken. Nothing in the code guarantees the last two.
\<close>

fun fs_guard :: "fs_env \<Rightarrow> fs_op \<Rightarrow> file_server \<Rightarrow> bool" where
  "fs_guard env (FRoot path u) s \<longleftrightarrow> room_left s \<and> (mget (fs_users s) u = None \<longrightarrow> name_ok u \<and> root_owned env u s)"
| "fs_guard env (FTrash (Some f) u rec) s \<longleftrightarrow> room_left s \<and> unclashing f s (TrashFile env (Some f) u rec s)"
| "fs_guard env (FRestore (Some f) u q) s \<longleftrightarrow> room_left s \<and> unclashing f s (RestoreFile env (Some f) u q s)"
| "fs_guard env op s \<longleftrightarrow> room_left s"

inductive fs_step :: "file_server \<Rightarrow> fs_env \<times> fs_op \<Rightarrow> file_server \<Rightarrow> bool" where
  fs_stepI: "fs_guard env op s \<Longrightarrow> fs_step s (env, op) (fs_exec env op s)"

inductive_cases fs_stepE: "fs_step s (env, op) t"

definition fs_ok :: "file_server \<Rightarrow> bool" where
  "fs_ok s \<longleftrightarrow> fs_inv s \<and> metas_ok s"

lemma fs_okE:
  assumes "fs_ok s"
  obtains r cs P where "fs_wf r cs P s" "metas_ok s"
  using assms by (auto simp: fs_ok_def fs_inv_def)

lemma fs_okI: "fs_wf r cs P s \<Longrightarrow> metas_ok s \<Longrightarrow> fs_ok s"
  by (auto simp: fs_ok_def fs_inv_def)

lemma undisturbed_ok: "fs_ok s \<Longrightarrow> undisturbed s t \<Longrightarrow> fs_ok t"
  by (auto elim!: fs_okE intro!: fs_okI simp: undisturbed_def metas_ok_def intro: fs_wf_same)

lemma fs_exec_ok:
  assumes ok: "fs_ok s" and guard: "fs_guard env op s"
  shows "fs_ok (fs_exec env op s)"
proof -
  from ok obtain r cs P where wf: "fs_wf r cs P s" and me: "metas_ok s" by (rule fs_okE)
  show ?thesis
  proof (cases op)
    case (FRoot path u)
    with guard GetUserRoot_wf [OF wf, of u env path] obtain Q where "fs_wf r cs Q (snd (GetUserRoot env path u s))" by auto
    with me show ?thesis by (auto intro!: fs_okI simp: FRoot metas_ok_def GetUserRoot_meta)
  next
    case (FCreate p x u ty)
    obtain res s' where cf: "CreateFile env p x u ty s = (res, s')" by fastforce
    from guard FCreate have room: "room_left s" by simp
    from CreateFile_wf [OF wf room cf] obtain Q where "fs_wf r cs Q s'" by metis
    with me CreateFile_meta [of env p x u ty s] cf show ?thesis by (auto intro!: fs_okI simp: FCreate metas_ok_def)
  next
    case (FTrash fo u rec)
    show ?thesis
    proof (cases fo)
      case (Some f)
      obtain res s' where tf: "TrashFile env (Some f) u rec s = (res, s')" by fastforce
      from guard FTrash Some tf have g: "room_left s" "unclashing f s (res, s')" by simp_all
      from TrashFile_wf [OF wf g(1) tf g(2)] obtain Q where "fs_wf r cs Q s'" by metis
      with TrashFile_meta [OF wf me, of env fo u rec] tf show ?thesis by (auto intro!: fs_okI simp: FTrash Some)
    qed (use ok FTrash in \<open>simp add: TrashFile_def\<close>)
  next
    case (FRestore fo u q)
    show ?thesis
    proof (cases fo)
      case (Some f)
      obtain res s' where rf: "RestoreFile env (Some f) u q s = (res, s')" by fastforce
      from guard FRestore Some rf have g: "room_left s" "unclashing f s (res, s')" by simp_all
      have nm: "name_ok (originalName e)" if "mget (trashMeta s) f = Some e" for e using me that by (simp add: metas_ok_def)
      obtain Q where "fs_wf r cs Q s'" by (rule RestoreFile_wf [OF wf g(1) rf g(2)]) (use nm in blast)+
      with RestoreFile_meta [OF me, of env fo u q] rf show ?thesis by (auto intro!: fs_okI simp: FRestore Some)
    qed (use ok FRestore in \<open>simp add: RestoreFile_def\<close>)
  next
    case (FDelete fo u rec)
    with fs_okI [OF DeleteFile_wf [OF wf] DeleteFile_meta [OF wf me]] show ?thesis by simp
  next
    case (FShowTrash u q)
    obtain tr s1 where tr: "getOrCreateTrashDirLocked env u s = (tr, s1)" by fastforce
    from guard FShowTrash have room: "store_room (inodeStore s)" using room_assign(1) by simp
    from getOrCreateTrash_wf [OF wf room tr] obtain Q where "fs_wf r cs Q s1" by metis
    moreover have "metas_ok s1" using me getOrCreateTrash_meta [of env u s] tr by (simp add: metas_ok_def)
    ultimately have s1: "fs_ok s1" by (rule fs_okI)
    from undisturbed_ok [OF s1 undisturbed_children] s1 show ?thesis
      by (auto simp: FShowTrash ShowTrash_def tr Let_def split_beta split: sum.split option.split)
  qed (auto intro: undisturbed_ok [OF ok] undisturbed_WriteFile undisturbed_reads undisturbed_lists undisturbed_Share
      undisturbed_Unshare undisturbed_SetUserQuota)
qed

interpretation fileserver: op_system fs_step fs_ok
  by unfold_locales (auto elim!: fs_stepE intro: fs_exec_ok)

end
