(* ===== verification/File_Consistency.thy ===== *)
theory File_Consistency
  imports File_Runs
begin

text \<open>
  What the invariant of the fileserver's tables means to its clients: where inodes are in every reachable
  state, where a creation puts them, that a restore undoes a move to the trash, and that no operation
  walks the tree forever.
\<close>

section \<open>Consistent tables\<close>




lemma place_of_parent:
  assumes wf: "fs_wf r cs P s" and f: "mget (fs_inodes s) f = Some n" and p: "Parent n = Some p" "p \<noteq> f" "mget (fs_inodes s) p = Some m"
  shows "OSPath n = Join [OSPath m, Name n]"
proof -
  note w = fs_wfD(2,5) [OF wf]
  note nf = node_okD [OF w(2) f] and np = node_okD [OF w(2) p(3)]
  have "P f = P p @ [Name n]" using nf(3,6) nf(9) [OF p(1,2)] by simp
  moreover from this have "name_ok (Name n)" using nf(4) by simp
  ultimately show ?thesis using Join_place [OF w(1) np(4)] nf(5) np(5) by simp
qed


definition demo_place :: "fid \<Rightarrow> string list" where
  "demo_place f =
     (if f = dfid 0 then [''u''] else if f = dfid 1 then [''u'', ''.trash''] else if f = dfid 2 then [''u'', ''a'']
      else if f = dfid 3 then [''u'', ''p''] else [''u'', ''p'', ''b''])"

lemma map_of_inj:
  assumes "distinct (map snd xs)" shows "inj_on (map_of xs) (dom (map_of xs))"
proof (rule inj_onI)
  fix p q assume "p \<in> dom (map_of xs)" "map_of xs p = map_of xs q"
  then obtain i where "map_of xs p = Some i" "map_of xs q = Some i" by (metis domD)
  then have "(p, i) \<in> set xs" "(q, i) \<in> set xs" by (auto dest: map_of_SomeD)
  with assms inj_onD [of snd "set xs" "(p, i)" "(q, i)"] show "p = q" by (simp add: distinct_map)
qed

lemma ran_map_of: "ran (map_of xs) \<subseteq> snd ` set xs"
  by (force simp: ran_def dest: map_of_SomeD)

lemma demo_store:
  "store_inv (inodeStore demo)"
  "path_ids (inodeStore demo) = map_of [(''u'', 0), (''u/.trash'', 1), (''u/a'', 2), (''u/p'', 3), (''u/p/b'', 4)]"
proof -
  show ids: "path_ids (inodeStore demo) = map_of [(''u'', 0), (''u/.trash'', 1), (''u/a'', 2), (''u/p'', 3), (''u/p/b'', 4)]"
    by (simp add: path_ids_def demo_def)
  have "gomap_ok (PathToID (store_data (inodeStore demo)))" by (simp add: gomap_ok_def demo_def)
  moreover have "inj_on (path_ids (inodeStore demo)) (dom (path_ids (inodeStore demo)))" unfolding ids by (rule map_of_inj) simp
  moreover have "ran (path_ids (inodeStore demo)) \<subseteq> issued_ids (inodeStore demo)"
    unfolding ids by (rule order_trans [OF ran_map_of]) (simp add: issued_ids_def demo_def)
  ultimately show "store_inv (inodeStore demo)" by (simp add: store_inv_def)
qed

lemma demo_fs_ok: "fs_ok demo"
proof -
  have names: "list_all name_ok (demo_place f)" for f 
  proof -
    have "list_all name_ok [''u'']" "list_all name_ok [''u'', ''.trash'']" "list_all name_ok [''u'', ''a'']"
      "list_all name_ok [''u'', ''p'']" "list_all name_ok [''u'', ''p'', ''b'']" by code_simp+
    then show ?thesis unfolding demo_place_def by (simp split: if_split)
  qed
  have node: "node_ok False [''d''] demo_place ''s'' [(''u'', dfid 0)] (path_ids (inodeStore demo)) f n"
    if "mget demo_inodes f = Some n" for f n
    using that by (rule demo_mgetE) (use names [of f] in \<open>simp_all add: node_ok_def demo_place_def demo_store render_def dfid_def\<close>)
  have "root_ok demo_place demo_inodes ''u'' (dfid 0)" by (simp add: root_ok_def demo_mget demo_place_def)
  with node have "paths_ok False [''d''] demo_place ''s'' [(''u'', dfid 0)] (path_ids (inodeStore demo)) demo_inodes"
    by (simp add: paths_ok_def)
  moreover have "normal False [''d'']" by (rule normal_plain) code_simp
  ultimately have "fs_wf False [''d''] demo_place demo"
    using demo_store(1) demo_tree_ok by (simp add: fs_wf_def render_def)
  then show ?thesis by (rule fs_okI) (simp add: metas_ok_def)
qed

lemma demo_room: "room_left demo"
  by (simp add: room_left_def demo_def)


definition demo_trashed :: file_server where
  "demo_trashed = snd (TrashFile demo_env (Some (dfid 2)) ''u'' True demo)"




section \<open>Creating\<close>

text \<open>C24. When \<open>CreateFile\<close> succeeds, the inode it returns is the entry of the requested name in the requested
  directory: linked there, with the path on disk that the directory and the name give. A new inode has
  the requested type and the owner and readers of its directory, and every inode there was keeps its
  type, parent, path, name and access list.\<close>

theorem create_at_requested_place:
  assumes ok: "fs_ok s" and room: "room_left s" and cf: "CreateFile env p x u ty s = (Inr f, s')"
  shows "\<exists>m m' n. mget (fs_inodes s) p = Some m \<and> mget (fs_inodes s') p = Some m' \<and> mget (fs_inodes s') f = Some n
    \<and> f \<in> set (Children m') \<and> Parent n = Some p \<and> Name n = x \<and> OSPath n = Join [OSPath m, x]
    \<and> (mget (fs_inodes s) f = None \<longrightarrow>
         Type n = ty \<and> Owner (ACL n) = Owner (ACL m) \<and> SharedWith (ACL n) = SharedWith (ACL m))
    \<and> (\<forall>g k. mget (fs_inodes s) g = Some k \<longrightarrow>
         (\<exists>k'. mget (fs_inodes s') g = Some k' \<and> Type k' = Type k \<and> Parent k' = Parent k \<and> OSPath k' = OSPath k
            \<and> Name k' = Name k \<and> ACL k' = ACL k))"
proof -
  from ok obtain r cs P where wf: "fs_wf r cs P s" by (rule fs_okE)
  obtain Q m n where Q: "fs_wf r cs Q s'" "extends P s Q s'" and m: "mget (fs_inodes s) p = Some m"
    and n: "mget (fs_inodes s') f = Some n" "Q f = P p @ [x]"
      "mget (fs_inodes s) f = None \<longrightarrow> Type n = ty \<and> Owner (ACL n) = Owner (ACL m) \<and> SharedWith (ACL n) = SharedWith (ACL m)"
    using CreateFile_wf [OF wf room cf] by metis
  from extendsE [OF Q(2) m] obtain m' where m': "mget (fs_inodes s') p = Some m'" "Q p = P p" "OSPath m' = OSPath m" by metis
  have c: "f \<in> set (Children m')" "Parent n = Some p" "Name n = x" using place_child [OF Q(1) m'(1) n(1)] n(2) m'(2) by auto
  moreover from tree_okD(4) [OF fs_wfD(3) [OF Q(1)] m'(1) c(1)] have "p \<noteq> f" by blast
  ultimately have path: "OSPath n = Join [OSPath m, x]" using place_of_parent [OF Q(1) n(1) _ _ m'(1)] m'(3) by simp
  have kept: "\<forall>g k. mget (fs_inodes s) g = Some k \<longrightarrow> (\<exists>k'. mget (fs_inodes s') g = Some k' \<and> Type k' = Type k
      \<and> Parent k' = Parent k \<and> OSPath k' = OSPath k \<and> Name k' = Name k \<and> ACL k' = ACL k)"
    using Q(2) unfolding extends_def by blast
  show ?thesis
    by (rule exI [of _ m], rule exI [of _ m'], rule exI [of _ n], intro conjI) (fact m m'(1) n(1,3) c path kept)+
qed

definition demo_created :: file_server where
  "demo_created = snd (CreateFile demo_env (dfid 3) ''c'' ''u'' InodeTypeFile demo)"

theorem create_at_requested_place_witness:
  "CreateFile demo_env (dfid 3) ''c'' ''u'' InodeTypeFile demo = (Inr (dfid 5), demo_created)
   \<and> (\<exists>n. mget (fs_inodes demo_created) (dfid 5) = Some n \<and> OSPath n = ''d/u/p/c'' \<and> Type n = InodeTypeFile)"
proof -
  have "fst (CreateFile demo_env (dfid 3) ''c'' ''u'' InodeTypeFile demo) = Inr (dfid 5)" by code_simp
  then have cf: "CreateFile demo_env (dfid 3) ''c'' ''u'' InodeTypeFile demo = (Inr (dfid 5), demo_created)"
    by (simp add: demo_created_def prod_eq_iff)
  have "mget demo_inodes (dfid 5) = None" "Join [''d/u/p'', ''c''] = ''d/u/p/c''" by code_simp+
  with create_at_requested_place [OF demo_fs_ok demo_room cf] cf show ?thesis by (auto simp: demo_mget)
qed

section \<open>To the trash and back\<close>

text \<open>Trashing leaves the old place free, so that a restore finds it.\<close>

lemma trashed_place_free:
  assumes wf: "fs_wf r cs P s" and f: "mget (fs_inodes s) f = Some n" and wf1: "fs_wf r cs Q s1"
    and moved: "\<And>g m. mget (fs_inodes s) g = Some m \<Longrightarrow>
       Q g = (if below_in (fs_inodes s) f g then [u, trashDirName, x] @ drop (length (P f)) (P g) else P g)
       \<and> (\<exists>m'. mget (fs_inodes s1) g = Some m' \<and> Type m' = Type m \<and> ACL m' = ACL m)"
    and away: "butlast (P f) \<noteq> [u, trashDirName]" "P f \<noteq> [u, trashDirName]"
    and new: "\<forall>g k. mget (fs_inodes s1) g = Some k \<longrightarrow> mget (fs_inodes s) g = None \<longrightarrow> Q g = [u, trashDirName]"
    and g: "mget (fs_inodes s1) g = Some k"
  shows "Q g \<noteq> P f"
proof
  assume at: "Q g = P f"
  from new g at away(2) obtain m where m: "mget (fs_inodes s) g = Some m" by (cases "mget (fs_inodes s) g") auto
  show False
  proof (cases "below_in (fs_inodes s) f g")
    case False
    then have "P g = P f" using moved [OF m] at by simp
    then have "g = f" by (rule place_unique [OF wf m f])
    with False below_refl [OF f] show False by simp
  next
    case True
    then obtain ts where ts: "P g = P f @ ts" using below_place [OF wf f m] by blast
    then have Pf: "P f = [u, trashDirName, x] @ ts" using moved [OF m] True at by simp
    with away(1) have ne: "ts \<noteq> []" by auto
    from place_above [OF wf f Pf] obtain h l where h: "mget (fs_inodes s) h = Some l" "P h = [u, trashDirName, x]" by auto
    have "\<not> below_in (fs_inodes s) f h" using below_place [OF wf f h(1)] h(2) Pf ne by auto
    then have "Q h = [u, trashDirName, x]" using moved [OF h(1)] h(2) by simp
    moreover have "Q f = [u, trashDirName, x]" using moved [OF f] below_refl [OF f] by simp
    moreover from moved [OF h(1)] moved [OF f] obtain l' n' where "mget (fs_inodes s1) h = Some l'" "mget (fs_inodes s1) f = Some n'" by blast
    ultimately have "h = f" using place_unique [OF wf1] by metis
    with h(2) Pf ne show False by simp
  qed
qed

lemma same_place_same_node:
  assumes wf: "fs_wf r cs P s" "fs_wf r cs R s2" and same: "\<And>g m. mget (fs_inodes s) g = Some m \<Longrightarrow> R g = P g \<and> mget (fs_inodes s2) g \<noteq> None"
    and g: "mget (fs_inodes s) g = Some m" "mget (fs_inodes s2) g = Some m2"
  shows "OSPath m2 = OSPath m \<and> Name m2 = Name m \<and> Parent m2 = Parent m"
proof -
  note w = fs_wfD(3,5) [OF wf(1)] and w2 = fs_wfD(3,5) [OF wf(2)]
  note ng = node_okD [OF w(2) g(1)] and ng2 = node_okD [OF w2(2) g(2)]
  have Rg: "R g = P g" using same [OF g(1)] by simp
  obtain p k where p: "Parent m = Some p" "mget (fs_inodes s) p = Some k" using tree_okD(3) [OF w(1) g(1)] by blast
  obtain p2 k2 where p2: "Parent m2 = Some p2" "mget (fs_inodes s2) p2 = Some k2" using tree_okD(3) [OF w2(1) g(2)] by blast
  have root: "q = g \<longleftrightarrow> butlast (P g) = []" if "(q = p \<or> q = p2)" for q
    using that ng(8) ng(9) [OF p(1)] ng2(8) ng2(9) [OF p2(1)] p(1) p2(1) node_okD(3) [OF w(2) p(2)] node_okD(3) [OF w2(2) p2(2)] Rg
    by (cases "P g" rule: rev_cases) auto
  have "p2 = p"
  proof (cases "butlast (P g) = []")
    case False
    then have "R p2 = R p" using root ng(9) [OF p(1)] ng2(9) [OF p2(1)] same [OF p(2)] Rg by simp
    moreover from same [OF p(2)] obtain k' where "mget (fs_inodes s2) p = Some k'" by blast
    ultimately show ?thesis by (metis place_unique [OF wf(2) p2(2)])
  qed (use root [of p] root [of p2] in simp)
  with p(1) p2(1) ng(5,6) ng2(5,6) Rg show ?thesis by simp
qed

lemma trash_restore_places:
  assumes wf: "fs_wf r cs P s" and f: "mget (fs_inodes s) f = Some n" and wf1: "fs_wf r cs Q s1"
    and moved: "\<And>g m. mget (fs_inodes s) g = Some m \<Longrightarrow>
       Q g = (if below_in (fs_inodes s) f g then [u, trashDirName, x] @ drop (length (P f)) (P g) else P g)
       \<and> (\<exists>m'. mget (fs_inodes s1) g = Some m' \<and> Type m' = Type m \<and> ACL m' = ACL m)"
    and away: "butlast (P f) \<noteq> [u, trashDirName]" and g: "mget (fs_inodes s) g = Some m"
  shows "(if below_in (fs_inodes s1) f g then P f @ drop (length (Q f)) (Q g) else Q g) = P g"
proof -
  from moved [OF f] moved [OF g] obtain n1 m1 where n1: "mget (fs_inodes s1) f = Some n1" and m1: "mget (fs_inodes s1) g = Some m1" by blast
  have Qf: "Q f = [u, trashDirName, x]" using moved [OF f] below_refl [OF f] by simp
  show ?thesis
  proof (cases "below_in (fs_inodes s) f g")
    case True
    then obtain ts where ts: "P g = P f @ ts" using below_place [OF wf f g] by blast
    then have "Q g = Q f @ ts" using moved [OF g] True Qf by simp
    with below_place [OF wf1 n1 m1] ts show ?thesis by simp
  next
    case False
    then have Qg: "Q g = P g" using moved [OF g] by simp
    have "\<not> below_in (fs_inodes s1) f g"
    proof
      assume "below_in (fs_inodes s1) f g"
      then obtain ts where "Q g = Q f @ ts" using below_place [OF wf1 n1 m1] by blast
      then have "P g = [u, trashDirName, x] @ ts" using Qf Qg by simp
      from place_above [OF wf g this] obtain h l where h: "mget (fs_inodes s) h = Some l" "P h = [u, trashDirName, x]" "below_in (fs_inodes s) h g" by auto
      have "\<not> below_in (fs_inodes s) f h" using False below_trans [OF h(3)] by blast
      then have "Q h = Q f" using moved [OF h(1)] h(2) Qf by simp
      moreover from moved [OF h(1)] obtain l' where "mget (fs_inodes s1) h = Some l'" by blast
      ultimately have "h = f" using place_unique [OF wf1 _ n1] by blast
      with h(2) away show False by simp
    qed
    with Qg show ?thesis by simp
  qed
qed

lemma trash_then_restore:
  assumes ok: "fs_ok s" and room: "room_left s" "room_left s1" and n: "mget (fs_inodes s) f = Some n"
    and tf: "TrashFile env (Some f) u rec s = (Inr x, s1)" and clash: "unclashing f s (Inr x, s1)"
    and rf: "RestoreFile env' (Some f) u q s1 = (Inr y, s2)"
  obtains r cs P Q R p where "fs_wf r cs P s" "fs_wf r cs Q s1" "fs_wf r cs R s2" "y = Name n" "P f = P p @ [Name n]" "Q p = P p"
    "butlast (P f) \<noteq> [u, trashDirName]"
    "\<And>g m. mget (fs_inodes s) g = Some m \<Longrightarrow>
      Q g = (if below_in (fs_inodes s) f g then [u, trashDirName, x] @ drop (length (P f)) (P g) else P g)
      \<and> (\<exists>m'. mget (fs_inodes s1) g = Some m' \<and> Type m' = Type m \<and> ACL m' = ACL m)"
    "\<And>g m. mget (fs_inodes s1) g = Some m \<Longrightarrow>
      R g = (if below_in (fs_inodes s1) f g then Q p @ y # drop (length (Q f)) (Q g) else Q g)
      \<and> (\<exists>m'. mget (fs_inodes s2) g = Some m' \<and> Type m' = Type m \<and> ACL m' = ACL m)"
proof -
  from ok obtain r cs P where wf: "fs_wf r cs P s" and me: "metas_ok s" by (rule fs_okE)
  note w = fs_wfD(3,5) [OF wf]
  obtain Q where wf1: "fs_wf r cs Q s1" and moved: "\<And>g m. mget (fs_inodes s) g = Some m \<Longrightarrow>
      Q g = (if below_in (fs_inodes s) f g then [u, trashDirName, x] @ drop (length (P f)) (P g) else P g)
      \<and> (\<exists>m'. mget (fs_inodes s1) g = Some m' \<and> Type m' = Type m \<and> ACL m' = ACL m)"
    and away: "butlast (P f) \<noteq> []" "butlast (P f) \<noteq> [u, trashDirName]" "P f \<noteq> [u, trashDirName]"
    and new: "\<forall>g k. mget (fs_inodes s1) g = Some k \<longrightarrow> mget (fs_inodes s) g = None \<longrightarrow> Q g = [u, trashDirName]"
    by (rule TrashFile_wf [OF wf room(1) tf clash]) auto
  obtain n' sx e where gi: "GetInode env f s = (Some n', sx)" and e: "mget (trashMeta s1) f = Some e"
    "originalParentFID e = Parent n'" "originalName e = Name n'" by (rule TrashFile_records [OF tf])
  have n': "Parent n' = Parent n" "Name n' = Name n"
    using extendsE [OF GetInode_extends [OF gi, of P] n] GetInode_found(2) [OF wf gi] by (metis option.inject)+
  from tree_okD(3) [OF w(1) n] obtain p k where p: "Parent n = Some p" "mget (fs_inodes s) p = Some k" by blast
  have Pf: "P f = P p @ [Name n]"
    using node_okD(3,6) [OF w(2) n] node_okD(8) [OF w(2) n] node_okD(9) [OF w(2) n p(1)] p(1) away(1)
    by (cases "p = f"; cases "P f" rule: rev_cases) auto
  have "\<not> below_in (fs_inodes s) f p" using below_place [OF wf n p(2)] Pf by auto
  then have Qp: "Q p = P p" using moved [OF p(2)] by simp
  from moved [OF p(2)] obtain k1 where k1: "mget (fs_inodes s1) p = Some k1" by blast
  have nm: "name_ok (originalName e)" using node_okD(4) [OF w(2) n] Pf e(3) n'(2) by simp
  have free: "Q g \<noteq> Q p @ [originalName e]" if "mget (fs_inodes s1) g = Some m" for g m
    using trashed_place_free [OF wf n wf1 moved away(2,3) new that] Pf Qp e(3) n'(2) by simp
  have named: "y = Name n" "unclashing f s1 (Inr y, s2)" "map_option Parent (mget (fs_inodes s2) f) = Some (Some p)"
  proof -
    have "originalParentFID e = Some p" using e(2) n'(1) p(1) by simp
    from RestoreFile_named [OF wf1 room(2) rf e(1) nm this k1] free
    have "y = originalName e \<and> unclashing f s1 (Inr y, s2) \<and> map_option Parent (mget (fs_inodes s2) f) = Some (Some p)" by blast
    then show "unclashing f s1 (Inr y, s2)" "map_option Parent (mget (fs_inodes s2) f) = Some (Some p)" "y = Name n"
      unfolding e(3) n'(2) by blast+
  qed
  obtain R where wf2: "fs_wf r cs R s2" and returned: "\<And>g m. mget (fs_inodes s1) g = Some m \<Longrightarrow>
      R g = (if below_in (fs_inodes s1) f g then Q p @ y # drop (length (Q f)) (Q g) else Q g)
      \<and> (\<exists>m'. mget (fs_inodes s2) g = Some m' \<and> Type m' = Type m \<and> ACL m' = ACL m)"
    by (rule RestoreFile_wf [OF wf1 room(2) rf named(2)]) (use e(1) nm named(3) in auto)
  show thesis by (rule that [OF wf wf1 wf2 named(1) Pf Qp away(2) moved returned])
qed

text \<open>C25. A restore undoes a move to the trash: after \<open>TrashFile\<close> and a successful \<open>RestoreFile\<close> of the same inode
  the restored name is the old name, and every inode there was has its path, name, parent, type and
  access list back. In between the inode is in the trash directory under the name \<open>TrashFile\<close> returned, and
  everything that is not below it stays in its place.\<close>

theorem trash_restore_roundtrip:
  assumes ok: "fs_ok s" and room: "room_left s" "room_left s1" and n: "mget (fs_inodes s) f = Some n"
    and tf: "TrashFile env (Some f) u rec s = (Inr x, s1)" and clash: "unclashing f s (Inr x, s1)"
    and rf: "RestoreFile env' (Some f) u q s1 = (Inr y, s2)"
  shows "y = Name n
    \<and> (\<forall>g m. mget (fs_inodes s) g = Some m \<longrightarrow>
         (\<exists>m2. mget (fs_inodes s2) g = Some m2 \<and> OSPath m2 = OSPath m \<and> Name m2 = Name m \<and> Parent m2 = Parent m
            \<and> Type m2 = Type m \<and> ACL m2 = ACL m))
    \<and> (\<forall>g m. mget (fs_inodes s) g = Some m \<longrightarrow> \<not> below_in (fs_inodes s) f g \<longrightarrow>
         (\<exists>m1. mget (fs_inodes s1) g = Some m1 \<and> OSPath m1 = OSPath m))
    \<and> (\<exists>n1. mget (fs_inodes s1) f = Some n1 \<and> Name n1 = x)"
proof -
  obtain r cs P Q R p where wf: "fs_wf r cs P s" and wf1: "fs_wf r cs Q s1" and wf2: "fs_wf r cs R s2" and named: "y = Name n"
    and Pf: "P f = P p @ [Name n]" and Qp: "Q p = P p" and away: "butlast (P f) \<noteq> [u, trashDirName]"
    and moved: "\<And>g m. mget (fs_inodes s) g = Some m \<Longrightarrow>
      Q g = (if below_in (fs_inodes s) f g then [u, trashDirName, x] @ drop (length (P f)) (P g) else P g)
      \<and> (\<exists>m'. mget (fs_inodes s1) g = Some m' \<and> Type m' = Type m \<and> ACL m' = ACL m)"
    and returned: "\<And>g m. mget (fs_inodes s1) g = Some m \<Longrightarrow>
      R g = (if below_in (fs_inodes s1) f g then Q p @ y # drop (length (Q f)) (Q g) else Q g)
      \<and> (\<exists>m'. mget (fs_inodes s2) g = Some m' \<and> Type m' = Type m \<and> ACL m' = ACL m)"
    by (rule trash_then_restore [OF ok room n tf clash rf]) blast
  note w = fs_wfD(3,5) [OF wf]
  have all: "R g = P g \<and> (\<exists>m2. mget (fs_inodes s2) g = Some m2 \<and> Type m2 = Type m \<and> ACL m2 = ACL m)"
    if g: "mget (fs_inodes s) g = Some m" for g m
  proof -
    from moved [OF g] obtain m1 where m1: "mget (fs_inodes s1) g = Some m1" "Type m1 = Type m" "ACL m1 = ACL m" by blast
    from returned [OF m1(1)] trash_restore_places [OF wf n wf1 moved away g] Pf Qp named m1(2,3) show ?thesis
      by (auto split: if_splits)
  qed
  have "\<exists>m2. mget (fs_inodes s2) g = Some m2 \<and> OSPath m2 = OSPath m \<and> Name m2 = Name m \<and> Parent m2 = Parent m
      \<and> Type m2 = Type m \<and> ACL m2 = ACL m" if g: "mget (fs_inodes s) g = Some m" for g m
    using all [OF g] same_place_same_node [OF wf wf2 _ g] all by fastforce
  moreover have "\<exists>m1. mget (fs_inodes s1) g = Some m1 \<and> OSPath m1 = OSPath m"
    if g: "mget (fs_inodes s) g = Some m" "\<not> below_in (fs_inodes s) f g" for g m
    using moved [OF g(1)] g(2) node_okD(5) [OF w(2) g(1)] node_okD(5) [OF fs_wfD(5) [OF wf1]] by fastforce
  moreover have "\<exists>n1. mget (fs_inodes s1) f = Some n1 \<and> Name n1 = x"
    using moved [OF n] below_refl [OF n] node_okD(6) [OF fs_wfD(5) [OF wf1]] by fastforce
  ultimately show ?thesis using named by blast
qed

definition demo_restored :: file_server where
  "demo_restored = snd (RestoreFile demo_env (Some (dfid 2)) ''u'' [] demo_trashed)"

theorem trash_restore_roundtrip_witness:
  "TrashFile demo_env (Some (dfid 2)) ''u'' True demo = (Inr ''a'', demo_trashed)
   \<and> RestoreFile demo_env (Some (dfid 2)) ''u'' [] demo_trashed = (Inr ''a'', demo_restored)
   \<and> (\<exists>m. mget (fs_inodes demo_restored) (dfid 2) = Some m \<and> OSPath m = ''d/u/a'' \<and> Parent m = Some (dfid 0))"
proof -
  have "fst (TrashFile demo_env (Some (dfid 2)) ''u'' True demo) = Inr ''a''" by code_simp
  then have tf: "TrashFile demo_env (Some (dfid 2)) ''u'' True demo = (Inr ''a'', demo_trashed)"
    by (simp add: demo_trashed_def prod_eq_iff)
  have "fst (RestoreFile demo_env (Some (dfid 2)) ''u'' [] demo_trashed) = Inr ''a''" by code_simp
  then have rf: "RestoreFile demo_env (Some (dfid 2)) ''u'' [] demo_trashed = (Inr ''a'', demo_restored)"
    by (simp add: demo_restored_def prod_eq_iff)
  have "unclashing (dfid 2) demo (TrashFile demo_env (Some (dfid 2)) ''u'' True demo)" by code_simp
  then have clash: "unclashing (dfid 2) demo (Inr ''a'', demo_trashed)" by (simp only: tf)
  have "NextInodeID (store_data (inodeStore demo_trashed)) = 5" by code_simp
  then have room: "room_left demo_trashed" by (simp add: room_left_def)
  have n: "mget (fs_inodes demo) (dfid 2) = Some (dnode_at 2 InodeTypeFile ''a'' ''d/u/a'' [] 3 0)" by (simp add: demo_mget)
  from trash_restore_roundtrip [OF demo_fs_ok demo_room room n tf clash rf] n obtain m where
    "mget (fs_inodes demo_restored) (dfid 2) = Some m" "OSPath m = ''d/u/a''" "Parent m = Some (dfid 0)" by fastforce
  with tf rf show ?thesis by blast
qed

section \<open>No operation runs forever\<close>

lemma on_chain_returns:
  assumes "tree_ok I" shows "on_chain (fuel I) I t f \<noteq> None"
proof -
  have "up_chain k I f = Some xs \<Longrightarrow> on_chain k I t f \<noteq> None" for k xs
  proof (induction k arbitrary: f xs)
    case (Suc k)
    then show ?case by (fastforce split: option.splits if_splits)
  qed simp
  with walks_return(1) [OF assms] show ?thesis by blast
qed

lemma relink_ends:
  assumes wf: "fs_wf r cs Q s" and f: "mget (fs_inodes s) f = Some m" "Parent m \<noteq> Some f"
    and n: "FID n = f" "Parent n = Parent m" "OSPath n = OSPath m"
    and t: "mget (fs_inodes s) t = Some d" and x: "name_ok x"
    and ren: "os_Rename er (OSPath n) (Join [OSPath d, x]) dk = (True, dk')"
  shows "relink f n t x (Join [OSPath d, x]) (fs_inodes s) \<noteq> None"
proof (rule relink_returns [OF fs_wfD(3) [OF wf] f(1) n(1,2) f(2)])
  show "\<not> below_in (fs_inodes s) f t" using move_target(3) [OF wf f(1) t x] ren n(3) by auto
qed

lemma trash_dir_errors: "getOrCreateTrashDirLocked env u s \<noteq> (Inl Diverges, t)"
  by (simp add: getOrCreateTrashDirLocked_def Let_def split: option.split prod.split bool.split)

lemma TrashFile_divergesE:
  assumes "fst (TrashFile env (Some f) u rec s) = Inl Diverges"
  obtains (walk) n s1 where "GetInode env f s = (Some n, s1)"
      "validateDeletePermissions (fuel (fs_inodes s1)) (fs_inodes s1) u rec f = Some Diverges"
    | (move) n s1 t s2 m d where "GetInode env f s = (Some n, s1)" "\<not> is_user_root f u s1"
      "validateDeletePermissions (fuel (fs_inodes s1)) (fs_inodes s1) u rec f = None"
      "getOrCreateTrashDirLocked env u s1 = (Inr t, s2)" "mget (fs_inodes s2) t = Some m"
      "os_Rename (env_err env) (OSPath n) (Join [OSPath m, uniqueNameInDirLocked (fs_inodes s2) m (Name n) (InodeID (FID n))]) (fs_disk s2) = (True, d)"
      "relink f n t (uniqueNameInDirLocked (fs_inodes s2) m (Name n) (InodeID (FID n)))
         (Join [OSPath m, uniqueNameInDirLocked (fs_inodes s2) m (Name n) (InodeID (FID n))]) (fs_inodes s2) = None"
  using assms trash_dir_errors [of env u]
  by (auto simp: TrashFile_def Let_def detach_inodes split: option.splits if_splits prod.splits sum.splits bool.splits)

lemma RestoreFile_divergesE:
  assumes "fst (RestoreFile env (Some f) u q s) = Inl Diverges"
  obtains n s1 t s2 e p m d where "GetInode env f s = (Some n, s1)" "Parent n = Some t" "getOrCreateTrashDirLocked env u s1 = (Inr t, s2)"
      "mget (trashMeta s2) f = Some e" "restore_target e u s2 = Inr (p, m)"
      "os_Rename (env_err env) (OSPath n) (Join [OSPath m, uniqueNameInDirLocked (fs_inodes s2) m (originalName e) (InodeID (FID n))]) (fs_disk s2) = (True, d)"
      "relink f n p (uniqueNameInDirLocked (fs_inodes s2) m (originalName e) (InodeID (FID n)))
         (Join [OSPath m, uniqueNameInDirLocked (fs_inodes s2) m (originalName e) (InodeID (FID n))]) (fs_inodes s2) = None"
proof -
  have "restore_target e u v \<noteq> Inl Diverges" for e v by (simp add: restore_target_def split: option.split)
  with assms trash_dir_errors [of env u] that show thesis
    by (auto simp: RestoreFile_def Let_def split: option.splits if_splits prod.splits sum.splits bool.splits)
qed

lemma trash_prepared:
  assumes wf: "fs_wf r cs P s" and room: "room_left s" and gi: "GetInode env f s = (Some n, s1)"
    and tr: "getOrCreateTrashDirLocked env u s1 = (tr, s2)"
  obtains Q m2 where "fs_wf r cs P s1" "mget (fs_inodes s1) f = Some n" "fs_wf r cs Q s2" "mget (fs_inodes s2) f = Some m2" "Parent m2 = Parent n"
    "OSPath m2 = OSPath n" "FID n = f" "name_ok (Name n)" "trashMeta s2 = trashMeta s" "\<forall>t. tr = Inr t \<longrightarrow> Q t = [u, trashDirName]"
proof -
  have same1: "same_tables s s1" using GetInode_same [of s env f] gi by simp
  note wf1 = fs_wf_same [OF wf same1] and n1 = GetInode_found(2) [OF wf gi]
  have room1: "store_room (inodeStore s1)" using same1 room_assign(1) [OF room] by (simp add: same_tables_def)
  obtain Q where Q: "fs_wf r cs Q s2" "extends P s1 Q s2"
    "\<forall>t. tr = Inr t \<longrightarrow> (\<exists>k. mget (fs_inodes s2) t = Some k \<and> Type k = InodeTypeDirectory \<and> Q t = [u, trashDirName])"
    by (rule getOrCreateTrash_wf [OF wf1 room1 tr]) blast
  from extendsE [OF Q(2) n1] obtain m2 where m2: "mget (fs_inodes s2) f = Some m2" "Parent m2 = Parent n" "OSPath m2 = OSPath n" by metis
  have "trashMeta s2 = trashMeta s" using GetInode_meta [of env f s] getOrCreateTrash_meta [of env u s1] gi tr by simp
  moreover have "name_ok (Name n)" using node_okD(3,4,6) [OF fs_wfD(5) [OF wf1] n1] by (auto simp: list_all_iff)
  ultimately show thesis using that [OF wf1 n1 Q(1) m2 tree_okD(2) [OF fs_wfD(3) [OF wf1] n1]] Q(3) by blast
qed

lemma TrashFile_ends:
  assumes wf: "fs_wf r cs P s" and room: "room_left s" shows "fst (TrashFile env fo u rec s) \<noteq> Inl Diverges"
proof
  assume div: "fst (TrashFile env fo u rec s) = Inl Diverges"
  then obtain f where fo: "fo = Some f" by (cases fo) (simp_all add: TrashFile_def)
  from div [unfolded fo] show False
  proof (cases rule: TrashFile_divergesE)
    case (walk n s1)
    have "same_tables s s1" using GetInode_same [of s env f] walk(1) by simp
    from validate_returns [OF fs_wfD(3) [OF fs_wf_same [OF wf this]]] walk(2) show False by auto
  next
    case (move n s1 t s2 m d)
    obtain Q m2 where a: "fs_wf r cs P s1" "mget (fs_inodes s1) f = Some n" "fs_wf r cs Q s2" "mget (fs_inodes s2) f = Some m2" "Parent m2 = Parent n"
      "OSPath m2 = OSPath n" "FID n = f" "name_ok (Name n)" by (rule trash_prepared [OF wf room move(1,4)])
    have own: "Owner (ACL n) = u" by (rule validate_owned [OF fs_wfD(3) [OF a(1)] move(3) below_refl [OF a(2)] a(2)])
    have "Parent m2 \<noteq> Some f" using owned_not_root [OF a(1,2) own move(2)] a(5) by simp
    from relink_ends [OF a(3,4) this a(7) a(5,6) [symmetric] move(5) unique_name_ok [OF a(8)] move(6)] move(7) show False by simp
  qed
qed

lemma RestoreFile_ends:
  assumes wf: "fs_wf r cs P s" and me: "metas_ok s" and room: "room_left s" shows "fst (RestoreFile env fo u q s) \<noteq> Inl Diverges"
proof
  assume div: "fst (RestoreFile env fo u q s) = Inl Diverges"
  then obtain f where fo: "fo = Some f" by (cases fo) (simp_all add: RestoreFile_def)
  from div [unfolded fo] show False
  proof (cases rule: RestoreFile_divergesE)
    case (1 n s1 t s2 e p m d)
    obtain Q m2 where a: "fs_wf r cs Q s2" "mget (fs_inodes s2) f = Some m2" "Parent m2 = Parent n" "OSPath m2 = OSPath n" "FID n = f"
      "trashMeta s2 = trashMeta s" "\<forall>v. Inr t = (Inr v :: fs_error + fid) \<longrightarrow> Q v = [u, trashDirName]"
      by (rule trash_prepared [OF wf room 1(1,3)])
    have pm: "mget (fs_inodes s2) p = Some m" using 1(5) by (auto simp: restore_target_def split: option.splits)
    have "name_ok (originalName e)" using me 1(4) a(6) by (simp add: metas_ok_def)
    moreover have "Parent m2 \<noteq> Some f" using node_okD(8) [OF fs_wfD(5) [OF a(1)] a(2)] a(3,7) 1(2) by auto
    ultimately show False
      using relink_ends [OF a(1,2) _ a(5) a(3,4) [symmetric] pm unique_name_ok 1(6)] 1(7) by simp
  qed
qed

lemma moves_return:
  assumes ok: "fs_ok s" and room: "room_left s"
  shows "fst (TrashFile env fo u rec s) \<noteq> Inl Diverges" "fst (RestoreFile env fo u q s) \<noteq> Inl Diverges"
proof -
  from ok obtain r cs P where "fs_wf r cs P s" "metas_ok s" by (rule fs_okE)
  then show "fst (TrashFile env fo u rec s) \<noteq> Inl Diverges" "fst (RestoreFile env fo u q s) \<noteq> Inl Diverges"
    using TrashFile_ends RestoreFile_ends room by blast+
qed

lemma walks_without_end:
  "cd_walk I cur parts \<noteq> Inl Diverges" "find_file env p x s \<noteq> (Inl Diverges, t)" "write_limit env d r s \<noteq> Some Diverges"
proof -
  show "cd_walk I cur parts \<noteq> Inl Diverges" by (induction I cur parts rule: cd_walk.induct) (auto split: option.split)
  show "find_file env p x s \<noteq> (Inl Diverges, t)" by (auto simp: find_file_def split: option.splits prod.splits)
  show "write_limit env d r s \<noteq> Some Diverges" by (simp add: write_limit_def Let_def)
qed

lemma GetInode_tree: "fs_wf r cs P s \<Longrightarrow> GetInode env g s = (n, s1) \<Longrightarrow> tree_ok (fs_inodes s1)"
  using fs_wfD(3) [OF fs_wf_same [OF _ GetInode_same [of s env g]]] by simp

lemma DeleteFile_ends:
  assumes wf: "fs_wf r cs P s" shows "fst (DeleteFile env fo u rec s) \<noteq> Some Diverges"
proof (cases fo)
  case (Some g)
  obtain gi s1 where gi: "GetInode env g s = (gi, s1)" by fastforce
  note t = GetInode_tree [OF wf gi]
  obtain xs ys where "collectInodesToDelete g (fs_inodes s1) = Some xs" "up_chain (fuel (fs_inodes s1)) (fs_inodes s1) g = Some ys"
    using dfs_post_returns [OF t, of g] walks_return(1) [OF t, of g] by (auto simp: collectInodesToDelete_def)
  with validate_returns [OF t, of u rec g] show ?thesis
    by (auto simp: Some DeleteFile_def gi Let_def split: option.splits if_splits prod.splits bool.splits)
qed (simp add: DeleteFile_def)

lemma sharing_ends:
  assumes wf: "fs_wf r cs P s"
  shows "fst (Share env u v f s) \<noteq> Some Diverges" "fst (Unshare env u v f s) \<noteq> Some Diverges"
proof -
  obtain gi s1 where gi: "GetInode env f s = (gi, s1)" by fastforce
  obtain xs where "dfs (fuel (fs_inodes s1)) (fs_inodes s1) f = Some xs" using walks_return(2) [OF GetInode_tree [OF wf gi]] by blast
  then show "fst (Share env u v f s) \<noteq> Some Diverges" "fst (Unshare env u v f s) \<noteq> Some Diverges"
    by (simp_all add: Share_def Unshare_def gi Let_def split: option.split)
qed

lemma CreateFile_ends:
  assumes wf: "fs_wf r cs P s" and room: "room_left s" shows "fst (CreateFile env f x u ty s) \<noteq> Inl Diverges"
proof -
  obtain gi s1 where gi: "GetInode env f s = (gi, s1)" by fastforce
  have same1: "same_tables s s1" using GetInode_same [of s env f] gi by simp
  have room1: "store_room (inodeStore s1)" using same1 room_assign(1) [OF room] by (simp add: same_tables_def)
  obtain tr s3 where tr: "getOrCreateTrashDirLocked env u s1 = (tr, s3)" by fastforce
  from getOrCreateTrash_wf [OF fs_wf_same [OF wf same1] room1 tr] obtain Q where "fs_wf r cs Q s3" by metis
  from on_chain_returns [OF fs_wfD(3) [OF this]] obtain w s2 where "isUnderTrashLocked env f u s1 = (Some w, s2)"
    by (cases tr) (auto simp: isUnderTrashLocked_def tr)
  then show ?thesis by (auto simp: CreateFile_def gi Let_def split: option.splits if_splits prod.splits bool.splits)
qed

lemma WriteFile_ends:
  assumes wf: "fs_wf r cs P s" shows "fst (WriteFile env f x off dt s) \<noteq> Some Diverges"
proof (cases "find_file env f x s")
  case (Pair y s1)
  have "undisturbed s s1" using undisturbed_find [of s env f x] Pair by simp
  then have t: "tree_ok (fs_inodes s1)" using fs_wfD(3) [OF fs_wf_same [OF wf]] by (simp add: undisturbed_def)
  have "\<exists>chain. up_chain (fuel (fs_inodes s1)) (fs_inodes s1) g = Some chain" for g using walks_return(1) [OF t] .
  then obtain chain where "\<forall>g. up_chain (fuel (fs_inodes s1)) (fs_inodes s1) g = Some (chain g)" by metis
  with walks_without_end(2) [of env f x s] walks_without_end(3) [of env] Pair show ?thesis
    by (auto simp: WriteFile_def Let_def split: option.splits if_splits prod.splits sum.splits bool.splits)
qed

lemma ChangeDir_ends:
  assumes wf: "fs_wf r cs P s" shows "fst (ChangeDir env f path ro s) \<noteq> Inl Diverges"
proof -
  obtain gi s1 where gi: "GetInode env f s = (gi, s1)" by fastforce
  have "\<exists>b. isUnderRootTrashLocked dest ro s1 = Some b" for dest
    using on_chain_returns [OF GetInode_tree [OF wf gi]] by (auto simp: isUnderRootTrashLocked_def split: option.splits)
  then obtain b where "\<forall>dest. isUnderRootTrashLocked dest ro s1 = Some (b dest)" by metis
  with walks_without_end(1) [of "fs_inodes s1" f "Split path"] show ?thesis
    by (auto simp: ChangeDir_def gi split: option.splits if_splits prod.splits sum.splits bool.splits)
qed

text \<open>C26. On consistent tables no operation runs forever: the walks over the inode tree that permissions, paths,
  sharing, sizes and the trash need all end, whatever the tree, the arguments and the errors of the
  operating system.\<close>

theorem operations_terminate:
  assumes ok: "fs_ok s" and room: "room_left s"
  shows "fst (TrashFile env fo u rec s) \<noteq> Inl Diverges \<and> fst (RestoreFile env fo u q s) \<noteq> Inl Diverges
    \<and> fst (DeleteFile env fo u rec s) \<noteq> Some Diverges
    \<and> fst (Share env u v f s) \<noteq> Some Diverges \<and> fst (Unshare env u v f s) \<noteq> Some Diverges
    \<and> fst (CreateFile env f x u ty s) \<noteq> Inl Diverges \<and> fst (WriteFile env f x off dt s) \<noteq> Some Diverges
    \<and> fst (ChangeDir env f path ro s) \<noteq> Inl Diverges"
proof -
  from ok obtain r cs P where wf: "fs_wf r cs P s" by (rule fs_okE)
  show ?thesis
    by (intro conjI moves_return [OF ok room] DeleteFile_ends [OF wf] sharing_ends [OF wf] CreateFile_ends [OF wf room]
        WriteFile_ends [OF wf] ChangeDir_ends [OF wf])
qed

theorem operations_terminate_witness:
  "fs_ok demo \<and> room_left demo \<and> fst (DeleteFile demo_env (Some (dfid 3)) ''u'' True demo) \<noteq> Some Diverges"
  using operations_terminate [OF demo_fs_ok demo_room, where fo = "Some (dfid 3)" and u = "''u''" and rec = True and env = demo_env]
    demo_fs_ok demo_room by blast

section \<open>The name a trashed file gets\<close>

text \<open>
  \<open>uniqueNameInDirLocked\<close> does not look whether the name it falls back to is free. A user whose trash holds a
  file \<open>a\<close> and a file \<open>a__2\<close> loses the second when the inode with number 2, also named \<open>a\<close>, is trashed.
\<close>

definition clash :: file_server where
  "clash = demo\<lparr>fs_inodes :=
      [(dfid 0, dnode_at 0 InodeTypeDirectory ''u'' ''d/u'' [1, 2] 6 0),
       (dfid 1, dnode_at 1 InodeTypeDirectory ''.trash'' ''d/u/.trash'' [3, 4] 3 0),
       (dfid 2, dnode_at 2 InodeTypeFile ''a'' ''d/u/a'' [] 3 0),
       (dfid 3, dnode_at 3 InodeTypeFile ''a'' ''d/u/.trash/a'' [] 2 1),
       (dfid 4, dnode_at 4 InodeTypeFile ''a__2'' ''d/u/.trash/a__2'' [] 1 1)],
     fs_disk := [(''d'', DDir), (''d/u'', DDir), (''d/u/.trash'', DDir), (''d/u/a'', DFile (Raw [1, 2, 3])),
       (''d/u/.trash/a'', DFile (Raw [8, 8])), (''d/u/.trash/a__2'', DFile (Raw [9]))]\<rparr>"

theorem trash_overwrites_taken_name:
  "(case TrashFile demo_env (Some (dfid 2)) ''u'' True clash of (res, s) \<Rightarrow>
     res = Inr ''a__2'' \<and> map_option OSPath (mget (fs_inodes s) (dfid 2)) = map_option OSPath (mget (fs_inodes s) (dfid 4))
     \<and> mget (fs_disk s) ''d/u/.trash/a__2'' = Some (DFile (Raw [1, 2, 3])))"
  by code_simp

end
