(* ===== verification/Ring_Buffers.thy ===== *)
theory Ring_Buffers
  imports Disk Complex_Main
begin

text \<open>
  The three circular buffers of the system: the history of metrics the admin console keeps per node
  (\<^verbatim>\<open>internal/admin/ringbuffer.go\<close>), its history of commands (\<^verbatim>\<open>internal/admin/history.go\<close>), and the
  latency windows of a fileserver (\<^verbatim>\<open>internal/fileserver/opmetrics.go\<close>). Each is a slice with the index of
  the next write and a count. The locale \<open>bounded_log\<close> says what they promise: the last entries pushed, as
  many as fit.

  A finite \<^verbatim>\<open>float64\<close> is a rational number. Comparisons are exact; sums, products and quotients are
  those of the rationals, without the rounding of the machine.
\<close>

type_synonym float64 = rat

section \<open>Slices written in a circle\<close>

definition last_n :: "nat \<Rightarrow> 'a list \<Rightarrow> 'a list" where
  "last_n k xs = drop (length xs - k) xs"

lemma last_n_all [simp]: "length xs \<le> k \<Longrightarrow> last_n k xs = xs"
  by (simp add: last_n_def)

lemma length_last_n [simp]: "length (last_n k xs) = min k (length xs)"
  by (simp add: last_n_def)

lemma last_n_append: "last_n k (last_n k xs @ ys) = last_n k (xs @ ys)"
  by (cases "length xs \<le> k") (simp_all add: last_n_def add.commute)

lemma last_n_less: "j \<le> k \<Longrightarrow> last_n j (last_n k xs) = last_n j xs"
  by (cases "length xs \<le> k") (simp_all add: last_n_def add.commute)

lemma last_last_n: "0 < k \<Longrightarrow> xs \<noteq> [] \<Longrightarrow> last (last_n k xs) = last xs"
  by (simp add: last_n_def)

lemma last_n_Nil: "0 < k \<Longrightarrow> last_n k xs = [] \<longleftrightarrow> xs = []"
  by (cases xs) (auto simp: last_n_def)

text \<open>The contents of such a slice from the oldest entry to the newest, and when its indices are in order.\<close>

definition ring_list :: "'a list \<Rightarrow> nat \<Rightarrow> nat \<Rightarrow> 'a list" where
  "ring_list data head count = (if count < length data then take count data else drop head data @ take head data)"

definition ring_ok :: "'a list \<Rightarrow> nat \<Rightarrow> nat \<Rightarrow> nat \<Rightarrow> bool" where
  "ring_ok data cap head count \<longleftrightarrow>
     length data = cap \<and> 0 < cap \<and> head < cap \<and> count \<le> cap \<and> (count < cap \<longrightarrow> head = count)"

lemma ring_push_ok:
  assumes "ring_ok data cap head count"
  shows "ring_ok (data[head := x]) cap ((head + 1) mod cap) (if count < cap then count + 1 else count)"
  using assms by (auto simp: ring_ok_def mod_Suc)

lemma ring_push_list:
  assumes ok: "ring_ok data cap head count"
  shows "ring_list (data[head := x]) ((head + 1) mod cap) (if count < cap then count + 1 else count)
    = last_n cap (ring_list data head count @ [x])"
proof (cases "count < cap")
  case True
  then have h: "head = count" "length data = cap" using ok by (auto simp: ring_ok_def)
  have upd: "take (Suc count) (data[count := x]) = take count data @ [x]"
    using True h(2) by (simp add: take_Suc_conv_app_nth)
  show ?thesis
  proof (cases "Suc count < cap")
    case True
    with h upd show ?thesis by (simp add: ring_list_def)
  next
    case False
    with \<open>count < cap\<close> have "Suc count = cap" by simp
    with h upd show ?thesis by (auto simp: ring_list_def)
  qed
next
  case False
  then have c: "count = cap" and l: "length data = cap" "head < cap" using ok by (auto simp: ring_ok_def)
  have tl: "last_n cap (ring_list data head count @ [x]) = drop (Suc head) data @ take head data @ [x]"
    using l c by (simp add: ring_list_def last_n_def)
  show ?thesis
  proof (cases "Suc head = cap")
    case True
    then have "data[head := x] = take head data @ [x]" using l by (simp add: upd_conv_take_nth_drop)
    with True c l tl show ?thesis by (simp add: ring_list_def)
  next
    case False
    with l c tl show ?thesis by (simp add: ring_list_def take_Suc_conv_app_nth)
  qed
qed

lemma ring_list_length: "ring_ok data cap head count \<Longrightarrow> length (ring_list data head count) = count"
  by (auto simp: ring_ok_def ring_list_def)

lemma ring_list_nth:
  assumes "ring_ok data cap head count" "i < count"
  shows "ring_list data head count ! i = data ! (((if count = cap then head else 0) + i) mod cap)"
proof (cases "count = cap")
  case True
  with assms show ?thesis
    by (cases "head + i < cap") (auto simp: ring_ok_def ring_list_def nth_append mod_if add.commute)
qed (use assms in \<open>auto simp: ring_ok_def ring_list_def\<close>)

text \<open>Reading backwards from the newest entry.\<close>

lemma ring_list_rev_nth:
  assumes ok: "ring_ok data cap head count" and i: "i < count"
  shows "rev (ring_list data head count) ! i = data ! nat ((int head - 1 - int i + int cap) mod int cap)"
proof -
  note r = ok [unfolded ring_ok_def]
  have "rev (ring_list data head count) ! i = ring_list data head count ! (count - Suc i)"
    using i ring_list_length [OF ok] by (simp add: rev_nth)
  also have "\<dots> = data ! (((if count = cap then head else 0) + (count - Suc i)) mod cap)"
    by (rule ring_list_nth [OF ok]) (use i in simp)
  also have "((if count = cap then head else 0) + (count - Suc i)) mod cap = nat ((int head - 1 - int i + int cap) mod int cap)"
  proof (cases "count = cap")
    case True
    have e: "int head - 1 - int i + int cap = int (head + (cap - Suc i))" using i True by (simp add: of_nat_diff)
    show ?thesis unfolding e zmod_int [symmetric] nat_int using True by simp
  next
    case False
    then have h: "head = count" "count < cap" using r by auto
    have e: "int head - 1 - int i + int cap = int ((count - Suc i) + cap)" using i h by (simp add: of_nat_diff)
    show ?thesis unfolding e zmod_int [symmetric] nat_int using False by simp
  qed
  finally show ?thesis .
qed

section \<open>The contract\<close>

text \<open>A push may panic, which is \<open>None\<close>; a run of pushes stops there.\<close>

fun push_all :: "('e \<Rightarrow> 'b \<Rightarrow> 'b option) \<Rightarrow> 'e list \<Rightarrow> 'b \<Rightarrow> 'b option" where
  "push_all push [] b = Some b"
| "push_all push (x # xs) b = (case push x b of None \<Rightarrow> None | Some c \<Rightarrow> push_all push xs c)"

locale bounded_log =
  fixes push :: "'e \<Rightarrow> 'b \<Rightarrow> 'b option"
    and accepted :: "'e \<Rightarrow> bool"
    and entries :: "'b \<Rightarrow> 'e list"
    and bound :: "'b \<Rightarrow> nat"
    and valid :: "'b \<Rightarrow> bool"
  assumes push_returns: "valid b \<Longrightarrow>
      \<exists>c. push x b = Some c \<and> valid c \<and> bound c = bound b
        \<and> entries c = (if accepted x then last_n (bound b) (entries b @ [x]) else entries b)"
    and entries_bound: "valid b \<Longrightarrow> length (entries b) \<le> bound b"
begin

lemma push_all_returns:
  "valid b \<Longrightarrow> \<exists>c. push_all push xs b = Some c \<and> valid c \<and> bound c = bound b
     \<and> entries c = last_n (bound b) (entries b @ filter accepted xs)"
proof (induction xs arbitrary: b)
  case Nil
  then show ?case using entries_bound by simp
next
  case (Cons x xs)
  from push_returns [OF Cons.prems, of x] obtain c where
    c: "push x b = Some c" "valid c" "bound c = bound b"
      "entries c = (if accepted x then last_n (bound b) (entries b @ [x]) else entries b)" by blast
  from Cons.IH [OF c(2)] c show ?case by (auto simp: last_n_append)
qed

lemma push_all_bounded: "valid b \<Longrightarrow> push_all push xs b = Some c \<Longrightarrow> length (entries c) \<le> bound b"
  using push_all_returns [of b xs] entries_bound by fastforce

end

section \<open>Metrics of a node\<close>

record fileserver_metrics =
  DiskTotalBytes :: u64
  DiskUsedBytes :: u64
  DiskFreeBytes :: u64
  DiskUsagePercent :: float64
  PerUserStorage :: "(string, u64) gomap"
  PerUserQuota :: "(string, u64) gomap"
  ChunkCount :: int
  CPUTempCelsius :: float64
  CPUUsagePercent :: float64
  MemUsedBytes :: u64
  MemTotalBytes :: u64
  MemUsagePercent :: float64
  LoadAvg1m :: float64
  LoadAvg5m :: float64
  UptimeSeconds :: float64
  LastRestartUnix :: int
  ActiveConnections :: int
  ActiveUsers :: "string list"
  UsersAssigned :: int
  BytesWrittenTotal :: u64
  BytesReadTotal :: u64
  WriteOpsTotal :: u64
  ReadOpsTotal :: u64
  ErrorsTotal :: u64
  FailedWritesTotal :: u64
  FailedReadsTotal :: u64
  OpLatencyWriteMsP50 :: float64
  OpLatencyWriteMsP95 :: float64
  OpLatencyWriteMsP99 :: float64
  OpLatencyReadMsP50 :: float64
  OpLatencyReadMsP95 :: float64
  OpLatencyReadMsP99 :: float64

definition zero_metrics :: fileserver_metrics where
  "zero_metrics =
     \<lparr>DiskTotalBytes = 0, DiskUsedBytes = 0, DiskFreeBytes = 0, DiskUsagePercent = 0, PerUserStorage = [],
      PerUserQuota = [], ChunkCount = 0, CPUTempCelsius = 0, CPUUsagePercent = 0, MemUsedBytes = 0,
      MemTotalBytes = 0, MemUsagePercent = 0, LoadAvg1m = 0, LoadAvg5m = 0, UptimeSeconds = 0,
      LastRestartUnix = 0, ActiveConnections = 0, ActiveUsers = [], UsersAssigned = 0, BytesWrittenTotal = 0,
      BytesReadTotal = 0, WriteOpsTotal = 0, ReadOpsTotal = 0, ErrorsTotal = 0, FailedWritesTotal = 0,
      FailedReadsTotal = 0, OpLatencyWriteMsP50 = 0, OpLatencyWriteMsP95 = 0, OpLatencyWriteMsP99 = 0,
      OpLatencyReadMsP50 = 0, OpLatencyReadMsP95 = 0, OpLatencyReadMsP99 = 0\<rparr>"

record snapshot =
  sn_Timestamp :: int
  sn_Metrics :: fileserver_metrics
  sn_WriteThroughputBps :: float64
  sn_ReadThroughputBps :: float64
  sn_WriteMbps :: float64
  sn_ReadMbps :: float64
  sn_WriteIOPS :: float64
  sn_ReadIOPS :: float64
  sn_ErrorRatePct :: float64

definition zero_snapshot :: snapshot where
  "zero_snapshot =
     \<lparr>sn_Timestamp = 0, sn_Metrics = zero_metrics, sn_WriteThroughputBps = 0, sn_ReadThroughputBps = 0,
      sn_WriteMbps = 0, sn_ReadMbps = 0, sn_WriteIOPS = 0, sn_ReadIOPS = 0, sn_ErrorRatePct = 0\<rparr>"

section \<open>The ring buffer of the admin console\<close>

record ring_buffer =
  rb_data :: "snapshot list"
  rb_size :: nat
  rb_head :: nat
  rb_count :: nat

text \<open>\<open>make\<close> panics on a negative length.\<close>

definition NewRingBuffer :: "int \<Rightarrow> ring_buffer option" where
  "NewRingBuffer n =
     (if n < 0 then None
      else Some \<lparr>rb_data = replicate (nat n) zero_snapshot, rb_size = nat n, rb_head = 0, rb_count = 0\<rparr>)"

definition rb_Push :: "snapshot \<Rightarrow> ring_buffer \<Rightarrow> ring_buffer option" where
  "rb_Push s rb =
     (if rb_head rb < length (rb_data rb)
      then Some (rb\<lparr>rb_data := (rb_data rb)[rb_head rb := s],
                    rb_head := (rb_head rb + 1) mod rb_size rb,
                    rb_count := (if rb_count rb < rb_size rb then rb_count rb + 1 else rb_count rb)\<rparr>)
      else None)"

definition rb_GetLast :: "ring_buffer \<Rightarrow> snapshot option" where
  "rb_GetLast rb =
     (if rb_count rb = 0 then None
      else (let lastIdx = nat ((int (rb_head rb) - 1 + int (rb_size rb)) mod int (rb_size rb))
            in Some (rb_data rb ! lastIdx)))"

definition rb_GetAll :: "ring_buffer \<Rightarrow> snapshot list" where
  "rb_GetAll rb =
     (if rb_count rb = 0 then []
      else (let start = (if rb_count rb = rb_size rb then rb_head rb else 0)
            in map (\<lambda>i. rb_data rb ! ((start + i) mod rb_size rb)) [0..<rb_count rb]))"

definition rb_ok :: "ring_buffer \<Rightarrow> bool" where
  "rb_ok rb \<longleftrightarrow> ring_ok (rb_data rb) (rb_size rb) (rb_head rb) (rb_count rb)"

lemma NewRingBuffer_ok: "0 < n \<Longrightarrow> \<exists>rb. NewRingBuffer n = Some rb \<and> rb_ok rb \<and> rb_size rb = nat n \<and> rb_GetAll rb = []"
  by (simp add: NewRingBuffer_def rb_ok_def ring_ok_def rb_GetAll_def)

lemma rb_GetAll_ring:
  assumes "rb_ok rb" shows "rb_GetAll rb = ring_list (rb_data rb) (rb_head rb) (rb_count rb)"
proof (rule nth_equalityI)
  note ok = assms [unfolded rb_ok_def]
  show "length (rb_GetAll rb) = length (ring_list (rb_data rb) (rb_head rb) (rb_count rb))"
    by (simp add: rb_GetAll_def ring_list_length [OF ok] Let_def)
  show "rb_GetAll rb ! i = ring_list (rb_data rb) (rb_head rb) (rb_count rb) ! i" if "i < length (rb_GetAll rb)" for i
  proof -
    have i: "i < rb_count rb" using that by (auto simp: rb_GetAll_def Let_def split: if_splits)
    then show ?thesis by (simp add: rb_GetAll_def Let_def ring_list_nth [OF ok])
  qed
qed

interpretation metrics_ring: bounded_log rb_Push "\<lambda>_. True" rb_GetAll rb_size rb_ok
proof
  fix rb s assume ok: "rb_ok rb"
  define c where "c = rb\<lparr>rb_data := (rb_data rb)[rb_head rb := s], rb_head := (rb_head rb + 1) mod rb_size rb,
                rb_count := (if rb_count rb < rb_size rb then rb_count rb + 1 else rb_count rb)\<rparr>"
  have c: "rb_data c = (rb_data rb)[rb_head rb := s]" "rb_head c = (rb_head rb + 1) mod rb_size rb" "rb_size c = rb_size rb"
    "rb_count c = (if rb_count rb < rb_size rb then rb_count rb + 1 else rb_count rb)" by (simp_all add: c_def)
  have "rb_Push s rb = Some c" using ok by (simp add: rb_Push_def rb_ok_def ring_ok_def c_def)
  moreover have ok': "rb_ok c" unfolding rb_ok_def c by (rule ring_push_ok [OF ok [unfolded rb_ok_def]])
  moreover have "rb_GetAll c = last_n (rb_size rb) (rb_GetAll rb @ [s])"
    unfolding rb_GetAll_ring [OF ok'] rb_GetAll_ring [OF ok] c by (rule ring_push_list [OF ok [unfolded rb_ok_def]])
  ultimately show "\<exists>c. rb_Push s rb = Some c \<and> rb_ok c \<and> rb_size c = rb_size rb
      \<and> rb_GetAll c = (if True then last_n (rb_size rb) (rb_GetAll rb @ [s]) else rb_GetAll rb)" using c(3) by auto
next
  fix rb assume "rb_ok rb"
  then show "length (rb_GetAll rb) \<le> rb_size rb"
    using ring_list_length [of "rb_data rb"] by (auto simp: rb_GetAll_ring rb_ok_def ring_ok_def)
qed

lemma rb_GetLast_last:
  assumes ok: "rb_ok rb" shows "rb_GetLast rb = (if rb_GetAll rb = [] then None else Some (last (rb_GetAll rb)))"
proof (cases "rb_count rb = 0")
  case False
  note r = ok [unfolded rb_ok_def]
  have ne: "rb_GetAll rb \<noteq> []" using False ring_list_length [OF r] by (auto simp: rb_GetAll_ring [OF ok])
  have "rev (rb_GetAll rb) ! 0 = rb_data rb ! nat ((int (rb_head rb) - 1 + int (rb_size rb)) mod int (rb_size rb))"
    using ring_list_rev_nth [OF r, of 0] False by (simp add: rb_GetAll_ring [OF ok])
  then show ?thesis using ne False by (simp add: rb_GetLast_def Let_def hd_rev flip: hd_conv_nth)
qed (simp add: rb_GetLast_def rb_GetAll_def)

text \<open>C31. The ring buffer of a node refines a bounded log: in a buffer made for a positive number of entries every
  push succeeds, and after any sequence of pushes \<open>GetAll\<close> returns the last entries pushed, as many as fit
  and oldest first, and \<open>GetLast\<close> the newest.\<close>

theorem ring_buffer_keeps_the_newest:
  assumes "0 < n"
  shows "\<exists>new rb. NewRingBuffer n = Some new \<and> push_all rb_Push ss new = Some rb
    \<and> rb_GetAll rb = last_n (nat n) ss \<and> rb_GetLast rb = (if ss = [] then None else Some (last ss))"
proof -
  from NewRingBuffer_ok [OF assms] obtain new where
    new: "NewRingBuffer n = Some new" "rb_ok new" "rb_size new = nat n" "rb_GetAll new = []" by blast
  from metrics_ring.push_all_returns [OF new(2), of ss] new(3,4) obtain rb where
    rb: "push_all rb_Push ss new = Some rb" "rb_ok rb" "rb_GetAll rb = last_n (nat n) ss" by auto
  have "rb_GetLast rb = (if ss = [] then None else Some (last ss))"
    using rb_GetLast_last [OF rb(2)] last_last_n [of "nat n" ss] assms rb(3) by (simp add: last_n_Nil)
  with new(1) rb(1,3) show ?thesis by blast
qed

theorem ring_buffer_keeps_the_newest_witness:
  "0 < (2 :: int) \<and> (\<exists>new rb. NewRingBuffer 2 = Some new
     \<and> push_all rb_Push (map (\<lambda>t. zero_snapshot\<lparr>sn_Timestamp := t\<rparr>) [1, 2, 3]) new = Some rb
     \<and> map sn_Timestamp (rb_GetAll rb) = [2, 3])"
proof -
  have "map sn_Timestamp (last_n (nat 2) (map (\<lambda>t. zero_snapshot\<lparr>sn_Timestamp := t\<rparr>) [1, 2, 3])) = [2, 3]"
    by (simp add: last_n_def eval_nat_numeral)
  with ring_buffer_keeps_the_newest [of 2 "map (\<lambda>t. zero_snapshot\<lparr>sn_Timestamp := t\<rparr>) [1, 2, 3]"] show ?thesis by auto
qed

text \<open>A buffer of no entries cannot be pushed to.\<close>

lemma empty_ring_panics: "NewRingBuffer 0 = Some rb \<Longrightarrow> rb_Push s rb = None"
  by (auto simp: NewRingBuffer_def rb_Push_def)

end
