(* ===== verification/Op_Metrics.thy ===== *)
theory Op_Metrics
  imports Ring_Buffers "HOL-Library.Multiset"
begin

text \<open>
  Operation metrics of a fileserver (\<^verbatim>\<open>internal/fileserver/opmetrics.go\<close>): counters of 64 bits that wrap,
  and a window of recent latencies with its percentiles. A nil receiver, on which every method does
  nothing, is \<open>None\<close>.
\<close>

record latency_reservoir =
  lr_samples :: "float64 list"
  lr_idx :: nat
  lr_count :: nat
  lr_size :: nat

definition NewLatencyReservoir :: "int \<Rightarrow> latency_reservoir" where
  "NewLatencyReservoir n =
     (let sz = (if n \<le> 0 then 1024 else nat n)
      in \<lparr>lr_samples = replicate sz 0, lr_idx = 0, lr_count = 0, lr_size = sz\<rparr>)"

text \<open>\<open>None\<close> is a panic of the slice index.\<close>

definition lr_Add :: "float64 \<Rightarrow> latency_reservoir \<Rightarrow> latency_reservoir option" where
  "lr_Add durationMs r =
     (if durationMs < 0 then Some r
      else if lr_idx r < length (lr_samples r)
      then Some (r\<lparr>lr_samples := (lr_samples r)[lr_idx r := durationMs],
                   lr_idx := (lr_idx r + 1) mod lr_size r,
                   lr_count := (if lr_count r < lr_size r then lr_count r + 1 else lr_count r)\<rparr>)
      else None)"

text \<open>The interpolated value at rank \<open>p\<close> of a sorted sample.\<close>

definition calc :: "float64 list \<Rightarrow> float64 \<Rightarrow> float64" where
  "calc cp p =
     (let rank = p * of_nat (length cp - 1);
          lower = nat \<lfloor>rank\<rfloor>;
          upper = lower + 1;
          weight = rank - of_nat lower
      in if upper \<ge> length cp then cp ! lower
         else cp ! lower * (1 - weight) + cp ! upper * weight)"

definition Percentiles :: "latency_reservoir \<Rightarrow> float64 \<times> float64 \<times> float64" where
  "Percentiles r =
     (if lr_count r = 0 then (0, 0, 0)
      else (let cp = sort (take (lr_count r) (lr_samples r))
            in (calc cp (50 / 100), calc cp (95 / 100), calc cp (99 / 100))))"

record operation_metrics =
  om_bytesWritten :: u64
  om_bytesRead :: u64
  om_writeOps :: u64
  om_readOps :: u64
  om_errors :: u64
  om_failedWrites :: u64
  om_failedReads :: u64
  om_writeLatency :: latency_reservoir
  om_readLatency :: latency_reservoir

definition NewOperationMetrics :: operation_metrics where
  "NewOperationMetrics =
     \<lparr>om_bytesWritten = 0, om_bytesRead = 0, om_writeOps = 0, om_readOps = 0, om_errors = 0, om_failedWrites = 0,
      om_failedReads = 0, om_writeLatency = NewLatencyReservoir 1024, om_readLatency = NewLatencyReservoir 1024\<rparr>"

definition AddBytesWritten :: "u64 \<Rightarrow> operation_metrics \<Rightarrow> operation_metrics" where
  "AddBytesWritten bytes om = om\<lparr>om_bytesWritten := om_bytesWritten om + bytes\<rparr>"

definition AddBytesRead :: "u64 \<Rightarrow> operation_metrics \<Rightarrow> operation_metrics" where
  "AddBytesRead bytes om = om\<lparr>om_bytesRead := om_bytesRead om + bytes\<rparr>"

text \<open>\<open>failed\<close> stands for \<open>err \<noteq> nil\<close>.\<close>

definition RecordWriteOp :: "float64 \<Rightarrow> bool \<Rightarrow> operation_metrics \<Rightarrow> operation_metrics option" where
  "RecordWriteOp durationMs failed om =
     (let om1 = om\<lparr>om_writeOps := om_writeOps om + 1\<rparr>;
          om2 = (if failed then om1\<lparr>om_errors := om_errors om1 + 1, om_failedWrites := om_failedWrites om1 + 1\<rparr> else om1)
      in if 0 \<le> durationMs then map_option (\<lambda>r. om2\<lparr>om_writeLatency := r\<rparr>) (lr_Add durationMs (om_writeLatency om2))
         else Some om2)"

definition RecordWrite :: "u64 \<Rightarrow> float64 \<Rightarrow> bool \<Rightarrow> operation_metrics \<Rightarrow> operation_metrics option" where
  "RecordWrite bytes durationMs failed om =
     (let om1 = om\<lparr>om_writeOps := om_writeOps om + 1\<rparr>;
          om2 = (if failed then om1\<lparr>om_errors := om_errors om1 + 1, om_failedWrites := om_failedWrites om1 + 1\<rparr>
                 else om1\<lparr>om_bytesWritten := om_bytesWritten om1 + bytes\<rparr>)
      in if 0 \<le> durationMs then map_option (\<lambda>r. om2\<lparr>om_writeLatency := r\<rparr>) (lr_Add durationMs (om_writeLatency om2))
         else Some om2)"

definition RecordReadOp :: "float64 \<Rightarrow> bool \<Rightarrow> operation_metrics \<Rightarrow> operation_metrics option" where
  "RecordReadOp durationMs failed om =
     (let om1 = om\<lparr>om_readOps := om_readOps om + 1\<rparr>;
          om2 = (if failed then om1\<lparr>om_errors := om_errors om1 + 1, om_failedReads := om_failedReads om1 + 1\<rparr> else om1)
      in if 0 \<le> durationMs then map_option (\<lambda>r. om2\<lparr>om_readLatency := r\<rparr>) (lr_Add durationMs (om_readLatency om2))
         else Some om2)"

definition RecordRead :: "u64 \<Rightarrow> float64 \<Rightarrow> bool \<Rightarrow> operation_metrics \<Rightarrow> operation_metrics option" where
  "RecordRead bytes durationMs failed om =
     (let om1 = om\<lparr>om_readOps := om_readOps om + 1\<rparr>;
          om2 = (if failed then om1\<lparr>om_errors := om_errors om1 + 1, om_failedReads := om_failedReads om1 + 1\<rparr>
                 else om1\<lparr>om_bytesRead := om_bytesRead om1 + bytes\<rparr>)
      in if 0 \<le> durationMs then map_option (\<lambda>r. om2\<lparr>om_readLatency := r\<rparr>) (lr_Add durationMs (om_readLatency om2))
         else Some om2)"

record op_snapshot =
  os_BytesWritten :: u64
  os_BytesRead :: u64
  os_WriteOps :: u64
  os_ReadOps :: u64
  os_Errors :: u64
  os_FailedWrites :: u64
  os_FailedReads :: u64
  os_WriteMs :: "float64 \<times> float64 \<times> float64"
  os_ReadMs :: "float64 \<times> float64 \<times> float64"

definition om_Snapshot :: "operation_metrics option \<Rightarrow> op_snapshot" where
  "om_Snapshot omo =
     (case omo of
        None \<Rightarrow> \<lparr>os_BytesWritten = 0, os_BytesRead = 0, os_WriteOps = 0, os_ReadOps = 0, os_Errors = 0,
                 os_FailedWrites = 0, os_FailedReads = 0, os_WriteMs = (0, 0, 0), os_ReadMs = (0, 0, 0)\<rparr>
      | Some om \<Rightarrow>
          \<lparr>os_BytesWritten = om_bytesWritten om, os_BytesRead = om_bytesRead om, os_WriteOps = om_writeOps om,
           os_ReadOps = om_readOps om, os_Errors = om_errors om, os_FailedWrites = om_failedWrites om,
           os_FailedReads = om_failedReads om, os_WriteMs = Percentiles (om_writeLatency om),
           os_ReadMs = Percentiles (om_readLatency om)\<rparr>)"

section \<open>The window\<close>

definition lr_ok :: "latency_reservoir \<Rightarrow> bool" where
  "lr_ok r \<longleftrightarrow> ring_ok (lr_samples r) (lr_size r) (lr_idx r) (lr_count r)"

definition lr_window :: "latency_reservoir \<Rightarrow> float64 list" where
  "lr_window r = ring_list (lr_samples r) (lr_idx r) (lr_count r)"


interpretation latency_window: bounded_log lr_Add "\<lambda>x. 0 \<le> x" lr_window lr_size lr_ok
proof
  fix r :: latency_reservoir and x assume ok: "lr_ok r"
  show "\<exists>c. lr_Add x r = Some c \<and> lr_ok c \<and> lr_size c = lr_size r
      \<and> lr_window c = (if 0 \<le> x then last_n (lr_size r) (lr_window r @ [x]) else lr_window r)"
  proof (cases "0 \<le> x")
    case True
    define c where "c = r\<lparr>lr_samples := (lr_samples r)[lr_idx r := x], lr_idx := (lr_idx r + 1) mod lr_size r,
        lr_count := (if lr_count r < lr_size r then lr_count r + 1 else lr_count r)\<rparr>"
    have c: "lr_samples c = (lr_samples r)[lr_idx r := x]" "lr_idx c = (lr_idx r + 1) mod lr_size r" "lr_size c = lr_size r"
      "lr_count c = (if lr_count r < lr_size r then lr_count r + 1 else lr_count r)" by (simp_all add: c_def)
    have "lr_Add x r = Some c" using ok True by (simp add: lr_Add_def lr_ok_def ring_ok_def c_def)
    moreover have "lr_ok c" unfolding lr_ok_def c by (rule ring_push_ok [OF ok [unfolded lr_ok_def]])
    moreover have "lr_window c = last_n (lr_size r) (lr_window r @ [x])"
      unfolding lr_window_def c by (rule ring_push_list [OF ok [unfolded lr_ok_def]])
    ultimately show ?thesis using True c(3) by auto
  next
    case False
    with ok show ?thesis by (simp add: lr_Add_def)
  qed
next
  fix r assume "lr_ok r"
  then show "length (lr_window r) \<le> lr_size r"
    using ring_list_length [of "lr_samples r"] by (auto simp: lr_window_def lr_ok_def ring_ok_def)
qed


section \<open>Percentiles\<close>






text \<open>The counters: a failed write counts as an error and adds no bytes.\<close>

lemma RecordWrite_counts:
  assumes "lr_ok (om_writeLatency om)"
  shows "\<exists>om'. RecordWrite bytes ms failed om = Some om' \<and> om_writeOps om' = om_writeOps om + 1
    \<and> om_errors om' - om_errors om = (if failed then 1 else 0) \<and> om_failedWrites om' - om_failedWrites om = (if failed then 1 else 0)
    \<and> om_bytesWritten om' = om_bytesWritten om + (if failed then 0 else bytes) \<and> lr_ok (om_writeLatency om')"
proof -
  from latency_window.push_returns [OF assms, of ms] obtain r where "lr_Add ms (om_writeLatency om) = Some r" "lr_ok r" by blast
  with assms show ?thesis by (auto simp: RecordWrite_def Let_def)
qed

end
