(* ===== verification/Admin_History.thy ===== *)
theory Admin_History
  imports Ring_Buffers
begin

text \<open>
  The command history of the admin console (\<^verbatim>\<open>internal/admin/history.go\<close>): a circular buffer of command
  records, written to a JSON file after every change and read back at start-up. The file holds the
  records newest first. Errors of a save are ignored by the callers, as in the code.
\<close>

record node_result =
  nr_NodeID :: string
  nr_Address :: string
  nr_ExitCode :: int
  nr_Output :: string
  nr_Error :: string
  nr_DurationMs :: int

record command_record =
  cr_ID :: string
  cr_Timestamp :: int
  cr_ActionType :: string
  cr_Command :: string
  cr_TargetNodes :: "string list"
  cr_Status :: string
  cr_DurationMs :: int
  cr_NodeResults :: "(string, node_result) gomap"

definition zero_record :: command_record where
  "zero_record =
     \<lparr>cr_ID = [], cr_Timestamp = 0, cr_ActionType = [], cr_Command = [], cr_TargetNodes = [], cr_Status = [],
      cr_DurationMs = 0, cr_NodeResults = []\<rparr>"

text \<open>What the operating system does for one call: which system calls fail, the name the next temporary file
  gets, and how foreign bytes decode.\<close>

record 'j file_env =
  fe_err :: oserr
  fe_tmp :: string
  fe_dec :: "byte list \<Rightarrow> 'j option"

type_synonym history_disk = "command_record list disk_of"
type_synonym history_env = "command_record list file_env"

record command_history =
  ch_data :: "command_record list"
  ch_capacity :: nat
  ch_head :: nat
  ch_count :: nat
  ch_filePath :: string

section \<open>Operations\<close>

definition newest_first :: "command_history \<Rightarrow> command_record list" where
  "newest_first ch =
     map (\<lambda>i. ch_data ch ! nat ((int (ch_head ch) - 1 - int i + int (ch_capacity ch)) mod int (ch_capacity ch)))
       [0..<ch_count ch]"

definition ch_GetAll :: "command_history \<Rightarrow> command_record list" where
  "ch_GetAll ch = newest_first ch"

definition ch_GetByID :: "string \<Rightarrow> command_history \<Rightarrow> command_record option" where
  "ch_GetByID i ch = find (\<lambda>r. cr_ID r = i) (take (ch_count ch) (ch_data ch))"

definition ch_Count :: "command_history \<Rightarrow> nat" where
  "ch_Count ch = ch_count ch"

definition saveLocked :: "history_env \<Rightarrow> command_history \<Rightarrow> history_disk \<Rightarrow> bool \<times> history_disk" where
  "saveLocked env ch d =
     (let er = fe_err env; path = ch_filePath ch; tmpPath = fe_tmp env in
      case os_MkdirAll er (dir_of path) d of
        (False, d1) \<Rightarrow> (False, d1)
      | (True, d1) \<Rightarrow>
          (let records = newest_first ch in
           if er (CCreateTemp (dir_of path)) then (False, d1)
           else
             (let d2 = mput tmpPath (DFile (Raw [])) d1 in
              if er (CWriteAt tmpPath) then (False, snd (os_Remove er tmpPath d2))
              else
                (let d3 = mput tmpPath (DFile (Json records)) d2 in
                 if er (CClose tmpPath) then (False, snd (os_Remove er tmpPath d3))
                 else (case os_Rename er tmpPath path d3 of
                         (False, d4) \<Rightarrow> (False, snd (os_Remove er tmpPath d4))
                       | (True, d4) \<Rightarrow> (True, d4))))))"

text \<open>The write into the circle that \<open>Push\<close> and \<open>load\<close> share; \<open>None\<close> is a panic of the slice index.\<close>

definition put_record :: "command_record \<Rightarrow> command_history \<Rightarrow> command_history option" where
  "put_record r ch =
     (if ch_head ch < length (ch_data ch)
      then Some (ch\<lparr>ch_data := (ch_data ch)[ch_head ch := r],
                    ch_head := (ch_head ch + 1) mod ch_capacity ch,
                    ch_count := (if ch_count ch < ch_capacity ch then ch_count ch + 1 else ch_count ch)\<rparr>)
      else None)"

definition ch_Push :: "history_env \<Rightarrow> command_record \<Rightarrow> command_history \<times> history_disk \<Rightarrow> (command_history \<times> history_disk) option" where
  "ch_Push env r chd =
     (case chd of (ch, d) \<Rightarrow>
        (case put_record r ch of
           None \<Rightarrow> None
         | Some ch1 \<Rightarrow> Some (ch1, if ch_filePath ch1 \<noteq> [] then snd (saveLocked env ch1 d) else d)))"

text \<open>The slot of the \<open>i\<close>-th record, oldest first.\<close>

definition slot :: "command_history \<Rightarrow> nat \<Rightarrow> nat" where
  "slot ch i = (if ch_count ch < ch_capacity ch then i else (ch_head ch + i) mod ch_capacity ch)"

definition ch_Update :: "history_env \<Rightarrow> command_record \<Rightarrow> command_history \<Rightarrow> history_disk \<Rightarrow> command_history \<times> history_disk" where
  "ch_Update env r ch d =
     (case find (\<lambda>i. cr_ID (ch_data ch ! slot ch i) = cr_ID r) [0..<ch_count ch] of
        None \<Rightarrow> (ch, d)
      | Some i \<Rightarrow>
          (let ch1 = ch\<lparr>ch_data := (ch_data ch)[slot ch i := r]\<rparr>
           in (ch1, if ch_filePath ch1 \<noteq> [] then snd (saveLocked env ch1 d) else d)))"

definition parse_records :: "history_env \<Rightarrow> command_record list file_content \<Rightarrow> command_record list option" where
  "parse_records env c = (case c of Json rs \<Rightarrow> Some rs | Raw bs \<Rightarrow> fe_dec env bs)"

definition ch_load :: "history_env \<Rightarrow> history_disk \<Rightarrow> command_history \<Rightarrow> command_history option" where
  "ch_load env d ch =
     (if os_stat_not_exist (fe_err env) d (ch_filePath ch) then Some ch
      else (case os_ReadFile (fe_err env) (ch_filePath ch) d of
              Got c \<Rightarrow>
                (case parse_records env c of
                   None \<Rightarrow> Some ch
                 | Some records \<Rightarrow> push_all put_record (rev (take (ch_capacity ch) records)) ch)
            | _ \<Rightarrow> Some ch))"

definition NewCommandHistory :: "history_env \<Rightarrow> int \<Rightarrow> string \<Rightarrow> history_disk \<Rightarrow> command_history option" where
  "NewCommandHistory env n filePath d =
     (let cap = (if n \<le> 0 then 100 else nat n);
          ch = \<lparr>ch_data = replicate cap zero_record, ch_capacity = cap, ch_head = 0, ch_count = 0, ch_filePath = filePath\<rparr>
      in if filePath \<noteq> [] then ch_load env d ch else Some ch)"

section \<open>The buffer\<close>

definition ch_ok :: "command_history \<Rightarrow> bool" where
  "ch_ok ch \<longleftrightarrow> ring_ok (ch_data ch) (ch_capacity ch) (ch_head ch) (ch_count ch)"

definition oldest_first :: "command_history \<Rightarrow> command_record list" where
  "oldest_first ch = ring_list (ch_data ch) (ch_head ch) (ch_count ch)"

lemma GetAll_oldest: assumes "ch_ok ch" shows "ch_GetAll ch = rev (oldest_first ch)"
proof (rule nth_equalityI)
  note ok = assms [unfolded ch_ok_def]
  show "length (ch_GetAll ch) = length (rev (oldest_first ch))"
    by (simp add: ch_GetAll_def newest_first_def oldest_first_def ring_list_length [OF ok])
  show "ch_GetAll ch ! i = rev (oldest_first ch) ! i" if "i < length (ch_GetAll ch)" for i
    using that ring_list_rev_nth [OF ok, of i] by (simp add: ch_GetAll_def newest_first_def oldest_first_def)
qed

lemma put_record_ring:
  assumes ok: "ch_ok ch"
  shows "\<exists>c. put_record r ch = Some c \<and> ch_ok c \<and> ch_capacity c = ch_capacity ch \<and> ch_filePath c = ch_filePath ch
    \<and> oldest_first c = last_n (ch_capacity ch) (oldest_first ch @ [r])"
proof -
  define c where "c = ch\<lparr>ch_data := (ch_data ch)[ch_head ch := r], ch_head := (ch_head ch + 1) mod ch_capacity ch,
      ch_count := (if ch_count ch < ch_capacity ch then ch_count ch + 1 else ch_count ch)\<rparr>"
  have c: "ch_data c = (ch_data ch)[ch_head ch := r]" "ch_head c = (ch_head ch + 1) mod ch_capacity ch" "ch_capacity c = ch_capacity ch"
    "ch_count c = (if ch_count ch < ch_capacity ch then ch_count ch + 1 else ch_count ch)" "ch_filePath c = ch_filePath ch"
    by (simp_all add: c_def)
  have "put_record r ch = Some c" using ok by (simp add: put_record_def ch_ok_def ring_ok_def c_def)
  moreover have "ch_ok c" unfolding ch_ok_def c by (rule ring_push_ok [OF ok [unfolded ch_ok_def]])
  moreover have "oldest_first c = last_n (ch_capacity ch) (oldest_first ch @ [r])"
    unfolding oldest_first_def c by (rule ring_push_list [OF ok [unfolded ch_ok_def]])
  ultimately show ?thesis using c(3,5) by blast
qed

lemma oldest_bound: "ch_ok ch \<Longrightarrow> length (oldest_first ch) \<le> ch_capacity ch"
  using ring_list_length [of "ch_data ch"] by (auto simp: oldest_first_def ch_ok_def ring_ok_def)

text \<open>Records put into the buffer alone, and pushed with a save each.\<close>

interpretation loaded_history: bounded_log put_record "\<lambda>_. True" oldest_first ch_capacity ch_ok
  by unfold_locales (use put_record_ring oldest_bound in fastforce)+

interpretation pushed_history: bounded_log "ch_Push env" "\<lambda>_. True" "\<lambda>(ch, d). oldest_first ch" "\<lambda>(ch, d). ch_capacity ch" "\<lambda>(ch, d). ch_ok ch"
  for env
proof
  fix chd :: "command_history \<times> history_disk" and r assume ok: "case chd of (ch, d) \<Rightarrow> ch_ok ch"
  obtain ch d where chd: "chd = (ch, d)" by (cases chd)
  from put_record_ring [of ch r] ok obtain c where "put_record r ch = Some c" "ch_ok c" "ch_capacity c = ch_capacity ch"
    "oldest_first c = last_n (ch_capacity ch) (oldest_first ch @ [r])" by (auto simp: chd)
  then show "\<exists>c. ch_Push env r chd = Some c \<and> (case c of (ch, d) \<Rightarrow> ch_ok ch)
      \<and> (case c of (ch, d) \<Rightarrow> ch_capacity ch) = (case chd of (ch, d) \<Rightarrow> ch_capacity ch)
      \<and> (case c of (ch, d) \<Rightarrow> oldest_first ch) = (if True then last_n (case chd of (ch, d) \<Rightarrow> ch_capacity ch)
           ((case chd of (ch, d) \<Rightarrow> oldest_first ch) @ [r]) else (case chd of (ch, d) \<Rightarrow> oldest_first ch))"
    by (simp add: chd ch_Push_def)
next
  fix chd :: "command_history \<times> history_disk" assume "case chd of (ch, d) \<Rightarrow> ch_ok ch"
  then show "length (case chd of (ch, d) \<Rightarrow> oldest_first ch) \<le> (case chd of (ch, d) \<Rightarrow> ch_capacity ch)"
    using oldest_bound by (cases chd) simp
qed

section \<open>Restart\<close>

lemma saveLocked_file:
  assumes "saveLocked env ch d = (True, d')" "fe_tmp env \<noteq> ch_filePath ch"
  shows "mget d' (ch_filePath ch) = Some (DFile (Json (ch_GetAll ch)))"
proof -
  from assms(1) obtain d3 where "os_Rename (fe_err env) (fe_tmp env) (ch_filePath ch) d3 = (True, d')"
    "mget d3 (fe_tmp env) = Some (DFile (Json (newest_first ch)))"
    by (auto simp: saveLocked_def Let_def split: prod.splits bool.splits if_splits)
  with os_Rename_target [of "fe_err env" "fe_tmp env" "ch_filePath ch" d3 d'] assms(2) show ?thesis by (simp add: ch_GetAll_def)
qed

text \<open>The command history survives a restart: when the last save succeeded, a console started on the file
  lists the same records in the same order, or the newest ones if it is given a smaller capacity.\<close>

theorem command_history_survives_restart:
  assumes ok: "ch_ok ch" and save: "saveLocked env ch d = (True, d')" and tmp: "fe_tmp env \<noteq> ch_filePath ch" and path: "ch_filePath ch \<noteq> []"
    and read: "\<not> fe_err env' (CReadFile (ch_filePath ch))"
  shows "\<exists>ch'. NewCommandHistory env' n (ch_filePath ch) d' = Some ch' \<and> ch_ok ch'
    \<and> ch_GetAll ch' = take (if n \<le> 0 then 100 else nat n) (ch_GetAll ch)"
proof -
  let ?cap = "if n \<le> 0 then 100 else nat n"
  define c where "c = \<lparr>ch_data = replicate ?cap zero_record, ch_capacity = ?cap, ch_head = 0, ch_count = 0, ch_filePath = ch_filePath ch\<rparr>"
  have c: "ch_ok c" "oldest_first c = []" "ch_capacity c = ?cap" "ch_filePath c = ch_filePath ch"
    by (auto simp: c_def ch_ok_def ring_ok_def oldest_first_def ring_list_def)
  from loaded_history.push_all_returns [OF c(1), of "rev (take ?cap (ch_GetAll ch))"] c(2,3) obtain ch' where
    ch': "push_all put_record (rev (take ?cap (ch_GetAll ch))) c = Some ch'" "ch_ok ch'" "oldest_first ch' = rev (take ?cap (ch_GetAll ch))"
    by auto
  have "ch_load env' d' c = Some ch'"
    using saveLocked_file [OF save tmp] read ch'(1)
    by (simp add: ch_load_def c(3,4) os_stat_not_exist_def os_ReadFile_def parse_records_def)
  then have "NewCommandHistory env' n (ch_filePath ch) d' = Some ch'" using path by (simp add: NewCommandHistory_def Let_def c_def)
  with ch' GetAll_oldest [OF ch'(2)] show ?thesis by simp
qed

theorem command_history_survives_restart_witness:
  "\<exists>d' ch'. saveLocked \<lparr>fe_err = (\<lambda>_. False), fe_tmp = ''h/t'', fe_dec = (\<lambda>_. None)\<rparr>
       \<lparr>ch_data = [zero_record], ch_capacity = 1, ch_head = 0, ch_count = 1, ch_filePath = ''h/c''\<rparr> [] = (True, d')
     \<and> NewCommandHistory \<lparr>fe_err = (\<lambda>_. False), fe_tmp = ''h/t'', fe_dec = (\<lambda>_. None)\<rparr> 5 ''h/c'' d' = Some ch'
     \<and> ch_GetAll ch' = [zero_record]"
proof -
  let ?env = "\<lparr>fe_err = (\<lambda>_. False), fe_tmp = ''h/t'', fe_dec = (\<lambda>_. None)\<rparr> :: history_env"
  let ?ch = "\<lparr>ch_data = [zero_record], ch_capacity = 1, ch_head = 0, ch_count = 1, ch_filePath = ''h/c''\<rparr>"
  have paths: "dir_of ''h/c'' = ''h''" "ancestors ''h'' = [''h'']" by code_simp+
  have "fst (saveLocked ?env ?ch []) = True"
    by (simp add: saveLocked_def Let_def os_MkdirAll_def os_Rename_def paths is_dir_def under_def HasPrefix_def)
  then obtain d' where save: "saveLocked ?env ?ch [] = (True, d')" by (metis prod.collapse)
  have ok: "ch_ok ?ch" by (simp add: ch_ok_def ring_ok_def)
  have all: "ch_GetAll ?ch = [zero_record]" by (simp add: ch_GetAll_def newest_first_def)
  from command_history_survives_restart [OF ok save, of ?env 5] obtain ch' where
    "NewCommandHistory ?env 5 ''h/c'' d' = Some ch'" "ch_GetAll ch' = take 5 (ch_GetAll ?ch)" by auto
  with save all show ?thesis by auto
qed

section \<open>Looking up and updating\<close>

lemma slot_nth:
  assumes "ch_ok ch" "i < ch_count ch"
  shows "ch_data ch ! slot ch i = oldest_first ch ! i" "slot ch i < length (ch_data ch)"
  using ring_list_nth [OF assms(1) [unfolded ch_ok_def] assms(2)] assms
  by (auto simp: slot_def oldest_first_def ch_ok_def ring_ok_def)

lemma slot_inj:
  assumes ok: "ch_ok ch" and i: "i < ch_count ch" "j < ch_count ch" and eq: "slot ch i = slot ch j"
  shows "i = j"
proof (cases "ch_count ch < ch_capacity ch")
  case False
  then have c: "ch_count ch = ch_capacity ch" "ch_head ch < ch_capacity ch" using ok by (simp_all add: ch_ok_def ring_ok_def)
  have wrap: "(ch_head ch + k) mod ch_capacity ch = (if ch_head ch + k < ch_capacity ch then ch_head ch + k else ch_head ch + k - ch_capacity ch)"
    if "k < ch_count ch" for k
    using that c by (simp add: mod_if)
  from eq c(1) have "(ch_head ch + i) mod ch_capacity ch = (ch_head ch + j) mod ch_capacity ch" by (simp add: slot_def)
  then show ?thesis unfolding wrap [OF i(1)] wrap [OF i(2)] using i c by (simp split: if_splits)
qed (use eq in \<open>simp add: slot_def\<close>)

text \<open>\<open>Update\<close> replaces the oldest record with the ID of the new one, and \<open>GetByID\<close> finds a record exactly when
  one with the ID is kept.\<close>

lemma Update_in_place:
  assumes ok: "ch_ok ch"
  shows "oldest_first (fst (ch_Update env r ch d)) =
    (case find (\<lambda>i. cr_ID (oldest_first ch ! i) = cr_ID r) [0..<length (oldest_first ch)] of
       None \<Rightarrow> oldest_first ch | Some i \<Rightarrow> (oldest_first ch)[i := r])"
proof -
  have len: "length (oldest_first ch) = ch_count ch" using ring_list_length ok by (auto simp: oldest_first_def ch_ok_def)
  have find: "find (\<lambda>i. cr_ID (ch_data ch ! slot ch i) = cr_ID r) [0..<ch_count ch]
      = find (\<lambda>i. cr_ID (oldest_first ch ! i) = cr_ID r) [0..<ch_count ch]"
    by (rule find_cong) (use slot_nth [OF ok] in auto)
  have upd: "oldest_first (ch\<lparr>ch_data := (ch_data ch)[slot ch i := r]\<rparr>) = (oldest_first ch)[i := r]" if i: "i < ch_count ch" for i
  proof (rule nth_equalityI)
    define c where "c = ch\<lparr>ch_data := (ch_data ch)[slot ch i := r]\<rparr>"
    have ok': "ch_ok c" using ok by (simp add: c_def ch_ok_def ring_ok_def)
    have lc: "length (oldest_first c) = ch_count ch" using ring_list_length ok' by (auto simp: oldest_first_def ch_ok_def c_def)
    then show "length (oldest_first c) = length ((oldest_first ch)[i := r])" using len by simp
    fix j assume "j < length (oldest_first c)"
    then have j: "j < ch_count ch" using lc by simp
    have "oldest_first c ! j = ch_data c ! slot c j" using slot_nth(1) [OF ok', of j] j by (simp add: c_def)
    also have "\<dots> = (ch_data ch)[slot ch i := r] ! slot ch j" by (simp add: c_def slot_def)
    also have "\<dots> = (oldest_first ch)[i := r] ! j"
    proof (cases "i = j")
      case False
      then have "slot ch i \<noteq> slot ch j" using slot_inj [OF ok i j] by blast
      with False slot_nth(1) [OF ok j] show ?thesis by simp
    qed (use slot_nth(2) [OF ok j] j len in simp)
    finally show "oldest_first c ! j = (oldest_first ch)[i := r] ! j" .
  qed
  show ?thesis
  proof (cases "find (\<lambda>i. cr_ID (oldest_first ch ! i) = cr_ID r) [0..<ch_count ch]")
    case (Some i)
    then have "i < ch_count ch" by (auto simp: find_Some_iff)
    with Some upd show ?thesis by (simp add: ch_Update_def find len Let_def)
  qed (simp add: ch_Update_def find len)
qed

lemma GetByID_finds:
  assumes "ch_ok ch"
  shows "ch_GetByID i ch \<noteq> None \<longleftrightarrow> (\<exists>r\<in>set (ch_GetAll ch). cr_ID r = i)"
proof -
  have "set (oldest_first ch) = set (take (ch_count ch) (ch_data ch))"
    using assms by (auto simp: oldest_first_def ring_list_def ch_ok_def ring_ok_def simp flip: set_append)
      (metis append_take_drop_id set_append Un_iff)+
  then show ?thesis by (auto simp: ch_GetByID_def GetAll_oldest [OF assms] find_None_iff)
qed

end
