(* ===== verification/Admin_Alerts.thy ===== *)
theory Admin_Alerts
  imports Admin_History
begin

text \<open>
  The alerts of the admin console (\<^verbatim>\<open>internal/admin/alerts.go\<close>). The log is a Go slice of structs and the map
  of active conditions holds pointers into it, so the model has a heap: every alert struct has an address,
  the log is a list of addresses, and prepending to the log copies all structs to fresh addresses, which
  is what \<^verbatim>\<open>append([]Alert{alert}, am.alerts...)\<close> does.
\<close>

section \<open>Printing\<close>

definition dec_int :: "int \<Rightarrow> string" where
  "dec_int i = (if i < 0 then ''-'' @ dec (nat (- i)) else dec (nat i))"

text \<open>\<^verbatim>\<open>%.1f\<close> and \<^verbatim>\<open>%.0f\<close>: the nearest decimal, ties to even.\<close>

definition round_even :: "float64 \<Rightarrow> int" where
  "round_even x =
     (let f = \<lfloor>x\<rfloor>; r = x - of_int f
      in if r < 1 / 2 then f else if r > 1 / 2 then f + 1 else if even f then f else f + 1)"

definition fmt_fixed :: "nat \<Rightarrow> float64 \<Rightarrow> string" where
  "fmt_fixed k x =
     (let q = nat (round_even (\<bar>x\<bar> * 10 ^ k)); ds = dec (q mod 10 ^ k)
      in (if x < 0 then ''-'' else []) @ dec (q div 10 ^ k)
         @ (if k = 0 then [] else ''.'' @ replicate (k - length ds) CHR ''0'' @ ds))"

definition degree :: string where
  "degree = [CHR 0xC2, CHR 0xB0]"

section \<open>Nodes\<close>

definition StatusOnline :: string where "StatusOnline = ''online''"
definition StatusWarning :: string where "StatusWarning = ''warning''"
definition StatusDegraded :: string where "StatusDegraded = ''degraded''"
definition StatusCritical :: string where "StatusCritical = ''critical''"
definition StatusOffline :: string where "StatusOffline = ''offline''"

record node_state =
  ns_FsID :: string
  ns_NodeID :: string
  ns_DisplayID :: int
  ns_DisplayName :: string
  ns_MachineName :: string
  ns_Address :: string
  ns_MetricsURL :: string
  ns_Status :: string
  ns_LastSeen :: int
  ns_Metrics :: "fileserver_metrics option"
  ns_WriteThroughputBps :: float64
  ns_ReadThroughputBps :: float64
  ns_WriteMbps :: float64
  ns_ReadMbps :: float64
  ns_WriteIOPS :: float64
  ns_ReadIOPS :: float64
  ns_ErrorRatePct :: float64
  ns_History :: "ring_buffer option"

definition computeNodeStatus :: "int \<Rightarrow> fileserver_metrics option \<Rightarrow> int \<Rightarrow> string" where
  "computeNodeStatus now mo lastSeen =
     (case mo of
        None \<Rightarrow> StatusOffline
      | Some m \<Rightarrow>
          if lastSeen = 0 then StatusOffline
          else if now - lastSeen > 30 then StatusOffline
          else if DiskUsagePercent m > 95 \<or> CPUTempCelsius m > 85 then StatusCritical
          else if DiskUsagePercent m > 90 \<or> CPUTempCelsius m > 75 then StatusDegraded
          else if DiskUsagePercent m > 80 \<or> CPUTempCelsius m > 65 then StatusWarning
          else StatusOnline)"

section \<open>Alerts\<close>

definition SeverityInfo :: string where "SeverityInfo = ''info''"
definition SeverityWarning :: string where "SeverityWarning = ''warning''"
definition SeverityCritical :: string where "SeverityCritical = ''critical''"

definition AlertTypeNodeOffline :: string where "AlertTypeNodeOffline = ''node_offline''"
definition AlertTypeNodeOnline :: string where "AlertTypeNodeOnline = ''node_online''"
definition AlertTypeStorageWarning :: string where "AlertTypeStorageWarning = ''storage_warning''"
definition AlertTypeTempWarning :: string where "AlertTypeTempWarning = ''temp_warning''"
definition AlertTypeQuotaExceeded :: string where "AlertTypeQuotaExceeded = ''quota_exceeded''"
definition AlertTypeErrorSpike :: string where "AlertTypeErrorSpike = ''error_spike''"
definition AlertTypeServiceRestart :: string where "AlertTypeServiceRestart = ''service_restart''"

record alert =
  al_ID :: string
  al_Timestamp :: int
  al_Severity :: string
  al_Type :: string
  al_Title :: string
  al_Message :: string
  al_NodeID :: string
  al_NodeName :: string
  al_Username :: string
  al_Resolved :: bool
  al_ResolvedAt :: int

record alert_manager =
  am_heap :: "alert list"
  am_alerts :: "nat list"
  am_active :: "(string, nat) gomap"
  am_capacity :: nat
  am_filePath :: string
  am_disk :: "alert list disk_of"

text \<open>
  What the surroundings supply to one call: the clock, the clock and the random identifier at the creation
  of the alert at a given address, which system calls fail, how foreign bytes decode, and how
  \<^verbatim>\<open>sort.Slice\<close> arranges alerts of equal time.
\<close>

record alert_env =
  ae_now :: int
  ae_stamp :: "nat \<Rightarrow> int"
  ae_uuid :: "nat \<Rightarrow> string"
  ae_err :: oserr
  ae_dec :: "byte list \<Rightarrow> alert list option"
  ae_sorted :: "alert list \<Rightarrow> alert list"

definition cell :: "alert_manager \<Rightarrow> nat \<Rightarrow> alert" where
  "cell am a = am_heap am ! a"

definition log_of :: "alert_manager \<Rightarrow> alert list" where
  "log_of am = map (cell am) (am_alerts am)"

definition resolve_at :: "int \<Rightarrow> nat \<Rightarrow> alert_manager \<Rightarrow> alert_manager" where
  "resolve_at now a am =
     am\<lparr>am_heap := (am_heap am)[a := (cell am a)\<lparr>al_Resolved := True, al_ResolvedAt := now\<rparr>]\<rparr>"

definition createAlertLocked ::
  "alert_env \<Rightarrow> string \<Rightarrow> string \<Rightarrow> string \<Rightarrow> string \<Rightarrow> string \<Rightarrow> string \<Rightarrow> string \<Rightarrow> alert_manager \<Rightarrow> nat \<times> alert_manager" where
  "createAlertLocked env sev aType title msg nodeID nodeName username am =
     (let fresh = length (am_heap am);
          alert = \<lparr>al_ID = ''alt-'' @ take 8 (ae_uuid env fresh), al_Timestamp = ae_stamp env fresh, al_Severity = sev,
                   al_Type = aType, al_Title = title, al_Message = msg, al_NodeID = nodeID, al_NodeName = nodeName,
                   al_Username = username, al_Resolved = False, al_ResolvedAt = 0\<rparr>;
          slice = alert # log_of am
      in (fresh, am\<lparr>am_heap := am_heap am @ slice,
                    am_alerts := take (am_capacity am) [fresh..<fresh + length slice]\<rparr>))"

text \<open>A new alert that becomes the active one of its condition, and one that is resolved at once.\<close>

definition raise_alert ::
  "alert_env \<Rightarrow> string \<Rightarrow> string \<Rightarrow> string \<Rightarrow> string \<Rightarrow> string \<Rightarrow> string \<Rightarrow> string \<Rightarrow> string \<Rightarrow> alert_manager \<Rightarrow> alert_manager" where
  "raise_alert env key sev aType title msg nodeID nodeName username am =
     (case createAlertLocked env sev aType title msg nodeID nodeName username am of
        (a, am1) \<Rightarrow> am1\<lparr>am_active := mput key a (am_active am1)\<rparr>)"

definition announce ::
  "alert_env \<Rightarrow> string \<Rightarrow> string \<Rightarrow> string \<Rightarrow> string \<Rightarrow> string \<Rightarrow> string \<Rightarrow> string \<Rightarrow> alert_manager \<Rightarrow> alert_manager" where
  "announce env sev aType title msg nodeID nodeName username am =
     (case createAlertLocked env sev aType title msg nodeID nodeName username am of
        (a, am1) \<Rightarrow> resolve_at (ae_now env) a am1)"

definition clear_alert :: "alert_env \<Rightarrow> string \<Rightarrow> alert_manager \<Rightarrow> alert_manager" where
  "clear_alert env key am =
     (case mget (am_active am) key of
        Some a \<Rightarrow> (resolve_at (ae_now env) a am)\<lparr>am_active := mdel key (am_active am)\<rparr>
      | None \<Rightarrow> am)"

definition alerts_save :: "alert_env \<Rightarrow> alert_manager \<Rightarrow> alert_manager" where
  "alerts_save env am =
     (if am_filePath am = [] then am
      else
        (let er = ae_err env; tmpFile = am_filePath am @ ''.tmp'' in
         case os_MkdirAll er (dir_of (am_filePath am)) (am_disk am) of
           (False, d1) \<Rightarrow> am\<lparr>am_disk := d1\<rparr>
         | (True, d1) \<Rightarrow>
             (case os_WriteFile er tmpFile (Json (log_of am)) d1 of
                (False, d2) \<Rightarrow> am\<lparr>am_disk := d2\<rparr>
              | (True, d2) \<Rightarrow> am\<lparr>am_disk := snd (os_Rename er tmpFile (am_filePath am) d2)\<rparr>)))"

text \<open>One of the three threshold blocks: storage, temperature, error rate.\<close>

definition threshold_alert ::
  "alert_env \<Rightarrow> string \<Rightarrow> string \<Rightarrow> string \<Rightarrow> string \<Rightarrow> string \<Rightarrow> string \<Rightarrow> string \<Rightarrow> alert_manager \<Rightarrow> alert_manager" where
  "threshold_alert env key sev aType title msg nodeID nodeLabel am =
     (if sev \<noteq> [] then
        (case mget (am_active am) key of
           Some a \<Rightarrow>
             if al_Severity (cell am a) \<noteq> sev
             then raise_alert env key sev aType title msg nodeID nodeLabel [] (resolve_at (ae_now env) a am)
             else am
         | None \<Rightarrow> raise_alert env key sev aType title msg nodeID nodeLabel [] am)
      else clear_alert env key am)"

definition node_label :: "node_state \<Rightarrow> string" where
  "node_label node =
     (let l = (if ns_DisplayName node = [] then ''FS-'' @ ns_FsID node else ns_DisplayName node)
      in if ns_MachineName node \<noteq> [] then l @ '' ('' @ ns_MachineName node @ '')'' else l)"

definition offline_message :: "int \<Rightarrow> node_state \<Rightarrow> string" where
  "offline_message now node =
     (if ns_LastSeen node = 0
      then ''Node '' @ node_label node @ '' at '' @ ns_Address node @ '' is unreachable and has never reported metrics.''
      else ''Node '' @ node_label node @ '' at '' @ ns_Address node
           @ '' has stopped responding to metrics polls (last seen: '' @ dec_int (now - ns_LastSeen node) @ ''s ago).'')"

definition recovery_message :: "node_state \<Rightarrow> string" where
  "recovery_message node =
     ''Node '' @ node_label node @ '' at '' @ ns_Address node @ '' is back online and responding to metrics polls.''"

definition offline_alert :: "alert_env \<Rightarrow> node_state \<Rightarrow> alert_manager \<Rightarrow> alert_manager" where
  "offline_alert env node am =
     (let nodeLabel = node_label node; key = ''node_offline:'' @ ns_FsID node in
      if ns_Status node = StatusOffline then
        (case mget (am_active am) key of
           Some _ \<Rightarrow> am
         | None \<Rightarrow>
             raise_alert env key SeverityCritical AlertTypeNodeOffline (''Node Offline: '' @ nodeLabel)
               (offline_message (ae_now env) node) (ns_FsID node) nodeLabel [] am)
      else
        (case mget (am_active am) key of
           None \<Rightarrow> am
         | Some _ \<Rightarrow>
             announce env SeverityInfo AlertTypeNodeOnline (''Node Recovered: '' @ nodeLabel)
               (recovery_message node) (ns_FsID node) nodeLabel [] (clear_alert env key am)))"

definition storage_severity :: "float64 \<Rightarrow> string" where
  "storage_severity p = (if p \<ge> 95 then SeverityCritical else if p \<ge> 90 then SeverityWarning else if p \<ge> 80 then SeverityWarning else [])"

definition storage_title :: "string \<Rightarrow> float64 \<Rightarrow> string" where
  "storage_title nodeLabel p =
     (if p \<ge> 95 then ''Critical Storage Full: '' @ nodeLabel @ '' ('' @ fmt_fixed 1 p @ ''%)''
      else if p \<ge> 90 then ''Storage Degraded: '' @ nodeLabel @ '' ('' @ fmt_fixed 1 p @ ''%)''
      else if p \<ge> 80 then ''Storage Warning: '' @ nodeLabel @ '' ('' @ fmt_fixed 1 p @ ''%)''
      else [])"

definition temp_severity :: "float64 \<Rightarrow> string" where
  "temp_severity t = (if t \<ge> 85 then SeverityCritical else if t \<ge> 75 then SeverityWarning else if t \<ge> 65 then SeverityWarning else [])"

definition temp_title :: "string \<Rightarrow> float64 \<Rightarrow> string" where
  "temp_title nodeLabel t =
     (if t \<ge> 85 then ''Critical CPU Temp: '' @ nodeLabel @ '' ('' @ fmt_fixed 1 t @ degree @ ''C)''
      else if t \<ge> 75 then ''High CPU Temp: '' @ nodeLabel @ '' ('' @ fmt_fixed 1 t @ degree @ ''C)''
      else if t \<ge> 65 then ''Elevated CPU Temp: '' @ nodeLabel @ '' ('' @ fmt_fixed 1 t @ degree @ ''C)''
      else [])"

definition error_severity :: "float64 \<Rightarrow> string" where
  "error_severity p = (if p \<ge> 20 then SeverityCritical else if p \<ge> 5 then SeverityWarning else [])"

definition storage_message :: "node_state \<Rightarrow> fileserver_metrics \<Rightarrow> string" where
  "storage_message node m =
     ''Storage on '' @ node_label node @ '' has reached '' @ fmt_fixed 1 (DiskUsagePercent m) @ ''% (''
       @ dec (unat (DiskUsedBytes m)) @ '' of '' @ dec (unat (DiskTotalBytes m)) @ '' bytes used).''"

definition temp_message :: "node_state \<Rightarrow> fileserver_metrics \<Rightarrow> string" where
  "temp_message node m =
     ''CPU temperature on '' @ node_label node @ '' exceeded threshold: '' @ fmt_fixed 1 (CPUTempCelsius m) @ degree @ ''C.''"

definition error_title :: "node_state \<Rightarrow> string" where
  "error_title node = ''Error Rate Spike: '' @ node_label node @ '' ('' @ fmt_fixed 1 (ns_ErrorRatePct node) @ ''%)''"

definition error_message :: "node_state \<Rightarrow> string" where
  "error_message node =
     ''Node '' @ node_label node @ '' is experiencing an elevated operation error rate of ''
       @ fmt_fixed 1 (ns_ErrorRatePct node) @ ''%.''"

definition restart_message :: "node_state \<Rightarrow> fileserver_metrics \<Rightarrow> float64 \<Rightarrow> string" where
  "restart_message node m prevUptime =
     ''Fileserver on '' @ node_label node @ '' restarted (uptime reset from '' @ fmt_fixed 0 prevUptime @ ''s to ''
       @ fmt_fixed 0 (UptimeSeconds m) @ ''s).''"

definition restart_alert :: "alert_env \<Rightarrow> node_state \<Rightarrow> fileserver_metrics \<Rightarrow> float64 \<Rightarrow> alert_manager \<Rightarrow> alert_manager" where
  "restart_alert env node m prevUptime am =
     (if prevUptime > 10 \<and> UptimeSeconds m < prevUptime then
        announce env SeverityInfo AlertTypeServiceRestart (''Process Restarted: '' @ node_label node)
          (restart_message node m prevUptime) (ns_FsID node) (node_label node) [] am
      else am)"

text \<open>The argument \<^verbatim>\<open>prevLastSeen\<close> of the Go function is not used by its body and is left out.\<close>

definition CheckNodeHealth :: "alert_env \<Rightarrow> node_state option \<Rightarrow> float64 \<Rightarrow> alert_manager \<Rightarrow> alert_manager" where
  "CheckNodeHealth env nodeo prevUptime am =
     (case nodeo of
        None \<Rightarrow> am
      | Some node \<Rightarrow>
          (let nodeLabel = node_label node; fs = ns_FsID node; am1 = offline_alert env node am in
           case ns_Metrics node of
             None \<Rightarrow> alerts_save env am1
           | Some m \<Rightarrow>
               if ns_Status node = StatusOffline then alerts_save env am1
               else
                 (let am2 = threshold_alert env (''node_storage:'' @ fs) (storage_severity (DiskUsagePercent m)) AlertTypeStorageWarning
                              (storage_title nodeLabel (DiskUsagePercent m)) (storage_message node m) fs nodeLabel am1;
                      am3 = threshold_alert env (''node_temp:'' @ fs) (temp_severity (CPUTempCelsius m)) AlertTypeTempWarning
                              (temp_title nodeLabel (CPUTempCelsius m)) (temp_message node m) fs nodeLabel am2;
                      am4 = threshold_alert env (''node_error:'' @ fs) (error_severity (ns_ErrorRatePct node)) AlertTypeErrorSpike
                              (error_title node) (error_message node) fs nodeLabel am3
                  in alerts_save env (restart_alert env node m prevUptime am4))))"

definition quota_message :: "string \<Rightarrow> u64 \<Rightarrow> u64 \<Rightarrow> string" where
  "quota_message username used quota =
     (let usagePct = of_nat (unat used) / of_nat (unat quota) * 100 in
      ''User '' @ [CHR 39] @ username @ [CHR 39] @ '' has reached '' @ fmt_fixed 1 usagePct
        @ ''% of their storage quota ('' @ dec (unat used) @ '' / '' @ dec (unat quota) @ '' bytes). New writes are blocked.'')"

definition CheckUserQuota :: "alert_env \<Rightarrow> string \<Rightarrow> u64 \<Rightarrow> u64 \<Rightarrow> string \<Rightarrow> string \<Rightarrow> alert_manager \<Rightarrow> alert_manager" where
  "CheckUserQuota env username used quota homeNodeID homeNodeLabel am =
     (if quota = 0 \<or> username = [] then am
      else
        (let key = ''user_quota:'' @ username in
         if used \<ge> quota then
           (case mget (am_active am) key of
              Some _ \<Rightarrow> am
            | None \<Rightarrow>
                alerts_save env (raise_alert env key SeverityWarning AlertTypeQuotaExceeded (''Quota Exceeded: '' @ username)
                  (quota_message username used quota) homeNodeID homeNodeLabel username am))
         else
           (case mget (am_active am) key of
              None \<Rightarrow> am
            | Some _ \<Rightarrow> alerts_save env (clear_alert env key am))))"

definition ResolveAlert :: "alert_env \<Rightarrow> string \<Rightarrow> alert_manager \<Rightarrow> bool \<times> alert_manager" where
  "ResolveAlert env i am =
     (let hit = find (\<lambda>a. al_ID (cell am a) = i) (am_alerts am);
          am1 = (case hit of None \<Rightarrow> am | Some a \<Rightarrow> resolve_at (ae_now env) a am);
          am2 = (case find (\<lambda>(k, a). al_ID (cell am1 a) = i) (am_active am1) of
                   None \<Rightarrow> am1
                 | Some (k, _) \<Rightarrow> am1\<lparr>am_active := mdel k (am_active am1)\<rparr>)
      in (hit \<noteq> None, if hit \<noteq> None then alerts_save env am2 else am2))"

definition ResolveAll :: "alert_env \<Rightarrow> alert_manager \<Rightarrow> nat \<times> alert_manager" where
  "ResolveAll env am =
     (let open_ones = filter (\<lambda>a. \<not> al_Resolved (cell am a)) (am_alerts am);
          am1 = (fold (resolve_at (ae_now env)) open_ones am)\<lparr>am_active := []\<rparr>
      in (length open_ones, if open_ones \<noteq> [] then alerts_save env am1 else am1))"

record alert_filters =
  af_Severity :: string
  af_NodeID :: string
  af_Unresolved :: bool
  af_Limit :: int

definition alerts_GetAll :: "alert_filters \<Rightarrow> alert_manager \<Rightarrow> alert list" where
  "alerts_GetAll f am =
     (let hits = filter (\<lambda>a. \<not> (af_Unresolved f \<and> al_Resolved a) \<and> (af_Severity f = [] \<or> EqualFold (al_Severity a) (af_Severity f))
                     \<and> (af_NodeID f = [] \<or> al_NodeID a = af_NodeID f)) (log_of am)
      in if af_Limit f > 0 then take (nat (af_Limit f)) hits else hits)"

record alert_summary =
  su_Critical :: nat
  su_Warning :: nat
  su_Info :: nat
  su_Unresolved :: nat

definition Summary :: "alert_manager \<Rightarrow> alert_summary" where
  "Summary am =
     fold (\<lambda>a s. if al_Resolved a then s
                 else (let s1 = s\<lparr>su_Unresolved := su_Unresolved s + 1\<rparr> in
                       if al_Severity a = SeverityCritical then s1\<lparr>su_Critical := su_Critical s1 + 1\<rparr>
                       else if al_Severity a = SeverityWarning then s1\<lparr>su_Warning := su_Warning s1 + 1\<rparr>
                       else if al_Severity a = SeverityInfo then s1\<lparr>su_Info := su_Info s1 + 1\<rparr>
                       else s1))
       (log_of am) \<lparr>su_Critical = 0, su_Warning = 0, su_Info = 0, su_Unresolved = 0\<rparr>"

definition condition_key :: "alert \<Rightarrow> string option" where
  "condition_key a =
     (if al_Type a = AlertTypeNodeOffline then Some (''node_offline:'' @ al_NodeID a)
      else if al_Type a = AlertTypeStorageWarning then Some (''node_storage:'' @ al_NodeID a)
      else if al_Type a = AlertTypeTempWarning then Some (''node_temp:'' @ al_NodeID a)
      else if al_Type a = AlertTypeErrorSpike then Some (''node_error:'' @ al_NodeID a)
      else if al_Type a = AlertTypeQuotaExceeded then Some (''user_quota:'' @ al_Username a)
      else None)"

definition track :: "alert_manager \<Rightarrow> nat \<Rightarrow> (string, nat) gomap \<Rightarrow> (string, nat) gomap" where
  "track am a act =
     (if al_Resolved (cell am a) then act
      else (case condition_key (cell am a) of None \<Rightarrow> act | Some k \<Rightarrow> mput k a act))"

definition alerts_load :: "alert_env \<Rightarrow> alert_manager \<Rightarrow> alert_manager" where
  "alerts_load env am =
     (case os_ReadFile (ae_err env) (am_filePath am) (am_disk am) of
        Got c \<Rightarrow>
          (case (case c of Json as \<Rightarrow> Some as | Raw bs \<Rightarrow> ae_dec env bs) of
             None \<Rightarrow> am
           | Some loaded \<Rightarrow>
               (let fresh = length (am_heap am);
                    slice = ae_sorted env loaded;
                    am1 = am\<lparr>am_heap := am_heap am @ slice,
                             am_alerts := take (am_capacity am) [fresh..<fresh + length slice]\<rparr>
                in am1\<lparr>am_active := fold (track am1) (am_alerts am1) (am_active am1)\<rparr>))
      | _ \<Rightarrow> am)"

definition NewAlertManager :: "alert_env \<Rightarrow> int \<Rightarrow> string \<Rightarrow> alert list disk_of \<Rightarrow> alert_manager" where
  "NewAlertManager env capacity filePath d =
     (let am = \<lparr>am_heap = [], am_alerts = [], am_active = [], am_capacity = (if capacity \<le> 0 then 500 else nat capacity),
                am_filePath = filePath, am_disk = d\<rparr>
      in if filePath \<noteq> [] then alerts_load env am else am)"


section \<open>The log and the active conditions\<close>

text \<open>
  What every operation keeps: the log holds at most \<open>am_capacity\<close> alerts, no pointer dangles, and the alert
  an active condition points to is an alert of that condition.
\<close>

definition am_ok :: "alert_manager \<Rightarrow> bool" where
  "am_ok am \<longleftrightarrow>
     0 < am_capacity am \<and> length (am_alerts am) \<le> am_capacity am \<and> gomap_ok (am_active am)
     \<and> (\<forall>a\<in>set (am_alerts am). a < length (am_heap am))
     \<and> (\<forall>k a. mget (am_active am) k = Some a \<longrightarrow> a < length (am_heap am) \<and> condition_key (cell am a) = Some k)"

definition same_memory :: "alert_manager \<Rightarrow> alert_manager \<Rightarrow> bool" where
  "same_memory am am' \<longleftrightarrow> am_heap am' = am_heap am \<and> am_alerts am' = am_alerts am \<and> am_active am' = am_active am
     \<and> am_capacity am' = am_capacity am \<and> am_filePath am' = am_filePath am"

lemma save_same: "same_memory am (alerts_save env am)"
  by (simp add: alerts_save_def same_memory_def Let_def split: prod.split bool.split)

lemma save_simps [simp]:
  "am_heap (alerts_save env am) = am_heap am" "am_alerts (alerts_save env am) = am_alerts am"
  "am_active (alerts_save env am) = am_active am" "am_capacity (alerts_save env am) = am_capacity am"
  "cell (alerts_save env am) = cell am"
  using save_same [of am env] by (simp_all add: same_memory_def cell_def fun_eq_iff)

lemma am_ok_save [simp]: "am_ok (alerts_save env am) = am_ok am"
  by (simp add: am_ok_def)

lemma resolve_simps [simp]:
  "length (am_heap (resolve_at n a am)) = length (am_heap am)" "am_alerts (resolve_at n a am) = am_alerts am"
  "am_active (resolve_at n a am) = am_active am" "am_capacity (resolve_at n a am) = am_capacity am"
  by (simp_all add: resolve_at_def)

lemma cell_resolve:
  "cell (resolve_at n a am) b =
     (if b = a \<and> a < length (am_heap am) then (cell am a)\<lparr>al_Resolved := True, al_ResolvedAt := n\<rparr> else cell am b)"
  by (cases "a < length (am_heap am)") (auto simp: cell_def resolve_at_def list_update_beyond)

lemma condition_key_resolved [simp]: "condition_key (x\<lparr>al_Resolved := r, al_ResolvedAt := n\<rparr>) = condition_key x"
  by (simp add: condition_key_def)

lemma resolve_keeps_alert [simp]:
  "condition_key (cell (resolve_at n a am) b) = condition_key (cell am b)"
  "al_Severity (cell (resolve_at n a am) b) = al_Severity (cell am b)"
  "al_ID (cell (resolve_at n a am) b) = al_ID (cell am b)"
  by (simp_all add: cell_resolve)

lemma am_ok_resolve [simp]: "am_ok (resolve_at n a am) = am_ok am"
  by (simp add: am_ok_def)

lemma am_ok_untrack: "am_ok am \<Longrightarrow> am_ok (am\<lparr>am_active := mdel k (am_active am)\<rparr>)"
  by (auto simp: am_ok_def cell_def split: if_splits)

lemma am_ok_settled: "am_ok am \<Longrightarrow> am_ok ((resolve_at n a am)\<lparr>am_active := mdel k (am_active am)\<rparr>)"
  using am_ok_untrack [of "resolve_at n a am" k] by simp

lemma cell_active_update [simp]: "cell (am\<lparr>am_active := m\<rparr>) = cell am"
  by (simp add: cell_def fun_eq_iff)

text \<open>A new alert: the address, the log, and the cells that were there before.\<close>

lemma createE:
  assumes "createAlertLocked env sev ty ti msg nid nn u am = (a, am')"
  obtains x where "a = length (am_heap am)"
    "am' = am\<lparr>am_heap := am_heap am @ x # log_of am, am_alerts := take (am_capacity am) [a..<Suc (a + length (am_alerts am))]\<rparr>"
    "al_Severity x = sev" "al_Type x = ty" "al_NodeID x = nid" "al_Username x = u" "\<not> al_Resolved x"
proof
  let ?x = "am_heap am' ! a"
  show "a = length (am_heap am)"
    "am' = am\<lparr>am_heap := am_heap am @ ?x # log_of am, am_alerts := take (am_capacity am) [a..<Suc (a + length (am_alerts am))]\<rparr>"
    "al_Severity ?x = sev" "al_Type ?x = ty" "al_NodeID ?x = nid" "al_Username ?x = u" "\<not> al_Resolved ?x"
    using assms by (auto simp: createAlertLocked_def Let_def log_of_def)
qed

lemma create_log:
  assumes "createAlertLocked env sev ty ti msg nid nn u am = (a, am')" "0 < am_capacity am"
  shows "log_of am' = cell am' a # take (am_capacity am - 1) (log_of am)"
  using assms(1)
proof (rule createE)
  fix x assume a: "a = length (am_heap am)" and am': "am' = am\<lparr>am_heap := am_heap am @ x # log_of am,
    am_alerts := take (am_capacity am) [a..<Suc (a + length (am_alerts am))]\<rparr>"
  have len: "length (log_of am) = length (am_alerts am)" by (simp add: log_of_def)
  have "map (cell am') [a..<Suc (a + length (am_alerts am))] = x # log_of am"
    by (rule nth_equalityI) (simp_all add: am' a cell_def nth_append len del: upt_Suc)
  then have "log_of am' = take (am_capacity am) (x # log_of am)"
    unfolding log_of_def [of am'] by (simp add: am' take_map [symmetric] del: upt_Suc)
  moreover have "cell am' a = x" by (simp add: cell_def am' a)
  ultimately show ?thesis using assms(2) by (cases "am_capacity am") simp_all
qed

text \<open>What creating an alert keeps, and what tracking it adds.\<close>

lemma am_ok_create:
  assumes c: "createAlertLocked env sev ty ti msg nid nn u am = (a, am')" and ok: "am_ok am"
  shows "am_ok am'" "cell am' b = cell am b \<or> length (am_heap am) \<le> b" "am_active am' = am_active am" "a < length (am_heap am')"
    "al_Severity (cell am' a) = sev" "al_Type (cell am' a) = ty" "al_NodeID (cell am' a) = nid" "al_Username (cell am' a) = u"
proof -
  show "am_ok am'" using c
  proof (rule createE)
    fix x assume a: "a = length (am_heap am)" and am': "am' = am\<lparr>am_heap := am_heap am @ x # log_of am,
      am_alerts := take (am_capacity am) [a..<Suc (a + length (am_alerts am))]\<rparr>"
    have "b < length (am_heap am')" if "b \<in> set (am_alerts am')" for b
      using set_take_subset [of "am_capacity am" "[a..<Suc (a + length (am_alerts am))]"] that
      by (auto simp: am' a log_of_def simp del: upt_Suc)
    moreover have "length (am_alerts am') \<le> am_capacity am'" by (simp add: am' del: upt_Suc)
    ultimately show ?thesis using ok by (fastforce simp: am_ok_def am' cell_def nth_append simp del: upt_Suc)
  qed
qed (use c in \<open>auto elim!: createE simp: cell_def nth_append\<close>)

lemma am_ok_track:
  assumes "am_ok am" "a < length (am_heap am)" "condition_key (cell am a) = Some k"
  shows "am_ok (am\<lparr>am_active := mput k a (am_active am)\<rparr>)"
  using assms by (auto simp: am_ok_def split: if_splits)


section \<open>What the operations keep\<close>

lemma am_ok_raise:
  assumes "am_ok am" "\<And>x. al_Type x = ty \<Longrightarrow> al_NodeID x = nid \<Longrightarrow> al_Username x = u \<Longrightarrow> condition_key x = Some k"
  shows "am_ok (raise_alert env k sev ty ti msg nid nn u am)"
proof (cases "createAlertLocked env sev ty ti msg nid nn u am")
  case (Pair a am1)
  from am_ok_create [OF this assms(1)] have "am_ok (am1\<lparr>am_active := mput k a (am_active am1)\<rparr>)"
    by (intro am_ok_track assms(2)) auto
  then show ?thesis by (simp add: raise_alert_def Pair)
qed

lemma am_ok_announce: "am_ok am \<Longrightarrow> am_ok (announce env sev ty ti msg nid nn u am)"
  using am_ok_create(1) by (simp add: announce_def split: prod.split)

lemma am_ok_clear: "am_ok am \<Longrightarrow> am_ok (clear_alert env k am)"
  by (simp add: clear_alert_def am_ok_settled split: option.split)

lemma am_ok_threshold:
  assumes "am_ok am" "\<And>x. al_Type x = ty \<Longrightarrow> al_NodeID x = nid \<Longrightarrow> condition_key x = Some k"
  shows "am_ok (threshold_alert env k sev ty ti msg nid lbl am)"
  using assms by (simp add: threshold_alert_def am_ok_raise am_ok_clear split: option.split)

lemma condition_keys:
  "al_Type x = AlertTypeNodeOffline \<Longrightarrow> al_NodeID x = i \<Longrightarrow> condition_key x = Some (''node_offline:'' @ i)"
  "al_Type x = AlertTypeStorageWarning \<Longrightarrow> al_NodeID x = i \<Longrightarrow> condition_key x = Some (''node_storage:'' @ i)"
  "al_Type x = AlertTypeTempWarning \<Longrightarrow> al_NodeID x = i \<Longrightarrow> condition_key x = Some (''node_temp:'' @ i)"
  "al_Type x = AlertTypeErrorSpike \<Longrightarrow> al_NodeID x = i \<Longrightarrow> condition_key x = Some (''node_error:'' @ i)"
  "al_Type x = AlertTypeQuotaExceeded \<Longrightarrow> al_Username x = u \<Longrightarrow> condition_key x = Some (''user_quota:'' @ u)"
  by (simp_all add: condition_key_def AlertTypeNodeOffline_def AlertTypeStorageWarning_def AlertTypeTempWarning_def
        AlertTypeErrorSpike_def AlertTypeQuotaExceeded_def)

lemma am_ok_offline: "am_ok am \<Longrightarrow> am_ok (offline_alert env node am)"
  by (simp add: offline_alert_def Let_def am_ok_raise am_ok_announce am_ok_clear condition_keys split: option.split)

lemma am_ok_health: "am_ok am \<Longrightarrow> am_ok (CheckNodeHealth env nodeo up am)"
  by (simp add: CheckNodeHealth_def Let_def restart_alert_def am_ok_announce am_ok_threshold am_ok_offline condition_keys
        split: option.split)

lemma am_ok_quota: "am_ok am \<Longrightarrow> am_ok (CheckUserQuota env u used quota hid hl am)"
  by (simp add: CheckUserQuota_def Let_def am_ok_raise am_ok_clear condition_keys split: option.split)

lemma am_ok_ResolveAlert: "am_ok am \<Longrightarrow> am_ok (snd (ResolveAlert env i am))"
  by (auto simp: ResolveAlert_def Let_def intro: am_ok_untrack am_ok_settled split: option.split)

lemma resolve_many:
  "am_ok (fold (resolve_at n) as am) = am_ok am" "am_alerts (fold (resolve_at n) as am) = am_alerts am"
  "length (am_heap (fold (resolve_at n) as am)) = length (am_heap am)"
  by (induction as arbitrary: am) simp_all

lemma cells_resolve_many:
  assumes "\<forall>a\<in>set as. a < length (am_heap am)"
  shows "al_Resolved (cell (fold (resolve_at n) as am) b) \<longleftrightarrow> al_Resolved (cell am b) \<or> b \<in> set as"
  using assms by (induction as arbitrary: am) (auto simp: cell_resolve)

lemma am_ok_ResolveAll: "am_ok am \<Longrightarrow> am_ok (snd (ResolveAll env am))"
proof -
  assume "am_ok am"
  then have "am_ok (fold (resolve_at (ae_now env)) as am)" for as by (simp add: resolve_many)
  then have "am_ok ((fold (resolve_at (ae_now env)) as am)\<lparr>am_active := []\<rparr>)" for as by (auto simp: am_ok_def)
  from this this [of "[]"] show ?thesis by (simp add: ResolveAll_def Let_def)
qed

text \<open>Starting from the file: every unresolved condition of the log is tracked again.\<close>

lemma track_keeps:
  assumes "\<forall>k a. mget act k = Some a \<longrightarrow> a < N \<and> condition_key (cell am a) = Some k" "gomap_ok act" "\<forall>a\<in>set as. a < N"
  shows "gomap_ok (fold (track am) as act)
    \<and> (\<forall>k a. mget (fold (track am) as act) k = Some a \<longrightarrow> a < N \<and> condition_key (cell am a) = Some k)"
  using assms
proof (induction as arbitrary: act)
  case (Cons b as)
  have "gomap_ok (track am b act)" "\<forall>k a. mget (track am b act) k = Some a \<longrightarrow> a < N \<and> condition_key (cell am a) = Some k"
    using Cons.prems by (auto simp: track_def split: option.split if_splits)
  from Cons.IH [OF this(2,1)] Cons.prems(3) show ?case by simp
qed simp

lemma am_ok_new: "am_ok (NewAlertManager env cap fp d)"
proof -
  have "am_ok am \<Longrightarrow> am_active am = [] \<Longrightarrow> am_ok (alerts_load env am)" for am
  proof (cases "os_ReadFile (ae_err env) (am_filePath am) (am_disk am)")
    case (Got c)
    assume ok: "am_ok am" and none: "am_active am = []"
    have "am_ok (am1\<lparr>am_active := fold (track am1) (am_alerts am1) (am_active am1)\<rparr>)"
      if "am1 = am\<lparr>am_heap := am_heap am @ slice, am_alerts := take (am_capacity am) [length (am_heap am)..<length (am_heap am) + length slice]\<rparr>"
      for am1 slice
    proof -
      have in_heap: "\<forall>a\<in>set (am_alerts am1). a < length (am_heap am1)"
        using that set_take_subset [of "am_capacity am" "[length (am_heap am)..<length (am_heap am) + length slice]"] by auto
      show ?thesis
        using track_keeps [of "am_active am1" "length (am_heap am1)" am1 "am_alerts am1"] in_heap that none ok
        by (simp add: am_ok_def)
    qed
    with ok Got show ?thesis by (simp add: alerts_load_def Let_def split: option.split)
  qed (simp_all add: alerts_load_def)
  then show ?thesis by (simp add: NewAlertManager_def Let_def am_ok_def)
qed

section \<open>A condition is announced once\<close>

text \<open>
  The map agrees with a condition of severity \<open>sev\<close> (none when \<open>sev\<close> is empty): then the check of that
  condition does nothing, every check establishes it for its own key and leaves it for the other keys.
\<close>

definition settled :: "string \<Rightarrow> string \<Rightarrow> alert_manager \<Rightarrow> bool" where
  "settled k sev am \<longleftrightarrow>
     (case mget (am_active am) k of
        None \<Rightarrow> sev = []
      | Some a \<Rightarrow> sev \<noteq> [] \<and> a < length (am_heap am) \<and> al_Severity (cell am a) = sev)"

definition grows :: "alert_manager \<Rightarrow> alert_manager \<Rightarrow> bool" where
  "grows am am' \<longleftrightarrow> am_capacity am' = am_capacity am
     \<and> (\<forall>a<length (am_heap am). a < length (am_heap am') \<and> al_Severity (cell am' a) = al_Severity (cell am a))"

lemma grows_refl [simp]: "grows am am"
  by (simp add: grows_def)

lemma grows_trans [trans]: "grows am am1 \<Longrightarrow> grows am1 am2 \<Longrightarrow> grows am am2"
  by (auto simp: grows_def)

lemma grows_resolve [simp]: "grows am (resolve_at n a am') = grows am am'"
  by (simp add: grows_def)

lemma grows_active [simp]: "grows am (am'\<lparr>am_active := m\<rparr>) = grows am am'" "grows (am\<lparr>am_active := m\<rparr>) am' = grows am am'"
  by (simp_all add: grows_def)

lemma grows_save [simp]: "grows am (alerts_save env am') = grows am am'"
  by (simp add: grows_def)

lemma grows_create: "createAlertLocked env sev ty ti msg nid nn u am = (a, am') \<Longrightarrow> grows am am' \<and> am_active am' = am_active am"
  by (erule createE) (auto simp: grows_def cell_def nth_append)

lemma grows_raise [simp]:
  "grows am (raise_alert env k sev ty ti msg nid nn u am)"
  "am_active (raise_alert env k sev ty ti msg nid nn u am)
     = mput k (length (am_heap am)) (am_active am)"
  by (auto simp: raise_alert_def split: prod.split dest: grows_create elim: createE)

lemma grows_announce [simp]:
  "grows am (announce env sev ty ti msg nid nn u am)" "am_active (announce env sev ty ti msg nid nn u am) = am_active am"
  by (auto simp: announce_def split: prod.split dest: grows_create)

lemma grows_clear [simp]:
  "grows am (clear_alert env k am)" "mget (am_active (clear_alert env k am)) k' = (if k' = k then None else mget (am_active am) k')"
  by (auto simp: clear_alert_def split: option.split)

lemma settled_grows:
  "settled k sev am \<Longrightarrow> grows am am' \<Longrightarrow> mget (am_active am') k = mget (am_active am) k \<Longrightarrow> settled k sev am'"
  by (auto simp: settled_def grows_def split: option.splits)

lemma raise_settles:
  assumes "am_ok am" "sev \<noteq> []" shows "settled k sev (raise_alert env k sev ty ti msg nid nn u am)"
proof (cases "createAlertLocked env sev ty ti msg nid nn u am")
  case (Pair a am1)
  from am_ok_create [OF this assms(1)] assms(2) show ?thesis by (simp add: raise_alert_def Pair settled_def)
qed

lemma threshold_settles: "am_ok am \<Longrightarrow> settled k sev (threshold_alert env k sev ty ti msg nid lbl am)"
  by (auto simp: threshold_alert_def raise_settles split: option.split) (auto simp: settled_def am_ok_def)

lemma threshold_idle: "settled k sev am \<Longrightarrow> threshold_alert env k sev ty ti msg nid lbl am = am"
  by (auto simp: settled_def threshold_alert_def clear_alert_def split: option.splits)

lemma grows_resolved: "grows (resolve_at n a am) am' \<Longrightarrow> grows am am'"
  by (rule grows_trans [of am "resolve_at n a am"]) simp_all

lemma threshold_frame:
  "grows am (threshold_alert env k sev ty ti msg nid lbl am)"
  "k' \<noteq> k \<Longrightarrow> mget (am_active (threshold_alert env k sev ty ti msg nid lbl am)) k' = mget (am_active am) k'"
  using grows_resolved [OF grows_raise(1)] by (auto simp: threshold_alert_def split: option.split)

lemma threshold_other:
  "settled k' sev' am \<Longrightarrow> k' \<noteq> k \<Longrightarrow> settled k' sev' (threshold_alert env k sev ty ti msg nid lbl am)"
  by (rule settled_grows) (simp_all add: threshold_frame)

lemma restart_frame: "grows am (restart_alert env node m up am) \<and> am_active (restart_alert env node m up am) = am_active am"
  by (simp add: restart_alert_def)

definition offline_settled :: "node_state \<Rightarrow> alert_manager \<Rightarrow> bool" where
  "offline_settled node am \<longleftrightarrow> (mget (am_active am) (''node_offline:'' @ ns_FsID node) \<noteq> None \<longleftrightarrow> ns_Status node = StatusOffline)"

lemma offline_settles: "offline_settled node (offline_alert env node am)"
  by (simp add: offline_settled_def offline_alert_def Let_def split: option.split)

lemma offline_idle: "offline_settled node am \<Longrightarrow> offline_alert env node am = am"
  by (auto simp: offline_settled_def offline_alert_def Let_def split: option.split)

lemma offline_frame: "grows am (offline_alert env node am)"
  using grows_trans [OF grows_clear(1) grows_announce(1)] by (simp add: offline_alert_def Let_def split: option.split)


lemma health_idle:
  assumes "offline_settled node am"
    and "\<And>m. ns_Metrics node = Some m \<Longrightarrow> ns_Status node \<noteq> StatusOffline \<Longrightarrow>
           settled (''node_storage:'' @ ns_FsID node) (storage_severity (DiskUsagePercent m)) am
           \<and> settled (''node_temp:'' @ ns_FsID node) (temp_severity (CPUTempCelsius m)) am
           \<and> settled (''node_error:'' @ ns_FsID node) (error_severity (ns_ErrorRatePct node)) am
           \<and> \<not> (10 < up \<and> UptimeSeconds m < up)"
  shows "CheckNodeHealth env (Some node) up am = alerts_save env am"
  using assms by (auto simp: CheckNodeHealth_def Let_def offline_idle threshold_idle restart_alert_def split: option.split)

lemma health_settles:
  assumes ok: "am_ok am" and am': "am' = CheckNodeHealth env (Some node) up am"
  shows "offline_settled node am'"
    and "ns_Metrics node = Some m \<Longrightarrow> ns_Status node \<noteq> StatusOffline \<Longrightarrow>
           settled (''node_storage:'' @ ns_FsID node) (storage_severity (DiskUsagePercent m)) am'
           \<and> settled (''node_temp:'' @ ns_FsID node) (temp_severity (CPUTempCelsius m)) am'
           \<and> settled (''node_error:'' @ ns_FsID node) (error_severity (ns_ErrorRatePct node)) am'"
proof -
  have kept: "settled k sev (alerts_save env (restart_alert env node m up x)) = settled k sev (restart_alert env node m up x)" for k sev m x
    by (simp add: settled_def split: option.split)
  have later: "settled k sev x \<Longrightarrow> settled k sev (restart_alert env node m up x)" for k sev m x
    by (rule settled_grows) (simp_all add: restart_frame)
  have off: "offline_settled node x \<Longrightarrow> mget (am_active y) (''node_offline:'' @ ns_FsID node) = mget (am_active x) (''node_offline:'' @ ns_FsID node)
      \<Longrightarrow> offline_settled node y" for x y
    by (simp add: offline_settled_def)
  show "offline_settled node am'"
    by (rule off [OF offline_settles [of node env am]])
      (simp add: am' CheckNodeHealth_def Let_def restart_frame threshold_frame(2) split: option.split)
  show "settled (''node_storage:'' @ ns_FsID node) (storage_severity (DiskUsagePercent m)) am'
      \<and> settled (''node_temp:'' @ ns_FsID node) (temp_severity (CPUTempCelsius m)) am'
      \<and> settled (''node_error:'' @ ns_FsID node) (error_severity (ns_ErrorRatePct node)) am'"
    if "ns_Metrics node = Some m" "ns_Status node \<noteq> StatusOffline"
    using that ok
    by (auto simp: am' CheckNodeHealth_def Let_def kept am_ok_threshold am_ok_offline condition_keys
          intro!: later threshold_settles threshold_other)
qed

section \<open>Runs of the alert manager\<close>

datatype alert_op =
    Check_Health alert_env "node_state option" float64
  | Check_Quota alert_env string u64 u64 string string
  | Resolve_One alert_env string
  | Resolve_Every alert_env

fun alert_exec :: "alert_op \<Rightarrow> alert_manager \<Rightarrow> alert_manager" where
  "alert_exec (Check_Health env nodeo up) am = CheckNodeHealth env nodeo up am"
| "alert_exec (Check_Quota env u used quota hid hl) am = CheckUserQuota env u used quota hid hl am"
| "alert_exec (Resolve_One env i) am = snd (ResolveAlert env i am)"
| "alert_exec (Resolve_Every env) am = snd (ResolveAll env am)"

inductive alert_step :: "alert_manager \<Rightarrow> alert_op \<Rightarrow> alert_manager \<Rightarrow> bool" where
  alert_step: "alert_step am op (alert_exec op am)"

inductive_cases alert_stepE: "alert_step am op am'"

lemma capacity_resolve_many [simp]: "am_capacity (fold (resolve_at n) as am) = am_capacity am"
  by (induction as arbitrary: am) simp_all

lemma capacity_grows: "grows am am' \<Longrightarrow> am_capacity am' = am_capacity am"
  by (simp add: grows_def)

lemma capacity_kept: "am_capacity (alert_exec op am) = am_capacity am"
proof (cases op)
  case (Check_Health env nodeo up)
  have "am_capacity (threshold_alert env k sev ty ti msg nid lbl x) = am_capacity x" for k sev ty ti msg nid lbl x
    by (rule capacity_grows [OF threshold_frame(1)])
  moreover have "am_capacity (restart_alert env node m up x) = am_capacity x" for node m x
    by (rule capacity_grows) (simp add: restart_frame)
  ultimately show ?thesis
    using capacity_grows [OF offline_frame] by (simp add: Check_Health CheckNodeHealth_def Let_def split: option.split)
next
  case (Check_Quota env u used quota hid hl)
  then show ?thesis
    by (simp add: CheckUserQuota_def Let_def capacity_grows [OF grows_raise(1)] capacity_grows [OF grows_clear(1)] split: option.split)
next
  case (Resolve_One env i)
  then show ?thesis by (simp add: ResolveAlert_def Let_def split: option.split prod.split)
next
  case (Resolve_Every env)
  then show ?thesis by (simp add: ResolveAll_def Let_def)
qed

lemma alert_exec_ok: "am_ok am \<Longrightarrow> am_ok (alert_exec op am)"
  by (cases op) (simp_all add: am_ok_health am_ok_quota am_ok_ResolveAlert am_ok_ResolveAll)

interpretation alerting: op_system alert_step "\<lambda>am. am_ok am \<and> am_capacity am = c" for c
  by unfold_locales (auto elim!: alert_stepE simp: alert_exec_ok capacity_kept)

lemma capacity_new: "am_capacity (NewAlertManager env cap fp d) = (if cap \<le> 0 then 500 else nat cap)"
  by (simp add: NewAlertManager_def alerts_load_def Let_def split: os_read.split option.split)

lemma reachable_am_ok:
  "reaches alert_step (NewAlertManager env cap fp d) am \<Longrightarrow> am_ok am \<and> am_capacity am = (if cap \<le> 0 then 500 else nat cap)"
  by (erule alerting.reaches_inv) (simp add: am_ok_new capacity_new)


section \<open>Properties\<close>

text \<open>A concrete manager for the witnesses: room for three alerts, no file, and a node that never answered.\<close>

definition demo_alert_env :: alert_env where
  "demo_alert_env =
     \<lparr>ae_now = 100, ae_stamp = (\<lambda>_. 100), ae_uuid = (\<lambda>_. ''0123456789''), ae_err = (\<lambda>_. False),
      ae_dec = (\<lambda>_. None), ae_sorted = (\<lambda>xs. xs)\<rparr>"

definition demo_node :: node_state where
  "demo_node =
     \<lparr>ns_FsID = ''7'', ns_NodeID = [], ns_DisplayID = 7, ns_DisplayName = ''FS-7'', ns_MachineName = [], ns_Address = ''h:1'',
      ns_MetricsURL = [], ns_Status = StatusOffline, ns_LastSeen = 0, ns_Metrics = None, ns_WriteThroughputBps = 0,
      ns_ReadThroughputBps = 0, ns_WriteMbps = 0, ns_ReadMbps = 0, ns_WriteIOPS = 0, ns_ReadIOPS = 0, ns_ErrorRatePct = 0,
      ns_History = None\<rparr>"

definition demo_alerts :: alert_manager where
  "demo_alerts = NewAlertManager demo_alert_env 3 [] []"

lemma demo_alerts: "demo_alerts =
    \<lparr>am_heap = [], am_alerts = [], am_active = [], am_capacity = 3, am_filePath = [], am_disk = []\<rparr>"
  by (simp add: demo_alerts_def NewAlertManager_def)

text \<open>
  C30. However the alert manager is driven (health checks of any nodes, quota checks of any users, alerts
  resolved one by one or all at once, with any system calls failing), its log never holds more alerts than
  the capacity it was created with, and an active condition always points to an alert of that very
  condition: the offline alert of that node, the storage, temperature or error alert of that node, the
  quota alert of that user.
\<close>

theorem alert_log_bounded:
  assumes "reaches alert_step (NewAlertManager env cap fp d) am"
  shows "length (log_of am) \<le> (if cap \<le> 0 then 500 else nat cap)
    \<and> (\<forall>k a. mget (am_active am) k = Some a \<longrightarrow> condition_key (cell am a) = Some k)"
  using reachable_am_ok [OF assms] by (auto simp: am_ok_def log_of_def)

theorem alert_log_bounded_witness:
  "length (log_of (CheckNodeHealth demo_alert_env (Some demo_node) 0 demo_alerts)) \<le> 3
   \<and> map al_Severity (log_of (CheckNodeHealth demo_alert_env (Some demo_node) 0 demo_alerts)) = [SeverityCritical]"
proof -
  have "reaches alert_step (NewAlertManager demo_alert_env 3 [] []) (alert_exec (Check_Health demo_alert_env (Some demo_node) 0) demo_alerts)"
    unfolding demo_alerts_def by (rule reaches_step, rule reaches_refl, rule alert_step)
  from alert_log_bounded [OF this] show ?thesis
    by (simp add: CheckNodeHealth_def demo_node_def offline_alert_def demo_alerts raise_alert_def createAlertLocked_def
        log_of_def alerts_save_def cell_def Let_def)
qed

text \<open>
  Alerts do not flood: when a node is polled again in the same state, the second health check creates
  no alert, resolves none and leaves the active conditions alone, whatever the node's status, storage,
  temperature and error rate are, unless its uptime shows that the process was restarted in between.
\<close>

theorem no_alert_flood:
  assumes "reaches alert_step (NewAlertManager env0 cap fp d) am"
    and "\<And>m. ns_Metrics node = Some m \<Longrightarrow> up' \<le> 10 \<or> up' \<le> UptimeSeconds m"
  shows "let am1 = CheckNodeHealth env (Some node) up am; am2 = CheckNodeHealth env' (Some node) up' am1
    in log_of am2 = log_of am1 \<and> am_active am2 = am_active am1"
proof -
  define am1 where "am1 = CheckNodeHealth env (Some node) up am"
  have ok: "am_ok am" using reachable_am_ok [OF assms(1)] by simp
  have "CheckNodeHealth env' (Some node) up' am1 = alerts_save env' am1"
  proof (rule health_idle)
    show "offline_settled node am1" by (rule health_settles(1) [OF ok]) (simp add: am1_def)
    show "settled (''node_storage:'' @ ns_FsID node) (storage_severity (DiskUsagePercent m)) am1
           \<and> settled (''node_temp:'' @ ns_FsID node) (temp_severity (CPUTempCelsius m)) am1
           \<and> settled (''node_error:'' @ ns_FsID node) (error_severity (ns_ErrorRatePct node)) am1
           \<and> \<not> (10 < up' \<and> UptimeSeconds m < up')"
      if "ns_Metrics node = Some m" "ns_Status node \<noteq> StatusOffline" for m
      using health_settles(2) [OF ok am1_def that] assms(2) [OF that(1)] by auto
  qed
  then show ?thesis by (simp add: log_of_def am1_def [symmetric])
qed

theorem no_alert_flood_witness:
  "let am1 = CheckNodeHealth demo_alert_env (Some demo_node) 0 demo_alerts; am2 = CheckNodeHealth demo_alert_env (Some demo_node) 0 am1
   in log_of am2 = log_of am1 \<and> am_active am2 = am_active am1"
  using no_alert_flood [OF reaches_refl, of demo_node 0 demo_alert_env 0 demo_alert_env 3 "[]" "[]" demo_alert_env]
  by (simp add: demo_alerts_def demo_node_def)

lemma log_untouched: "a \<notin> set (am_alerts am) \<Longrightarrow> log_of (resolve_at n a am) = log_of am"
  by (auto simp: log_of_def cell_resolve)

lemma raise_log:
  assumes "am_ok am"
  obtains x where "log_of (raise_alert env k sev ty ti msg nid nn u am) = x # take (am_capacity am - 1) (log_of am)"
    "al_Type x = ty" "al_Username x = u" "\<not> al_Resolved x"
proof (cases "createAlertLocked env sev ty ti msg nid nn u am")
  case (Pair a am1)
  have "0 < am_capacity am" using assms by (simp add: am_ok_def)
  from create_log [OF Pair this] have "log_of (raise_alert env k sev ty ti msg nid nn u am) = cell am1 a # take (am_capacity am - 1) (log_of am)"
    by (simp add: raise_alert_def Pair log_of_def cell_def)
  moreover have "al_Type (cell am1 a) = ty" "al_Username (cell am1 a) = u" "\<not> al_Resolved (cell am1 a)"
    using Pair by (auto elim!: createE simp: cell_def)
  ultimately show thesis by (rule that)
qed

lemma raise_newest:
  assumes "am_ok am"
  shows "\<exists>as. am_alerts (raise_alert env k sev ty ti msg nid nn u am) = length (am_heap am) # as"
    and "length (am_heap am) < length (am_heap (raise_alert env k sev ty ti msg nid nn u am))"
proof -
  have "[n..<Suc (n + l)] = n # [Suc n..<Suc (n + l)]" for n l by (rule upt_conv_Cons) simp
  then show "\<exists>as. am_alerts (raise_alert env k sev ty ti msg nid nn u am) = length (am_heap am) # as"
    "length (am_heap am) < length (am_heap (raise_alert env k sev ty ti msg nid nn u am))"
    using assms by (auto simp: raise_alert_def am_ok_def take_Cons' split: prod.split elim!: createE simp del: upt_Suc)
qed

lemma raise_moves_log:
  "b \<in> set (am_alerts (raise_alert env k sev ty ti msg nid nn u am)) \<Longrightarrow> length (am_heap am) \<le> b"
  using set_take_subset [of "am_capacity am" "[length (am_heap am)..<Suc (length (am_heap am) + length (am_alerts am))]"]
  by (auto simp: raise_alert_def split: prod.splits elim!: createE simp del: upt_Suc)

lemma quota_exceeded:
  "u \<noteq> [] \<Longrightarrow> 0 < quota \<Longrightarrow> quota \<le> used \<Longrightarrow> mget (am_active am) (''user_quota:'' @ u) = None \<Longrightarrow>
   CheckUserQuota env u used quota h l am =
     alerts_save env (raise_alert env (''user_quota:'' @ u) SeverityWarning AlertTypeQuotaExceeded (''Quota Exceeded: '' @ u)
       (quota_message u used quota) h l u am)"
  by (auto simp: CheckUserQuota_def)

lemma quota_met:
  "u \<noteq> [] \<Longrightarrow> low < quota \<Longrightarrow> mget (am_active am) (''user_quota:'' @ u) = Some a \<Longrightarrow>
   CheckUserQuota env u low quota h l am =
     alerts_save env ((resolve_at (ae_now env) a am)\<lparr>am_active := mdel (''user_quota:'' @ u) (am_active am)\<rparr>)"
  by (auto simp: CheckUserQuota_def clear_alert_def Let_def not_le)

lemma log_of_active [simp]: "log_of (am\<lparr>am_active := m\<rparr>) = log_of am" "log_of (alerts_save env am) = log_of am"
  by (simp_all add: log_of_def)

text \<open>
  A resolution is lost when another alert came in between. User \<open>u\<close> exceeds the quota and an alert is
  logged; while it is the newest alert, going below the quota resolves it. But when the alert of another
  user \<open>v\<close> is logged first, the log has been copied and the tracked pointer of \<open>u\<close> points into the old
  copy: going below the quota then changes nothing in the log, whose second entry remains the unresolved
  alert of \<open>u\<close>, while the condition is no longer tracked, so that no later check resolves it either.
\<close>

theorem resolution_lost_after_new_alert:
  assumes run: "reaches alert_step (NewAlertManager env0 cap fp d) am"
    and calm: "mget (am_active am) (''user_quota:'' @ u) = None" "mget (am_active am) (''user_quota:'' @ v) = None"
    and users: "u \<noteq> v" "u \<noteq> []" "v \<noteq> []" and cap: "2 \<le> am_capacity am"
    and over: "0 < quota" "quota \<le> used" "0 < quota'" "quota' \<le> used'" "low < quota"
  shows "let am1 = CheckUserQuota env1 u used quota h l am;
             am2 = CheckUserQuota env2 v used' quota' h' l' am1;
             am3 = CheckUserQuota env3 u low quota h l am2
         in al_Resolved (hd (log_of (CheckUserQuota env3 u low quota h l am1)))
            \<and> log_of am3 = log_of am2 \<and> mget (am_active am3) (''user_quota:'' @ u) = None
            \<and> al_Type (log_of am3 ! 1) = AlertTypeQuotaExceeded \<and> al_Username (log_of am3 ! 1) = u
            \<and> \<not> al_Resolved (log_of am3 ! 1)"
proof -
  let ?key = "''user_quota:'' @ u" and ?a = "length (am_heap am)"
  define am1 where "am1 = CheckUserQuota env1 u used quota h l am"
  define am2 where "am2 = CheckUserQuota env2 v used' quota' h' l' am1"
  have ok: "am_ok am" using reachable_am_ok [OF run] by simp
  have ok1: "am_ok am1" unfolding am1_def by (rule am_ok_quota [OF ok])
  note am1 = am1_def [unfolded quota_exceeded [OF users(2) over(1,2) calm(1)]]
  have track1: "am_active am1 = mput ?key ?a (am_active am)" by (simp add: am1)
  have "mget (am_active am1) (''user_quota:'' @ v) = None" using calm users by (simp add: track1)
  note am2 = am2_def [unfolded quota_exceeded [OF users(3) over(3,4) this]]
  have newest: "\<exists>as. am_alerts am1 = ?a # as" "?a < length (am_heap am1)" using raise_newest [OF ok] by (simp_all add: am1)
  obtain x where x: "log_of am1 = x # take (am_capacity am - 1) (log_of am)" "al_Type x = AlertTypeQuotaExceeded"
    "al_Username x = u" "\<not> al_Resolved x"
    unfolding am1 log_of_active by (rule raise_log [OF ok])
  obtain y where y: "log_of am2 = y # take (am_capacity am1 - 1) (log_of am1)"
    unfolding am2 log_of_active by (rule raise_log [OF ok1])
  have cap1: "am_capacity am1 = am_capacity am" by (simp add: am1 capacity_grows [OF grows_raise(1)])
  have second: "log_of am2 ! 1 = x" using cap by (simp add: y x(1) cap1 take_Cons')
  have moved: "?a \<notin> set (am_alerts am2)" using raise_moves_log newest(2) by (fastforce simp: am2)
  have track2: "mget (am_active am2) ?key = Some ?a" using users by (simp add: am2 track1)
  have first: "al_Resolved (hd (log_of (CheckUserQuota env3 u low quota h l am1)))"
    using newest by (auto simp: quota_met [OF users(2) over(5)] track1 log_of_def cell_resolve)
  have "log_of (CheckUserQuota env3 u low quota h l am2) = log_of am2"
    "mget (am_active (CheckUserQuota env3 u low quota h l am2)) ?key = None"
    by (simp_all add: quota_met [OF users(2) over(5) track2] log_untouched moved)
  with first second x show ?thesis by (simp add: am1_def [symmetric] am2_def [symmetric] Let_def)
qed

theorem resolution_lost_after_new_alert_witness:
  "let am1 = CheckUserQuota demo_alert_env ''ann'' 9 5 [] [] demo_alerts;
       am2 = CheckUserQuota demo_alert_env ''bob'' 9 5 [] [] am1;
       am3 = CheckUserQuota demo_alert_env ''ann'' 1 5 [] [] am2
   in log_of am3 = log_of am2 \<and> \<not> al_Resolved (log_of am3 ! 1)"
proof -
  have "reaches alert_step (NewAlertManager demo_alert_env 3 [] []) demo_alerts" unfolding demo_alerts_def by (rule reaches_refl)
  from resolution_lost_after_new_alert [OF this, of "''ann''" "''bob''" 5 9 5 9 1 demo_alert_env "[]" "[]" demo_alert_env "[]" "[]" demo_alert_env]
  show ?thesis by (auto simp: demo_alerts Let_def)
qed

end
