(* ===== verification/Discovery.thy ===== *)
theory Discovery
  imports Disk
begin

text \<open>
  Finding the machines of the cluster: \<^verbatim>\<open>internal/client/discovery.go\<close>. The published list of machines comes
  over HTTP, which is an argument; a copy is kept on disk. Part of \<^verbatim>\<open>net.ParseIP\<close> is modelled because the
  resolver treats addresses and names differently.
\<close>

section \<open>Addresses\<close>

definition is_digit :: "char \<Rightarrow> bool" where
  "is_digit c \<longleftrightarrow> (let n = (of_char c :: nat) in 48 \<le> n \<and> n \<le> 57)"

definition hex_value :: "char \<Rightarrow> nat option" where
  "hex_value c =
     (let n = (of_char c :: nat) in
      if 48 \<le> n \<and> n \<le> 57 then Some (n - 48)
      else if 97 \<le> n \<and> n \<le> 102 then Some (n - 87)
      else if 65 \<le> n \<and> n \<le> 70 then Some (n - 55)
      else None)"

definition parse_octet :: "string \<Rightarrow> nat option" where
  "parse_octet s =
     (if s \<noteq> [] \<and> length s \<le> 3 \<and> list_all is_digit s \<and> (length s > 1 \<longrightarrow> hd s \<noteq> CHR ''0'') \<and> undec s \<le> 255
      then Some (undec s) else None)"

fun all_some :: "'a option list \<Rightarrow> 'a list option" where
  "all_some [] = Some []"
| "all_some (x # xs) = (case x of None \<Rightarrow> None | Some y \<Rightarrow> map_option (Cons y) (all_some xs))"

definition parse_v4 :: "string \<Rightarrow> nat list option" where
  "parse_v4 s = (let fields = split_at (CHR ''.'') s in if length fields = 4 then all_some (map parse_octet fields) else None)"

definition parse_group :: "string \<Rightarrow> nat option" where
  "parse_group s =
     (if s \<noteq> [] \<and> length s \<le> 4
      then map_option (foldl (\<lambda>acc h. 16 * acc + h) 0) (all_some (map hex_value s)) else None)"

text \<open>Groups between colons; the last one may be an IPv4 address, which counts for two.\<close>

definition parse_groups :: "bool \<Rightarrow> string \<Rightarrow> nat list option" where
  "parse_groups tail s =
     (if s = [] then Some []
      else
        (let fields = split_at (CHR '':'') s in
         if tail \<and> CHR ''.'' \<in> set (last fields) then
           (case (all_some (map parse_group (butlast fields)), parse_v4 (last fields)) of
              (Some gs, Some [a, b, c, d]) \<Rightarrow> Some (gs @ [256 * a + b, 256 * c + d])
            | _ \<Rightarrow> None)
         else all_some (map parse_group fields)))"

fun cut_at :: "string \<Rightarrow> (string \<times> string) option" where
  "cut_at (a # b # s) =
     (if a = CHR '':'' \<and> b = CHR '':'' then Some ([], s) else map_option (\<lambda>(l, r). (a # l, r)) (cut_at (b # s)))"
| "cut_at _ = None"

definition parse_v6 :: "string \<Rightarrow> nat list option" where
  "parse_v6 s =
     (case cut_at s of
        None \<Rightarrow> (case parse_groups True s of Some gs \<Rightarrow> if length gs = 8 then Some gs else None | None \<Rightarrow> None)
      | Some (l, r) \<Rightarrow>
          (case (parse_groups False l, parse_groups True r) of
             (Some gl, Some gr) \<Rightarrow>
               if length gl + length gr \<le> 7 then Some (gl @ replicate (8 - length gl - length gr) 0 @ gr) else None
           | _ \<Rightarrow> None))"

datatype ip = V4 "nat list" | V6 "nat list"

definition ParseIP :: "string \<Rightarrow> ip option" where
  "ParseIP s =
     (case find (\<lambda>c. c = CHR ''.'' \<or> c = CHR '':'' \<or> c = CHR ''%'') s of
        None \<Rightarrow> None
      | Some c \<Rightarrow> if c = CHR ''.'' then map_option V4 (parse_v4 s)
                  else if c = CHR '':'' \<and> CHR ''%'' \<notin> set s then map_option V6 (parse_v6 s) else None)"

fun IsLoopback :: "ip \<Rightarrow> bool" where
  "IsLoopback (V4 bs) \<longleftrightarrow> hd bs = 127"
| "IsLoopback (V6 gs) \<longleftrightarrow>
     (if take 6 gs = [0, 0, 0, 0, 0, 65535] then gs ! 6 div 256 = 127 else gs = [0, 0, 0, 0, 0, 0, 0, 1])"

section \<open>The resolver\<close>

record gist_node =
  gn_Username :: string
  gn_MAC :: string
  gn_IP :: string
  gn_LastSeen :: string

record discovery_resolver =
  dr_cacheFile :: string
  dr_cacheTTL :: duration
  dr_hostToIP :: "(string, string) gomap"
  dr_ipToHost :: "(string, string) gomap"
  dr_lastFetch :: gotime
  dr_disk :: "gist_node list disk_of"

record discovery_env =
  de_now :: gotime
  de_err :: oserr
  de_dec :: "byte list \<Rightarrow> gist_node list option"

datatype gist_reply = NoRequest | Unreachable | BadStatus | BadJson | Listed "gist_node list"

datatype discovery_error = RequestFailed | FetchFailed | StatusFailed | DecodeFailed | NotListed

definition DefaultCacheTTL :: duration where "DefaultCacheTTL = 5 * 60 * second_ns"

definition add_node :: "gist_node \<Rightarrow> (string, string) gomap \<times> (string, string) gomap \<Rightarrow> (string, string) gomap \<times> (string, string) gomap" where
  "add_node n m =
     (let u = TrimSpace (gn_Username n); ip = TrimSpace (gn_IP n) in
      if u \<noteq> [] \<and> ip \<noteq> [] then (mput u ip (fst m), mput ip u (snd m)) else m)"

definition applyNodes :: "gotime \<Rightarrow> gist_node list \<Rightarrow> discovery_resolver \<Rightarrow> discovery_resolver" where
  "applyNodes now nodes d =
     (case fold add_node nodes ([], []) of
        (h, i) \<Rightarrow> d\<lparr>dr_hostToIP := h, dr_ipToHost := i, dr_lastFetch := now\<rparr>)"

definition SetNodes :: "gotime \<Rightarrow> gist_node list \<Rightarrow> discovery_resolver \<Rightarrow> discovery_resolver" where
  "SetNodes = applyNodes"

definition saveToDiskCache :: "discovery_env \<Rightarrow> gist_node list \<Rightarrow> discovery_resolver \<Rightarrow> bool \<times> discovery_resolver" where
  "saveToDiskCache env nodes d =
     (if dr_cacheFile d = [] then (True, d)
      else (case os_MkdirAll (de_err env) (dir_of (dr_cacheFile d)) (dr_disk d) of
              (False, k) \<Rightarrow> (False, d\<lparr>dr_disk := k\<rparr>)
            | (True, k) \<Rightarrow> (case os_WriteFile (de_err env) (dr_cacheFile d) (Json nodes) k of (ok, k1) \<Rightarrow> (ok, d\<lparr>dr_disk := k1\<rparr>))))"

definition loadFromDiskCache :: "discovery_env \<Rightarrow> discovery_resolver \<Rightarrow> bool \<times> discovery_resolver" where
  "loadFromDiskCache env d =
     (if dr_cacheFile d = [] then (False, d)
      else (case os_ReadFile (de_err env) (dr_cacheFile d) (dr_disk d) of
              Got c \<Rightarrow>
                (case (case c of Json ns \<Rightarrow> Some ns | Raw bs \<Rightarrow> de_dec env bs) of
                   None \<Rightarrow> (False, d)
                 | Some ns \<Rightarrow> (True, applyNodes (de_now env) ns d))
            | _ \<Rightarrow> (False, d)))"

definition NewDiscoveryResolver :: "discovery_env \<Rightarrow> string \<Rightarrow> duration \<Rightarrow> gist_node list disk_of \<Rightarrow> discovery_resolver" where
  "NewDiscoveryResolver env cacheFile ttl k =
     snd (loadFromDiskCache env
       \<lparr>dr_cacheFile = cacheFile, dr_cacheTTL = (if ttl > 0 then ttl else DefaultCacheTTL), dr_hostToIP = [], dr_ipToHost = [],
        dr_lastFetch = 0, dr_disk = k\<rparr>)"

text \<open>What the kept copy still has to offer when the list cannot be fetched.\<close>

definition fall_back ::
  "discovery_env \<Rightarrow> discovery_error \<Rightarrow> discovery_resolver \<Rightarrow> (discovery_error + (string, string) gomap) \<times> discovery_resolver" where
  "fall_back env e d =
     (case loadFromDiskCache env d of
        (True, d1) \<Rightarrow> (if dr_hostToIP d1 \<noteq> [] then Inr (dr_hostToIP d1) else Inl e, d1)
      | (False, d1) \<Rightarrow> (Inl e, d1))"

definition FetchNodes ::
  "discovery_env \<Rightarrow> gist_reply \<Rightarrow> discovery_resolver \<Rightarrow> (discovery_error + (string, string) gomap) \<times> discovery_resolver" where
  "FetchNodes env reply d =
     (case reply of
        NoRequest \<Rightarrow> (Inl RequestFailed, d)
      | Unreachable \<Rightarrow> fall_back env FetchFailed d
      | BadStatus \<Rightarrow> fall_back env StatusFailed d
      | BadJson \<Rightarrow> (Inl DecodeFailed, d)
      | Listed nodes \<Rightarrow>
          (let d1 = snd (saveToDiskCache env nodes (applyNodes (de_now env) nodes d)) in (Inr (dr_hostToIP d1), d1)))"

definition stale :: "discovery_env \<Rightarrow> discovery_resolver \<Rightarrow> bool" where
  "stale env d \<longleftrightarrow> time_IsZero (dr_lastFetch d) \<or> time_Sub (de_now env) (dr_lastFetch d) > dr_cacheTTL d"

definition Lookup_node ::
  "discovery_env \<Rightarrow> gist_reply \<Rightarrow> string \<Rightarrow> discovery_resolver \<Rightarrow> (discovery_error + string) \<times> discovery_resolver" where
  "Lookup_node env reply nodeName d =
     (let known = mget (dr_hostToIP d) nodeName in
      if known \<noteq> None \<and> \<not> stale env d then (Inr (the known), d)
      else (case FetchNodes env reply d of
              (Inl e, d1) \<Rightarrow> ((case known of Some ip \<Rightarrow> Inr ip | None \<Rightarrow> Inl e), d1)
            | (Inr fresh, d1) \<Rightarrow> ((case mget fresh nodeName of Some ip \<Rightarrow> Inr ip | None \<Rightarrow> Inl NotListed), d1)))"

definition ResolveServerName :: "discovery_env \<Rightarrow> gist_reply \<Rightarrow> string \<Rightarrow> discovery_resolver \<Rightarrow> string \<times> discovery_resolver" where
  "ResolveServerName env reply address d =
     (let host = TrimSpace (case SplitHostPort address of Some (h, _) \<Rightarrow> h | None \<Rightarrow> address) in
      case ParseIP host of
        None \<Rightarrow> (host, d)
      | Some ip \<Rightarrow>
          if IsLoopback ip then (''localhost'', d)
          else
            (let known = (case mget (dr_ipToHost d) host of None \<Rightarrow> [] | Some h \<Rightarrow> h) in
             if known \<noteq> [] \<and> \<not> stale env d then (known, d)
             else (case FetchNodes env reply d of
                     (Inr _, d1) \<Rightarrow>
                       (let mapped = (case mget (dr_ipToHost d1) host of None \<Rightarrow> [] | Some h \<Rightarrow> h) in
                        (if mapped \<noteq> [] then mapped else host, d1))
                   | (Inl _, d1) \<Rightarrow> (if known \<noteq> [] then known else host, d1))))"

definition ResolveMetaAddress ::
  "discovery_env \<Rightarrow> gist_reply \<Rightarrow> string \<Rightarrow> discovery_resolver \<Rightarrow> (discovery_error + string) \<times> discovery_resolver" where
  "ResolveMetaAddress env reply defaultPort d =
     (case Lookup_node env reply ''dvfs1'' d of
        (Inl e, d1) \<Rightarrow> (Inl e, d1)
      | (Inr ip, d1) \<Rightarrow> (Inr (ip @ '':'' @ (if defaultPort = [] then ''50051'' else defaultPort)), d1))"

section \<open>What a look-up answers\<close>

text \<open>The address published for a name: the last entry for it that is not blank.\<close>

definition published :: "gist_node list \<Rightarrow> string \<Rightarrow> string option" where
  "published ns name =
     map_option (\<lambda>n. TrimSpace (gn_IP n)) (find (\<lambda>n. TrimSpace (gn_Username n) = name \<and> TrimSpace (gn_IP n) \<noteq> []) (rev ns))"

lemma find_snoc: "find P (xs @ [x]) = (case find P xs of Some y \<Rightarrow> Some y | None \<Rightarrow> if P x then Some x else None)"
  by (induction xs) auto

lemma fold_add_node:
  "name \<noteq> [] \<Longrightarrow> mget (fst (fold add_node ns m)) name = (case published ns name of Some ip \<Rightarrow> Some ip | None \<Rightarrow> mget (fst m) name)"
proof (induction ns arbitrary: m)
  case (Cons n ns)
  then show ?case by (auto simp: published_def find_snoc add_node_def Let_def split: option.split)
qed (simp add: published_def)

lemma applyNodes_hosts [simp]:
  "name \<noteq> [] \<Longrightarrow> mget (dr_hostToIP (applyNodes now ns d)) name = published ns name"
  "dr_lastFetch (applyNodes now ns d) = now" "dr_cacheTTL (applyNodes now ns d) = dr_cacheTTL d"
  "dr_cacheFile (applyNodes now ns d) = dr_cacheFile d" "dr_disk (applyNodes now ns d) = dr_disk d"
  using fold_add_node [of name ns "([], [])"]
  by (auto simp: applyNodes_def split: prod.split option.splits)

lemma save_keeps:
  "dr_hostToIP (snd (saveToDiskCache env ns d)) = dr_hostToIP d" "dr_lastFetch (snd (saveToDiskCache env ns d)) = dr_lastFetch d"
  "dr_cacheTTL (snd (saveToDiskCache env ns d)) = dr_cacheTTL d"
  by (simp_all add: saveToDiskCache_def split: prod.split bool.split)

text \<open>
  A look-up that asks follows the published list: with no usable entry in memory the answer is the address
  the list gives for the name, or an error if it gives none; and for the time to live of the cache later
  look-ups of the name give the same answer without asking again, whatever the network does.
\<close>

theorem lookup_follows_the_list:
  assumes "stale env d \<or> mget (dr_hostToIP d) name = None" "name \<noteq> []" "Lookup_node env (Listed ns) name d = (r, d1)"
    and ttl: "0 < dr_cacheTTL d" "dr_cacheTTL d < max_duration" and now: "de_now env \<noteq> 0" "de_now env' \<le> de_now env + dr_cacheTTL d"
  shows "r = (case published ns name of Some ip \<Rightarrow> Inr ip | None \<Rightarrow> Inl NotListed)
    \<and> (published ns name \<noteq> None \<longrightarrow> Lookup_node env' reply name d1 = (r, d1))"
proof -
  define d2 where "d2 = snd (saveToDiskCache env ns (applyNodes (de_now env) ns d))"
  have d2: "mget (dr_hostToIP d2) name = published ns name" "dr_lastFetch d2 = de_now env" "dr_cacheTTL d2 = dr_cacheTTL d"
    using assms(2) by (simp_all add: d2_def save_keeps)
  have r: "r = (case published ns name of Some ip \<Rightarrow> Inr ip | None \<Rightarrow> Inl NotListed)" "d1 = d2"
    using assms(1,3) d2(1) by (auto simp: Lookup_node_def FetchNodes_def Let_def d2_def [symmetric] split: option.splits if_splits)
  have "\<not> stale env' d2"
    using now ttl time_Sub_le_iff [of "dr_cacheTTL d" "de_now env'" "de_now env"] by (auto simp: stale_def d2 time_IsZero_def)
  with r d2(1) show ?thesis by (auto simp: Lookup_node_def split: option.splits)
qed

text \<open>
  A list that was fetched and saved outlives the network and a restart. But the copy counts as just fetched
  when it is read: for the time to live after the start names are answered from it without asking, however
  old it is.
\<close>

lemma saved_list_counts_as_fresh:
  assumes save: "saveToDiskCache env ns d = (True, d1)" "dr_cacheFile d \<noteq> []"
    and read: "\<not> de_err env' (CReadFile (dr_cacheFile d))" and name: "published ns name = Some ip" "name \<noteq> []"
    and ttl: "0 < ttl" "ttl < max_duration" and now: "de_now env' \<noteq> 0" "de_now later \<le> de_now env' + ttl"
  shows "Lookup_node later reply name (NewDiscoveryResolver env' (dr_cacheFile d) ttl (dr_disk d1))
    = (Inr ip, NewDiscoveryResolver env' (dr_cacheFile d) ttl (dr_disk d1))"
proof -
  let ?d0 = "\<lparr>dr_cacheFile = dr_cacheFile d, dr_cacheTTL = ttl, dr_hostToIP = [], dr_ipToHost = [], dr_lastFetch = 0, dr_disk = dr_disk d1\<rparr>"
  define d2 where "d2 = applyNodes (de_now env') ns ?d0"
  have "mget (dr_disk d1) (dr_cacheFile d) = Some (DFile (Json ns))"
    using save by (auto simp: saveToDiskCache_def dest: os_WriteFile_read split: prod.splits bool.splits)
  then have new: "NewDiscoveryResolver env' (dr_cacheFile d) ttl (dr_disk d1) = d2"
    using save(2) read ttl(1) by (simp add: NewDiscoveryResolver_def loadFromDiskCache_def os_ReadFile_def d2_def)
  have d2: "mget (dr_hostToIP d2) name = Some ip" "dr_lastFetch d2 = de_now env'" "dr_cacheTTL d2 = ttl"
    using name by (simp_all add: d2_def)
  have "\<not> stale later d2"
    using now ttl time_Sub_le_iff [of ttl "de_now later" "de_now env'"] by (auto simp: stale_def d2 time_IsZero_def)
  with d2(1) show ?thesis unfolding new by (simp add: Lookup_node_def)
qed

definition demo_list :: "gist_node list" where
  "demo_list = [\<lparr>gn_Username = ''dvfs1'', gn_MAC = [], gn_IP = ''10.0.0.1'', gn_LastSeen = []\<rparr>,
     \<lparr>gn_Username = '' dvfs1'', gn_MAC = [], gn_IP = ''10.0.0.2'', gn_LastSeen = []\<rparr>]"

definition demo_discovery :: discovery_resolver where
  "demo_discovery = \<lparr>dr_cacheFile = [], dr_cacheTTL = 100, dr_hostToIP = [], dr_ipToHost = [], dr_lastFetch = 0, dr_disk = []\<rparr>"

definition demo_clock :: "gotime \<Rightarrow> discovery_env" where
  "demo_clock t = \<lparr>de_now = t, de_err = (\<lambda>_. False), de_dec = (\<lambda>_. None)\<rparr>"

theorem lookup_follows_the_list_witness:
  "fst (Lookup_node (demo_clock 5) (Listed demo_list) ''dvfs1'' demo_discovery) = Inr ''10.0.0.2''
   \<and> fst (Lookup_node (demo_clock 99) Unreachable ''dvfs1'' (snd (Lookup_node (demo_clock 5) (Listed demo_list) ''dvfs1'' demo_discovery))) = Inr ''10.0.0.2''"
proof -
  obtain r d1 where l: "Lookup_node (demo_clock 5) (Listed demo_list) ''dvfs1'' demo_discovery = (r, d1)" by fastforce
  have p: "published demo_list ''dvfs1'' = Some ''10.0.0.2''" by code_simp
  have "r = Inr ''10.0.0.2'' \<and> Lookup_node (demo_clock 99) Unreachable ''dvfs1'' d1 = (r, d1)"
    using lookup_follows_the_list [OF _ _ l, of "demo_clock 99" Unreachable] p
    by (simp add: demo_discovery_def demo_clock_def max_duration_def)
  with l show ?thesis by simp
qed

end
