(* ===== verification/Admin_Nodes.thy ===== *)
theory Admin_Nodes
  imports Admin_Alerts Meta_Store Discovery
begin

text \<open>
  The node table of the admin console: \<^verbatim>\<open>internal/admin/server.go\<close>, \<^verbatim>\<open>poller.go\<close> and \<^verbatim>\<open>snapshot.go\<close>. The console
  reads the cluster from the metadata store, polls the metrics of each node, keeps a history per node,
  raises alerts, remembers which nodes were removed by hand, and saves the histories for the next start.
  HTTP is an argument: the metrics a node answered, or nothing.
\<close>

section \<open>Numbers in text\<close>

definition digits_value :: "string \<Rightarrow> nat option" where
  "digits_value s = (if s \<noteq> [] \<and> list_all is_digit s then Some (undec s) else None)"

definition int64_bounded :: "int \<Rightarrow> int option" where
  "int64_bounded i = (if - (2 ^ 63) \<le> i \<and> i < 2 ^ 63 then Some i else None)"

definition signed_value :: "string \<Rightarrow> int option" where
  "signed_value s =
     (case (if HasPrefix s ''-'' then map_option (\<lambda>n. - int n) (digits_value (tl s))
            else if HasPrefix s ''+'' then map_option int (digits_value (tl s))
            else map_option int (digits_value s)) of
        None \<Rightarrow> None
      | Some i \<Rightarrow> int64_bounded i)"

definition Atoi :: "string \<Rightarrow> int option" where
  "Atoi s = signed_value s"

text \<open>\<^verbatim>\<open>fmt.Sscanf(s, "dvfs%d", &n)\<close>: the number is read as far as it goes.\<close>

definition scan_dvfs :: "string \<Rightarrow> int option" where
  "scan_dvfs s =
     (if \<not> HasPrefix s ''dvfs'' then None
      else
        (let t = dropWhile (\<lambda>c. is_space c \<and> c \<noteq> CHR 0x0A) (drop 4 s);
             sign = (if HasPrefix t ''-'' \<or> HasPrefix t ''+'' then take 1 t else [])
         in signed_value (sign @ takeWhile is_digit (drop (length sign) t))))"

section \<open>State\<close>

record node_history =
  nh_FsID :: string
  nh_Snapshots :: "snapshot list"

datatype console_doc = JRemoved "(string, int) gomap" | JMetrics int "(string, node_history) gomap"

record admin_server =
  as_nodes :: "(string, node_state) gomap"
  as_users :: "(string, string) gomap"
  as_loggedOrphans :: "(string, string) gomap"
  as_removedNodes :: "(string, int) gomap"
  as_removedNodesFile :: string
  as_alertManager :: "alert_manager option"
  as_resolver :: "discovery_resolver option"
  as_disk :: "console_doc disk_of"

record admin_env =
  ax_now :: int
  ax_err :: oserr
  ax_dec :: "byte list \<Rightarrow> console_doc option"
  ax_alert :: alert_env
  ax_discovery :: discovery_env
  ax_reply :: "string \<Rightarrow> gist_reply"

section \<open>Removed nodes\<close>

definition saveRemovedNodesLocked :: "admin_env \<Rightarrow> admin_server \<Rightarrow> admin_server" where
  "saveRemovedNodesLocked env a =
     (if as_removedNodesFile a = [] then a
      else a\<lparr>as_disk := snd (os_WriteFile (ax_err env) (as_removedNodesFile a) (Json (JRemoved (as_removedNodes a))) (as_disk a))\<rparr>)"

definition RecordNodeRemoval :: "admin_env \<Rightarrow> string \<Rightarrow> int \<Rightarrow> admin_server \<Rightarrow> admin_server" where
  "RecordNodeRemoval env fsID timestamp a =
     saveRemovedNodesLocked env (a\<lparr>as_removedNodes := mput fsID timestamp (as_removedNodes a)\<rparr>)"

definition isNodeRemovedLocked :: "admin_env \<Rightarrow> string \<Rightarrow> int \<Rightarrow> admin_server \<Rightarrow> bool \<times> admin_server" where
  "isNodeRemovedLocked env fsID lastHeartbeatUnix a =
     (case mget (as_removedNodes a) fsID of
        None \<Rightarrow> (False, a)
      | Some removalTime \<Rightarrow>
          if lastHeartbeatUnix > removalTime
          then (False, saveRemovedNodesLocked env (a\<lparr>as_removedNodes := mdel fsID (as_removedNodes a)\<rparr>))
          else (True, a))"

definition loadRemovedNodes :: "admin_env \<Rightarrow> admin_server \<Rightarrow> admin_server" where
  "loadRemovedNodes env a =
     (if as_removedNodesFile a = [] then a
      else (case os_ReadFile (ax_err env) (as_removedNodesFile a) (as_disk a) of
              Got c \<Rightarrow>
                (case (case c of Json j \<Rightarrow> Some j | Raw bs \<Rightarrow> ax_dec env bs) of
                   Some (JRemoved loaded) \<Rightarrow> a\<lparr>as_removedNodes := fold (\<lambda>(k, v). mput k v) loaded (as_removedNodes a)\<rparr>
                 | _ \<Rightarrow> a)
            | _ \<Rightarrow> a))"

section \<open>Reading the cluster\<close>

definition deriveMetricsURL :: "string \<Rightarrow> string" where
  "deriveMetricsURL address =
     (case SplitHostPort address of
        None \<Rightarrow> []
      | Some (host, portStr) \<Rightarrow>
          (case Atoi portStr of
             None \<Rightarrow> []
           | Some port \<Rightarrow>
               if port \<le> 41000 \<or> port > 65535 then []
               else ''http://'' @ host @ '':'' @ dec_int (port - 41000) @ ''/metrics''))"

definition fs_key :: "fs_record \<Rightarrow> string" where
  "fs_key r = dec (unat (rec_NumericID r))"

record node_names =
  nl_DisplayID :: int
  nl_DisplayName :: string
  nl_MachineName :: string

text \<open>The number and names a node is shown under; a name the resolver knows for its address wins.\<close>

definition label_node :: "admin_env \<Rightarrow> fs_record \<Rightarrow> admin_server \<Rightarrow> node_names \<times> admin_server" where
  "label_node env r a =
     (let displayID = (if rec_NumericID r < 2 ^ 31 - 1 then int (unat (rec_NumericID r)) + 1 else 1);
          plain = \<lparr>nl_DisplayID = displayID, nl_DisplayName = ''FS-'' @ dec_int displayID, nl_MachineName = ''dvfs'' @ dec_int displayID\<rparr>;
          host = (case SplitHostPort (rec_Address r) of Some (h, _) \<Rightarrow> h | None \<Rightarrow> rec_Address r)
      in case as_resolver a of
           None \<Rightarrow> (plain, a)
         | Some d \<Rightarrow>
             if host = [] then (plain, a)
             else
               (case ResolveServerName (ax_discovery env) (ax_reply env host) host d of
                  (resolved, d1) \<Rightarrow>
                    (let a1 = a\<lparr>as_resolver := Some d1\<rparr> in
                     if resolved = [] \<or> resolved = host \<or> resolved = ''localhost'' then (plain, a1)
                     else
                       (case scan_dvfs resolved of
                          Some num \<Rightarrow>
                            if num > 0
                            then (\<lparr>nl_DisplayID = num, nl_DisplayName = ''FS-'' @ dec_int num, nl_MachineName = resolved\<rparr>, a1)
                            else (plain\<lparr>nl_MachineName := resolved\<rparr>, a1)
                        | None \<Rightarrow> (plain\<lparr>nl_MachineName := resolved\<rparr>, a1)))))"

definition new_node :: "string \<Rightarrow> node_state" where
  "new_node fsID =
     \<lparr>ns_FsID = fsID, ns_NodeID = [], ns_DisplayID = 0, ns_DisplayName = [], ns_MachineName = [], ns_Address = [], ns_MetricsURL = [],
      ns_Status = StatusOffline, ns_LastSeen = 0, ns_Metrics = None, ns_WriteThroughputBps = 0, ns_ReadThroughputBps = 0,
      ns_WriteMbps = 0, ns_ReadMbps = 0, ns_WriteIOPS = 0, ns_ReadIOPS = 0, ns_ErrorRatePct = 0, ns_History = NewRingBuffer 720\<rparr>"

definition describe_node :: "fs_record \<Rightarrow> node_names \<Rightarrow> node_state \<Rightarrow> node_state" where
  "describe_node r l n =
     n\<lparr>ns_NodeID := rec_NodeID r, ns_Address := rec_Address r, ns_MetricsURL := deriveMetricsURL (rec_Address r),
       ns_DisplayID := nl_DisplayID l, ns_DisplayName := nl_DisplayName l, ns_MachineName := nl_MachineName l\<rparr>"

definition show_node :: "admin_env \<Rightarrow> fs_record \<Rightarrow> admin_server \<Rightarrow> admin_server" where
  "show_node env r a =
     (case isNodeRemovedLocked env (fs_key r) (rec_LastHeartbeatUnix r) a of
        (True, a1) \<Rightarrow> a1
      | (False, a1) \<Rightarrow>
          (case label_node env r a1 of
             (l, a2) \<Rightarrow>
               (let n = (case mget (as_nodes a2) (fs_key r) of Some n \<Rightarrow> n | None \<Rightarrow> new_node (fs_key r))
                in a2\<lparr>as_nodes := mput (fs_key r) (describe_node r l n) (as_nodes a2)\<rparr>)))"

definition prune_node :: "admin_env \<Rightarrow> string list \<Rightarrow> string \<Rightarrow> admin_server \<Rightarrow> admin_server" where
  "prune_node env present fsID a =
     (case isNodeRemovedLocked env fsID 0 a of
        (True, a1) \<Rightarrow> a1\<lparr>as_nodes := mdel fsID (as_nodes a1)\<rparr>
      | (False, a1) \<Rightarrow> if fsID \<in> set present then a1 else a1\<lparr>as_nodes := mdel fsID (as_nodes a1)\<rparr>)"

text \<open>Users by the key of their home node, and the users whose node is not in the cluster.\<close>

definition place_user :: "(string, string) gomap \<Rightarrow> user_record \<Rightarrow> (string, string) gomap \<times> (string, string) gomap \<Rightarrow> (string, string) gomap \<times> (string, string) gomap" where
  "place_user numericByNodeID u m =
     (case mget numericByNodeID (ur_HomeNodeID u) of
        None \<Rightarrow> (fst m, mput (ur_Username u) (ur_HomeNodeID u) (snd m))
      | Some numeric \<Rightarrow> (mput (ur_Username u) numeric (fst m), snd m))"

definition check_quota :: "admin_env \<Rightarrow> string \<times> string \<Rightarrow> admin_server \<Rightarrow> admin_server" where
  "check_quota env uh a =
     (case (as_alertManager a, mget (as_nodes a) (snd uh)) of
        (Some am, Some homeNode) \<Rightarrow>
          (case ns_Metrics homeNode of
             None \<Rightarrow> a
           | Some m \<Rightarrow>
               (let quota = (case mget (PerUserQuota m) (fst uh) of Some q \<Rightarrow> if q > 0 then q else 16 * 1024 * 1024 * 1024 | None \<Rightarrow> 16 * 1024 * 1024 * 1024);
                    used = (case mget (PerUserStorage m) (fst uh) of Some x \<Rightarrow> x | None \<Rightarrow> 0)
                in a\<lparr>as_alertManager := Some (CheckUserQuota (ax_alert env) (fst uh) used quota (ns_FsID homeNode) (ns_DisplayName homeNode) am)\<rparr>))
      | _ \<Rightarrow> a)"

definition refreshNodes :: "admin_env \<Rightarrow> meta_snapshot option \<Rightarrow> admin_server \<Rightarrow> admin_server" where
  "refreshNodes env loaded a =
     (case loaded of
        None \<Rightarrow> a
      | Some snap \<Rightarrow>
          (let numericByNodeID = fold (\<lambda>r. mput (rec_NodeID r) (fs_key r)) (snap_FileServers snap) [];
               placed = fold (place_user numericByNodeID) (snap_Users snap) ([], []);
               a1 = a\<lparr>as_users := fst placed, as_loggedOrphans := snd placed\<rparr>;
               present = map fs_key (snap_FileServers snap);
               a2 = fold (show_node env) (snap_FileServers snap) a1;
               a3 = fold (prune_node env present) (mkeys (as_nodes a2)) a2
           in fold (check_quota env) (as_users a3) a3))"

section \<open>Polling\<close>

definition per_second :: "u64 \<Rightarrow> u64 \<Rightarrow> float64 \<Rightarrow> float64" where
  "per_second new old secs = (if new \<ge> old then of_nat (unat (new - old)) / secs else 0)"

definition error_rate :: "fileserver_metrics \<Rightarrow> fileserver_metrics \<Rightarrow> float64" where
  "error_rate m p =
     (let ops = (if WriteOpsTotal m \<ge> WriteOpsTotal p \<and> ReadOpsTotal m \<ge> ReadOpsTotal p
                 then of_nat (unat ((WriteOpsTotal m - WriteOpsTotal p) + (ReadOpsTotal m - ReadOpsTotal p))) else 0) in
      if ops > 0 \<and> ErrorsTotal m \<ge> ErrorsTotal p then of_nat (unat (ErrorsTotal m - ErrorsTotal p)) / ops * 100 else 0)"

text \<open>A snapshot of the metrics with the rates since the last one, if that is at most a minute old.\<close>

definition poll_snapshot :: "int \<Rightarrow> snapshot option \<Rightarrow> fileserver_metrics \<Rightarrow> snapshot" where
  "poll_snapshot now prev m =
     (let blank = zero_snapshot\<lparr>sn_Timestamp := now, sn_Metrics := m\<rparr> in
      case prev of
        None \<Rightarrow> blank
      | Some p \<Rightarrow>
          if now > sn_Timestamp p \<and> now - sn_Timestamp p \<le> 60 then
            (let secs = of_int (now - sn_Timestamp p); pm = sn_Metrics p in
             blank\<lparr>sn_WriteThroughputBps := per_second (BytesWrittenTotal m) (BytesWrittenTotal pm) secs,
                   sn_WriteMbps := per_second (BytesWrittenTotal m) (BytesWrittenTotal pm) secs / (1024 * 1024),
                   sn_ReadThroughputBps := per_second (BytesReadTotal m) (BytesReadTotal pm) secs,
                   sn_ReadMbps := per_second (BytesReadTotal m) (BytesReadTotal pm) secs / (1024 * 1024),
                   sn_WriteIOPS := per_second (WriteOpsTotal m) (WriteOpsTotal pm) secs,
                   sn_ReadIOPS := per_second (ReadOpsTotal m) (ReadOpsTotal pm) secs,
                   sn_ErrorRatePct := error_rate m pm\<rparr>)
          else blank)"

definition set_rates :: "snapshot \<Rightarrow> node_state \<Rightarrow> node_state" where
  "set_rates s n =
     n\<lparr>ns_WriteThroughputBps := sn_WriteThroughputBps s, ns_ReadThroughputBps := sn_ReadThroughputBps s, ns_WriteMbps := sn_WriteMbps s,
       ns_ReadMbps := sn_ReadMbps s, ns_WriteIOPS := sn_WriteIOPS s, ns_ReadIOPS := sn_ReadIOPS s, ns_ErrorRatePct := sn_ErrorRatePct s\<rparr>"

text \<open>The node stored back under its key, and its health checked.\<close>

definition put_node :: "admin_env \<Rightarrow> string \<Rightarrow> node_state \<Rightarrow> float64 \<Rightarrow> admin_server \<Rightarrow> admin_server" where
  "put_node env fsID n prevUptime a =
     a\<lparr>as_nodes := mput fsID n (as_nodes a),
       as_alertManager := map_option (CheckNodeHealth (ax_alert env) (Some n) prevUptime) (as_alertManager a)\<rparr>"

definition updateNodeFailure :: "admin_env \<Rightarrow> string \<Rightarrow> node_state \<Rightarrow> admin_server \<Rightarrow> admin_server" where
  "updateNodeFailure env fsID node a =
     put_node env fsID
       (set_rates zero_snapshot (node\<lparr>ns_Status := computeNodeStatus (ax_now env) (ns_Metrics node) (ns_LastSeen node)\<rparr>)) 0 a"

text \<open>\<open>reply\<close> is the decoded body of an answer with status 200. A node without a history panics.\<close>

definition pollNode :: "admin_env \<Rightarrow> string \<Rightarrow> fileserver_metrics option \<Rightarrow> admin_server \<Rightarrow> admin_server option" where
  "pollNode env fsID reply a =
     (case mget (as_nodes a) fsID of
        None \<Rightarrow> Some a
      | Some node \<Rightarrow>
          if ns_MetricsURL node = [] then Some (a\<lparr>as_nodes := mput fsID (node\<lparr>ns_Status := StatusOffline\<rparr>) (as_nodes a)\<rparr>)
          else
            (case reply of
               None \<Rightarrow> Some (updateNodeFailure env fsID node a)
             | Some m \<Rightarrow>
                 (case ns_History node of
                    None \<Rightarrow> None
                  | Some rb \<Rightarrow>
                      (let now = ax_now env;
                           snap = poll_snapshot now (rb_GetLast rb) m;
                           prevUptime = (case ns_Metrics node of Some p \<Rightarrow> UptimeSeconds p | None \<Rightarrow> 0);
                           n1 = set_rates snap (node\<lparr>ns_Metrics := Some m, ns_LastSeen := now, ns_Status := computeNodeStatus now (Some m) now\<rparr>)
                       in case rb_Push snap rb of
                            None \<Rightarrow> None
                          | Some rb1 \<Rightarrow> Some (put_node env fsID (n1\<lparr>ns_History := Some rb1\<rparr>) prevUptime a)))))"

text \<open>All nodes, in any order; each poll is one step under the lock.\<close>

fun poll_each :: "admin_env \<Rightarrow> (string \<Rightarrow> fileserver_metrics option) \<Rightarrow> string list \<Rightarrow> admin_server \<Rightarrow> admin_server option" where
  "poll_each env replies [] a = Some a"
| "poll_each env replies (f # fs) a = (case pollNode env f (replies f) a of None \<Rightarrow> None | Some a1 \<Rightarrow> poll_each env replies fs a1)"

definition pollAllNodes :: "admin_env \<Rightarrow> (string \<Rightarrow> fileserver_metrics option) \<Rightarrow> admin_server \<Rightarrow> admin_server option" where
  "pollAllNodes env replies a = poll_each env replies (mkeys (as_nodes a)) a"

section \<open>Saving and restoring histories\<close>

definition node_data :: "admin_server \<Rightarrow> (string, node_history) gomap" where
  "node_data a =
     concat (map (\<lambda>(f, n). case ns_History n of
                             None \<Rightarrow> []
                           | Some rb \<Rightarrow> if rb_GetAll rb = [] then [] else [(f, \<lparr>nh_FsID = f, nh_Snapshots = rb_GetAll rb\<rparr>)])
               (as_nodes a))"

definition SaveMetricsSnapshot :: "admin_env \<Rightarrow> string \<Rightarrow> admin_server \<Rightarrow> bool \<times> admin_server" where
  "SaveMetricsSnapshot env filePath a =
     (if filePath = [] then (True, a)
      else
        (case os_MkdirAll (ax_err env) (dir_of filePath) (as_disk a) of
           (False, d1) \<Rightarrow> (False, a\<lparr>as_disk := d1\<rparr>)
         | (True, d1) \<Rightarrow>
             (let tmpPath = filePath @ ''.tmp'' in
              case os_WriteFile (ax_err env) tmpPath (Json (JMetrics (ax_now env) (node_data a))) d1 of
                (False, d2) \<Rightarrow> (False, a\<lparr>as_disk := d2\<rparr>)
              | (True, d2) \<Rightarrow> (case os_Rename (ax_err env) tmpPath filePath d2 of (ok, d3) \<Rightarrow> (ok, a\<lparr>as_disk := d3\<rparr>)))))"

definition restore_node :: "string \<times> node_history \<Rightarrow> admin_server \<Rightarrow> admin_server option" where
  "restore_node fh a =
     (case fh of (f, st) \<Rightarrow>
        (let node = (case mget (as_nodes a) f of Some n \<Rightarrow> n | None \<Rightarrow> new_node f);
             rbo = (case ns_History node of None \<Rightarrow> NewRingBuffer 720 | Some rb \<Rightarrow> Some rb)
         in case rbo of
              None \<Rightarrow> None
            | Some rb \<Rightarrow>
                (case push_all rb_Push (nh_Snapshots st) rb of
                   None \<Rightarrow> None
                 | Some rb1 \<Rightarrow>
                     (let n1 = node\<lparr>ns_History := Some rb1\<rparr>;
                          n2 = (if nh_Snapshots st = [] then n1
                                else (let l = last (nh_Snapshots st) in
                                      n1\<lparr>ns_LastSeen := sn_Timestamp l, ns_Metrics := Some (sn_Metrics l), ns_WriteMbps := sn_WriteMbps l,
                                         ns_ReadMbps := sn_ReadMbps l, ns_WriteIOPS := sn_WriteIOPS l, ns_ReadIOPS := sn_ReadIOPS l,
                                         ns_ErrorRatePct := sn_ErrorRatePct l\<rparr>))
                      in Some (a\<lparr>as_nodes := mput f n2 (as_nodes a)\<rparr>)))))"

fun restore_nodes :: "(string \<times> node_history) list \<Rightarrow> admin_server \<Rightarrow> admin_server option" where
  "restore_nodes [] a = Some a"
| "restore_nodes (x # xs) a = (case restore_node x a of None \<Rightarrow> None | Some a1 \<Rightarrow> restore_nodes xs a1)"

definition LoadMetricsSnapshot :: "admin_env \<Rightarrow> string \<Rightarrow> admin_server \<Rightarrow> (bool \<times> admin_server) option" where
  "LoadMetricsSnapshot env filePath a =
     (if filePath = [] then Some (True, a)
      else
        (case os_ReadFile (ax_err env) filePath (as_disk a) of
           NotExist \<Rightarrow> Some (True, a)
         | ReadErr \<Rightarrow> Some (False, a)
         | Got c \<Rightarrow>
             (case (case c of Json j \<Rightarrow> Some j | Raw bs \<Rightarrow> ax_dec env bs) of
                None \<Rightarrow> Some (False, a)
              | Some (JRemoved _) \<Rightarrow> Some (True, a)
              | Some (JMetrics savedAt data) \<Rightarrow> map_option (Pair True) (restore_nodes data a))))"

section \<open>The history of the cluster\<close>


text \<open>Go divides towards zero.\<close>

definition bucket_of :: "int \<Rightarrow> int" where
  "bucket_of t = (if t \<ge> 0 then t div 5 else - (- t div 5)) * 5"





section \<open>The table stays sound\<close>

definition history_ok :: "node_state \<Rightarrow> bool" where
  "history_ok n \<longleftrightarrow> (\<exists>rb. ns_History n = Some rb \<and> rb_ok rb \<and> rb_size rb = 720)"

definition console_ok :: "admin_server \<Rightarrow> bool" where
  "console_ok a \<longleftrightarrow> gomap_ok (as_nodes a) \<and> (\<forall>f n. mget (as_nodes a) f = Some n \<longrightarrow> ns_FsID n = f \<and> history_ok n)"

lemma console_okD: "console_ok a \<Longrightarrow> mget (as_nodes a) f = Some n \<Longrightarrow> ns_FsID n = f \<and> history_ok n"
  by (simp add: console_ok_def)

lemma console_ok_put: "console_ok a \<Longrightarrow> ns_FsID n = f \<Longrightarrow> history_ok n \<Longrightarrow> as_nodes b = mput f n (as_nodes a) \<Longrightarrow> console_ok b"
  by (simp add: console_ok_def)

lemma console_ok_del: "console_ok a \<Longrightarrow> as_nodes b = mdel f (as_nodes a) \<Longrightarrow> console_ok b"
  by (simp add: console_ok_def)

lemma console_ok_same: "as_nodes b = as_nodes a \<Longrightarrow> console_ok b = console_ok a"
  by (simp add: console_ok_def)

lemma history_ok_new [simp]: "history_ok (new_node f)" "ns_FsID (new_node f) = f"
  using NewRingBuffer_ok [of 720] by (auto simp: history_ok_def new_node_def)

lemma history_ok_describe [simp]: "history_ok (describe_node r l n) = history_ok n" "ns_FsID (describe_node r l n) = ns_FsID n"
  by (simp_all add: history_ok_def describe_node_def)

lemma saveRemoved_kept [simp]:
  "as_nodes (saveRemovedNodesLocked env a) = as_nodes a" "as_removedNodes (saveRemovedNodesLocked env a) = as_removedNodes a"
  "as_users (saveRemovedNodesLocked env a) = as_users a"
  by (simp_all add: saveRemovedNodesLocked_def)

lemma isNodeRemoved_kept:
  assumes "isNodeRemovedLocked env f hb a = (gone, b)"
  shows "as_nodes b = as_nodes a" "as_users b = as_users a"
    "gone \<longleftrightarrow> (\<exists>t. mget (as_removedNodes a) f = Some t \<and> hb \<le> t)"
    "mget (as_removedNodes b) g = (if g = f \<and> \<not> gone then None else mget (as_removedNodes a) g)"
  using assms by (auto simp: isNodeRemovedLocked_def split: option.splits if_splits)

lemma label_kept:
  assumes "label_node env r a = (l, b)"
  shows "as_nodes b = as_nodes a" "as_users b = as_users a" "as_removedNodes b = as_removedNodes a"
  using assms by (auto simp: label_node_def Let_def split: option.splits if_splits prod.splits)

text \<open>One record of the cluster.\<close>

lemma show_node_effect:
  assumes "hidden = (\<exists>t. mget (as_removedNodes a) (fs_key r) = Some t \<and> rec_LastHeartbeatUnix r \<le> t)"
  shows "as_users (show_node env r a) = as_users a"
    "mget (as_removedNodes (show_node env r a)) g = (if g = fs_key r \<and> \<not> hidden then None else mget (as_removedNodes a) g)"
    "hidden \<Longrightarrow> as_nodes (show_node env r a) = as_nodes a"
    "\<not> hidden \<Longrightarrow> \<exists>l. as_nodes (show_node env r a)
        = mput (fs_key r) (describe_node r l (case mget (as_nodes a) (fs_key r) of Some n \<Rightarrow> n | None \<Rightarrow> new_node (fs_key r))) (as_nodes a)"
proof -
  obtain gone a1 where rm: "isNodeRemovedLocked env (fs_key r) (rec_LastHeartbeatUnix r) a = (gone, a1)" by fastforce
  note k = isNodeRemoved_kept [OF rm]
  obtain l a2 where lb: "label_node env r a1 = (l, a2)" by fastforce
  note k2 = label_kept [OF lb]
  have gone: "gone = hidden" using k(3) assms by simp
  show "as_users (show_node env r a) = as_users a"
    "mget (as_removedNodes (show_node env r a)) g = (if g = fs_key r \<and> \<not> hidden then None else mget (as_removedNodes a) g)"
    using k(2,4) k2 by (simp_all add: show_node_def rm lb gone Let_def split: bool.split)
  show "as_nodes (show_node env r a) = as_nodes a" if hidden using that k(1) by (simp add: show_node_def rm gone)
  show "\<exists>l. as_nodes (show_node env r a)
        = mput (fs_key r) (describe_node r l (case mget (as_nodes a) (fs_key r) of Some n \<Rightarrow> n | None \<Rightarrow> new_node (fs_key r))) (as_nodes a)"
    if "\<not> hidden" using that k(1) k2(1) by (auto simp: show_node_def rm lb gone Let_def)
qed

lemma console_ok_show: "console_ok a \<Longrightarrow> console_ok (show_node env r a)"
proof (cases "\<exists>t. mget (as_removedNodes a) (fs_key r) = Some t \<and> rec_LastHeartbeatUnix r \<le> t")
  case True
  assume "console_ok a" with console_ok_same [OF show_node_effect(3) [OF refl True]] show ?thesis by simp
next
  case False
  assume ok: "console_ok a"
  from show_node_effect(4) [OF refl False] obtain l where
    n: "as_nodes (show_node env r a) = mput (fs_key r) (describe_node r l (case mget (as_nodes a) (fs_key r) of Some n \<Rightarrow> n | None \<Rightarrow> new_node (fs_key r))) (as_nodes a)"
    by blast
  show ?thesis
    by (rule console_ok_put [OF ok _ _ n]) (auto dest: console_okD [OF ok] split: option.split)
qed

lemma console_ok_prune:
  assumes ok: "console_ok a" shows "console_ok (prune_node env ps f a)"
proof -
  obtain gone b where rm: "isNodeRemovedLocked env f 0 a = (gone, b)" by fastforce
  have "console_ok b" "console_ok (b\<lparr>as_nodes := mdel f (as_nodes b)\<rparr>)"
    using ok isNodeRemoved_kept(1) [OF rm] by (simp_all add: console_ok_def)
  then show ?thesis by (simp add: prune_node_def rm split: bool.split)
qed

lemma check_quota_kept [simp]:
  "as_nodes (check_quota env uh a) = as_nodes a" "as_users (check_quota env uh a) = as_users a"
  "as_removedNodes (check_quota env uh a) = as_removedNodes a"
  by (simp_all add: check_quota_def Let_def split: option.split)

lemma check_quotas_kept [simp]:
  "as_nodes (fold (check_quota env) us a) = as_nodes a" "as_users (fold (check_quota env) us a) = as_users a"
  "as_removedNodes (fold (check_quota env) us a) = as_removedNodes a"
  by (induction us arbitrary: a) simp_all

lemma fold_keeps: "(\<And>x a. P a \<Longrightarrow> P (f x a)) \<Longrightarrow> P a \<Longrightarrow> P (fold f xs a)"
  by (induction xs arbitrary: a) simp_all

lemma console_ok_refresh: "console_ok a \<Longrightarrow> console_ok (refreshNodes env loaded a)"
proof (cases loaded)
  case (Some snap)
  assume ok: "console_ok a"
  have quotas: "console_ok (fold (check_quota env) us b) \<longleftrightarrow> console_ok b" for us b by (simp add: console_ok_def)
  have start: "console_ok (a\<lparr>as_users := us, as_loggedOrphans := lo\<rparr>)" for us lo using ok by (simp add: console_ok_def)
  show ?thesis unfolding refreshNodes_def Some option.case Let_def quotas
    by (intro fold_keeps [where P = console_ok] console_ok_prune console_ok_show start)
qed (simp add: refreshNodes_def)

section \<open>Polling and loading always return\<close>

lemma history_ok_set_rates [simp]: "history_ok (set_rates s n) = history_ok n" "ns_FsID (set_rates s n) = ns_FsID n" "ns_History (set_rates s n) = ns_History n"
  by (simp_all add: history_ok_def set_rates_def)

lemma put_node_kept [simp]: "as_nodes (put_node env f n u a) = mput f n (as_nodes a)" "as_removedNodes (put_node env f n u a) = as_removedNodes a"
  by (simp_all add: put_node_def)

lemma console_ok_put_node: "console_ok a \<Longrightarrow> ns_FsID n = f \<Longrightarrow> history_ok n \<Longrightarrow> console_ok (put_node env f n u a)"
  by (rule console_ok_put [OF _ _ _ put_node_kept(1)])

lemma history_ok_cong: "ns_History n = ns_History n' \<Longrightarrow> history_ok n = history_ok n'"
  by (simp add: history_ok_def)

text \<open>Pushing keeps the capacity, so a history that was sound stays so.\<close>

lemma push_returns:
  assumes "rb_ok rb" "rb_size rb = 720"
  shows "\<exists>rb1. push_all rb_Push ss rb = Some rb1 \<and> rb_ok rb1 \<and> rb_size rb1 = 720 \<and> rb_GetAll rb1 = last_n 720 (rb_GetAll rb @ ss)"
  using metrics_ring.push_all_returns [OF assms(1), of ss] assms(2) by auto

lemma push_one_returns:
  assumes "rb_ok rb" "rb_size rb = 720"
  shows "\<exists>rb1. rb_Push s rb = Some rb1 \<and> rb_ok rb1 \<and> rb_size rb1 = 720 \<and> rb_GetAll rb1 = last_n 720 (rb_GetAll rb @ [s])"
  using push_returns [OF assms, of "[s]"] by (simp split: option.splits)

text \<open>An answer adds one entry to the history of its node; any other outcome leaves it.\<close>

definition history_of :: "admin_server \<Rightarrow> string \<Rightarrow> snapshot list" where
  "history_of a f = (case mget (as_nodes a) f of Some n \<Rightarrow> (case ns_History n of Some rb \<Rightarrow> rb_GetAll rb | None \<Rightarrow> []) | None \<Rightarrow> [])"

lemma pollNode_returns:
  assumes ok: "console_ok a"
  shows "\<exists>b. pollNode env f reply a = Some b \<and> console_ok b \<and> mkeys (as_nodes b) = mkeys (as_nodes a)"
proof (cases "mget (as_nodes a) f")
  case None
  then show ?thesis using ok by (simp add: pollNode_def)
next
  case (Some node)
  from console_okD [OF ok Some] obtain rb where id: "ns_FsID node = f" and h: "ns_History node = Some rb" "rb_ok rb" "rb_size rb = 720"
    by (auto simp: history_ok_def)
  have hist: "history_ok n" if "ns_History n = Some rb" for n using that h by (simp add: history_ok_def)
  have keys: "mkeys (mput f n (as_nodes a)) = mkeys (as_nodes a)" for n
    using Some by (simp add: mkeys_def update_keys mget_in_set image_iff) (metis mget_in_set fst_conv)
  show ?thesis
  proof (cases "ns_MetricsURL node = [] \<or> reply = None")
    case True
    have "console_ok (a\<lparr>as_nodes := mput f (node\<lparr>ns_Status := StatusOffline\<rparr>) (as_nodes a)\<rparr>)"
      by (rule console_ok_put [OF ok, where n = "node\<lparr>ns_Status := StatusOffline\<rparr>"]) (simp_all add: id hist h(1))
    moreover have "console_ok (updateNodeFailure env f node a)"
      unfolding updateNodeFailure_def by (rule console_ok_put_node [OF ok]) (simp_all add: id hist h(1))
    moreover have "mkeys (as_nodes (updateNodeFailure env f node a)) = mkeys (as_nodes a)" by (simp add: updateNodeFailure_def keys)
    ultimately show ?thesis using True by (auto simp: pollNode_def Some keys)
  next
    case False
    then obtain m where m: "reply = Some m" and u: "ns_MetricsURL node \<noteq> []" by auto
    obtain rb1 where p: "rb_Push (poll_snapshot (ax_now env) (rb_GetLast rb) m) rb = Some rb1" "rb_ok rb1" "rb_size rb1 = 720"
      using push_one_returns [OF h(2,3)] by blast
    show ?thesis
      by (simp add: pollNode_def Some m u h(1) p Let_def keys console_ok_put_node [OF ok] id history_ok_def)
  qed
qed

lemma poll_each_returns: "console_ok a \<Longrightarrow> \<exists>b. poll_each env replies fs a = Some b \<and> console_ok b"
proof (induction fs arbitrary: a)
  case (Cons f fs)
  from pollNode_returns [OF Cons.prems] obtain b where "pollNode env f (replies f) a = Some b" "console_ok b" by blast
  with Cons.IH [of b] show ?case by simp
qed simp

definition shows_last :: "node_state \<Rightarrow> snapshot \<Rightarrow> bool" where
  "shows_last n s \<longleftrightarrow> ns_LastSeen n = sn_Timestamp s \<and> ns_Metrics n = Some (sn_Metrics s)
     \<and> ns_WriteMbps n = sn_WriteMbps s \<and> ns_ReadMbps n = sn_ReadMbps s"

lemma restore_node_returns:
  assumes ok: "console_ok a"
  shows "\<exists>b. restore_node (f, st) a = Some b \<and> console_ok b
    \<and> (\<forall>g. history_of b g = (if g = f then last_n 720 (history_of a f @ nh_Snapshots st) else history_of a g))
    \<and> (\<forall>g. g \<noteq> f \<longrightarrow> mget (as_nodes b) g = mget (as_nodes a) g)
    \<and> (\<exists>n. mget (as_nodes b) f = Some n \<and> (nh_Snapshots st \<noteq> [] \<longrightarrow> shows_last n (last (nh_Snapshots st))))"
proof -
  define node where "node = (case mget (as_nodes a) f of Some n \<Rightarrow> n | None \<Rightarrow> new_node f)"
  have id: "ns_FsID node = f" and "history_ok node"
    using console_okD [OF ok, of f] by (auto simp: node_def split: option.split)
  then obtain rb where rb: "ns_History node = Some rb" "rb_ok rb" "rb_size rb = 720" by (auto simp: history_ok_def)
  have all: "history_of a f = rb_GetAll rb"
    using rb(1) NewRingBuffer_ok [of 720] by (auto simp: history_of_def node_def new_node_def split: option.splits)
  obtain rb1 where p: "push_all rb_Push (nh_Snapshots st) rb = Some rb1" "rb_ok rb1" "rb_size rb1 = 720"
    "rb_GetAll rb1 = last_n 720 (rb_GetAll rb @ nh_Snapshots st)"
    using push_returns [OF rb(2,3)] by blast
  have "\<exists>n2. restore_node (f, st) a = Some (a\<lparr>as_nodes := mput f n2 (as_nodes a)\<rparr>) \<and> ns_History n2 = Some rb1 \<and> ns_FsID n2 = f
      \<and> (nh_Snapshots st \<noteq> [] \<longrightarrow> shows_last n2 (last (nh_Snapshots st)))"
    unfolding restore_node_def prod.case node_def [symmetric] Let_def rb(1) option.case p(1)
    by (intro exI conjI, rule refl) (simp_all add: id shows_last_def)
  then obtain n2 where n2: "restore_node (f, st) a = Some (a\<lparr>as_nodes := mput f n2 (as_nodes a)\<rparr>)" "ns_History n2 = Some rb1" "ns_FsID n2 = f"
    "nh_Snapshots st \<noteq> [] \<Longrightarrow> shows_last n2 (last (nh_Snapshots st))"
    by blast
  have "console_ok (a\<lparr>as_nodes := mput f n2 (as_nodes a)\<rparr>)"
    by (rule console_ok_put [OF ok n2(3)]) (simp_all add: history_ok_def n2(2) p)
  with n2 p(4) all show ?thesis by (simp add: history_of_def)
qed

lemma restore_nodes_returns:
  "console_ok a \<Longrightarrow> gomap_ok data \<Longrightarrow> \<exists>b. restore_nodes data a = Some b \<and> console_ok b
    \<and> (\<forall>g. history_of b g = (case mget data g of Some st \<Rightarrow> last_n 720 (history_of a g @ nh_Snapshots st) | None \<Rightarrow> history_of a g))
    \<and> (\<forall>g. case mget data g of None \<Rightarrow> mget (as_nodes b) g = mget (as_nodes a) g
         | Some st \<Rightarrow> \<exists>n. mget (as_nodes b) g = Some n \<and> (nh_Snapshots st \<noteq> [] \<longrightarrow> shows_last n (last (nh_Snapshots st))))"
proof (induction data arbitrary: a)
  case (Cons x data)
  obtain f st where x: "x = (f, st)" by (cases x)
  from restore_node_returns [OF Cons.prems(1), of f st] obtain b n where
    b: "restore_node (f, st) a = Some b" "console_ok b"
    "\<And>g. history_of b g = (if g = f then last_n 720 (history_of a f @ nh_Snapshots st) else history_of a g)"
    "\<And>g. g \<noteq> f \<Longrightarrow> mget (as_nodes b) g = mget (as_nodes a) g"
    "mget (as_nodes b) f = Some n" "nh_Snapshots st \<noteq> [] \<Longrightarrow> shows_last n (last (nh_Snapshots st))"
    by blast
  have f: "mget data f = None" and d: "gomap_ok data"
    using Cons.prems(2) by (auto simp: x gomap_ok_def map_of_eq_None_iff)
  from Cons.IH [OF b(2) d] obtain c where
    c: "restore_nodes data b = Some c" "console_ok c"
    "\<And>g. history_of c g = (case mget data g of Some st \<Rightarrow> last_n 720 (history_of b g @ nh_Snapshots st) | None \<Rightarrow> history_of b g)"
    "\<And>g. case mget data g of None \<Rightarrow> mget (as_nodes c) g = mget (as_nodes b) g
         | Some st \<Rightarrow> \<exists>n. mget (as_nodes c) g = Some n \<and> (nh_Snapshots st \<noteq> [] \<longrightarrow> shows_last n (last (nh_Snapshots st)))"
    by blast
  have hist: "history_of c g = (case mget (x # data) g of Some st \<Rightarrow> last_n 720 (history_of a g @ nh_Snapshots st) | None \<Rightarrow> history_of a g)" for g
    using f b(3) [of g] c(3) [of g] by (cases "g = f"; cases "mget data g"; simp add: x)
  have node: "case mget (x # data) g of None \<Rightarrow> mget (as_nodes c) g = mget (as_nodes a) g
         | Some st \<Rightarrow> \<exists>n. mget (as_nodes c) g = Some n \<and> (nh_Snapshots st \<noteq> [] \<longrightarrow> shows_last n (last (nh_Snapshots st)))" for g
    using f b(4) [of g] b(5,6) c(4) [of g] by (cases "g = f"; cases "mget data g"; simp add: x)
  show ?case using c(1,2) hist node by (simp add: x b(1))
qed simp

section \<open>Histories survive a restart\<close>

text \<open>A map built from at most one entry per key of another.\<close>

lemma mget_concat_keys:
  assumes "gomap_ok m" and "\<And>f n. g f n = [] \<or> (\<exists>v. g f n = [(f, v)])"
  shows "mget (concat (map (\<lambda>(f, n). g f n) m)) k = (case mget m k of None \<Rightarrow> None | Some n \<Rightarrow> mget (g k n) k)
    \<and> gomap_ok (concat (map (\<lambda>(f, n). g f n) m))"
  using assms(1)
proof (induction m)
  case (Cons x m)
  obtain f n where x: "x = (f, n)" by (cases x)
  have sub: "fst ` set (concat (map (\<lambda>(f, n). g f n) m)) \<subseteq> fst ` set m"
  proof
    fix y assume "y \<in> fst ` set (concat (map (\<lambda>(f, n). g f n) m))"
    then obtain f n z where "(f, n) \<in> set m" "z \<in> set (g f n)" "y = fst z" by auto
    with assms(2) [of f n] show "y \<in> fst ` set m" by force
  qed
  have f: "f \<notin> fst ` set m" "gomap_ok m" using Cons.prems by (simp_all add: x gomap_ok_def)
  then have none: "mget (concat (map (\<lambda>(f, n). g f n) m)) f = None" using sub by (auto simp: map_of_eq_None_iff simp del: set_concat)
  from assms(2) [of f n] Cons.IH [OF f(2)] none sub f show
    "mget (concat (map (\<lambda>(f, n). g f n) (x # m))) k = (case mget (x # m) k of None \<Rightarrow> None | Some n \<Rightarrow> mget (g k n) k)
     \<and> gomap_ok (concat (map (\<lambda>(f, n). g f n) (x # m)))"
    by (auto simp: x gomap_ok_def simp del: set_concat)
qed simp_all

lemma mget_node_data:
  assumes "console_ok a"
  shows "mget (node_data a) f = (if history_of a f = [] then None else Some \<lparr>nh_FsID = f, nh_Snapshots = history_of a f\<rparr>)"
    "gomap_ok (node_data a)"
proof -
  let ?g = "\<lambda>f n. case ns_History n of None \<Rightarrow> []
    | Some rb \<Rightarrow> if rb_GetAll rb = [] then [] else [(f, \<lparr>nh_FsID = f, nh_Snapshots = rb_GetAll rb\<rparr>)]"
  have g: "?g f n = [] \<or> (\<exists>v. ?g f n = [(f, v)])" for f n by (simp split: option.split)
  have m: "gomap_ok (as_nodes a)" using assms by (simp add: console_ok_def)
  show "gomap_ok (node_data a)" unfolding node_data_def by (rule mget_concat_keys [OF m g, THEN conjunct2])
  show "mget (node_data a) f = (if history_of a f = [] then None else Some \<lparr>nh_FsID = f, nh_Snapshots = history_of a f\<rparr>)"
    unfolding node_data_def mget_concat_keys [OF m g, THEN conjunct1] by (auto simp: history_of_def split: option.split)
qed

lemma history_bounded: "console_ok a \<Longrightarrow> length (history_of a f) \<le> 720"
  using metrics_ring.entries_bound by (fastforce simp: history_of_def history_ok_def dest: console_okD split: option.split)

lemma save_writes:
  assumes "SaveMetricsSnapshot env p a = (True, b)" "p \<noteq> []"
  shows "mget (as_disk b) p = Some (DFile (Json (JMetrics (ax_now env) (node_data a))))"
proof -
  from assms obtain d1 d2 d3 where "os_WriteFile (ax_err env) (p @ ''.tmp'') (Json (JMetrics (ax_now env) (node_data a))) d1 = (True, d2)"
    "os_Rename (ax_err env) (p @ ''.tmp'') p d2 = (True, d3)" "b = a\<lparr>as_disk := d3\<rparr>"
    by (auto simp: SaveMetricsSnapshot_def Let_def split: prod.splits bool.splits)
  then show ?thesis by (simp add: os_Rename_target os_WriteFile_read)
qed

text \<open>
C40. A console that starts on an empty node table and reads the file another one saved holds the same metrics
history for every node, entry by entry: the 720 a buffer holds fit. Each restored node shows the time of its
newest entry as last seen, its metrics, and the table is sound for the polls that follow.
\<close>

theorem metrics_histories_survive_restart:
  assumes "console_ok a" "SaveMetricsSnapshot env p a = (True, a1)" "p \<noteq> []"
    and "as_disk b = as_disk a1" "as_nodes b = []" "\<not> ax_err env' (CReadFile p)"
  shows "\<exists>b1. LoadMetricsSnapshot env' p b = Some (True, b1) \<and> console_ok b1 \<and> (\<forall>f. history_of b1 f = history_of a f)
    \<and> (\<forall>f. case mget (as_nodes b1) f of None \<Rightarrow> history_of a f = []
         | Some n \<Rightarrow> history_of a f \<noteq> [] \<and> shows_last n (last (history_of a f)))"
proof -
  have read: "os_ReadFile (ax_err env') p (as_disk b) = Got (Json (JMetrics (ax_now env) (node_data a)))"
    using assms(4,6) save_writes [OF assms(2,3)] by (simp add: os_ReadFile_def)
  have ok: "console_ok b" using assms(5) by (simp add: console_ok_def)
  from restore_nodes_returns [OF ok mget_node_data(2) [OF assms(1)]] obtain b1 where
    b1: "restore_nodes (node_data a) b = Some b1" "console_ok b1"
    "\<And>g. history_of b1 g = (case mget (node_data a) g of Some st \<Rightarrow> last_n 720 (history_of b g @ nh_Snapshots st) | None \<Rightarrow> history_of b g)"
    "\<And>g. case mget (node_data a) g of None \<Rightarrow> mget (as_nodes b1) g = mget (as_nodes b) g
         | Some st \<Rightarrow> \<exists>n. mget (as_nodes b1) g = Some n \<and> (nh_Snapshots st \<noteq> [] \<longrightarrow> shows_last n (last (nh_Snapshots st)))"
    by blast
  have "case mget (as_nodes b1) f of None \<Rightarrow> history_of a f = []
         | Some n \<Rightarrow> history_of a f \<noteq> [] \<and> shows_last n (last (history_of a f))" for f
    using b1(4) [of f] assms(5) by (auto simp: mget_node_data(1) [OF assms(1)] split: if_splits)
  moreover have "history_of b1 f = history_of a f" for f
    using b1(3) [of f] history_bounded [OF assms(1), of f] assms(5) by (simp add: mget_node_data(1) [OF assms(1)] history_of_def [of b])
  ultimately show ?thesis using assms(3) b1(1,2) by (simp add: LoadMetricsSnapshot_def read)
qed

section \<open>What the table shows\<close>

definition hidden :: "admin_server \<Rightarrow> fs_record \<Rightarrow> bool" where
  "hidden a r \<longleftrightarrow> (\<exists>t. mget (as_removedNodes a) (fs_key r) = Some t \<and> rec_LastHeartbeatUnix r \<le> t)"

definition known_node :: "admin_server \<Rightarrow> string \<Rightarrow> node_state" where
  "known_node a f = (case mget (as_nodes a) f of Some n \<Rightarrow> n | None \<Rightarrow> new_node f)"

lemma show_nodes:
  "distinct (map fs_key rs) \<Longrightarrow>
     (\<forall>f. f \<notin> fs_key ` set rs \<longrightarrow> mget (as_nodes (fold (show_node env) rs a)) f = mget (as_nodes a) f
        \<and> mget (as_removedNodes (fold (show_node env) rs a)) f = mget (as_removedNodes a) f)
     \<and> (\<forall>r \<in> set rs. if hidden a r
          then mget (as_nodes (fold (show_node env) rs a)) (fs_key r) = mget (as_nodes a) (fs_key r)
            \<and> mget (as_removedNodes (fold (show_node env) rs a)) (fs_key r) = mget (as_removedNodes a) (fs_key r)
          else mget (as_removedNodes (fold (show_node env) rs a)) (fs_key r) = None
            \<and> (\<exists>l. mget (as_nodes (fold (show_node env) rs a)) (fs_key r) = Some (describe_node r l (known_node a (fs_key r)))))"
proof (induction rs arbitrary: a)
  case (Cons r rs)
  let ?b = "show_node env r a"
  have new: "fs_key r \<notin> fs_key ` set rs" "distinct (map fs_key rs)" using Cons.prems by simp_all
  have removed: "mget (as_removedNodes ?b) g = (if g = fs_key r \<and> \<not> hidden a r then None else mget (as_removedNodes a) g)" for g
    by (rule show_node_effect(2)) (rule hidden_def)
  have nodes: "g \<noteq> fs_key r \<Longrightarrow> mget (as_nodes ?b) g = mget (as_nodes a) g"
    "if hidden a r then mget (as_nodes ?b) (fs_key r) = mget (as_nodes a) (fs_key r)
     else \<exists>l. mget (as_nodes ?b) (fs_key r) = Some (describe_node r l (known_node a (fs_key r)))" for g
    using show_node_effect(3,4) [OF hidden_def [of a r], of env] by (cases "hidden a r"; auto simp: known_node_def)+
  have other: "fs_key x \<noteq> fs_key r" if "x \<in> set rs" for x using that new(1) by (metis imageI)
  have same: "hidden ?b x = hidden a x" "known_node ?b (fs_key x) = known_node a (fs_key x)" if "x \<in> set rs" for x
    using other [OF that] removed [of "fs_key x"] nodes(1) [of "fs_key x"] by (simp_all add: hidden_def known_node_def)
  show ?case using Cons.IH [OF new(2), of ?b] same other new(1) removed nodes by auto
qed simp

lemma prune_nodes:
  assumes "\<forall>f t. mget (as_removedNodes a) f = Some t \<longrightarrow> 0 \<le> t"
  shows "mget (as_nodes (fold (prune_node env ps) ks a)) f
       = (if f \<in> set ks \<and> (mget (as_removedNodes a) f \<noteq> None \<or> f \<notin> set ps) then None else mget (as_nodes a) f)
    \<and> as_removedNodes (fold (prune_node env ps) ks a) = as_removedNodes a \<and> as_users (fold (prune_node env ps) ks a) = as_users a"
  using assms
proof (induction ks arbitrary: a)
  case (Cons k ks)
  let ?b = "prune_node env ps k a"
  have "as_removedNodes ?b = as_removedNodes a" "as_users ?b = as_users a"
    "mget (as_nodes ?b) g = (if g = k \<and> (mget (as_removedNodes a) k \<noteq> None \<or> k \<notin> set ps) then None else mget (as_nodes a) g)" for g
    using Cons.prems [THEN spec, of k] by (auto simp: prune_node_def isNodeRemovedLocked_def split: option.split)
  with Cons.IH [of ?b] Cons.prems show ?case by auto
qed simp

lemma fs_key_inj: "fs_key r = fs_key s \<longleftrightarrow> rec_NumericID r = rec_NumericID s"
  by (simp add: fs_key_def dec_inj word_unat_eq_iff)

lemma distinct_keys: "distinct (map rec_NumericID rs) \<Longrightarrow> distinct (map fs_key rs)"
  by (simp add: distinct_map inj_on_def fs_key_inj)

text \<open>
C37. After the console has read the cluster, its table holds a node exactly for every record of the store that is
not hidden: hidden is a node the operator removed at or after its last heartbeat. A shown node carries the identity,
the address and the metrics address of its record and keeps the history it had; a removal that a later heartbeat
overtook is forgotten, every other removal is remembered.
\<close>

theorem refresh_shows_the_cluster:
  assumes "distinct (map rec_NumericID (snap_FileServers snap))" "\<forall>f t. mget (as_removedNodes a) f = Some t \<longrightarrow> 0 \<le> t"
    and b: "b = refreshNodes env (Some snap) a"
  shows "(\<forall>f. mget (as_nodes b) f \<noteq> None \<longleftrightarrow> (\<exists>r \<in> set (snap_FileServers snap). fs_key r = f \<and> \<not> hidden a r))
    \<and> (\<forall>r \<in> set (snap_FileServers snap). \<not> hidden a r \<longrightarrow>
         (\<exists>n. mget (as_nodes b) (fs_key r) = Some n \<and> ns_NodeID n = rec_NodeID r \<and> ns_Address n = rec_Address r
            \<and> ns_MetricsURL n = deriveMetricsURL (rec_Address r) \<and> ns_History n = ns_History (known_node a (fs_key r))
            \<and> ns_LastSeen n = ns_LastSeen (known_node a (fs_key r))))
    \<and> (\<forall>f. mget (as_removedNodes b) f
         = (if \<exists>r \<in> set (snap_FileServers snap). fs_key r = f \<and> \<not> hidden a r then None else mget (as_removedNodes a) f))"
proof -
  let ?rs = "snap_FileServers snap"
  define a1 where "a1 = a\<lparr>as_users := fst (fold (place_user (fold (\<lambda>r. mput (rec_NodeID r) (fs_key r)) ?rs [])) (snap_Users snap) ([], [])),
    as_loggedOrphans := snd (fold (place_user (fold (\<lambda>r. mput (rec_NodeID r) (fs_key r)) ?rs [])) (snap_Users snap) ([], []))\<rparr>"
  define a2 where "a2 = fold (show_node env) ?rs a1"
  have b': "as_nodes b = as_nodes (fold (prune_node env (map fs_key ?rs)) (mkeys (as_nodes a2)) a2)"
    "as_removedNodes b = as_removedNodes (fold (prune_node env (map fs_key ?rs)) (mkeys (as_nodes a2)) a2)"
    by (simp_all add: b refreshNodes_def Let_def a1_def a2_def)
  note disp = show_nodes [OF distinct_keys [OF assms(1)], of env a1, folded a2_def]
  have a1: "hidden a1 r = hidden a r" "known_node a1 f = known_node a f" "as_removedNodes a1 = as_removedNodes a" for r f
    by (simp_all add: a1_def hidden_def known_node_def)
  have kept: "mget (as_removedNodes a2) f = Some t \<Longrightarrow> mget (as_removedNodes a) f = Some t" for f t
    using disp a1 by (cases "f \<in> fs_key ` set ?rs") (auto split: if_splits)
  have nonneg: "\<forall>f t. mget (as_removedNodes a2) f = Some t \<longrightarrow> 0 \<le> t" using kept assms(2) by blast
  note prune = prune_nodes [OF nonneg, of env "map fs_key ?rs" "mkeys (as_nodes a2)"]
  have nodes: "mget (as_nodes b) f = (if mget (as_removedNodes a2) f \<noteq> None \<or> f \<notin> fs_key ` set ?rs then None else mget (as_nodes a2) f)" for f
    using prune [THEN conjunct1, of f] mget_keys [of f "as_nodes a2"] by (auto simp: b'(1))
  have shown: "\<exists>l. mget (as_nodes b) (fs_key r) = Some (describe_node r l (known_node a (fs_key r)))" if "r \<in> set ?rs" "\<not> hidden a r" for r
    using disp that a1 nodes by auto
  have gone: "mget (as_nodes b) (fs_key r) = None" if "r \<in> set ?rs" "hidden a r" for r
    using disp that a1 nodes by (auto simp: hidden_def)
  have "mget (as_nodes b) f \<noteq> None \<longleftrightarrow> (\<exists>r \<in> set ?rs. fs_key r = f \<and> \<not> hidden a r)" for f
    using shown gone nodes by (metis imageE option.distinct(1))
  moreover have "\<exists>n. mget (as_nodes b) (fs_key r) = Some n \<and> ns_NodeID n = rec_NodeID r \<and> ns_Address n = rec_Address r
            \<and> ns_MetricsURL n = deriveMetricsURL (rec_Address r) \<and> ns_History n = ns_History (known_node a (fs_key r))
            \<and> ns_LastSeen n = ns_LastSeen (known_node a (fs_key r))" if "r \<in> set ?rs" "\<not> hidden a r" for r
    using shown [OF that] by (auto simp: describe_node_def)
  moreover have "mget (as_removedNodes b) f = (if \<exists>r \<in> set ?rs. fs_key r = f \<and> \<not> hidden a r then None else mget (as_removedNodes a) f)" for f
    using disp a1 prune b'(2) by (cases "f \<in> fs_key ` set ?rs") (auto split: if_splits)
  ultimately show ?thesis by blast
qed

section \<open>The console as a whole\<close>

datatype table_op =
    RefreshTable "meta_snapshot option"
  | PollAll "string \<Rightarrow> fileserver_metrics option"
  | Removed string int
  | SaveHistories string
  | LoadHistories string
  | LoadRemoved

definition console_run :: "admin_env \<Rightarrow> table_op \<Rightarrow> admin_server \<Rightarrow> admin_server option" where
  "console_run env x a =
     (case x of
        RefreshTable loaded \<Rightarrow> Some (refreshNodes env loaded a)
      | PollAll replies \<Rightarrow> pollAllNodes env replies a
      | Removed f t \<Rightarrow> Some (RecordNodeRemoval env f t a)
      | SaveHistories p \<Rightarrow> Some (snd (SaveMetricsSnapshot env p a))
      | LoadHistories p \<Rightarrow> map_option snd (LoadMetricsSnapshot env p a)
      | LoadRemoved \<Rightarrow> Some (loadRemovedNodes env a))"

definition console_step :: "admin_server \<Rightarrow> admin_env \<times> table_op \<Rightarrow> admin_server \<Rightarrow> bool" where
  "console_step a ex b \<longleftrightarrow> console_run (fst ex) (snd ex) a = Some b"

lemma restore_nodes_ok: "console_ok a \<Longrightarrow> \<exists>b. restore_nodes data a = Some b \<and> console_ok b"
proof (induction data arbitrary: a)
  case (Cons x data)
  from restore_node_returns [OF Cons.prems, of "fst x" "snd x"] obtain b where "restore_node x a = Some b" "console_ok b" by auto
  with Cons.IH [of b] show ?case by simp
qed simp

lemma console_run_returns:
  assumes ok: "console_ok a" shows "\<exists>b. console_run env x a = Some b \<and> console_ok b"
proof (cases x)
  case (RefreshTable loaded)
  then show ?thesis by (simp add: console_run_def console_ok_refresh [OF ok])
next
  case (PollAll replies)
  then show ?thesis using poll_each_returns [OF ok] by (simp add: console_run_def pollAllNodes_def)
next
  case (LoadHistories p)
  then show ?thesis using restore_nodes_ok [OF ok] ok
    by (auto simp: console_run_def LoadMetricsSnapshot_def split: os_read.split option.split console_doc.split)
next
  case (SaveHistories p)
  have "as_nodes (snd (SaveMetricsSnapshot env p a)) = as_nodes a"
    by (simp add: SaveMetricsSnapshot_def Let_def split: prod.split bool.split)
  then show ?thesis using ok SaveHistories by (simp add: console_run_def console_ok_def)
next
  case LoadRemoved
  have "as_nodes (loadRemovedNodes env a) = as_nodes a"
    by (simp add: loadRemovedNodes_def split: os_read.split option.split console_doc.split)
  then show ?thesis using ok LoadRemoved by (simp add: console_run_def console_ok_def)
qed (use ok in \<open>simp add: console_run_def console_ok_def RecordNodeRemoval_def\<close>)

interpretation console: op_system console_step console_ok
proof
  fix a ex b
  assume "console_step a ex b" "console_ok a"
  then show "console_ok b" using console_run_returns [of a "fst ex" "snd ex"] by (auto simp: console_step_def)
qed

text \<open>
C38. Whatever the store, the nodes and the disk answer, and in whatever order the console refreshes, polls, saves,
loads and records removals from an empty table on: the next operation returns (no poll finds a node without a
history buffer), and every node in the table stands under its own id with a buffer of 720 entries in order.
\<close>

theorem console_never_panics:
  assumes "as_nodes a0 = []" "reaches console_step a0 a"
  shows "(\<exists>b. console_run env x a = Some b) \<and> (\<forall>f n. mget (as_nodes a) f = Some n \<longrightarrow> ns_FsID n = f \<and> history_ok n)"
proof -
  have "console_ok a0" using assms(1) by (simp add: console_ok_def)
  then have "console_ok a" by (rule console.reaches_inv [OF assms(2)])
  then show ?thesis using console_run_returns [of a env x] by (auto simp: console_ok_def)
qed

section \<open>The cluster history\<close>






lemma bucket_of_spec: "bucket_of t mod 5 = 0" "0 \<le> t \<Longrightarrow> bucket_of t \<le> t \<and> t < bucket_of t + 5"
  by (auto simp: bucket_of_def)


section \<open>A concrete console\<close>

definition demo_admin_env :: admin_env where
  "demo_admin_env =
     \<lparr>ax_now = 100, ax_err = (\<lambda>_. False), ax_dec = (\<lambda>_. None),
      ax_alert = \<lparr>ae_now = 100, ae_stamp = (\<lambda>_. 100), ae_uuid = dec, ae_err = (\<lambda>_. False), ae_dec = (\<lambda>_. None), ae_sorted = (\<lambda>xs. xs)\<rparr>,
      ax_discovery = demo_clock 1, ax_reply = (\<lambda>_. Unreachable)\<rparr>"

definition demo_console :: admin_server where
  "demo_console =
     \<lparr>as_nodes = [], as_users = [], as_loggedOrphans = [], as_removedNodes = [(''1'', 50)], as_removedNodesFile = [],
      as_alertManager = None, as_resolver = None, as_disk = [(''/'', DDir)]\<rparr>"

definition demo_cluster :: meta_snapshot where
  "demo_cluster =
     \<lparr>snap_FileServers =
        [\<lparr>rec_NodeID = ''n0'', rec_NumericID = 0, rec_Address = ''10.0.0.1:50001'', rec_LastHeartbeatUnix = 90, rec_Status = ''online''\<rparr>,
         \<lparr>rec_NodeID = ''n1'', rec_NumericID = 1, rec_Address = ''10.0.0.2:50001'', rec_LastHeartbeatUnix = 40, rec_Status = ''online''\<rparr>],
      snap_Users = [], snap_Shares = []\<rparr>"

lemma demo_digits: "dec 0 = ''0''" "dec 1 = ''1''" "dec (Suc 0) = ''1''"
  by (code_simp, code_simp, code_simp)

lemma demo_cluster_facts:
  "snap_FileServers demo_cluster = [r0, r1] \<Longrightarrow> fs_key r0 = ''0'' \<and> fs_key r1 = ''1'' \<and> \<not> hidden demo_console r0 \<and> hidden demo_console r1"
  by (auto simp: demo_cluster_def demo_console_def hidden_def fs_key_def demo_digits)

text \<open>A node removed after its last heartbeat stays hidden; the other one appears.\<close>

theorem refresh_shows_the_cluster_witness:
  "mget (as_nodes (refreshNodes demo_admin_env (Some demo_cluster) demo_console)) ''1'' = None
   \<and> (\<exists>n. mget (as_nodes (refreshNodes demo_admin_env (Some demo_cluster) demo_console)) ''0'' = Some n \<and> ns_NodeID n = ''n0'')"
proof -
  define b where "b = refreshNodes demo_admin_env (Some demo_cluster) demo_console"
  obtain r0 r1 where rs: "snap_FileServers demo_cluster = [r0, r1]" "rec_NodeID r0 = ''n0''" by (simp add: demo_cluster_def)
  note facts = demo_cluster_facts [OF rs(1)]
  have "distinct (map rec_NumericID (snap_FileServers demo_cluster))" by (simp add: demo_cluster_def)
  moreover have "\<forall>f t. mget (as_removedNodes demo_console) f = Some t \<longrightarrow> 0 \<le> t" by (simp add: demo_console_def)
  ultimately have shown: "\<forall>f. mget (as_nodes b) f \<noteq> None \<longleftrightarrow> (\<exists>r \<in> set [r0, r1]. fs_key r = f \<and> \<not> hidden demo_console r)"
    "\<forall>r \<in> set [r0, r1]. \<not> hidden demo_console r \<longrightarrow> (\<exists>n. mget (as_nodes b) (fs_key r) = Some n \<and> ns_NodeID n = rec_NodeID r)"
    using refresh_shows_the_cluster [OF _ _ b_def] unfolding rs(1) by blast+
  have "mget (as_nodes b) ''1'' = None" using shown(1) [THEN spec, of "''1''"] facts by auto
  moreover have "\<exists>n. mget (as_nodes b) ''0'' = Some n \<and> ns_NodeID n = ''n0''" using shown(2) facts rs(2) by auto
  ultimately show ?thesis by (simp add: b_def)
qed

theorem console_never_panics_witness:
  "\<exists>b. console_run demo_admin_env (PollAll (\<lambda>f. Some zero_metrics)) (refreshNodes demo_admin_env (Some demo_cluster) demo_console) = Some b"
proof -
  have "reaches console_step demo_console (refreshNodes demo_admin_env (Some demo_cluster) demo_console)"
    by (rule reaches_step [OF reaches_refl, where op = "(demo_admin_env, RefreshTable (Some demo_cluster))"]) (simp add: console_step_def console_run_def)
  with console_never_panics [of demo_console] show ?thesis by (simp add: demo_console_def)
qed

theorem metrics_histories_survive_restart_witness:
  "\<exists>a b1. history_of a ''0'' = [zero_snapshot]
     \<and> LoadMetricsSnapshot demo_admin_env ''/m.json'' (demo_console\<lparr>as_disk := as_disk (snd (SaveMetricsSnapshot demo_admin_env ''/m.json'' a))\<rparr>) = Some (True, b1)
     \<and> history_of b1 ''0'' = [zero_snapshot]"
proof -
  obtain rb0 where rb0: "ns_History (new_node ''0'') = Some rb0" "rb_ok rb0" "rb_size rb0 = 720" "rb_GetAll rb0 = []"
    using NewRingBuffer_ok [of 720] by (auto simp: new_node_def)
  obtain rb where rb: "rb_ok rb" "rb_size rb = 720" "rb_GetAll rb = [zero_snapshot]"
    using push_one_returns [OF rb0(2,3), of zero_snapshot] rb0(4) by auto
  define a where "a = demo_console\<lparr>as_nodes := [(''0'', (new_node ''0'')\<lparr>ns_History := Some rb\<rparr>)]\<rparr>"
  have ok: "console_ok a" and h: "history_of a ''0'' = [zero_snapshot]"
    using rb by (simp_all add: a_def console_ok_def gomap_ok_def history_ok_def history_of_def)
  have disk: "as_disk a = [(''/'', DDir)]" and er: "ax_err demo_admin_env = (\<lambda>_. False)"
    by (simp_all add: a_def demo_console_def demo_admin_env_def)
  have mk: "os_MkdirAll (\<lambda>_. False) (dir_of ''/m.json'') [(''/'', DDir :: console_doc disk_node)] = (True, [(''/'', DDir)])" by code_simp
  have wr: "os_WriteFile (\<lambda>_. False) (''/m.json'' @ ''.tmp'') c [(''/'', DDir)] = (True, [(''/'', DDir), (''/m.json.tmp'', DFile c)])"
    "fst (os_Rename (\<lambda>_. False) (''/m.json'' @ ''.tmp'') ''/m.json'' [(''/'', DDir), (''/m.json.tmp'', DFile c)])" for c :: "console_doc file_content"
    by (code_simp, code_simp)
  have "fst (SaveMetricsSnapshot demo_admin_env ''/m.json'' a)"
    unfolding SaveMetricsSnapshot_def disk er mk prod.case bool.case Let_def wr(1) using wr(2) [of "Json (JMetrics (ax_now demo_admin_env) (node_data a))"]
    by (simp split: prod.split) (metis fst_conv)
  then obtain a1 where s: "SaveMetricsSnapshot demo_admin_env ''/m.json'' a = (True, a1)" by (metis prod.collapse)
  from metrics_histories_survive_restart [OF ok s, of "demo_console\<lparr>as_disk := as_disk a1\<rparr>" demo_admin_env] h s show ?thesis
    by (fastforce simp: demo_console_def demo_admin_env_def)
qed

end
