(* ===== verification/Admin_Actions.thy ===== *)
theory Admin_Actions
  imports Admin_Nodes Admin_History
begin

text \<open>
  The actions of the admin console (\<^verbatim>\<open>internal/admin/actions.go\<close>): shell commands that are built from a request
  and run on the nodes over SSH, one action per node at a time, with a record in the command history. SSH is
  an argument: for every call the pieces of output, the exit code and the error. Nodes run at the same time in
  the program; each writes only its own result, and they stand here in the order of the map.
\<close>

section \<open>Shell text\<close>

definition quote :: char where "quote = CHR 0x27"
definition dquote :: char where "dquote = CHR 0x22"

definition shellQuote :: "string \<Rightarrow> string" where
  "shellQuote s = quote # concat (map (\<lambda>c. if c = quote then [quote, backslash, quote, quote] else [c]) s) @ [quote]"

definition loadLoginEnv :: string where
  "loadLoginEnv = ''. ~/.profile 2>/dev/null; . ~/.bashrc 2>/dev/null; ''"

definition requireMongoURI :: string where
  "requireMongoURI =
     ''[ -n '' @ [dquote] @ ''$MONGO_URI'' @ [dquote] @ '' ] || { echo '' @ [dquote] @ ''MONGO_URI is not set in this host'' @ [quote]
     @ ''s login environment (~/.profile or /etc/environment); not starting a binary that would exit on it'' @ [dquote] @ '' >&2; exit 1; }; ''"

text \<open>
  The expression of \<open>mongoCredentialRE\<close>. Its character classes exclude the character that follows them, so each
  part ends at the first character outside its class; a match gives the part that is kept and the text behind.
\<close>

definition re_space :: "char \<Rightarrow> bool" where
  "re_space c \<longleftrightarrow> c \<in> {CHR 0x09, CHR 0x0A, CHR 0x0C, CHR 0x0D, CHR '' ''}"

definition user_char :: "char \<Rightarrow> bool" where
  "user_char c \<longleftrightarrow> c \<noteq> CHR '':'' \<and> c \<noteq> slash \<and> c \<noteq> CHR ''@'' \<and> \<not> re_space c \<and> c \<noteq> quote"

definition password_char :: "char \<Rightarrow> bool" where
  "password_char c \<longleftrightarrow> c \<noteq> CHR ''@'' \<and> \<not> re_space c \<and> c \<noteq> quote"

definition mongo_scheme :: "string \<Rightarrow> string option" where
  "mongo_scheme s =
     (if HasPrefix s ''mongodb+srv://'' then Some ''mongodb+srv://''
      else if HasPrefix s ''mongodb://'' then Some ''mongodb://'' else None)"

definition mongo_match :: "string \<Rightarrow> (string \<times> string) option" where
  "mongo_match s =
     (case mongo_scheme s of
        None \<Rightarrow> None
      | Some scheme \<Rightarrow>
          (let t = drop (length scheme) s; user = takeWhile user_char t; u = dropWhile user_char t in
           if user = [] \<or> \<not> HasPrefix u '':'' then None
           else (let v = dropWhile password_char (tl u) in
                 if HasPrefix v ''@'' then Some (scheme @ user, tl v) else None)))"

lemma mongo_match_shorter: "mongo_match s = Some (p, r) \<Longrightarrow> length r < length s"
proof -
  assume m: "mongo_match s = Some (p, r)"
  then obtain scheme where sc: "mongo_scheme s = Some scheme" by (cases "mongo_scheme s") (auto simp: mongo_match_def)
  define v where "v = dropWhile password_char (tl (dropWhile user_char (drop (length scheme) s)))"
  from m sc have r: "r = tl v" "v \<noteq> []" by (auto simp: mongo_match_def Let_def v_def HasPrefix_iff simp del: dropWhile_eq_Nil_conv split: if_splits)
  have "length v \<le> length s"
    using length_dropWhile_le [of password_char "tl (dropWhile user_char (drop (length scheme) s))"]
      length_dropWhile_le [of user_char "drop (length scheme) s"] unfolding v_def length_tl length_drop by linarith
  with r show ?thesis by (cases v) simp_all
qed

function redactMongoURI :: "string \<Rightarrow> string" where
  "redactMongoURI s =
     (case mongo_match s of
        Some (kept, r) \<Rightarrow> kept @ '':***@'' @ redactMongoURI r
      | None \<Rightarrow> (case s of [] \<Rightarrow> [] | c # cs \<Rightarrow> c # redactMongoURI cs))"
  by pat_completeness auto
termination by (relation "measure length") (auto dest: mongo_match_shorter)

declare redactMongoURI.simps [simp del]

section \<open>Requests\<close>

definition ActionPull :: string where "ActionPull = ''pull''"
definition ActionBuild :: string where "ActionBuild = ''build''"
definition ActionRestart :: string where "ActionRestart = ''restart''"
definition ActionReboot :: string where "ActionReboot = ''reboot''"
definition ActionApt :: string where "ActionApt = ''apt''"
definition ActionLogs :: string where "ActionLogs = ''logs''"
definition ActionCustom :: string where "ActionCustom = ''custom''"

record node_restart_params =
  rp_FsID :: string
  rp_Address :: string
  rp_Host :: string
  rp_Port :: int
  rp_SSHPort :: int
  rp_SSHUser :: string
  rp_MetaAddr :: string
  rp_OwnIP :: string
  rp_DataDir :: string

record action_request =
  rq_ActionType :: string
  rq_TargetNodeIDs :: "string list"
  rq_CustomCommand :: string
  rq_RepoPath :: string
  rq_GitBranch :: string
  rq_MakeTarget :: string
  rq_TargetService :: string
  rq_AptMode :: string
  rq_TimeoutSeconds :: int
  rq_SSHPort :: int
  rq_LogLines :: int
  rq_LogPath :: string
  rq_RestartMode :: string
  rq_LogMode :: string
  rq_RestartParams :: "(string, node_restart_params option) gomap"
  rq_SSHUser :: string
  rq_SSHKeyPath :: string

record action_event =
  ev_Type :: string
  ev_ActionID :: string
  ev_Command :: string
  ev_NodeID :: string
  ev_Address :: string
  ev_Stream :: string
  ev_Chunk :: string
  ev_ExitCode :: int
  ev_DurationMs :: int
  ev_Status :: string
  ev_Error :: string

definition zero_event :: action_event where
  "zero_event =
     \<lparr>ev_Type = [], ev_ActionID = [], ev_Command = [], ev_NodeID = [], ev_Address = [], ev_Stream = [], ev_Chunk = [],
      ev_ExitCode = 0, ev_DurationMs = 0, ev_Status = [], ev_Error = []\<rparr>"

text \<open>The orchestrator; the server and the history it points to are arguments of its operations.\<close>

record orchestrator =
  or_defaultSSHUser :: string
  or_defaultSSHKey :: string
  or_defaultRepoPath :: string
  or_defaultSSHPort :: int
  or_activeNodes :: "(string, string) gomap"

definition NewOrchestrator :: "string \<Rightarrow> string \<Rightarrow> string \<Rightarrow> int list \<Rightarrow> orchestrator" where
  "NewOrchestrator defaultSSHUser defaultSSHKey defaultRepoPath defaultSSHPort =
     \<lparr>or_defaultSSHUser = defaultSSHUser, or_defaultSSHKey = defaultSSHKey, or_defaultRepoPath = defaultRepoPath,
      or_defaultSSHPort = (if defaultSSHPort \<noteq> [] \<and> hd defaultSSHPort > 0 then hd defaultSSHPort else 22), or_activeNodes = []\<rparr>"

section \<open>Presets\<close>

definition restart_id :: "string \<Rightarrow> node_state \<Rightarrow> string" where
  "restart_id fsID node = (if ns_NodeID node = [] \<or> HasPrefix (ns_NodeID node) LegacyNodeIDPrefix then fsID else ns_NodeID node)"

text \<open>A sum or product of \<^verbatim>\<open>int\<close> values wraps at 64 bits.\<close>

definition int64_wrap :: "int \<Rightarrow> int" where
  "int64_wrap i = sint (word_of_int i :: u64)"

definition numbered_user :: "string \<Rightarrow> string \<Rightarrow> string" where
  "numbered_user otherwise fsID = (case Atoi fsID of Some num \<Rightarrow> ''dvfs'' @ dec_int (int64_wrap (num + 1)) | None \<Rightarrow> otherwise)"

definition preset :: "orchestrator \<Rightarrow> string \<times> node_state \<Rightarrow> string \<times> node_restart_params" where
  "preset orc fn =
     (case fn of (fsID, node) \<Rightarrow>
        (let host = (case SplitHostPort (ns_Address node) of Some (h, _) \<Rightarrow> h | None \<Rightarrow> ns_Address node);
             port = (case SplitHostPort (ns_Address node) of
                       Some (_, portStr) \<Rightarrow> (case Atoi portStr of Some p \<Rightarrow> p | None \<Rightarrow> 50052)
                     | None \<Rightarrow> 50052);
             user = or_defaultSSHUser orc;
             nodeSSHUser = (if ns_MachineName node \<noteq> [] then ns_MachineName node
                            else if user = [] \<or> HasPrefix user ''dvfs'' then numbered_user user fsID
                            else user)
         in (fsID, \<lparr>rp_FsID = restart_id fsID node, rp_Address = ns_Address node, rp_Host = host, rp_Port = port,
                    rp_SSHPort = or_defaultSSHPort orc, rp_SSHUser = nodeSSHUser, rp_MetaAddr = ''127.0.0.1:50051'',
                    rp_OwnIP = host, rp_DataDir = ''./fileserver_data_'' @ fsID\<rparr>)))"

definition GetPresets :: "orchestrator \<Rightarrow> admin_server \<Rightarrow> (string, node_restart_params) gomap" where
  "GetPresets orc a = map (preset orc) (as_nodes a)"

section \<open>Commands\<close>

definition or_default :: "string \<Rightarrow> string \<Rightarrow> string" where
  "or_default s d = (if s = [] then d else s)"

definition repo_path :: "orchestrator \<Rightarrow> action_request \<Rightarrow> string" where
  "repo_path orc req =
     or_default (or_default (rq_RepoPath req) (or_defaultRepoPath orc)) ''~/Distributed-Virtual-File-System''"

definition pull_command :: "string \<Rightarrow> action_request \<Rightarrow> string" where
  "pull_command repo req = ''git -C '' @ repo @ '' pull origin '' @ or_default (rq_GitBranch req) ''main''"

definition build_command :: "string \<Rightarrow> action_request \<Rightarrow> string" where
  "build_command repo req =
     (let target = (if rq_MakeTarget req \<noteq> [] then '' '' @ rq_MakeTarget req else []) in
      ''. ~/.profile 2>/dev/null; . ~/.bashrc 2>/dev/null; export PATH='' @ [dquote]
        @ ''$PATH:/usr/local/go/bin:/snap/bin:$HOME/go/bin'' @ [dquote] @ ''; make -C '' @ repo @ target)"

definition fileserver_args :: "node_restart_params \<Rightarrow> string" where
  "fileserver_args ps =
     ''-id='' @ shellQuote (rp_FsID ps) @ '' -port='' @ dec_int (rp_Port ps)
     @ '' -data='' @ or_default (rp_DataDir ps) ''./fileserver_data''
     @ '' -meta_addr='' @ or_default (rp_MetaAddr ps) ''127.0.0.1:50051''
     @ '' -own_ip='' @ or_default (rp_OwnIP ps) (rp_Host ps)"

definition start_metaserver :: "string \<Rightarrow> string" where
  "start_metaserver repo = ''nohup '' @ repo @ ''/bin/metaserver -port=50051 > '' @ repo @ ''/metaserver.log 2>&1 < /dev/null &''"

definition start_admin :: "string \<Rightarrow> string" where
  "start_admin repo = ''nohup '' @ repo @ ''/bin/admin -port=8080 > '' @ repo @ ''/admin.log 2>&1 < /dev/null &''"

definition start_fileserver :: "string \<Rightarrow> node_restart_params \<Rightarrow> string" where
  "start_fileserver repo ps =
     ''nohup '' @ repo @ ''/bin/fileserver '' @ fileserver_args ps @ '' > '' @ repo @ ''/fileserver.log 2>&1 < /dev/null &''"

definition kill_fileserver :: "node_restart_params \<Rightarrow> string" where
  "kill_fileserver ps = ''pkill -f '' @ shellQuote (''fileserver -id='' @ rp_FsID ps)"

definition quoted :: "string \<Rightarrow> string" where "quoted s = quote # s @ [quote]"

definition binary_restart :: "string \<Rightarrow> string \<Rightarrow> node_restart_params \<Rightarrow> string" where
  "binary_restart service repo ps =
     (if service = ''metaserver'' then
        loadLoginEnv @ requireMongoURI @ ''fuser -k 50051/tcp 2>/dev/null || pkill -f '' @ quoted ''metaserver''
        @ '' || true; sleep 1; '' @ start_metaserver repo
      else if service = ''admin'' then
        loadLoginEnv @ requireMongoURI @ ''fuser -k 8080/tcp 2>/dev/null || pkill -f '' @ quoted ''bin/admin''
        @ '' || true; sleep 1; '' @ start_admin repo
      else if service = ''all'' then
        loadLoginEnv @ requireMongoURI @ ''fuser -k '' @ dec_int (rp_Port ps) @ ''/tcp 50051/tcp 8080/tcp 2>/dev/null || '' @ kill_fileserver ps
        @ '' || pkill -f '' @ quoted ''metaserver'' @ '' || pkill -f '' @ quoted ''bin/admin'' @ '' || true; sleep 1; ''
        @ start_metaserver repo @ '' '' @ start_fileserver repo ps @ '' '' @ start_admin repo
      else
        ''fuser -k '' @ dec_int (rp_Port ps) @ ''/tcp 2>/dev/null || '' @ kill_fileserver ps @ '' || true; sleep 1; '' @ start_fileserver repo ps)"

definition systemd_restart :: "string \<Rightarrow> string" where
  "systemd_restart service =
     (if service = ''metaserver'' then ''sudo -n systemctl restart dvfs-metaserver''
      else if service = ''admin'' then ''sudo -n systemctl restart dvfs-admin''
      else if service = ''all'' then ''sudo -n systemctl restart dvfs-metaserver dvfs-fileserver dvfs-admin''
      else ''sudo -n systemctl restart dvfs-fileserver'')"

text \<open>A binary restart reads the parameters of the node; without them the pointer is nil and the program panics.\<close>

definition restart_command :: "string \<Rightarrow> action_request \<Rightarrow> node_restart_params option \<Rightarrow> string option" where
  "restart_command repo req params =
     (let service = or_default (rq_TargetService req) ''fileserver'' in
      if rq_RestartMode req = ''binary''
      then (case params of None \<Rightarrow> None | Some ps \<Rightarrow> Some (binary_restart service repo ps))
      else Some (systemd_restart service))"

definition reboot_command :: string where
  "reboot_command =
     ''nohup sh -c '' @ quoted ''sleep 2 && sudo -n reboot'' @ '' >/dev/null 2>&1 & echo ''
     @ quoted ''System reboot scheduled in 2 seconds (machine will restart shortly)''"

definition apt_command :: "action_request \<Rightarrow> string" where
  "apt_command req =
     (if rq_AptMode req = ''update_only'' then ''sudo -n DEBIAN_FRONTEND=noninteractive apt-get update''
      else ''sudo -n DEBIAN_FRONTEND=noninteractive apt-get update && sudo -n DEBIAN_FRONTEND=noninteractive apt-get upgrade -y'')"

definition logs_command :: "string \<Rightarrow> action_request \<Rightarrow> string" where
  "logs_command repo req =
     (let lines = (if rq_LogLines req \<le> 0 then 50 else rq_LogLines req);
          service = or_default (rq_TargetService req) ''fileserver'';
          name = (if service = ''metaserver'' \<or> service = ''admin'' then service else ''fileserver'')
      in if rq_LogMode req = ''tail''
         then ''tail -n '' @ dec_int lines @ '' '' @ or_default (rq_LogPath req) (repo @ ''/'' @ name @ ''.log'')
         else ''journalctl -u dvfs-'' @ name @ '' -n '' @ dec_int lines @ '' --no-pager'')"

definition FormatCommand :: "orchestrator \<Rightarrow> action_request \<Rightarrow> node_restart_params option \<Rightarrow> string option" where
  "FormatCommand orc req params =
     (let repo = repo_path orc req; custom = rq_CustomCommand req; unless_custom = (\<lambda>c. if custom \<noteq> [] then Some custom else c) in
      if rq_ActionType req = ActionPull then unless_custom (Some (pull_command repo req))
      else if rq_ActionType req = ActionBuild then Some (build_command repo req)
      else if rq_ActionType req = ActionRestart then unless_custom (restart_command repo req params)
      else if rq_ActionType req = ActionReboot then unless_custom (Some reboot_command)
      else if rq_ActionType req = ActionApt then unless_custom (Some (apt_command req))
      else if rq_ActionType req = ActionLogs then unless_custom (Some (logs_command repo req))
      else Some custom)"

section \<open>Executing an action\<close>

datatype action_error = NoTargets | NoneFound | NodeBusy string string

text \<open>One answer over SSH: pieces of output (on the error stream or not), the exit code, the error and whether
  the deadline had passed by then, the time taken.\<close>

record ssh_call =
  sc_Host :: string
  sc_Port :: int
  sc_User :: string
  sc_Key :: string
  sc_Command :: string

record ssh_reply =
  sp_Chunks :: "(bool \<times> string) list"
  sp_ExitCode :: int
  sp_Err :: "string option"
  sp_TimedOut :: bool
  sp_DurationMs :: int

record action_env =
  ox_uuid :: string
  ox_now :: int
  ox_DurationMs :: int
  ox_ssh :: "string \<Rightarrow> ssh_call \<Rightarrow> ssh_reply"
  ox_history :: history_env

definition action_id :: "action_env \<Rightarrow> string" where
  "action_id env = ''act-'' @ take 8 (ox_uuid env)"

text \<open>The locks are taken one by one; at the first node that has one already those taken so far are given back.\<close>

fun acquire :: "string \<Rightarrow> string list \<Rightarrow> string list \<Rightarrow> (string, string) gomap \<Rightarrow> action_error option \<times> (string, string) gomap" where
  "acquire actionID acquired [] m = (None, m)"
| "acquire actionID acquired (nID # ns) m =
     (case mget m nID of
        Some actual \<Rightarrow> (Some (NodeBusy nID actual), mdel_all acquired m)
      | None \<Rightarrow> acquire actionID (acquired @ [nID]) ns (mput nID actionID m))"

definition target_nodes :: "action_request \<Rightarrow> admin_server \<Rightarrow> (string, node_state) gomap" where
  "target_nodes req a =
     fold (\<lambda>nID m. case mget (as_nodes a) nID of Some node \<Rightarrow> mput nID node m | None \<Rightarrow> m) (rq_TargetNodeIDs req) []"

text \<open>\<open>Execute\<close> up to the point where it holds the locks, and the release when it returns.\<close>

definition begin_action :: "action_env \<Rightarrow> action_request \<Rightarrow> admin_server \<Rightarrow> orchestrator \<Rightarrow> action_error option \<times> orchestrator" where
  "begin_action env req a orc =
     (if rq_TargetNodeIDs req = [] then (Some NoTargets, orc)
      else if target_nodes req a = [] then (Some NoneFound, orc)
      else (case acquire (action_id env) [] (rq_TargetNodeIDs req) (or_activeNodes orc) of
              (err, m) \<Rightarrow> (err, orc\<lparr>or_activeNodes := m\<rparr>)))"

definition end_action :: "action_request \<Rightarrow> orchestrator \<Rightarrow> orchestrator" where
  "end_action req orc = orc\<lparr>or_activeNodes := mdel_all (rq_TargetNodeIDs req) (or_activeNodes orc)\<rparr>"

text \<open>\<^verbatim>\<open>time.Duration.String\<close> of a positive duration in nanoseconds.\<close>

definition fraction :: "nat \<Rightarrow> nat \<Rightarrow> string" where
  "fraction prec v =
     (let ds = dec v; t = rev (dropWhile (\<lambda>c. c = CHR ''0'') (rev (replicate (prec - length ds) CHR ''0'' @ ds)))
      in if t = [] then [] else ''.'' @ t)"

definition duration_text :: "int \<Rightarrow> string" where
  "duration_text d =
     (let n = nat d; u = n div 1000000000 in
      if n = 0 then ''0s''
      else if n < 1000 then dec n @ ''ns''
      else if n < 1000000 then dec (n div 1000) @ fraction 3 (n mod 1000) @ [CHR 0xC2, CHR 0xB5] @ ''s''
      else if n < 1000000000 then dec (n div 1000000) @ fraction 6 (n mod 1000000) @ ''ms''
      else (if u div 3600 > 0 then dec (u div 3600) @ ''h'' else [])
           @ (if u div 60 > 0 then dec (u div 60 mod 60) @ ''m'' else [])
           @ dec (u mod 60) @ fraction 9 (n mod 1000000000) @ ''s'')"

definition action_timeout :: "action_request \<Rightarrow> int" where
  "action_timeout req =
     (let t = int64_wrap (int64_wrap (rq_TimeoutSeconds req) * 1000000000) in
      if t \<le> 0 then (if rq_ActionType req = ActionApt then 600000000000 else 300000000000) else t)"

definition node_params :: "action_request \<Rightarrow> (string, node_restart_params) gomap \<Rightarrow> string \<Rightarrow> node_restart_params option" where
  "node_params req presets nID =
     (case mget (rq_RestartParams req) nID of Some (Some ps) \<Rightarrow> Some ps | _ \<Rightarrow> mget presets nID)"

definition ssh_port :: "orchestrator \<Rightarrow> action_request \<Rightarrow> node_restart_params option \<Rightarrow> int" where
  "ssh_port orc req params =
     (if rq_SSHPort req > 0 then rq_SSHPort req
      else (case params of
              Some ps \<Rightarrow> if rp_SSHPort ps > 0 then rp_SSHPort ps else if or_defaultSSHPort orc > 0 then or_defaultSSHPort orc else 22
            | None \<Rightarrow> if or_defaultSSHPort orc > 0 then or_defaultSSHPort orc else 22))"

definition ssh_user :: "orchestrator \<Rightarrow> action_request \<Rightarrow> string" where
  "ssh_user orc req = or_default (or_default (rq_SSHUser req) (or_defaultSSHUser orc)) ''ubuntu''"

definition ssh_key :: "orchestrator \<Rightarrow> action_request \<Rightarrow> string" where
  "ssh_key orc req = or_default (or_default (rq_SSHKeyPath req) (or_defaultSSHKey orc)) ''~/.ssh/id_rsa''"

definition node_user :: "orchestrator \<Rightarrow> action_request \<Rightarrow> node_restart_params option \<Rightarrow> string \<Rightarrow> node_state \<Rightarrow> string" where
  "node_user orc req params nID node =
     (let sshUser = ssh_user orc req; own = (case params of Some ps \<Rightarrow> rp_SSHUser ps | None \<Rightarrow> []) in
      if own \<noteq> [] then own
      else if ns_MachineName node \<noteq> [] then ns_MachineName node
      else if rq_SSHUser req \<noteq> [] then rq_SSHUser req
      else if sshUser = [] \<or> HasPrefix sshUser ''dvfs'' then numbered_user sshUser nID
      else sshUser)"

definition stream_text :: "bool \<Rightarrow> ssh_reply \<Rightarrow> string" where
  "stream_text err r = concat (map snd (filter (\<lambda>(e, chunk). e = err) (sp_Chunks r)))"

definition node_output :: "ssh_reply \<Rightarrow> string" where
  "node_output r =
     stream_text False r
     @ (if stream_text True r \<noteq> []
        then (if stream_text False r \<noteq> [] then [CHR 0x0A] else []) @ ''[STDERR]'' @ [CHR 0x0A] @ stream_text True r else [])"

definition chunk_event :: "string \<Rightarrow> string \<Rightarrow> bool \<times> string \<Rightarrow> action_event" where
  "chunk_event actionID nID ec =
     zero_event\<lparr>ev_Type := ''node_output'', ev_ActionID := actionID, ev_NodeID := nID,
                ev_Stream := (if fst ec then ''stderr'' else ''stdout''), ev_Chunk := snd ec\<rparr>"

definition node_failed :: "ssh_reply \<Rightarrow> bool" where
  "node_failed r \<longleftrightarrow> sp_Err r \<noteq> None \<or> sp_ExitCode r \<noteq> 0"

definition node_error :: "action_request \<Rightarrow> ssh_reply \<Rightarrow> string" where
  "node_error req r =
     (case sp_Err r of
        None \<Rightarrow> []
      | Some e \<Rightarrow> if sp_TimedOut r then ''command timed out after '' @ duration_text (action_timeout req) else e)"

text \<open>One node: its call, its events and its result; \<open>None\<close> is a panic.\<close>

definition call_node :: "orchestrator \<Rightarrow> action_request \<Rightarrow> (string, node_restart_params) gomap \<Rightarrow> string \<Rightarrow> node_state \<Rightarrow> ssh_call option" where
  "call_node orc req presets nID node =
     (let params = node_params req presets nID;
          host = (case SplitHostPort (ns_Address node) of Some (h, _) \<Rightarrow> or_default h (ns_Address node) | None \<Rightarrow> ns_Address node)
      in case FormatCommand orc req params of
           None \<Rightarrow> None
         | Some cmd \<Rightarrow> Some \<lparr>sc_Host = host, sc_Port = ssh_port orc req params, sc_User = node_user orc req params nID node,
                             sc_Key = ssh_key orc req, sc_Command = cmd\<rparr>)"

definition exec_node ::
  "action_env \<Rightarrow> orchestrator \<Rightarrow> action_request \<Rightarrow> (string, node_restart_params) gomap \<Rightarrow> string \<times> node_state
     \<Rightarrow> (action_event list \<times> bool \<times> node_result) option" where
  "exec_node env orc req presets nn =
     (case nn of (nID, node) \<Rightarrow>
        (case call_node orc req presets nID node of
           None \<Rightarrow> None
         | Some call \<Rightarrow>
             (let r = ox_ssh env nID call; aid = action_id env; addr = ns_Address node in
              Some ([zero_event\<lparr>ev_Type := ''node_started'', ev_ActionID := aid, ev_NodeID := nID, ev_Address := addr,
                                ev_Command := redactMongoURI (sc_Command call)\<rparr>]
                    @ map (chunk_event aid nID) (sp_Chunks r)
                    @ [zero_event\<lparr>ev_Type := ''node_finished'', ev_ActionID := aid, ev_NodeID := nID, ev_Address := addr,
                                  ev_ExitCode := sp_ExitCode r, ev_DurationMs := sp_DurationMs r, ev_Error := node_error req r\<rparr>],
                    node_failed r,
                    \<lparr>nr_NodeID = nID, nr_Address = addr, nr_ExitCode = sp_ExitCode r, nr_Output = node_output r,
                     nr_Error = node_error req r, nr_DurationMs = sp_DurationMs r\<rparr>))))"

fun exec_nodes ::
  "action_env \<Rightarrow> orchestrator \<Rightarrow> action_request \<Rightarrow> (string, node_restart_params) gomap \<Rightarrow> (string \<times> node_state) list
     \<Rightarrow> (action_event list \<times> bool \<times> (string, node_result) gomap) option" where
  "exec_nodes env orc req presets [] = Some ([], False, [])"
| "exec_nodes env orc req presets (nn # ns) =
     (case (exec_node env orc req presets nn, exec_nodes env orc req presets ns) of
        (Some (evs, failed, res), Some (evs', failed', results)) \<Rightarrow>
          Some (evs @ evs', failed \<or> failed', mput (fst nn) res results)
      | _ \<Rightarrow> None)"

text \<open>The command shown in the history: that of the first target the map gives.\<close>

definition display_command :: "orchestrator \<Rightarrow> action_request \<Rightarrow> (string, node_restart_params) gomap \<Rightarrow> (string, node_state) gomap \<Rightarrow> string option" where
  "display_command orc req presets targets =
     (let first = (if rq_CustomCommand req \<noteq> [] then Some (rq_CustomCommand req)
                   else case targets of [] \<Rightarrow> Some [] | (nID, _) # _ \<Rightarrow> FormatCommand orc req (mget presets nID))
      in map_option (\<lambda>c. redactMongoURI (or_default c (rq_ActionType req))) first)"

type_synonym history_state = "command_history \<times> history_disk"

definition run_action ::
  "action_env \<Rightarrow> action_request \<Rightarrow> admin_server \<Rightarrow> orchestrator \<Rightarrow> history_state
     \<Rightarrow> ((command_record \<times> action_event list) \<times> history_state) option" where
  "run_action env req a orc h =
     (let presets = GetPresets orc a; targets = target_nodes req a; aid = action_id env in
      case (display_command orc req presets targets, exec_nodes env orc req presets targets) of
        (Some displayCmd, Some (evs, overallFailed, results)) \<Rightarrow>
          (let status = (if overallFailed then ''failed'' else ''success'');
               rec = \<lparr>cr_ID = aid, cr_Timestamp = ox_now env, cr_ActionType = rq_ActionType req, cr_Command = displayCmd,
                      cr_TargetNodes = rq_TargetNodeIDs req, cr_Status = status, cr_DurationMs = ox_DurationMs env, cr_NodeResults = results\<rparr>;
               started = zero_event\<lparr>ev_Type := ''action_started'', ev_ActionID := aid, ev_Command := displayCmd, ev_Status := ''running''\<rparr>;
               finished = zero_event\<lparr>ev_Type := ''action_finished'', ev_ActionID := aid, ev_Status := status, ev_DurationMs := ox_DurationMs env\<rparr>
           in case ch_Push (ox_history env) rec h of
                None \<Rightarrow> None
              | Some h1 \<Rightarrow> Some ((rec, started # evs @ [finished]), h1))
      | _ \<Rightarrow> None)"

definition Execute ::
  "action_env \<Rightarrow> action_request \<Rightarrow> admin_server \<Rightarrow> orchestrator \<times> history_state
     \<Rightarrow> ((action_error + command_record \<times> action_event list) \<times> orchestrator \<times> history_state) option" where
  "Execute env req a oh =
     (case oh of (orc, h) \<Rightarrow>
        (case begin_action env req a orc of
           (Some err, orc1) \<Rightarrow> Some (Inl err, orc1, h)
         | (None, orc1) \<Rightarrow>
             (case run_action env req a orc1 h of
                None \<Rightarrow> None
              | Some (out, h1) \<Rightarrow> Some (Inr out, end_action req orc1, h1))))"

section \<open>What a shell reads\<close>

text \<open>
  A reference for the words of a POSIX shell: blanks and operators end a word, single quotes keep their text,
  a backslash keeps the next character. \<open>None\<close> is an open quote or text that the shell would expand.
\<close>

definition sh_ends :: "char \<Rightarrow> bool" where
  "sh_ends c \<longleftrightarrow> c \<in> {CHR '' '', CHR 0x09, CHR 0x0A, CHR '';'', CHR ''&'', CHR ''|'', CHR ''<'', CHR ''>'', CHR ''('', CHR '')''}"

definition sh_expands :: "char \<Rightarrow> bool" where
  "sh_expands c \<longleftrightarrow> c \<in> {dquote, CHR ''$'', CHR 0x60, CHR ''*'', CHR ''?'', CHR ''['', CHR ''~'', CHR ''#'', CHR ''{''}"

definition with_front :: "string \<Rightarrow> (string \<times> string) option \<Rightarrow> (string \<times> string) option" where
  "with_front p w = map_option (\<lambda>(v, r). (p @ v, r)) w"

function sh_word :: "string \<Rightarrow> (string \<times> string) option" where
  "sh_word [] = Some ([], [])"
| "sh_word (c # cs) =
     (if sh_ends c then Some ([], c # cs)
      else if c = quote then
        (case dropWhile (\<lambda>d. d \<noteq> quote) cs of
           [] \<Rightarrow> None
         | _ # r \<Rightarrow> with_front (takeWhile (\<lambda>d. d \<noteq> quote) cs) (sh_word r))
      else if c = backslash then (case cs of [] \<Rightarrow> Some ([c], []) | d # ds \<Rightarrow> with_front (if d = CHR 0x0A then [] else [d]) (sh_word ds))
      else if sh_expands c then None
      else with_front [c] (sh_word cs))"
  by pat_completeness auto
termination
proof (relation "measure length")
  fix c cs d r
  assume "dropWhile (\<lambda>d. d \<noteq> quote) cs = d # r"
  then have "length (d # r) \<le> length cs" by (metis length_dropWhile_le)
  then show "(r, c # cs) \<in> measure length" by simp
qed auto

declare sh_word.simps(2) [simp del]

lemma shell_chars [simp]:
  "\<not> sh_ends quote" "\<not> sh_ends backslash" "backslash \<noteq> quote" "quote \<noteq> backslash" "quote \<noteq> CHR 0x0A"
  by (simp_all add: sh_ends_def quote_def backslash_def)

lemma sh_word_quoted: "c \<noteq> quote \<Longrightarrow> sh_word (quote # c # t) = with_front [c] (sh_word (quote # t))"
  by (cases "dropWhile (\<lambda>d. d \<noteq> quote) t")
    (simp_all add: sh_word.simps(2) [of quote] with_front_def option.map_comp comp_def case_prod_unfold del: dropWhile_eq_Nil_conv)

lemma sh_word_open_close: "sh_word (quote # quote # t) = sh_word t"
  by (cases "sh_word t") (simp_all add: sh_word.simps(2) [of quote] with_front_def case_prod_unfold)

lemma sh_word_escaped: "sh_word (backslash # quote # t) = with_front [quote] (sh_word t)"
  by (simp add: sh_word.simps(2) [of backslash])

text \<open>Quoted text is read as it is, whatever it holds, and the word goes on behind it.\<close>

lemma sh_word_shellQuote: "sh_word (shellQuote s @ t) = with_front s (sh_word t)"
proof -
  have "sh_word (quote # concat (map (\<lambda>c. if c = quote then [quote, backslash, quote, quote] else [c]) s) @ quote # t) = with_front s (sh_word t)"
  proof (induction s)
    case Nil
    then show ?case by (cases "sh_word t") (simp_all add: sh_word_open_close with_front_def case_prod_unfold)
  next
    case (Cons c s)
    then show ?case
      by (cases "sh_word t"; cases "c = quote") (simp_all add: sh_word_quoted sh_word_open_close sh_word_escaped with_front_def case_prod_unfold)
  qed
  then show ?thesis by (simp add: shellQuote_def)
qed

lemma sh_word_plain: "\<not> sh_ends c \<Longrightarrow> c \<noteq> quote \<Longrightarrow> c \<noteq> backslash \<Longrightarrow> \<not> sh_expands c \<Longrightarrow> sh_word (c # t) = with_front [c] (sh_word t)"
  by (simp add: sh_word.simps(2))

lemma sh_word_blank: "sh_word (CHR '' '' # t) = Some ([], CHR '' '' # t)"
  by (simp add: sh_word.simps(2) sh_ends_def)

lemma id_argument_read: "\<exists>r. sh_word (fileserver_args ps @ t) = Some (''-id='' @ rp_FsID ps, '' -port='' @ r)"
proof -
  have "sh_word (''-id='' @ shellQuote s @ CHR '' '' # t) = Some (''-id='' @ s, CHR '' '' # t)" for s t
    by (simp add: sh_word_plain sh_word_shellQuote sh_word_blank with_front_def sh_ends_def sh_expands_def quote_def backslash_def dquote_def)
  from this [of "rp_FsID ps"] show ?thesis by (simp add: fileserver_args_def)
qed

lemma kill_pattern_read: "sh_word (shellQuote s @ CHR '' '' # t) = Some (s, CHR '' '' # t)"
  by (simp add: sh_word_shellQuote sh_word_blank with_front_def)

lemma start_reads_id:
  "\<exists>pre args r. p @ start_fileserver repo ps @ t = pre @ ''/bin/fileserver '' @ args \<and> sh_word args = Some (''-id='' @ rp_FsID ps, '' -port='' @ r)"
proof -
  obtain r where "sh_word (fileserver_args ps @ '' > '' @ repo @ ''/fileserver.log 2>&1 < /dev/null &'' @ t) = Some (''-id='' @ rp_FsID ps, '' -port='' @ r)"
    using id_argument_read by blast
  then show ?thesis
    by (intro exI [of _ "p @ ''nohup '' @ repo"] exI [of _ "fileserver_args ps @ '' > '' @ repo @ ''/fileserver.log 2>&1 < /dev/null &'' @ t"] exI [of _ r])
      (simp add: start_fileserver_def)
qed

lemma kill_reads_id:
  "\<exists>pre pat r. p @ kill_fileserver ps @ '' || '' @ t = pre @ ''pkill -f '' @ pat \<and> sh_word pat = Some (''fileserver -id='' @ rp_FsID ps, '' || '' @ r)"
  using kill_pattern_read [of "''fileserver -id='' @ rp_FsID ps" "''|| '' @ t"]
  by (intro exI [of _ p] exI [of _ "shellQuote (''fileserver -id='' @ rp_FsID ps) @ '' || '' @ t"] exI [of _ t]) (simp add: kill_fileserver_def)

lemma binary_restart_command:
  assumes "rq_ActionType req = ActionRestart" "rq_CustomCommand req = []" "rq_RestartMode req = ''binary''"
  shows "FormatCommand orc req (Some ps) = Some (binary_restart (or_default (rq_TargetService req) ''fileserver'') (repo_path orc req) ps)"
  using assms by (simp add: FormatCommand_def Let_def restart_command_def ActionPull_def ActionBuild_def ActionRestart_def)

text \<open>
C35. Whatever characters the id of a fileserver holds, the shell reads it as data: in the command of a binary
restart the argument \<open>-id=\<close> of the fileserver is one word with exactly that id, and so is the pattern of the
processes to stop.
\<close>

theorem restart_passes_the_id_whole:
  assumes "rq_ActionType req = ActionRestart" "rq_CustomCommand req = []" "rq_RestartMode req = ''binary''"
    and "rq_TargetService req \<in> {[], ''fileserver'', ''all''}"
  shows "\<exists>cmd. FormatCommand orc req (Some ps) = Some cmd
    \<and> (\<exists>pre args r. cmd = pre @ ''/bin/fileserver '' @ args \<and> sh_word args = Some (''-id='' @ rp_FsID ps, '' -port='' @ r))
    \<and> (\<exists>pre pat r. cmd = pre @ ''pkill -f '' @ pat \<and> sh_word pat = Some (''fileserver -id='' @ rp_FsID ps, '' || '' @ r))"
proof -
  define repo where "repo = repo_path orc req"
  note cmd = binary_restart_command [OF assms(1-3), of orc ps, folded repo_def]
  consider "or_default (rq_TargetService req) ''fileserver'' = ''all''" | "or_default (rq_TargetService req) ''fileserver'' = ''fileserver''"
    using assms(4) by (auto simp: or_default_def)
  then show ?thesis
  proof cases
    case 1
    then show ?thesis unfolding cmd option.inject ex_simps simp_thms
      using start_reads_id [of "loadLoginEnv @ requireMongoURI @ ''fuser -k '' @ dec_int (rp_Port ps) @ ''/tcp 50051/tcp 8080/tcp 2>/dev/null || '' @ kill_fileserver ps
          @ '' || pkill -f '' @ quoted ''metaserver'' @ '' || pkill -f '' @ quoted ''bin/admin'' @ '' || true; sleep 1; '' @ start_metaserver repo @ '' ''"
          repo ps "'' '' @ start_admin repo"]
        kill_reads_id [of "loadLoginEnv @ requireMongoURI @ ''fuser -k '' @ dec_int (rp_Port ps) @ ''/tcp 50051/tcp 8080/tcp 2>/dev/null || ''"
          ps "''pkill -f '' @ quoted ''metaserver'' @ '' || pkill -f '' @ quoted ''bin/admin'' @ '' || true; sleep 1; ''
          @ start_metaserver repo @ '' '' @ start_fileserver repo ps @ '' '' @ start_admin repo"]
      by (simp add: binary_restart_def)
  next
    case 2
    then show ?thesis unfolding cmd option.inject ex_simps simp_thms
      using start_reads_id [of "''fuser -k '' @ dec_int (rp_Port ps) @ ''/tcp 2>/dev/null || '' @ kill_fileserver ps @ '' || true; sleep 1; ''" repo ps "[]"]
        kill_reads_id [of "''fuser -k '' @ dec_int (rp_Port ps) @ ''/tcp 2>/dev/null || ''" ps "''true; sleep 1; '' @ start_fileserver repo ps"]
      by (simp add: binary_restart_def)
  qed
qed

text \<open>
  The address of a node, which that node chooses as well, is not quoted: its host is put into the same command as
  it stands, here one on which the shell runs another command.
\<close>

lemma address_reaches_the_shell:
  assumes "rq_ActionType req = ActionRestart" "rq_CustomCommand req = []" "rq_RestartMode req = ''binary''" "rq_TargetService req = []"
    and "ns_Address node = host @ '':1''" "SplitHostPort (host @ '':1'') = Some (host, ''1'')" "host \<noteq> []"
  shows "\<exists>pre post. FormatCommand orc req (Some (snd (preset orc (f, node)))) = Some (pre @ '' -own_ip='' @ host @ '' > '' @ post)"
proof -
  define ps where "ps = snd (preset orc (f, node))"
  define repo where "repo = repo_path orc req"
  have ip: "or_default (rp_OwnIP ps) (rp_Host ps) = host" using assms(5-7) by (simp add: ps_def preset_def Let_def or_default_def)
  have svc: "or_default (rq_TargetService req) ''fileserver'' = ''fileserver''" using assms(4) by (simp add: or_default_def)
  show ?thesis unfolding ps_def [symmetric] binary_restart_command [OF assms(1-3)] svc option.inject repo_def [symmetric]
    by (intro exI [of _ "''fuser -k '' @ dec_int (rp_Port ps) @ ''/tcp 2>/dev/null || '' @ kill_fileserver ps @ '' || true; sleep 1; ''
          @ ''nohup '' @ repo @ ''/bin/fileserver -id='' @ shellQuote (rp_FsID ps) @ '' -port='' @ dec_int (rp_Port ps)
          @ '' -data='' @ or_default (rp_DataDir ps) ''./fileserver_data'' @ '' -meta_addr='' @ or_default (rp_MetaAddr ps) ''127.0.0.1:50051''"]
        exI [of _ "repo @ ''/fileserver.log 2>&1 < /dev/null &''"])
      (simp add: binary_restart_def start_fileserver_def fileserver_args_def ip)
qed

lemma address_reaches_the_shell_example:
  "SplitHostPort (''$(reboot)'' @ '':1'') = Some (''$(reboot)'', ''1'')" "sh_word (''$(reboot)'' @ '' > '' @ t) = None"
  by code_simp (simp add: sh_word.simps(2) sh_ends_def sh_expands_def quote_def backslash_def)

text \<open>What the redaction masks, and a password it leaves as it is: one with a quote in it.\<close>

lemma redaction_examples:
  "redactMongoURI ''run mongodb://u:pw@h/db x'' = ''run mongodb://u:***@h/db x''"
  "redactMongoURI (''mongodb://u:p'' @ [quote] @ ''w@h'') = ''mongodb://u:p'' @ [quote] @ ''w@h''"
  by code_simp+

section \<open>One action per node\<close>

datatype lock_op = Begin action_env action_request admin_server | Finish action_request

inductive action_step :: "orchestrator \<times> action_request list \<Rightarrow> lock_op \<Rightarrow> orchestrator \<times> action_request list \<Rightarrow> bool" where
  started: "begin_action env req a orc = (None, orc1) \<Longrightarrow> action_step (orc, rs) (Begin env req a) (orc1, req # rs)"
| refused: "begin_action env req a orc = (Some err, orc1) \<Longrightarrow> action_step (orc, rs) (Begin env req a) (orc1, rs)"
| finished: "action_step (orc, rs @ req # qs) (Finish req) (end_action req orc, rs @ qs)"

definition held :: "action_request list \<Rightarrow> string list" where
  "held rs = concat (map rq_TargetNodeIDs rs)"

definition locks_ok :: "orchestrator \<times> action_request list \<Rightarrow> bool" where
  "locks_ok s \<longleftrightarrow> distinct (held (snd s)) \<and> (\<forall>n. mget (or_activeNodes (fst s)) n \<noteq> None \<longleftrightarrow> n \<in> set (held (snd s)))"

lemma acquire_taken:
  "acquire aid acq ns m = (None, m') \<Longrightarrow>
     distinct ns \<and> (\<forall>n \<in> set ns. mget m n = None) \<and> (\<forall>n. mget m' n = (if n \<in> set ns then Some aid else mget m n))"
  by (induction aid acq ns m rule: acquire.induct) (auto split: option.splits if_splits)

lemma acquire_given_back:
  "acquire aid acq ns m = (Some e, m') \<Longrightarrow> mget m' n = (if n \<in> set acq then None else mget m n)"
  by (induction aid acq ns m rule: acquire.induct) (auto split: option.splits if_splits)

lemma acquire_free:
  "distinct ns \<Longrightarrow> (\<forall>n \<in> set ns. mget m n = None) \<Longrightarrow> \<exists>m'. acquire aid acq ns m = (None, m')"
proof (induction aid acq ns m rule: acquire.induct)
  case (2 aid acq n ns m)
  have "\<forall>k \<in> set ns. mget (mput n aid m) k = None" using 2 by auto
  with 2 show ?case by simp
qed simp

lemma mget_target_nodes: "mget (target_nodes req a) n = (if n \<in> set (rq_TargetNodeIDs req) then mget (as_nodes a) n else None)"
proof -
  have "mget (fold (\<lambda>n m. case mget (as_nodes a) n of Some node \<Rightarrow> mput n node m | None \<Rightarrow> m) ns m) n
      = (if n \<in> set ns \<and> mget (as_nodes a) n \<noteq> None then mget (as_nodes a) n else mget m n)" for ns m
    by (induction ns arbitrary: m) (auto split: option.split)
  then show ?thesis by (auto simp: target_nodes_def)
qed

lemma target_nodes_Nil: "target_nodes req a = [] \<longleftrightarrow> (\<forall>n \<in> set (rq_TargetNodeIDs req). mget (as_nodes a) n = None)"
proof -
  have "target_nodes req a = [] \<longleftrightarrow> (\<forall>n. mget (target_nodes req a) n = None)"
    by (cases "target_nodes req a") auto
  then show ?thesis by (auto simp: mget_target_nodes split: if_splits)
qed

interpretation actions: op_system action_step locks_ok
proof
  fix s x t
  assume "action_step s x t" "locks_ok s"
  then show "locks_ok t"
  proof (induction rule: action_step.induct)
    case (started env req a orc orc1 rs)
    then obtain m where m: "acquire (action_id env) [] (rq_TargetNodeIDs req) (or_activeNodes orc) = (None, m)" "orc1 = orc\<lparr>or_activeNodes := m\<rparr>"
      by (auto simp: begin_action_def split: if_splits prod.splits)
    note taken = acquire_taken [OF m(1)]
    have rs: "distinct (held rs)" "\<And>n. mget (or_activeNodes orc) n \<noteq> None \<longleftrightarrow> n \<in> set (held rs)"
      using started.prems by (simp_all add: locks_ok_def)
    have "set (rq_TargetNodeIDs req) \<inter> set (held rs) = {}" using taken rs(2) by blast
    then have "distinct (held (req # rs))" using taken rs(1) by (auto simp: held_def)
    moreover have "mget m n \<noteq> None \<longleftrightarrow> n \<in> set (held (req # rs))" for n using taken rs(2) [of n] by (auto simp: held_def)
    ultimately show ?case by (simp add: locks_ok_def m(2))
  next
    case (refused env req a orc err orc1 rs)
    then have "mget (or_activeNodes orc1) n = mget (or_activeNodes orc) n" for n
      by (auto simp: begin_action_def dest: acquire_given_back split: if_splits prod.splits)
    with refused.prems show ?case by (simp add: locks_ok_def)
  next
    case (finished orc rs req qs)
    then show ?case by (auto simp: locks_ok_def held_def end_action_def)
  qed
qed

text \<open>
C33. However actions begin, are refused and finish, no node is ever the target of two running actions, and
exactly the targets of the running ones are locked: nothing that was refused or has finished leaves a lock. An
action begins if and only if it names a node of the cluster, names none twice and every node it names is free.
\<close>

theorem one_action_per_node:
  assumes "reaches action_step (orc0, []) (orc, rs)" "or_activeNodes orc0 = []"
  shows "distinct (concat (map rq_TargetNodeIDs rs))
    \<and> (\<forall>n. mget (or_activeNodes orc) n \<noteq> None \<longleftrightarrow> (\<exists>r \<in> set rs. n \<in> set (rq_TargetNodeIDs r)))
    \<and> (fst (begin_action env req a orc) = None \<longleftrightarrow>
         (\<exists>n \<in> set (rq_TargetNodeIDs req). mget (as_nodes a) n \<noteq> None) \<and> distinct (rq_TargetNodeIDs req)
         \<and> (\<forall>r \<in> set rs. set (rq_TargetNodeIDs r) \<inter> set (rq_TargetNodeIDs req) = {}))"
proof -
  have "locks_ok (orc0, [])" using assms(2) by (simp add: locks_ok_def held_def)
  from actions.reaches_inv [OF assms(1) this] have ok: "distinct (concat (map rq_TargetNodeIDs rs))"
    "\<And>n. mget (or_activeNodes orc) n \<noteq> None \<longleftrightarrow> (\<exists>r \<in> set rs. n \<in> set (rq_TargetNodeIDs r))"
    by (simp_all add: locks_ok_def held_def)
  have free: "(\<forall>n \<in> set (rq_TargetNodeIDs req). mget (or_activeNodes orc) n = None)
      \<longleftrightarrow> (\<forall>r \<in> set rs. set (rq_TargetNodeIDs r) \<inter> set (rq_TargetNodeIDs req) = {})"
    using ok(2) by blast
  have acq: "fst (acquire (action_id env) [] (rq_TargetNodeIDs req) (or_activeNodes orc)) = None
      \<longleftrightarrow> distinct (rq_TargetNodeIDs req) \<and> (\<forall>n \<in> set (rq_TargetNodeIDs req). mget (or_activeNodes orc) n = None)"
    using acquire_taken acquire_free by (metis fst_conv prod.collapse)
  have "fst (begin_action env req a orc) = None \<longleftrightarrow> rq_TargetNodeIDs req \<noteq> [] \<and> target_nodes req a \<noteq> []
      \<and> fst (acquire (action_id env) [] (rq_TargetNodeIDs req) (or_activeNodes orc)) = None"
    by (simp add: begin_action_def split: prod.split)
  then show ?thesis using ok free acq target_nodes_Nil [of req a] by auto
qed

text \<open>A target that is named twice meets its own lock: the action is refused as running on itself.\<close>

lemma duplicate_target_refuses_itself:
  assumes "rq_TargetNodeIDs req = [n, n]" "mget (as_nodes a) n \<noteq> None" "mget (or_activeNodes orc) n = None"
  shows "fst (begin_action env req a orc) = Some (NodeBusy n (action_id env))"
  using assms target_nodes_Nil [of req a] by (simp add: begin_action_def split: prod.split)

section \<open>What an action leaves\<close>

lemma mget_GetPresets: "mget (GetPresets orc a) f = map_option (\<lambda>n. snd (preset orc (f, n))) (mget (as_nodes a) f)"
proof -
  have fst: "fst (preset orc fn) = fst fn" for fn by (simp add: preset_def Let_def split: prod.split)
  have "mget (map (preset orc) m) f = map_option (\<lambda>n. snd (preset orc (f, n))) (mget m f)" for m
  proof (induction m)
    case (Cons x m)
    obtain g n where x: "x = (g, n)" by (cases x)
    obtain p where "preset orc x = (g, p)" using fst [of x] by (metis x fst_conv prod.collapse)
    with Cons show ?case by (simp add: x)
  qed simp
  then show ?thesis by (simp add: GetPresets_def)
qed

lemma FormatCommand_returns: "\<exists>cmd. FormatCommand orc req (Some ps) = Some cmd"
  by (simp add: FormatCommand_def restart_command_def Let_def)

lemma gomap_ok_target_nodes: "gomap_ok (target_nodes req a)"
proof -
  have "gomap_ok m \<Longrightarrow> gomap_ok (fold (\<lambda>n m. case mget (as_nodes a) n of Some node \<Rightarrow> mput n node m | None \<Rightarrow> m) ns m)" for ns m
    by (induction ns arbitrary: m) (simp_all split: option.split)
  then show ?thesis by (simp add: target_nodes_def)
qed

lemma call_returns:
  assumes "mget (as_nodes a) n \<noteq> None" shows "\<exists>call. call_node orc req (GetPresets orc a) n node = Some call"
proof -
  have "\<exists>ps. node_params req (GetPresets orc a) n = Some ps"
    using assms by (auto simp: node_params_def mget_GetPresets split: option.split)
  then obtain ps where "node_params req (GetPresets orc a) n = Some ps" by blast
  then show ?thesis using FormatCommand_returns [of orc req ps] by (auto simp: call_node_def Let_def)
qed

text \<open>The nodes of an action, each called and each with a result.\<close>

definition failing :: "action_env \<Rightarrow> orchestrator \<Rightarrow> action_request \<Rightarrow> admin_server \<Rightarrow> string \<times> node_state \<Rightarrow> bool" where
  "failing env orc req a nn \<longleftrightarrow>
     (\<exists>call. call_node orc req (GetPresets orc a) (fst nn) (snd nn) = Some call \<and> node_failed (ox_ssh env (fst nn) call))"

lemma exec_node_returns:
  assumes "mget (as_nodes a) n \<noteq> None"
  shows "\<exists>evs res. exec_node env orc req (GetPresets orc a) (n, node) = Some (evs, failing env orc req a (n, node), res)"
  using call_returns [OF assms, of orc req node] by (auto simp: exec_node_def Let_def failing_def)

lemma exec_nodes_returns:
  "(\<forall>(n, node) \<in> set ns. mget (as_nodes a) n \<noteq> None) \<Longrightarrow>
     \<exists>evs results. exec_nodes env orc req (GetPresets orc a) ns = Some (evs, (\<exists>nn \<in> set ns. failing env orc req a nn), results)
       \<and> (\<forall>n. mget results n \<noteq> None \<longleftrightarrow> n \<in> fst ` set ns)"
proof (induction ns)
  case (Cons nn ns)
  obtain n node where nn: "nn = (n, node)" by (cases nn)
  obtain evs res where "exec_node env orc req (GetPresets orc a) nn = Some (evs, failing env orc req a nn, res)"
    using exec_node_returns [of a n env orc req node] Cons.prems by (auto simp: nn)
  moreover obtain evs' results where "exec_nodes env orc req (GetPresets orc a) ns = Some (evs', (\<exists>nn \<in> set ns. failing env orc req a nn), results)"
    "\<forall>n. mget results n \<noteq> None \<longleftrightarrow> n \<in> fst ` set ns" using Cons by auto
  ultimately show ?case by (auto simp: nn)
qed simp

lemma display_returns: "\<exists>c. display_command orc req (GetPresets orc a) (target_nodes req a) = Some c"
proof (cases "target_nodes req a")
  case (Cons x xs)
  obtain n node where x: "x = (n, node)" by (cases x)
  have "mget (target_nodes req a) n = Some node" by (simp add: Cons x)
  then obtain m where "mget (as_nodes a) n = Some m" by (auto simp: mget_target_nodes split: if_splits)
  then show ?thesis using FormatCommand_returns [of orc req "snd (preset orc (n, m))"]
    by (auto simp: display_command_def Let_def Cons x mget_GetPresets)
qed (simp add: display_command_def Let_def)

lemma locks_irrelevant [simp]:
  "GetPresets (orc\<lparr>or_activeNodes := m\<rparr>) a = GetPresets orc a" "call_node (orc\<lparr>or_activeNodes := m\<rparr>) req ps n node = call_node orc req ps n node"
proof -
  have p: "preset (orc\<lparr>or_activeNodes := m\<rparr>) = preset orc" by (rule ext) (simp add: preset_def)
  then show "GetPresets (orc\<lparr>or_activeNodes := m\<rparr>) a = GetPresets orc a" by (simp add: GetPresets_def)
  have "FormatCommand (orc\<lparr>or_activeNodes := m\<rparr>) = FormatCommand orc" by (intro ext) (simp add: FormatCommand_def repo_path_def)
  moreover have "ssh_port (orc\<lparr>or_activeNodes := m\<rparr>) = ssh_port orc" by (intro ext) (simp add: ssh_port_def split: option.split)
  moreover have "ssh_user (orc\<lparr>or_activeNodes := m\<rparr>) = ssh_user orc" "ssh_key (orc\<lparr>or_activeNodes := m\<rparr>) = ssh_key orc"
    by (intro ext, simp add: ssh_user_def ssh_key_def)+
  moreover from this have "node_user (orc\<lparr>or_activeNodes := m\<rparr>) = node_user orc" by (intro ext) (simp add: node_user_def)
  ultimately show "call_node (orc\<lparr>or_activeNodes := m\<rparr>) req ps n node = call_node orc req ps n node" by (simp only: call_node_def)
qed

lemma ch_Push_newest:
  assumes ch: "ch_ok (fst h)" shows "\<exists>h1. ch_Push env r h = Some h1 \<and> hd (ch_GetAll (fst h1)) = r"
proof -
  from put_record_ring [OF ch, of r] obtain ch1 where
    p: "put_record r (fst h) = Some ch1" "ch_ok ch1" "oldest_first ch1 = last_n (ch_capacity (fst h)) (oldest_first (fst h) @ [r])" by blast
  have "0 < ch_capacity (fst h)" using ch by (simp add: ch_ok_def ring_ok_def)
  then have "hd (rev (oldest_first ch1)) = r" using p(3) by (simp add: hd_rev last_last_n)
  with p(1) GetAll_oldest [OF p(2)] show ?thesis by (cases h) (simp add: ch_Push_def)
qed

lemma run_action_returns:
  assumes ch: "ch_ok (fst h)"
  shows "\<exists>rec evs h1. run_action env req a orc h = Some ((rec, evs), h1) \<and> hd (ch_GetAll (fst h1)) = rec \<and> cr_ID rec = action_id env
    \<and> (\<forall>n. mget (cr_NodeResults rec) n \<noteq> None \<longleftrightarrow> n \<in> set (rq_TargetNodeIDs req) \<and> mget (as_nodes a) n \<noteq> None)
    \<and> cr_Status rec = (if \<exists>nn \<in> set (target_nodes req a). failing env orc req a nn then ''failed'' else ''success'')"
proof -
  obtain c where c: "display_command orc req (GetPresets orc a) (target_nodes req a) = Some c" using display_returns by blast
  have known: "\<forall>(n, node) \<in> set (target_nodes req a). mget (as_nodes a) n \<noteq> None"
    using mget_target_nodes [of req a] gomap_ok_target_nodes [of req a] by (fastforce simp: mget_iff_in_set [symmetric] split: if_splits)
  have keys: "n \<in> fst ` set (target_nodes req a) \<longleftrightarrow> n \<in> set (rq_TargetNodeIDs req) \<and> mget (as_nodes a) n \<noteq> None" for n
    using mget_target_nodes [of req a n] map_of_eq_None_iff [of "target_nodes req a" n] by (auto split: if_splits)
  from exec_nodes_returns [OF known, of env orc req] obtain evs results where
    e: "exec_nodes env orc req (GetPresets orc a) (target_nodes req a)
        = Some (evs, (\<exists>nn \<in> set (target_nodes req a). failing env orc req a nn), results)"
    "\<And>n. mget results n \<noteq> None \<longleftrightarrow> n \<in> fst ` set (target_nodes req a)" by blast
  define rec where "rec = \<lparr>cr_ID = action_id env, cr_Timestamp = ox_now env, cr_ActionType = rq_ActionType req, cr_Command = c,
    cr_TargetNodes = rq_TargetNodeIDs req,
    cr_Status = (if \<exists>nn \<in> set (target_nodes req a). failing env orc req a nn then ''failed'' else ''success''),
    cr_DurationMs = ox_DurationMs env, cr_NodeResults = results\<rparr>"
  obtain h1 where h1: "ch_Push (ox_history env) rec h = Some h1" "hd (ch_GetAll (fst h1)) = rec" using ch_Push_newest [OF ch] by blast
  have "\<exists>evs. run_action env req a orc h = Some ((rec, evs), h1)"
    unfolding run_action_def Let_def c e(1) option.case prod.case rec_def [symmetric] h1(1) by blast
  then obtain evs where run: "run_action env req a orc h = Some ((rec, evs), h1)" by blast
  have "cr_ID rec = action_id env" "cr_NodeResults rec = results"
    "cr_Status rec = (if \<exists>nn \<in> set (target_nodes req a). failing env orc req a nn then ''failed'' else ''success'')"
    by (simp_all add: rec_def)
  with run h1(2) e(2) keys show ?thesis by (intro exI [of _ rec] exI [of _ evs] exI [of _ h1]) simp
qed

text \<open>
C34. An action that begins ends with a record of every node it was run on: exactly the named nodes of the cluster
have a result, the status is failed if and only if some call failed or ended with a code other than zero, its
place is the newest of the history, and the locks are as they were before. Nothing on the way panics.
\<close>

theorem execute_reports_every_target:
  assumes "ch_ok (fst h)" "fst (begin_action env req a orc) = None"
  shows "\<exists>rec evs orc1 h1. Execute env req a (orc, h) = Some (Inr (rec, evs), orc1, h1)
    \<and> (\<forall>n. mget (cr_NodeResults rec) n \<noteq> None \<longleftrightarrow> n \<in> set (rq_TargetNodeIDs req) \<and> mget (as_nodes a) n \<noteq> None)
    \<and> cr_Status rec = (if \<exists>nn \<in> set (target_nodes req a). failing env orc req a nn then ''failed'' else ''success'')
    \<and> hd (ch_GetAll (fst h1)) = rec
    \<and> (\<forall>n. mget (or_activeNodes orc1) n = mget (or_activeNodes orc) n)"
proof -
  obtain m where b: "begin_action env req a orc = (None, orc\<lparr>or_activeNodes := m\<rparr>)"
    and acq: "acquire (action_id env) [] (rq_TargetNodeIDs req) (or_activeNodes orc) = (None, m)"
    using assms(2) by (auto simp: begin_action_def split: if_splits prod.splits)
  let ?o = "orc\<lparr>or_activeNodes := m\<rparr>"
  have fail: "failing env ?o req a = failing env orc req a" by (rule ext) (simp add: failing_def)
  have "mget (or_activeNodes (end_action req ?o)) n = mget (or_activeNodes orc) n" for n
    using acquire_taken [OF acq] by (simp add: end_action_def)
  with run_action_returns [OF assms(1), of env req a ?o] show ?thesis
    by (fastforce simp: Execute_def b fail)
qed

section \<open>Concrete actions\<close>

definition demo_request_of :: "string list \<Rightarrow> action_request" where
  "demo_request_of ns =
     \<lparr>rq_ActionType = ActionRestart, rq_TargetNodeIDs = ns, rq_CustomCommand = [], rq_RepoPath = [], rq_GitBranch = [], rq_MakeTarget = [],
      rq_TargetService = [], rq_AptMode = [], rq_TimeoutSeconds = 0, rq_SSHPort = 0, rq_LogLines = 0, rq_LogPath = [],
      rq_RestartMode = ''binary'', rq_LogMode = [], rq_RestartParams = [], rq_SSHUser = [], rq_SSHKeyPath = []\<rparr>"

definition demo_action_env :: action_env where
  "demo_action_env =
     \<lparr>ox_uuid = ''0123456789'', ox_now = 7, ox_DurationMs = 1,
      ox_ssh = (\<lambda>n call. \<lparr>sp_Chunks = [], sp_ExitCode = 1, sp_Err = None, sp_TimedOut = False, sp_DurationMs = 1\<rparr>),
      ox_history = \<lparr>fe_err = (\<lambda>_. False), fe_tmp = [], fe_dec = (\<lambda>_. None)\<rparr>\<rparr>"

definition demo_table :: admin_server where
  "demo_table = demo_console\<lparr>as_nodes := [(''0'', new_node ''0'')]\<rparr>"

definition demo_orchestrator :: orchestrator where
  "demo_orchestrator = NewOrchestrator [] [] [] []"

definition demo_history :: command_history where
  "demo_history = \<lparr>ch_data = [zero_record], ch_capacity = 1, ch_head = 0, ch_count = 0, ch_filePath = []\<rparr>"

theorem restart_passes_the_id_whole_witness:
  "\<exists>cmd. FormatCommand demo_orchestrator (demo_request_of [])
       (Some \<lparr>rp_FsID = [quote, CHR '';''], rp_Address = [], rp_Host = [], rp_Port = 1, rp_SSHPort = 22, rp_SSHUser = [], rp_MetaAddr = [], rp_OwnIP = [], rp_DataDir = []\<rparr>) = Some cmd
    \<and> (\<exists>pre args r. cmd = pre @ ''/bin/fileserver '' @ args \<and> sh_word args = Some (''-id='' @ [quote, CHR '';''], '' -port='' @ r))"
  using restart_passes_the_id_whole [of "demo_request_of []" demo_orchestrator
      "\<lparr>rp_FsID = [quote, CHR '';''], rp_Address = [], rp_Host = [], rp_Port = 1, rp_SSHPort = 22, rp_SSHUser = [], rp_MetaAddr = [], rp_OwnIP = [], rp_DataDir = []\<rparr>"]
  unfolding demo_request_of_def node_restart_params.simps action_request.simps by blast

lemma demo_begins: "fst (begin_action demo_action_env (demo_request_of [''0'']) demo_table demo_orchestrator) = None"
  by (simp add: begin_action_def demo_request_of_def target_nodes_def demo_table_def demo_orchestrator_def NewOrchestrator_def)

theorem one_action_per_node_witness:
  "\<exists>orc. action_step (demo_orchestrator, []) (Begin demo_action_env (demo_request_of [''0'']) demo_table) (orc, [demo_request_of [''0'']])
     \<and> mget (or_activeNodes orc) ''0'' \<noteq> None
     \<and> fst (begin_action demo_action_env (demo_request_of [''0'']) demo_table orc) \<noteq> None"
proof -
  obtain orc where b: "begin_action demo_action_env (demo_request_of [''0'']) demo_table demo_orchestrator = (None, orc)"
    using demo_begins by (metis prod.collapse)
  then have step: "action_step (demo_orchestrator, []) (Begin demo_action_env (demo_request_of [''0'']) demo_table) (orc, [demo_request_of [''0'']])"
    by (rule started)
  have run: "reaches action_step (demo_orchestrator, []) (orc, [demo_request_of [''0'']])"
    using reaches_refl step by (rule reaches_step)
  have ids: "rq_TargetNodeIDs (demo_request_of [''0'']) = [''0'']" by (simp add: demo_request_of_def)
  have "or_activeNodes demo_orchestrator = []" by (simp add: demo_orchestrator_def NewOrchestrator_def)
  note facts = one_action_per_node [OF run this, of demo_action_env "demo_request_of [''0'']" demo_table]
  have locked: "mget (or_activeNodes orc) ''0'' \<noteq> None"
    using facts [THEN conjunct2, THEN conjunct1, THEN spec, of "''0''"] ids by simp
  have busy: "fst (begin_action demo_action_env (demo_request_of [''0'']) demo_table orc) \<noteq> None"
    using facts [THEN conjunct2, THEN conjunct2] ids by (simp del: not_None_eq)
  show ?thesis using step locked busy by blast
qed

theorem execute_reports_every_target_witness:
  "\<exists>rec evs orc1 h1. Execute demo_action_env (demo_request_of [''0'']) demo_table (demo_orchestrator, (demo_history, [])) = Some (Inr (rec, evs), orc1, h1)
     \<and> mget (cr_NodeResults rec) ''0'' \<noteq> None \<and> mget (or_activeNodes orc1) ''0'' = None"
proof -
  have "ch_ok (fst (demo_history, [] :: history_disk))" by (simp add: demo_history_def ch_ok_def ring_ok_def)
  moreover have "''0'' \<in> set (rq_TargetNodeIDs (demo_request_of [''0'']))" "mget (as_nodes demo_table) ''0'' \<noteq> None"
    "mget (or_activeNodes demo_orchestrator) ''0'' = None"
    by (simp_all add: demo_request_of_def demo_table_def demo_orchestrator_def NewOrchestrator_def)
  ultimately show ?thesis
    using execute_reports_every_target [OF _ demo_begins, of "(demo_history, [])"] by (metis (no_types, lifting))
qed

end
