(* ===== verification/Client.thy ===== *)
theory Client
  imports File_Handlers
begin

text \<open>
  The client (\<^verbatim>\<open>internal/client/client.go\<close>): what it remembers of its session, and the calls it makes to a
  fileserver. The connection is a record of calls, one field per method of the generated gRPC stub, on a
  state of the far side that the client cannot see; a call that fails on the wire and a call the server
  refuses both give \<open>None\<close>, as the client treats them alike. The local disk is part of the state.

  A method ends with a value, with an error, with a run-time panic (a nil pointer), or, for the two walks
  over directories, does not end.
\<close>

section \<open>Results\<close>

datatype client_error =
    Remote | NotConnected | NilRootFID | InvalidFID | NotThere string | TrashDenied | LocalFault | NameRequired
  | ReturnToMetaserver | TrashEntriesLeft "string list" | CallbackServerFailed | DialFailed

datatype 'a cres = Done 'a | Failed client_error | Crash | Endless

definition andThen :: "'a cres \<times> 's \<Rightarrow> ('a \<Rightarrow> 's \<Rightarrow> 'b cres \<times> 's) \<Rightarrow> 'b cres \<times> 's" where
  "andThen m k =
     (case m of
        (Done x, c) \<Rightarrow> k x c
      | (Failed e, c) \<Rightarrow> (Failed e, c)
      | (Crash, c) \<Rightarrow> (Crash, c)
      | (Endless, c) \<Rightarrow> (Endless, c))"

fun each :: "('a \<Rightarrow> 's \<Rightarrow> 'b cres \<times> 's) \<Rightarrow> 'a list \<Rightarrow> 's \<Rightarrow> unit cres \<times> 's" where
  "each f [] c = (Done (), c)"
| "each f (x # xs) c = andThen (f x c) (\<lambda>_ c1. each f xs c1)"

section \<open>State\<close>

record file_info =
  fi_FID :: "fid option"
  fi_Name :: string
  fi_Type :: inode_type
  fi_Size :: u64

text \<open>A node of the cache. A node is known by its address; \<open>cn_children = None\<close> is a nil map.\<close>

record cnode =
  cn_Name :: string
  cn_Type :: inode_type
  cn_fid :: "fid option"
  cn_Size :: u64
  cn_children :: "(string, nat) gomap option"
  cn_contentCached :: bool
  cn_contentUID :: string
  cn_parent :: "nat option"

record cache_handler =
  ca_nodes :: "cnode list"
  ca_root :: nat
  ca_curr :: nat

text \<open>Documents do not occur on the local disk: its files are bytes.\<close>

type_synonym local_disk = "unit disk_of"

abbreviation no_json :: "unit \<Rightarrow> byte list" where "no_json \<equiv> \<lambda>_. []"

record 'w client =
  c_username :: string
  c_authToken :: string
  c_sessionToken :: string
  c_root_user :: string
  c_root_path :: string
  c_display_name :: string
  c_clientID :: string
  c_callbackAddr :: string
  c_rootFID :: "fid option"
  c_currentFID :: "fid option"
  c_connected :: bool            \<comment> \<open>\<^verbatim>\<open>serverConn != nil\<close>\<close>
  c_callbackRunning :: bool      \<comment> \<open>\<^verbatim>\<open>stopCallback != nil\<close>\<close>
  c_cacheHandler :: bool         \<comment> \<open>the cache below is attached to the client\<close>
  c_cache :: cache_handler
  c_disk :: local_disk
  c_notes :: "string list"       \<comment> \<open>what \<^verbatim>\<open>Notify\<close> printed\<close>
  c_server :: 'w

text \<open>One field per remote method; \<open>rpc_DownloadFile\<close> gives the messages of the stream and whether it ended properly.\<close>

record 'w file_rpcs =
  rpc_RegisterClient :: "string \<Rightarrow> string \<Rightarrow> string \<Rightarrow> string \<Rightarrow> string \<Rightarrow> 'w \<Rightarrow> (fid option \<times> string) option \<times> 'w"
  rpc_UnregisterClient :: "string \<Rightarrow> string \<Rightarrow> 'w \<Rightarrow> unit option \<times> 'w"
  rpc_Share :: "string \<Rightarrow> fid \<Rightarrow> string \<Rightarrow> 'w \<Rightarrow> unit option \<times> 'w"
  rpc_Unshare :: "string \<Rightarrow> fid \<Rightarrow> string \<Rightarrow> 'w \<Rightarrow> unit option \<times> 'w"
  rpc_Path :: "fid \<Rightarrow> string \<Rightarrow> string \<Rightarrow> 'w \<Rightarrow> string option \<times> 'w"
  rpc_ChangeDir :: "fid \<Rightarrow> fid \<Rightarrow> string \<Rightarrow> 'w \<Rightarrow> fid option option \<times> 'w"
  rpc_ListDir :: "fid \<Rightarrow> 'w \<Rightarrow> file_info list option \<times> 'w"
  rpc_GetAttr :: "fid \<Rightarrow> 'w \<Rightarrow> (string \<times> inode_type \<times> u64) option \<times> 'w"
  rpc_CreateFile :: "string \<Rightarrow> string \<Rightarrow> fid \<Rightarrow> inode_type \<Rightarrow> u64 \<Rightarrow> 'w \<Rightarrow> fid option option \<times> 'w"
  rpc_UploadFile :: "upload_chunk list \<Rightarrow> bool \<Rightarrow> 'w \<Rightarrow> unit option \<times> 'w"
  rpc_DownloadFile :: "fid \<Rightarrow> string \<Rightarrow> 'w \<Rightarrow> ((u64 \<times> byte list) list \<times> bool) \<times> 'w"
  rpc_ReadFile :: "fid \<Rightarrow> string \<Rightarrow> u64 \<Rightarrow> u64 \<Rightarrow> 'w \<Rightarrow> byte list option \<times> 'w"
  rpc_WriteFile :: "fid \<Rightarrow> string \<Rightarrow> byte list \<Rightarrow> u64 \<Rightarrow> 'w \<Rightarrow> unit option \<times> 'w"
  rpc_DeleteFile :: "fid \<Rightarrow> string \<Rightarrow> bool \<Rightarrow> 'w \<Rightarrow> unit option \<times> 'w"
  rpc_TrashFile :: "fid \<Rightarrow> string \<Rightarrow> bool \<Rightarrow> 'w \<Rightarrow> string option \<times> 'w"
  rpc_RestoreFile :: "fid \<Rightarrow> string \<Rightarrow> string \<Rightarrow> 'w \<Rightarrow> string option \<times> 'w"
  rpc_ShowTrash :: "string \<Rightarrow> string \<Rightarrow> 'w \<Rightarrow> file_info list option \<times> 'w"

text \<open>What the machine of the client supplies: failing system calls, the bytes a failing write leaves, a fresh identifier.\<close>

record client_env =
  ce_err :: oserr
  ce_short :: nat
  ce_uid :: string
  ce_dirsize :: u64              \<comment> \<open>the size \<^verbatim>\<open>os.Stat\<close> gives for a directory\<close>

definition rpc :: "('w \<Rightarrow> 'a option \<times> 'w) \<Rightarrow> 'w client \<Rightarrow> 'a cres \<times> 'w client" where
  "rpc call c =
     (if \<not> c_connected c then (Crash, c)
      else (case call (c_server c) of
              (None, w) \<Rightarrow> (Failed Remote, c\<lparr>c_server := w\<rparr>)
            | (Some x, w) \<Rightarrow> (Done x, c\<lparr>c_server := w\<rparr>)))"

text \<open>\<^verbatim>\<open>fid.ToProto()\<close> of a pointer that may be nil.\<close>

definition proto :: "fid option \<Rightarrow> 'w client \<Rightarrow> fid cres \<times> 'w client" where
  "proto fo c = (case fo of None \<Rightarrow> (Crash, c) | Some f \<Rightarrow> (Done f, c))"

section \<open>Sessions\<close>

definition clientChunkSize :: nat where "clientChunkSize = 1024 * 1024 * 4"

definition DownloadDir :: string where "DownloadDir = ''./Download''"

definition CacheDir :: string where "CacheDir = ''./.cache''"

definition trashDirName :: string where "trashDirName = ''.trash''"

definition pathContainsTrashSegment :: "string \<Rightarrow> bool" where
  "pathContainsTrashSegment path \<longleftrightarrow> list_ex (\<lambda>part. part = trashDirName) (Split (ReplaceByte path backslash slash))"

definition NewClient :: "string \<Rightarrow> nat \<Rightarrow> string \<Rightarrow> local_disk \<Rightarrow> 'w \<Rightarrow> 'w client" where
  "NewClient username nanos authToken d w =
     \<lparr>c_username = username, c_authToken = authToken, c_sessionToken = [], c_root_user = [], c_root_path = [],
      c_display_name = [], c_clientID = username @ ''-'' @ dec nanos, c_callbackAddr = [], c_rootFID = None,
      c_currentFID = None, c_connected = False, c_callbackRunning = False, c_cacheHandler = False,
      c_cache = \<lparr>ca_nodes = [], ca_root = 0, ca_curr = 0\<rparr>, c_disk = d, c_notes = [], c_server = w\<rparr>"

definition AttachCacheHandler :: "'w client \<Rightarrow> 'w client" where
  "AttachCacheHandler c = c\<lparr>c_cacheHandler := True\<rparr>"

definition Notify :: "string \<Rightarrow> 'w client \<Rightarrow> 'w client" where
  "Notify msg c = c\<lparr>c_notes := c_notes c @ [msg]\<rparr>"

definition SetRootUser :: "string \<Rightarrow> 'w client \<Rightarrow> 'w client" where
  "SetRootUser u c = c\<lparr>c_root_user := u\<rparr>"

definition SetRootPath :: "string \<Rightarrow> string \<Rightarrow> 'w client \<Rightarrow> 'w client" where
  "SetRootPath displayName path c =
     c\<lparr>c_root_path := ReplaceByte path backslash slash, c_display_name := displayName\<rparr>"

text \<open>The token the interceptors of \<^verbatim>\<open>Connect\<close> put on a call.\<close>

definition outgoing_token :: "bool \<Rightarrow> 'w client \<Rightarrow> string" where
  "outgoing_token registering c =
     (if c_sessionToken c = [] \<or> registering then c_authToken c else c_sessionToken c)"

text \<open>
  \<open>listener\<close> is the address of a callback listener that could be started, \<open>dialled\<close> whether the
  connection (with its certificates) could be set up.
\<close>

definition register_call :: "'w file_rpcs \<Rightarrow> 'w client \<Rightarrow> (fid option \<times> string) cres \<times> 'w client" where
  "register_call ops c =
     rpc (rpc_RegisterClient ops (c_clientID c) (c_callbackAddr c) (c_username c) (c_root_user c) (c_root_path c)) c"

definition Connect :: "string option \<Rightarrow> bool \<Rightarrow> 'w file_rpcs \<Rightarrow> 'w client \<Rightarrow> fid option cres \<times> 'w client" where
  "Connect listener dialled ops c =
     (case (if c_callbackRunning c then Some c
            else map_option (\<lambda>a. c\<lparr>c_callbackAddr := a, c_callbackRunning := True\<rparr>) listener) of
        None \<Rightarrow> (Failed CallbackServerFailed, c)
      | Some c1 \<Rightarrow>
          if \<not> dialled then (Failed DialFailed, c1)
          else
            andThen (register_call ops (c1\<lparr>c_connected := True\<rparr>))
              (\<lambda>(root, token) c2.
                 let c3 = (if token \<noteq> [] then c2\<lparr>c_sessionToken := token\<rparr> else c2)\<lparr>c_rootFID := root, c_currentFID := root\<rparr>
                 in (Done (c_currentFID c3), c3)))"

definition client_ChangeDirectory :: "'w file_rpcs \<Rightarrow> string \<Rightarrow> 'w client \<Rightarrow> fid cres \<times> 'w client" where
  "client_ChangeDirectory ops path c =
     andThen (proto (c_currentFID c) c) (\<lambda>f c. andThen (proto (c_rootFID c) c) (\<lambda>r c.
     andThen (rpc (rpc_ChangeDir ops f r path) c) (\<lambda>new c.
     let c1 = c\<lparr>c_currentFID := new\<rparr> in (case new of None \<Rightarrow> (Crash, c1) | Some g \<Rightarrow> (Done g, c1)))))"

definition set_root_fid :: "fid option \<Rightarrow> 'w client \<Rightarrow> 'w client" where
  "set_root_fid fo c =
     (let ca = c_cache c; r = ca_root ca
      in c\<lparr>c_cache := ca\<lparr>ca_nodes := (ca_nodes ca)[r := (ca_nodes ca ! r)\<lparr>cn_fid := fo\<rparr>]\<rparr>\<rparr>)"

text \<open>The new root and session token, and the server told where the client is.\<close>

definition adopt_root :: "fid \<Rightarrow> string \<Rightarrow> 'w client \<Rightarrow> 'w client" where
  "adopt_root newRootFID token c =
     (let c1 = (if token \<noteq> [] then c\<lparr>c_sessionToken := token\<rparr> else c)\<lparr>c_rootFID := Some newRootFID\<rparr>
      in if c_cacheHandler c1 then set_root_fid (Some newRootFID) c1 else c1)"

definition sync_directory :: "'w file_rpcs \<Rightarrow> fid \<Rightarrow> 'w client \<Rightarrow> unit cres \<times> 'w client" where
  "sync_directory ops newRootFID c =
     (case c_currentFID c of
        None \<Rightarrow> (Done (), c)
      | Some cur \<Rightarrow>
          if FID_String cur \<noteq> FID_String newRootFID then
            (case client_ChangeDirectory ops ''.'' c of
               (Crash, c1) \<Rightarrow> (Crash, c1)
             | (_, c1) \<Rightarrow> (Done (), c1))
          else (Done (), c))"

definition ReRegister :: "'w file_rpcs \<Rightarrow> 'w client \<Rightarrow> unit cres \<times> 'w client" where
  "ReRegister ops c =
     (if \<not> c_connected c then (Failed NotConnected, c)
      else
        andThen (register_call ops c)
          (\<lambda>(root, token) c1.
             case root of
               None \<Rightarrow> (Failed NilRootFID, c1)
             | Some newRootFID \<Rightarrow> sync_directory ops newRootFID (adopt_root newRootFID token c1)))"

text \<open>A panic in the unregistering call is recovered; the connection is given up either way.\<close>

definition Disconnect :: "'w file_rpcs \<Rightarrow> 'w client \<Rightarrow> 'w client" where
  "Disconnect ops c =
     (let c1 = c\<lparr>c_sessionToken := []\<rparr>;
          c2 = (if c_connected c1 \<and> c_username c1 \<noteq> []
                then (snd (rpc (rpc_UnregisterClient ops (c_clientID c1) (c_username c1)) c1))\<lparr>c_connected := False\<rparr>
                else c1)
      in c2\<lparr>c_callbackRunning := False\<rparr>)"


section \<open>Directories and attributes\<close>

text \<open>A call about the current directory.\<close>

definition at_current :: "(fid \<Rightarrow> 'w \<Rightarrow> 'a option \<times> 'w) \<Rightarrow> 'w client \<Rightarrow> 'a cres \<times> 'w client" where
  "at_current call c = andThen (proto (c_currentFID c) c) (\<lambda>f c. rpc (call f) c)"

definition client_Share :: "'w file_rpcs \<Rightarrow> string \<Rightarrow> 'w client \<Rightarrow> unit cres \<times> 'w client" where
  "client_Share ops shareWith c = at_current (\<lambda>f. rpc_Share ops (c_username c) f shareWith) c"

definition client_Unshare :: "'w file_rpcs \<Rightarrow> string \<Rightarrow> 'w client \<Rightarrow> unit cres \<times> 'w client" where
  "client_Unshare ops unshareWith c = at_current (\<lambda>f. rpc_Unshare ops (c_username c) f unshareWith) c"

definition client_Path :: "'w file_rpcs \<Rightarrow> 'w client \<Rightarrow> string cres \<times> 'w client" where
  "client_Path ops c = at_current (\<lambda>f. rpc_Path ops f (c_display_name c) (c_username c)) c"

definition ChangeCurrentFID :: "fid option \<Rightarrow> 'w client \<Rightarrow> 'w client" where
  "ChangeCurrentFID fo c = c\<lparr>c_currentFID := fo\<rparr>"

definition ListFilesAt :: "'w file_rpcs \<Rightarrow> fid option \<Rightarrow> 'w client \<Rightarrow> file_info list cres \<times> 'w client" where
  "ListFilesAt ops dirFID c =
     (case dirFID of None \<Rightarrow> (Failed InvalidFID, c) | Some f \<Rightarrow> rpc (rpc_ListDir ops f) c)"

definition client_ListFiles :: "'w file_rpcs \<Rightarrow> 'w client \<Rightarrow> file_info list cres \<times> 'w client" where
  "client_ListFiles ops c = ListFilesAt ops (c_currentFID c) c"

definition client_GetFileInfo :: "'w file_rpcs \<Rightarrow> 'w client \<Rightarrow> file_info cres \<times> 'w client" where
  "client_GetFileInfo ops c =
     andThen (at_current (rpc_GetAttr ops) c)
       (\<lambda>(name, ty, sz) c1. (Done \<lparr>fi_FID = c_currentFID c1, fi_Name = name, fi_Type = ty, fi_Size = sz\<rparr>, c1))"

definition client_Create :: "inode_type \<Rightarrow> 'w file_rpcs \<Rightarrow> string \<Rightarrow> 'w client \<Rightarrow> file_info cres \<times> 'w client" where
  "client_Create ty ops name c =
     andThen (at_current (\<lambda>f. rpc_CreateFile ops name (c_root_user c) f ty 0) c)
       (\<lambda>new c1. (Done \<lparr>fi_FID = new, fi_Name = name, fi_Type = ty, fi_Size = 0\<rparr>, c1))"

definition client_CreateFile :: "'w file_rpcs \<Rightarrow> string \<Rightarrow> 'w client \<Rightarrow> file_info cres \<times> 'w client" where
  "client_CreateFile = client_Create InodeTypeFile"

definition client_CreateDirectory :: "'w file_rpcs \<Rightarrow> string \<Rightarrow> 'w client \<Rightarrow> file_info cres \<times> 'w client" where
  "client_CreateDirectory = client_Create InodeTypeDirectory"

section \<open>Uploads\<close>

text \<open>What successive reads with a buffer of \<open>cs\<close> bytes return, with the offsets the client counts.\<close>

fun read_chunks :: "nat \<Rightarrow> u64 \<Rightarrow> byte list \<Rightarrow> (u64 \<times> byte list) list" where
  "read_chunks cs off bs =
     (if bs = [] \<or> cs = 0 then []
      else (off, take cs bs) # read_chunks cs (off + word_of_nat (length (take cs bs))) (drop cs bs))"

declare read_chunks.simps [simp del]

definition upload_request :: "string \<Rightarrow> string \<Rightarrow> fid \<Rightarrow> u64 \<times> byte list \<Rightarrow> upload_chunk" where
  "upload_request name user parent ch =
     \<lparr>up_ParentFid = Some parent, up_Name = name, up_User = user, up_Offset = fst ch, up_Chunk = snd ch\<rparr>"

definition uploadFileInternal ::
  "client_env \<Rightarrow> 'w file_rpcs \<Rightarrow> string \<Rightarrow> fid option \<Rightarrow> 'w client \<Rightarrow> fid option cres \<times> 'w client" where
  "uploadFileInternal env ops path parentFID c =
     (case os_Open (ce_err env) no_json (Clean path) (c_disk c) of
        None \<Rightarrow> (Failed LocalFault, c)
      | Some bs \<Rightarrow>
          if ce_err env (CStat (Clean path)) then (Failed LocalFault, c)
          else
            andThen (proto parentFID c) (\<lambda>parent c.
            andThen (rpc (rpc_CreateFile ops (Base path) (c_root_user c) parent InodeTypeFile (word_of_nat (length bs))) c) (\<lambda>new c.
            if ce_err env (CReadAt (Clean path))
            then andThen (rpc (rpc_UploadFile ops [] False) c) (\<lambda>_ c. (Failed LocalFault, c))
            else andThen (rpc (rpc_UploadFile ops (map (upload_request (Base path) (c_username c) parent) (read_chunks clientChunkSize 0 bs)) True) c)
                   (\<lambda>_ c. (Done new, c)))))"

primrec uploadRecursive ::
  "nat \<Rightarrow> client_env \<Rightarrow> 'w file_rpcs \<Rightarrow> string \<Rightarrow> fid option \<Rightarrow> 'w client \<Rightarrow> fid option cres \<times> 'w client" where
  "uploadRecursive 0 env ops localPath parentFID c = (Endless, c)"
| "uploadRecursive (Suc k) env ops localPath parentFID c =
     andThen (proto parentFID c) (\<lambda>parent c.
     andThen (rpc (rpc_CreateFile ops (Base localPath) (c_root_user c) parent InodeTypeDirectory 0) c) (\<lambda>dirFID c.
     case os_ReadDir (ce_err env) (Clean localPath) (c_disk c) of
       None \<Rightarrow> (Failed LocalFault, c)
     | Some entries \<Rightarrow>
         andThen (each (\<lambda>(name, n).
                     if n = DDir then uploadRecursive k env ops (Join [localPath, name]) dirFID
                     else uploadFileInternal env ops (Join [localPath, name]) dirFID) entries c)
           (\<lambda>_ c. (Done dirFID, c))))"

text \<open>\<^verbatim>\<open>os.Stat\<close> of a local path: whether it is a directory, and its size as a file.\<close>

definition local_stat :: "client_env \<Rightarrow> string \<Rightarrow> local_disk \<Rightarrow> (bool \<times> u64) option" where
  "local_stat env path d =
     (if ce_err env (CStat (Clean path)) then None
      else (case mget d (Clean path) of
              None \<Rightarrow> None
            | Some DDir \<Rightarrow> Some (True, ce_dirsize env)
            | Some (DFile ct) \<Rightarrow> Some (False, word_of_nat (length (content_bytes no_json ct)))))"

text \<open>A directory on the disk is at most as deep as the disk has entries, which bounds the walk.\<close>

definition client_Upload :: "client_env \<Rightarrow> 'w file_rpcs \<Rightarrow> string \<Rightarrow> 'w client \<Rightarrow> fid option cres \<times> 'w client" where
  "client_Upload env ops localPath c =
     (case local_stat env localPath (c_disk c) of
        None \<Rightarrow> (Failed LocalFault, c)
      | Some (isDir, _) \<Rightarrow>
          if \<not> isDir then uploadFileInternal env ops localPath (c_currentFID c) c
          else uploadRecursive (Suc (length (c_disk c))) env ops localPath (c_currentFID c) c)"

section \<open>Downloads\<close>

definition GetFIDForPath :: "'w file_rpcs \<Rightarrow> string \<Rightarrow> 'w client \<Rightarrow> fid option cres \<times> 'w client" where
  "GetFIDForPath ops path c =
     (if pathContainsTrashSegment path then (Failed TrashDenied, c)
      else
        andThen (proto (c_currentFID c) c) (\<lambda>f c. andThen (proto (c_rootFID c) c) (\<lambda>r c.
        rpc (rpc_ChangeDir ops f r path) c)))"

text \<open>The loop over the messages of a download: each is written at its offset; it ends with the stream.\<close>

fun write_chunks :: "client_env \<Rightarrow> string \<Rightarrow> (u64 \<times> byte list) list \<Rightarrow> local_disk \<Rightarrow> bool \<times> local_disk" where
  "write_chunks env path [] d = (True, d)"
| "write_chunks env path ((off, ch) # chs) d =
     (case os_WriteAt (ce_err env) no_json (ce_short env) path ch (sint off) d of
        (False, d1) \<Rightarrow> (False, d1)
      | (True, d1) \<Rightarrow> write_chunks env path chs d1)"

definition downloadFileInternalAs ::
  "client_env \<Rightarrow> 'w file_rpcs \<Rightarrow> fid option \<Rightarrow> string \<Rightarrow> string \<Rightarrow> string \<Rightarrow> 'w client \<Rightarrow> unit cres \<times> 'w client" where
  "downloadFileInternalAs env ops parentFID name localDir saveAs c =
     andThen (proto parentFID c) (\<lambda>parent c.
     andThen (rpc (\<lambda>w. case rpc_DownloadFile ops parent name w of (r, w1) \<Rightarrow> (Some r, w1)) c) (\<lambda>(chunks, ended) c.
     let osPath = Join [localDir, saveAs] in
     case os_MkdirAll (ce_err env) (Clean localDir) (c_disk c) of
       (False, d1) \<Rightarrow> (Failed LocalFault, c\<lparr>c_disk := d1\<rparr>)
     | (True, d1) \<Rightarrow>
         (case os_Create (ce_err env) osPath d1 of
            (False, d2) \<Rightarrow> (Failed LocalFault, c\<lparr>c_disk := d2\<rparr>)
          | (True, d2) \<Rightarrow>
              (case write_chunks env osPath chunks d2 of
                 (ok, d3) \<Rightarrow> (if \<not> ok then Failed LocalFault else if \<not> ended then Failed Remote else Done (), c\<lparr>c_disk := d3\<rparr>)))))"

text \<open>A walk over a directory of the server; the listing decides how deep it goes, so the depth is a parameter.\<close>

primrec downloadRecursive ::
  "nat \<Rightarrow> client_env \<Rightarrow> 'w file_rpcs \<Rightarrow> fid option \<Rightarrow> file_info \<Rightarrow> string \<Rightarrow> 'w client \<Rightarrow> unit cres \<times> 'w client" where
  "downloadRecursive 0 env ops parentFID entry localParentDir c = (Endless, c)"
| "downloadRecursive (Suc k) env ops parentFID entry localParentDir c =
     (if fi_Type entry = InodeTypeFile
      then downloadFileInternalAs env ops parentFID (fi_Name entry) localParentDir (fi_Name entry) c
      else
        (let localDirPath = Join [localParentDir, fi_Name entry] in
         case os_MkdirAll (ce_err env) localDirPath (c_disk c) of
           (False, d1) \<Rightarrow> (Failed LocalFault, c\<lparr>c_disk := d1\<rparr>)
         | (True, d1) \<Rightarrow>
             andThen (proto (fi_FID entry) (c\<lparr>c_disk := d1\<rparr>)) (\<lambda>f c.
             andThen (rpc (rpc_ListDir ops f) c) (\<lambda>entries c.
             each (\<lambda>child. downloadRecursive k env ops (fi_FID entry) child localDirPath) entries c))))"

definition client_Download :: "nat \<Rightarrow> client_env \<Rightarrow> 'w file_rpcs \<Rightarrow> string \<Rightarrow> 'w client \<Rightarrow> unit cres \<times> 'w client" where
  "client_Download depth env ops path c =
     (if pathContainsTrashSegment path then (Failed TrashDenied, c)
      else
        (let dirPath = dir_of path; baseName = Base path in
         andThen (if dirPath \<noteq> ''.'' \<and> dirPath \<noteq> ''/'' \<and> dirPath \<noteq> [backslash] then GetFIDForPath ops dirPath c
                  else if dirPath = ''/'' \<or> dirPath = [backslash] then (Done (c_rootFID c), c)
                  else (Done (c_currentFID c), c)) (\<lambda>parentFID c.
         andThen (proto parentFID c) (\<lambda>parent c.
         andThen (rpc (rpc_ListDir ops parent) c) (\<lambda>entries c.
         case find (\<lambda>e. fi_Name e = baseName) entries of
           None \<Rightarrow> (Failed (NotThere path), c)
         | Some target \<Rightarrow> downloadRecursive depth env ops parentFID target DownloadDir c)))))"

definition client_DownloadFile :: "nat \<Rightarrow> client_env \<Rightarrow> 'w file_rpcs \<Rightarrow> string \<Rightarrow> 'w client \<Rightarrow> unit cres \<times> 'w client" where
  "client_DownloadFile = client_Download"

definition client_ReadFile :: "'w file_rpcs \<Rightarrow> string \<Rightarrow> 'w client \<Rightarrow> byte list cres \<times> 'w client" where
  "client_ReadFile ops name c = at_current (\<lambda>f. rpc_ReadFile ops f name 0 0) c"

definition client_WriteFile :: "'w file_rpcs \<Rightarrow> string \<Rightarrow> byte list \<Rightarrow> 'w client \<Rightarrow> unit cres \<times> 'w client" where
  "client_WriteFile ops name dt c = at_current (\<lambda>f. rpc_WriteFile ops f name dt 0) c"

section \<open>Deletion and trash\<close>

text \<open>Looking a name up in a listing: an entry without a FID counts as not found.\<close>

definition listed_fid :: "string \<Rightarrow> file_info list \<Rightarrow> fid option" where
  "listed_fid name files = (case find (\<lambda>f. fi_Name f = name) files of None \<Rightarrow> None | Some f \<Rightarrow> fi_FID f)"

definition on_listed ::
  "string \<Rightarrow> (fid \<Rightarrow> 'w \<Rightarrow> 'a option \<times> 'w) \<Rightarrow> file_info list cres \<times> 'w client \<Rightarrow> 'a cres \<times> 'w client" where
  "on_listed name call listing =
     andThen listing (\<lambda>files c.
       case listed_fid name files of
         None \<Rightarrow> (Failed (NotThere name), c)
       | Some f \<Rightarrow> rpc (call f) c)"

definition client_DeleteFile :: "'w file_rpcs \<Rightarrow> string \<Rightarrow> bool \<Rightarrow> 'w client \<Rightarrow> unit cres \<times> 'w client" where
  "client_DeleteFile ops name recursive c =
     on_listed name (\<lambda>f. rpc_DeleteFile ops f (c_root_user c) recursive) (client_ListFiles ops c)"

definition client_TrashFile :: "'w file_rpcs \<Rightarrow> string \<Rightarrow> bool \<Rightarrow> 'w client \<Rightarrow> string cres \<times> 'w client" where
  "client_TrashFile ops name recursive c =
     (if name = [] then (Failed NameRequired, c)
      else on_listed name (\<lambda>f. rpc_TrashFile ops f (c_root_user c) recursive) (client_ListFiles ops c))"

definition client_ShowTrash :: "'w file_rpcs \<Rightarrow> 'w client \<Rightarrow> file_info list cres \<times> 'w client" where
  "client_ShowTrash ops c = rpc (rpc_ShowTrash ops (c_root_user c) (c_username c)) c"

definition client_RestoreFile :: "'w file_rpcs \<Rightarrow> string \<Rightarrow> 'w client \<Rightarrow> string cres \<times> 'w client" where
  "client_RestoreFile ops name c =
     (if name = [] then (Failed NameRequired, c)
      else on_listed name (\<lambda>f. rpc_RestoreFile ops f (c_root_user c) (c_username c)) (client_ShowTrash ops c))"

definition client_DeleteFromTrash :: "'w file_rpcs \<Rightarrow> string \<Rightarrow> 'w client \<Rightarrow> unit cres \<times> 'w client" where
  "client_DeleteFromTrash ops name c =
     (if name = [] then (Failed NameRequired, c)
      else on_listed name (\<lambda>f. rpc_DeleteFile ops f (c_root_user c) True) (client_ShowTrash ops c))"

text \<open>The loop of \<^verbatim>\<open>ClearTrash\<close>: the names that could not be deleted, and how many were.\<close>

fun delete_entries :: "'w file_rpcs \<Rightarrow> file_info list \<Rightarrow> string list \<Rightarrow> nat \<Rightarrow> 'w client \<Rightarrow> (string list \<times> nat) cres \<times> 'w client" where
  "delete_entries ops [] failed deleted c = (Done (failed, deleted), c)"
| "delete_entries ops (e # es) failed deleted c =
     (case andThen (proto (fi_FID e) c) (\<lambda>f c. rpc (rpc_DeleteFile ops f (c_root_user c) True) c) of
        (Done _, c1) \<Rightarrow> delete_entries ops es failed (deleted + 1) c1
      | (Failed _, c1) \<Rightarrow> delete_entries ops es (failed @ [fi_Name e]) deleted c1
      | (Crash, c1) \<Rightarrow> (Crash, c1)
      | (Endless, c1) \<Rightarrow> (Endless, c1))"

definition client_ClearTrash :: "'w file_rpcs \<Rightarrow> 'w client \<Rightarrow> (nat \<times> client_error option) cres \<times> 'w client" where
  "client_ClearTrash ops c =
     (case client_ShowTrash ops c of
        (Failed e, c1) \<Rightarrow> (Done (0, Some e), c1)
      | (Done entries, c1) \<Rightarrow>
          andThen (delete_entries ops entries [] 0 c1)
            (\<lambda>(failed, deleted) c2. (Done (deleted, if failed = [] then None else Some (TrashEntriesLeft (sort failed))), c2))
      | (Crash, c1) \<Rightarrow> (Crash, c1)
      | (Endless, c1) \<Rightarrow> (Endless, c1))"

end
