(* ===== verification/Client_Cache.thy ===== *)
theory Client_Cache
  imports Client
begin

text \<open>
  The cache of the client (\<^verbatim>\<open>internal/client/cache_handler.go\<close>) and the callbacks that invalidate it
  (\<^verbatim>\<open>internal/client/callback_server.go\<close>). The nodes mirror the remote directories the user has seen; a node
  is an index into the list of nodes, so that parent and child pointers, and pointers to nodes that left
  the tree, are what they are in the program. The contents of files are kept on the local disk under
  fresh names. The walks over the tree take a bound on the depth; \<open>Endless\<close> and \<open>None\<close> stand for walks
  that exceed it, which the invariant excludes.
\<close>

section \<open>Nodes\<close>

definition nodes_of :: "'w client \<Rightarrow> cnode list" where
  "nodes_of c = ca_nodes (c_cache c)"

definition node_at :: "'w client \<Rightarrow> nat \<Rightarrow> cnode" where
  "node_at c a = nodes_of c ! a"

abbreviation curr_dir :: "'w client \<Rightarrow> nat" where "curr_dir c \<equiv> ca_curr (c_cache c)"

abbreviation root_dir :: "'w client \<Rightarrow> nat" where "root_dir c \<equiv> ca_root (c_cache c)"

definition set_nodes :: "cnode list \<Rightarrow> 'w client \<Rightarrow> 'w client" where
  "set_nodes ns c = c\<lparr>c_cache := (c_cache c)\<lparr>ca_nodes := ns\<rparr>\<rparr>"

definition upd_node :: "nat \<Rightarrow> (cnode \<Rightarrow> cnode) \<Rightarrow> 'w client \<Rightarrow> 'w client" where
  "upd_node a g c = set_nodes ((nodes_of c)[a := g (node_at c a)]) c"

definition set_curr :: "nat \<Rightarrow> 'w client \<Rightarrow> 'w client" where
  "set_curr a c = c\<lparr>c_cache := (c_cache c)\<lparr>ca_curr := a\<rparr>\<rparr>"

definition kids :: "cnode \<Rightarrow> (string, nat) gomap" where
  "kids n = (case cn_children n of None \<Rightarrow> [] | Some m \<Rightarrow> m)"

definition fresh_node :: "string \<Rightarrow> inode_type \<Rightarrow> fid option \<Rightarrow> u64 \<Rightarrow> (string, nat) gomap option \<Rightarrow> nat option \<Rightarrow> cnode" where
  "fresh_node name ty fo sz ch parent =
     \<lparr>cn_Name = name, cn_Type = ty, cn_fid = fo, cn_Size = sz, cn_children = ch, cn_contentCached = False,
      cn_contentUID = [], cn_parent = parent\<rparr>"

text \<open>\<^verbatim>\<open>c.curr.children[s] = &CNode{...}\<close>, which panics when the map is nil.\<close>

definition add_child :: "string \<Rightarrow> inode_type \<Rightarrow> fid option \<Rightarrow> u64 \<Rightarrow> (string, nat) gomap option \<Rightarrow> 'w client \<Rightarrow> unit cres \<times> 'w client" where
  "add_child name ty fo sz ch c =
     (let a = curr_dir c in
      case cn_children (node_at c a) of
        None \<Rightarrow> (Crash, c)
      | Some m \<Rightarrow>
          (Done (), set_nodes ((nodes_of c)[a := (node_at c a)\<lparr>cn_children := Some (mput name (length (nodes_of c)) m)\<rparr>]
                       @ [fresh_node name ty fo sz ch (Some a)]) c))"

definition drop_child :: "nat \<Rightarrow> string \<Rightarrow> 'w client \<Rightarrow> 'w client" where
  "drop_child a name c = upd_node a (\<lambda>n. n\<lparr>cn_children := map_option (mdel name) (cn_children n)\<rparr>) c"

section \<open>Filling the cache\<close>

definition root_node :: "fid option \<Rightarrow> cnode" where
  "root_node fo = fresh_node ''mydrive'' InodeTypeDirectory fo 0 (Some []) None"

definition NewCacheHandler :: "'w file_rpcs \<Rightarrow> fid option \<Rightarrow> 'w client \<Rightarrow> unit cres \<times> 'w client" where
  "NewCacheHandler ops rootFID c =
     andThen (client_ListFiles ops c) (\<lambda>files c.
       let c1 = c\<lparr>c_cache := \<lparr>ca_nodes = [root_node rootFID], ca_root = 0, ca_curr = 0\<rparr>\<rparr>
       in each (\<lambda>f. add_child (fi_Name f) (fi_Type f) (fi_FID f) (fi_Size f) (Some [])) files c1)"

text \<open>One step of the loop that replaces the children of node \<open>a\<close>: a name that was known keeps its node.\<close>

definition refresh_entry ::
  "nat \<Rightarrow> (string, nat) gomap \<Rightarrow> file_info \<Rightarrow> cnode list \<times> (string, nat) gomap \<Rightarrow> cnode list \<times> (string, nat) gomap" where
  "refresh_entry a old f st =
     (case st of (ns, new) \<Rightarrow>
        (case mget old (fi_Name f) of
           Some e \<Rightarrow>
             (ns[e := (ns ! e)\<lparr>cn_Name := fi_Name f, cn_Type := fi_Type f, cn_fid := fi_FID f, cn_Size := fi_Size f,
                               cn_parent := Some a, cn_children := Some (kids (ns ! e))\<rparr>],
              mput (fi_Name f) e new)
         | None \<Rightarrow>
             (ns @ [fresh_node (fi_Name f) (fi_Type f) (fi_FID f) (fi_Size f) (Some []) (Some a)],
              mput (fi_Name f) (length ns) new)))"

definition refill :: "nat \<Rightarrow> file_info list \<Rightarrow> 'w client \<Rightarrow> 'w client" where
  "refill a files c =
     (case fold (refresh_entry a (kids (node_at c a))) files (nodes_of c, []) of
        (ns, new) \<Rightarrow> set_nodes (ns[a := (ns ! a)\<lparr>cn_children := Some new\<rparr>]) c)"

definition populateNodeCache :: "'w file_rpcs \<Rightarrow> nat \<Rightarrow> 'w client \<Rightarrow> unit cres \<times> 'w client" where
  "populateNodeCache ops a c =
     andThen (ListFilesAt ops (cn_fid (node_at c a)) c) (\<lambda>files c. (Done (), refill a files c))"

definition populateCurrentDirCache :: "'w file_rpcs \<Rightarrow> 'w client \<Rightarrow> unit cres \<times> 'w client" where
  "populateCurrentDirCache ops c = populateNodeCache ops (curr_dir c) c"

text \<open>An error the program discards; a panic is not an error.\<close>

definition discard :: "unit cres \<times> 's \<Rightarrow> unit cres \<times> 's" where
  "discard m = (case m of (Failed e, c) \<Rightarrow> (Done (), c) | _ \<Rightarrow> m)"

definition Refresh :: "'w file_rpcs \<Rightarrow> 'w client \<Rightarrow> unit cres \<times> 'w client" where
  "Refresh ops c = andThen (discard (ReRegister ops c)) (\<lambda>_ c. populateCurrentDirCache ops c)"

section \<open>Contents\<close>

definition cache_path :: "string \<Rightarrow> string" where
  "cache_path uid = CacheDir @ ''/'' @ uid"

definition read_local :: "client_env \<Rightarrow> string \<Rightarrow> 'w client \<Rightarrow> byte list cres \<times> 'w client" where
  "read_local env path c =
     (case os_ReadFile (ce_err env) (Clean path) (c_disk c) of
        Got ct \<Rightarrow> (Done (content_bytes no_json ct), c)
      | _ \<Rightarrow> (Failed LocalFault, c))"

definition cache_ReadFile :: "client_env \<Rightarrow> 'w file_rpcs \<Rightarrow> string \<Rightarrow> 'w client \<Rightarrow> byte list cres \<times> 'w client" where
  "cache_ReadFile env ops s c =
     (case mget (kids (node_at c (curr_dir c))) s of
        None \<Rightarrow> (Failed (NotThere s), c)
      | Some a \<Rightarrow>
          (let n = node_at c a in
           if cn_Type n = InodeTypeFile \<and> cn_contentCached n then read_local env (cache_path (cn_contentUID n)) c
           else if cn_Type n \<noteq> InodeTypeFile then (Failed (NotThere s), c)
           else
             (let c1 = upd_node a (\<lambda>n. n\<lparr>cn_contentUID := ce_uid env\<rparr>) c in
              andThen (downloadFileInternalAs env ops (cn_fid (node_at c1 (curr_dir c1))) s CacheDir (ce_uid env) c1)
                (\<lambda>_ c2. read_local env (cache_path (ce_uid env)) (upd_node a (\<lambda>n. n\<lparr>cn_contentCached := True\<rparr>) c2)))))"

definition cache_CreateDirectory :: "'w file_rpcs \<Rightarrow> string \<Rightarrow> 'w client \<Rightarrow> file_info cres \<times> 'w client" where
  "cache_CreateDirectory ops s c =
     andThen (client_CreateDirectory ops s c) (\<lambda>info c.
     andThen (add_child s InodeTypeDirectory (fi_FID info) (fi_Size info) (Some []) c) (\<lambda>_ c. (Done info, c)))"

definition cache_CreateFile :: "'w file_rpcs \<Rightarrow> string \<Rightarrow> 'w client \<Rightarrow> file_info cres \<times> 'w client" where
  "cache_CreateFile ops s c =
     andThen (client_CreateFile ops s c) (\<lambda>info c.
     andThen (add_child s InodeTypeFile (fi_FID info) (fi_Size info) None c) (\<lambda>_ c. (Done info, c)))"

text \<open>Adding to the sizes of a node and of everything above it.\<close>

primrec add_up :: "nat \<Rightarrow> nat \<Rightarrow> u64 \<Rightarrow> cnode list \<Rightarrow> cnode list option" where
  "add_up 0 a d ns = None"
| "add_up (Suc k) a d ns =
     (let ns1 = ns[a := (ns ! a)\<lparr>cn_Size := cn_Size (ns ! a) + d\<rparr>] in
      case cn_parent (ns ! a) of None \<Rightarrow> Some ns1 | Some p \<Rightarrow> add_up k p d ns1)"

definition cache_Upload :: "client_env \<Rightarrow> 'w file_rpcs \<Rightarrow> string \<Rightarrow> 'w client \<Rightarrow> unit cres \<times> 'w client" where
  "cache_Upload env ops s c =
     (case local_stat env s (c_disk c) of
        None \<Rightarrow> (Failed LocalFault, c)
      | Some (isDir, fileSize) \<Rightarrow>
          andThen (client_Upload env ops s c) (\<lambda>fo c.
          andThen (add_child (Base s) (if isDir then InodeTypeDirectory else InodeTypeFile) fo fileSize None c) (\<lambda>_ c.
          case add_up (length (nodes_of c)) (curr_dir c) fileSize (nodes_of c) of
            None \<Rightarrow> (Endless, c)
          | Some ns \<Rightarrow> (Done (), set_nodes ns c))))"

section \<open>Moving about\<close>

definition cache_ChangeDirectory :: "'w file_rpcs \<Rightarrow> string \<Rightarrow> 'w client \<Rightarrow> unit cres \<times> 'w client" where
  "cache_ChangeDirectory ops s c =
     (if s = ''.trash'' \<or> HasPrefix s ''.trash/'' then (Failed TrashDenied, c)
      else if s = ''/'' then
        andThen (client_ChangeDirectory ops ''/'' c) (\<lambda>_ c.
        let c1 = set_curr (root_dir c) c
        in populateCurrentDirCache ops (ChangeCurrentFID (cn_fid (node_at c1 (curr_dir c1))) c1))
      else if s = ''..'' then
        (if curr_dir c = root_dir c then (Failed ReturnToMetaserver, c)
         else
           andThen (client_ChangeDirectory ops ''..'' c) (\<lambda>_ c.
           let c1 = set_curr (case cn_parent (node_at c (curr_dir c)) of None \<Rightarrow> root_dir c | Some p \<Rightarrow> p) c
           in populateCurrentDirCache ops (ChangeCurrentFID (cn_fid (node_at c1 (curr_dir c1))) c1)))
      else
        (case mget (kids (node_at c (curr_dir c))) s of
           None \<Rightarrow> (Failed (NotThere s), c)
         | Some a \<Rightarrow>
             if cn_Type (node_at c a) \<noteq> InodeTypeDirectory then (Failed (NotThere s), c)
             else
               andThen (client_ChangeDirectory ops s c) (\<lambda>_ c.
               let c1 = set_curr a c
               in discard (populateCurrentDirCache ops (ChangeCurrentFID (cn_fid (node_at c1 (curr_dir c1))) c1)))))"

definition cache_ListFiles :: "'w client \<Rightarrow> file_info list" where
  "cache_ListFiles c =
     map (\<lambda>(k, a). let n = node_at c a in \<lparr>fi_FID = cn_fid n, fi_Name = cn_Name n, fi_Type = cn_Type n, fi_Size = cn_Size n\<rparr>)
       (kids (node_at c (curr_dir c)))"

text \<open>The loop of \<^verbatim>\<open>Path\<close>: the names from a node up to the root, in front of \<open>acc\<close>.\<close>

primrec path_up :: "nat \<Rightarrow> cnode list \<Rightarrow> nat \<Rightarrow> nat \<Rightarrow> string \<Rightarrow> string cres" where
  "path_up 0 ns r a acc = Endless"
| "path_up (Suc k) ns r a acc =
     (if a = r then Done acc
      else (case cn_parent (ns ! a) of
              None \<Rightarrow> Crash
            | Some p \<Rightarrow> path_up k ns r p (cn_Name (ns ! a) @ ''/'' @ acc)))"

definition cache_Path :: "'w client \<Rightarrow> string cres" where
  "cache_Path c =
     (let rootPrefix = (if c_display_name c \<noteq> [] then c_display_name c else cn_Name (node_at c (root_dir c))) in
      if curr_dir c = root_dir c then Done rootPrefix
      else (case path_up (Suc (length (nodes_of c))) (nodes_of c) (root_dir c) (curr_dir c) [] of
              Done p \<Rightarrow> Done (rootPrefix @ ''/'' @ p)
            | r \<Rightarrow> r))"

section \<open>Deletion\<close>

text \<open>Deleting everything below a node from the cache, the kept contents included.\<close>

primrec recursiveDelete :: "nat \<Rightarrow> client_env \<Rightarrow> nat \<Rightarrow> cnode list \<times> local_disk \<Rightarrow> (cnode list \<times> local_disk) option" where
  "recursiveDelete 0 env a st = None"
| "recursiveDelete (Suc k) env a st =
     fold (\<lambda>(key, b) sto.
         case sto of
           None \<Rightarrow> None
         | Some (ns, d) \<Rightarrow>
             (let ns1 = ns[a := (ns ! a)\<lparr>cn_children := map_option (mdel (cn_Name (ns ! b))) (cn_children (ns ! a))\<rparr>] in
              if cn_Type (ns ! b) = InodeTypeFile \<and> cn_contentCached (ns ! b)
              then Some (ns1, snd (os_Remove (ce_err env) (Clean (cache_path (cn_contentUID (ns ! b)))) d))
              else if cn_Type (ns ! b) = InodeTypeDirectory then recursiveDelete k env b (ns1, d)
              else Some (ns1, d)))
       (kids (fst st ! a)) (Some st)"

definition cache_DeleteFile :: "client_env \<Rightarrow> 'w file_rpcs \<Rightarrow> string \<Rightarrow> bool \<Rightarrow> 'w client \<Rightarrow> unit cres \<times> 'w client" where
  "cache_DeleteFile env ops s recursive c =
     andThen (client_DeleteFile ops s recursive c) (\<lambda>_ c.
     case mget (kids (node_at c (curr_dir c))) s of
       None \<Rightarrow> (Done (), c)
     | Some a \<Rightarrow>
         if recursive \<and> cn_Type (node_at c a) = InodeTypeDirectory then
           (case recursiveDelete (Suc (length (nodes_of c))) env a (nodes_of c, c_disk c) of
              None \<Rightarrow> (Endless, c)
            | Some (ns, d) \<Rightarrow> (Done (), drop_child (curr_dir c) s ((set_nodes ns c)\<lparr>c_disk := d\<rparr>)))
         else (Done (), drop_child (curr_dir c) s c))"

definition cache_TrashFile :: "'w file_rpcs \<Rightarrow> string \<Rightarrow> bool \<Rightarrow> 'w client \<Rightarrow> string cres \<times> 'w client" where
  "cache_TrashFile ops name recursive c =
     andThen (client_TrashFile ops name recursive c) (\<lambda>trashed c. (Done trashed, drop_child (curr_dir c) name c))"

definition cache_RestoreFile :: "'w file_rpcs \<Rightarrow> string \<Rightarrow> 'w client \<Rightarrow> string cres \<times> 'w client" where
  "cache_RestoreFile ops name c =
     andThen (client_RestoreFile ops name c) (\<lambda>restored c.
     let c1 = (if cn_Name (node_at c (curr_dir c)) = ''.trash'' then drop_child (curr_dir c) name c else c)
     in andThen (discard (populateNodeCache ops (root_dir c1) c1)) (\<lambda>_ c. (Done restored, c)))"

text \<open>Both refresh the root whether or not the call succeeded, and return the result of the call.\<close>

definition then_root :: "'w file_rpcs \<Rightarrow> 'a cres \<times> 'w client \<Rightarrow> 'a cres \<times> 'w client" where
  "then_root ops m =
     (case m of
        (Crash, c) \<Rightarrow> (Crash, c)
      | (Endless, c) \<Rightarrow> (Endless, c)
      | (r, c) \<Rightarrow> andThen (discard (populateNodeCache ops (root_dir c) c)) (\<lambda>_ c. (r, c)))"

definition cache_ClearTrash :: "'w file_rpcs \<Rightarrow> 'w client \<Rightarrow> (nat \<times> client_error option) cres \<times> 'w client" where
  "cache_ClearTrash ops c = then_root ops (client_ClearTrash ops c)"

definition cache_DeleteFromTrash :: "'w file_rpcs \<Rightarrow> string \<Rightarrow> 'w client \<Rightarrow> unit cres \<times> 'w client" where
  "cache_DeleteFromTrash ops name c = then_root ops (client_DeleteFromTrash ops name c)"

definition ClearCache :: "client_env \<Rightarrow> 'w client \<Rightarrow> 'w client" where
  "ClearCache env c =
     (let dir = Clean CacheDir in
      if os_stat_not_exist (ce_err env) (c_disk c) dir then c
      else (case os_ReadDir (ce_err env) dir (c_disk c) of
              None \<Rightarrow> c
            | Some files \<Rightarrow>
                c\<lparr>c_disk := fold (\<lambda>(name, _) d. snd (os_Remove (ce_err env) (Clean (cache_path name)) d)) files (c_disk c)\<rparr>))"

section \<open>Invalidation\<close>

text \<open>The first node with the FID, in the order of the maps, and its path.\<close>

primrec findNodeByFID :: "nat \<Rightarrow> cnode list \<Rightarrow> fid \<Rightarrow> nat \<Rightarrow> string \<Rightarrow> (nat \<times> string) option option" where
  "findNodeByFID 0 ns f a path = None"
| "findNodeByFID (Suc k) ns f a path =
     (if cn_fid (ns ! a) \<noteq> None \<and> FID_String (the (cn_fid (ns ! a))) = FID_String f then Some (Some (a, path))
      else fold (\<lambda>(key, b) r.
               case r of
                 Some None \<Rightarrow> findNodeByFID k ns f b (path @ ''/'' @ cn_Name (ns ! b))
               | _ \<Rightarrow> r)
             (kids (ns ! a)) (Some None))"

definition TrimSuffixSlash :: "string \<Rightarrow> string" where
  "TrimSuffixSlash p = (if p \<noteq> [] \<and> last p = slash then butlast p else p)"

definition InvalidateFileByFID :: "client_env \<Rightarrow> fid option \<Rightarrow> 'w client \<Rightarrow> string option cres \<times> 'w client" where
  "InvalidateFileByFID env fo c =
     (case fo of
        None \<Rightarrow> (Done None, c)
      | Some f \<Rightarrow>
          (case findNodeByFID (Suc (length (nodes_of c))) (nodes_of c) f (root_dir c) (cn_Name (node_at c (root_dir c))) of
             None \<Rightarrow> (Endless, c)
           | Some None \<Rightarrow> (Done None, c)
           | Some (Some (a, path)) \<Rightarrow>
               (let n = node_at c a;
                    c1 = (if cn_Type n = InodeTypeFile then
                            (let d1 = (if cn_contentCached n \<and> cn_contentUID n \<noteq> []
                                       then snd (os_Remove (ce_err env) (Join [CacheDir, cn_contentUID n]) (c_disk c))
                                       else c_disk c)
                             in upd_node a (\<lambda>n. n\<lparr>cn_contentCached := False, cn_contentUID := []\<rparr>) (c\<lparr>c_disk := d1\<rparr>))
                          else c)
                in (Done (Some (TrimSuffixSlash path)), c1))))"

definition callbackEventFileUpdated :: u64 where "callbackEventFileUpdated = 1"
definition callbackEventDirNewFile :: u64 where "callbackEventDirNewFile = 2"
definition callbackEventFileDeleted :: u64 where "callbackEventFileDeleted = 3"

definition nl :: string where "nl = [CHR 10]"

definition notice :: "u64 \<Rightarrow> fid \<Rightarrow> string option \<Rightarrow> string" where
  "notice event f place =
     nl @ (if event = callbackEventDirNewFile then
             ''[NOTIFY] New file uploaded in '' @ (case place of Some p \<Rightarrow> ''directory '' @ p | None \<Rightarrow> ''your current directory'') @ ''. Please run refresh.''
           else if event = callbackEventFileDeleted then
             ''[NOTIFY] A file was deleted in '' @ (case place of Some p \<Rightarrow> ''directory '' @ p | None \<Rightarrow> ''your current directory'') @ ''. Please run refresh.''
           else
             ''[NOTIFY] File updated by another user. ''
               @ (case place of Some p \<Rightarrow> ''Cache invalidated: '' @ p
                  | None \<Rightarrow> ''Please refresh current view. (FID: '' @ FID_String f @ '')'')) @ nl"

text \<open>The callback: \<open>Done False\<close> is the answer to a request without a FID.\<close>

definition Invalidate :: "client_env \<Rightarrow> fid option \<Rightarrow> u64 \<Rightarrow> 'w client \<Rightarrow> bool cres \<times> 'w client" where
  "Invalidate env fo newVersion c =
     (case fo of
        None \<Rightarrow> (Done False, c)
      | Some f \<Rightarrow>
          (let event = (if newVersion = 0 then callbackEventFileUpdated else newVersion) in
           andThen (if c_cacheHandler c then InvalidateFileByFID env (Some f) c else (Done None, c))
             (\<lambda>place c1. (Done True, Notify (notice event f place) c1))))"


section \<open>What the calls of the client leave alone\<close>

named_theorems cache_kept \<open>calls that do not touch the cache\<close>

lemma andThen_keeps:
  "P (snd m) \<Longrightarrow> (\<And>x c. P c \<Longrightarrow> P (snd (k x c))) \<Longrightarrow> P (snd (andThen m k))"
  by (auto simp: andThen_def split: prod.splits cres.splits)

lemma andThen_cache:
  "c_cache (snd m) = X \<Longrightarrow> (\<And>x c. c_cache c = X \<Longrightarrow> c_cache (snd (k x c)) = X) \<Longrightarrow> c_cache (snd (andThen m k)) = X"
  by (rule andThen_keeps [where P = "\<lambda>c. c_cache c = X"])

lemma andThen_return [simp]: "snd (andThen m (\<lambda>x. Pair (g x))) = snd m"
  by (simp add: andThen_def split: prod.split cres.split)

lemma each_keeps: "P c \<Longrightarrow> (\<And>x c. x \<in> set xs \<Longrightarrow> P c \<Longrightarrow> P (snd (f x c))) \<Longrightarrow> P (snd (each f xs c))"
proof (induction xs arbitrary: c)
  case (Cons x xs)
  show ?case unfolding each.simps
    by (rule andThen_keeps) (use Cons in auto)
qed simp

lemma cache_rpc [simp, cache_kept]: "c_cache (snd (rpc call c)) = c_cache c"
  by (simp add: rpc_def split: prod.split option.split)

lemma cache_proto [simp, cache_kept]: "c_cache (snd (proto fo c)) = c_cache c"
  by (simp add: proto_def split: option.split)

lemma cache_at_current [simp, cache_kept]: "c_cache (snd (at_current call c)) = c_cache c"
  unfolding at_current_def by (rule andThen_cache) simp_all

lemma cache_ChangeDirectory_call [simp, cache_kept]: "c_cache (snd (client_ChangeDirectory ops p c)) = c_cache c"
  unfolding client_ChangeDirectory_def by (intro andThen_cache) (simp_all add: Let_def split: option.split)

lemma cache_ListFilesAt [simp, cache_kept]: "c_cache (snd (ListFilesAt ops fo c)) = c_cache c"
  by (simp add: ListFilesAt_def split: option.split)

lemma cache_client_Create [simp, cache_kept]: "c_cache (snd (client_Create ty ops s c)) = c_cache c"
  unfolding client_Create_def by (rule andThen_cache) simp_all

lemma cache_client_ListFiles [simp, cache_kept]: "c_cache (snd (client_ListFiles ops c)) = c_cache c"
  by (simp add: client_ListFiles_def)

lemma cache_client_ShowTrash [simp, cache_kept]: "c_cache (snd (client_ShowTrash ops c)) = c_cache c"
  by (simp add: client_ShowTrash_def)

lemma cache_on_listed [cache_kept]: "c_cache (snd listing) = X \<Longrightarrow> c_cache (snd (on_listed name call listing)) = X"
  unfolding on_listed_def by (rule andThen_cache) (auto split: option.split)

lemma cache_client_DeleteFile [simp, cache_kept]: "c_cache (snd (client_DeleteFile ops s r c)) = c_cache c"
  unfolding client_DeleteFile_def by (rule cache_on_listed) simp

lemma cache_client_TrashFile [simp, cache_kept]: "c_cache (snd (client_TrashFile ops s r c)) = c_cache c"
  unfolding client_TrashFile_def by (auto intro: cache_on_listed)

lemma cache_client_RestoreFile [simp, cache_kept]: "c_cache (snd (client_RestoreFile ops s c)) = c_cache c"
  unfolding client_RestoreFile_def by (auto intro: cache_on_listed)

lemma cache_client_DeleteFromTrash [simp, cache_kept]: "c_cache (snd (client_DeleteFromTrash ops s c)) = c_cache c"
  unfolding client_DeleteFromTrash_def by (auto intro: cache_on_listed)

lemma cache_delete_entries [cache_kept]: "c_cache (snd (delete_entries ops es failed n c)) = c_cache c"
proof (induction ops es failed n c rule: delete_entries.induct)
  case (2 ops e es failed deleted c)
  let ?m = "andThen (proto (fi_FID e) c) (\<lambda>f c. rpc (rpc_DeleteFile ops f (c_root_user c) True) c)"
  have "c_cache (snd ?m) = c_cache c" by (rule andThen_cache) simp_all
  with 2 show ?case by (auto split: prod.split cres.split)
qed simp

lemma cache_client_ClearTrash [simp, cache_kept]: "c_cache (snd (client_ClearTrash ops c)) = c_cache c"
proof -
  obtain r c1 where sh: "client_ShowTrash ops c = (r, c1)" by fastforce
  then have "c_cache c1 = c_cache c" using cache_client_ShowTrash [of ops c] by simp
  then show ?thesis
    by (cases r) (simp_all add: client_ClearTrash_def sh case_prod_unfold cache_delete_entries)
qed

lemma cache_uploadFileInternal [cache_kept]: "c_cache (snd (uploadFileInternal env ops p fo c)) = c_cache c"
proof (cases "os_Open (ce_err env) no_json (Clean p) (c_disk c)")
  case (Some bs)
  show ?thesis unfolding uploadFileInternal_def Some option.case
    by (cases "ce_err env (CStat (Clean p))") (simp, simp only: if_False, intro andThen_cache, simp_all)
qed (simp add: uploadFileInternal_def)

lemma cache_uploadRecursive [cache_kept]: "c_cache (snd (uploadRecursive k env ops p fo c)) = c_cache c"
proof (induction k arbitrary: p fo c)
  case (Suc k)
  have "c_cache (snd (each (\<lambda>(name, n). if n = DDir then uploadRecursive k env ops (Join [p, name]) dirFID
      else uploadFileInternal env ops (Join [p, name]) dirFID) entries c1)) = c_cache c1" for dirFID entries c1
    by (rule each_keeps [where P = "\<lambda>c. c_cache c = c_cache c1"]) (auto simp: Suc cache_uploadFileInternal)
  note entries = this
  show ?case unfolding uploadRecursive.simps
  proof (intro andThen_cache)
    fix x y and c1 c2 :: "'a client" assume "c_cache c1 = c_cache c" "c_cache c2 = c_cache c"
    then show "c_cache (snd (case os_ReadDir (ce_err env) (Clean p) (c_disk c2) of None \<Rightarrow> (Failed LocalFault, c2)
        | Some es \<Rightarrow> andThen (each (\<lambda>(name, n). if n = DDir then uploadRecursive k env ops (Join [p, name]) y
            else uploadFileInternal env ops (Join [p, name]) y) es c2) (\<lambda>_ c. (Done y, c)))) = c_cache c"
      by (auto simp: entries split: option.split)
  qed simp_all
qed simp

lemma cache_client_Upload [simp, cache_kept]: "c_cache (snd (client_Upload env ops p c)) = c_cache c"
  by (simp add: client_Upload_def cache_uploadFileInternal cache_uploadRecursive del: uploadRecursive.simps split: option.split prod.split)

lemma cache_downloadFileInternalAs [simp, cache_kept]: "c_cache (snd (downloadFileInternalAs env ops fo s dir as c)) = c_cache c"
  unfolding downloadFileInternalAs_def
  by (intro andThen_cache) (auto simp: Let_def split: prod.split bool.split)


section \<open>The shape of the cache\<close>

text \<open>
  The nodes form a tree below the root: a child lies under its own name, points back to its parent and
  has a larger address, and every node but the root has a parent with a smaller address (nodes that were
  dropped from the tree included).
\<close>

definition links_ok :: "cnode list \<Rightarrow> nat \<Rightarrow> (string, nat) gomap \<Rightarrow> bool" where
  "links_ok ns a m \<longleftrightarrow>
     gomap_ok m \<and> (\<forall>k b. mget m k = Some b \<longrightarrow> a < b \<and> b < length ns \<and> cn_Name (ns ! b) = k \<and> cn_parent (ns ! b) = Some a)"

definition nodes_ok :: "cnode list \<Rightarrow> nat \<Rightarrow> bool" where
  "nodes_ok ns r \<longleftrightarrow>
     r < length ns \<and> cn_parent (ns ! r) = None
     \<and> (\<forall>a<length ns. links_ok ns a (kids (ns ! a)) \<and> (a \<noteq> r \<longrightarrow> (\<exists>p<a. cn_parent (ns ! a) = Some p)))"

definition cache_ok :: "'w client \<Rightarrow> bool" where
  "cache_ok c \<longleftrightarrow> nodes_ok (nodes_of c) (root_dir c) \<and> curr_dir c < length (nodes_of c)"

lemma cache_ok_cong: "c_cache c = c_cache c' \<Longrightarrow> cache_ok c = cache_ok c'"
  by (simp add: cache_ok_def nodes_of_def)

lemma nodes_set_nodes [simp]: "nodes_of (set_nodes ns c) = ns" "root_dir (set_nodes ns c) = root_dir c"
  "curr_dir (set_nodes ns c) = curr_dir c" "c_disk (set_nodes ns c) = c_disk c" "c_server (set_nodes ns c) = c_server c"
  by (simp_all add: set_nodes_def nodes_of_def)

lemma nodes_set_curr [simp]: "nodes_of (set_curr a c) = nodes_of c" "root_dir (set_curr a c) = root_dir c" "curr_dir (set_curr a c) = a"
  by (simp_all add: set_curr_def nodes_of_def)

lemma links_okD:
  assumes "links_ok ns a m" "mget m k = Some b"
  shows "a < b" "b < length ns" "cn_Name (ns ! b) = k" "cn_parent (ns ! b) = Some a"
  using assms by (auto simp: links_ok_def)

lemma nodes_ok_kids: "nodes_ok ns r \<Longrightarrow> a < length ns \<Longrightarrow> links_ok ns a (kids (ns ! a))"
  by (simp add: nodes_ok_def)

lemma nodes_ok_parent: "nodes_ok ns r \<Longrightarrow> a < length ns \<Longrightarrow> a \<noteq> r \<Longrightarrow> \<exists>p<a. cn_parent (ns ! a) = Some p"
  by (simp add: nodes_ok_def)

text \<open>Only names, parents and links matter for it.\<close>

lemma links_ok_mono:
  assumes "links_ok ns a m" "length ns \<le> length ns'"
    and "\<And>b. b < length ns \<Longrightarrow> cn_Name (ns' ! b) = cn_Name (ns ! b) \<and> cn_parent (ns' ! b) = cn_parent (ns ! b)"
  shows "links_ok ns' a m"
  using assms by (fastforce simp: links_ok_def)

lemma cnodes_ok_update:
  assumes ok: "nodes_ok ns r"
    and g: "cn_Name n = cn_Name (ns ! a)" "cn_parent n = cn_parent (ns ! a)"
    and links: "a < length ns \<Longrightarrow> links_ok ns a (kids n)"
  shows "nodes_ok (ns[a := n]) r"
proof -
  have same: "cn_Name (ns[a := n] ! b) = cn_Name (ns ! b) \<and> cn_parent (ns[a := n] ! b) = cn_parent (ns ! b)" if "b < length ns" for b
    using that g by (cases "b = a") auto
  have "links_ok (ns[a := n]) b (kids (ns[a := n] ! b))" if "b < length ns" for b
  proof -
    have "links_ok ns b (kids (ns[a := n] ! b))"
      using that links nodes_ok_kids [OF ok that] by (cases "b = a") auto
    then show ?thesis by (rule links_ok_mono) (simp, rule same)
  qed
  then show ?thesis using ok same by (simp add: nodes_ok_def)
qed

lemma nodes_ok_append:
  assumes ok: "nodes_ok ns r" and n: "cn_parent n = Some p" "p < length ns" "kids n = []"
  shows "nodes_ok (ns @ [n]) r"
proof -
  have "links_ok (ns @ [n]) a (kids ((ns @ [n]) ! a))" if "a < Suc (length ns)" for a
  proof (cases "a < length ns")
    case True
    then have "links_ok ns a (kids ((ns @ [n]) ! a))" using nodes_ok_kids [OF ok] by (simp add: nth_append)
    then show ?thesis by (rule links_ok_mono) (simp_all add: nth_append)
  next
    case False
    with that n(3) show ?thesis by (simp add: nth_append links_ok_def)
  qed
  moreover have "\<exists>p<a. cn_parent ((ns @ [n]) ! a) = Some p" if "a < Suc (length ns)" "a \<noteq> r" for a
    using that nodes_ok_parent [OF ok, of a] n by (cases "a < length ns") (auto simp: nth_append less_Suc_eq)
  moreover have "r < length ns" "cn_parent (ns ! r) = None" using ok by (simp_all add: nodes_ok_def)
  ultimately show ?thesis by (simp add: nodes_ok_def nth_append)
qed

lemma kids_upd [simp]:
  "kids (n\<lparr>cn_children := ch\<rparr>) = (case ch of None \<Rightarrow> [] | Some m \<Rightarrow> m)"
  "kids (n\<lparr>cn_contentUID := u\<rparr>) = kids n" "kids (n\<lparr>cn_contentCached := b\<rparr>) = kids n" "kids (n\<lparr>cn_Size := z\<rparr>) = kids n"
  "kids (n\<lparr>cn_fid := fo\<rparr>) = kids n"
  by (simp_all add: kids_def)

lemma kids_fresh [simp]: "kids (fresh_node name ty fo sz ch p) = (case ch of None \<Rightarrow> [] | Some m \<Rightarrow> m)"
  by (simp add: kids_def fresh_node_def)

lemma fresh_simps [simp]: "cn_Name (fresh_node name ty fo sz ch p) = name" "cn_parent (fresh_node name ty fo sz ch p) = p"
  "cn_contentCached (fresh_node name ty fo sz ch p) = False" "cn_children (fresh_node name ty fo sz ch p) = ch"
  "cn_Type (fresh_node name ty fo sz ch p) = ty"
  by (simp_all add: fresh_node_def)

lemma links_ok_del: "links_ok ns a m \<Longrightarrow> links_ok ns a (mdel k m)"
  by (auto simp: links_ok_def)

lemma links_ok_put:
  "links_ok ns a m \<Longrightarrow> a < b \<Longrightarrow> b < length ns \<Longrightarrow> cn_Name (ns ! b) = k \<Longrightarrow> cn_parent (ns ! b) = Some a \<Longrightarrow> links_ok ns a (mput k b m)"
  by (auto simp: links_ok_def)

text \<open>Changes of a node that keep its name, parent and links.\<close>

lemma cache_ok_upd:
  assumes "cache_ok c" "\<And>n. cn_Name (g n) = cn_Name n \<and> cn_parent (g n) = cn_parent n \<and> kids (g n) = kids n"
  shows "cache_ok (upd_node a g c)"
  using assms cnodes_ok_update [of "nodes_of c" "root_dir c" "g (node_at c a)" a] nodes_ok_kids [of "nodes_of c" "root_dir c" a]
  by (simp add: cache_ok_def upd_node_def node_at_def)

lemma kids_mdel: "kids (n\<lparr>cn_children := map_option (mdel k) (cn_children n)\<rparr>) = mdel k (kids n)"
  by (cases "cn_children n") (simp_all add: kids_def)

lemma nodes_ok_unlink:
  assumes "nodes_ok ns r"
  shows "nodes_ok (ns[a := (ns ! a)\<lparr>cn_children := map_option (mdel k) (cn_children (ns ! a))\<rparr>]) r"
proof (rule cnodes_ok_update [OF assms])
  assume "a < length ns"
  then show "links_ok ns a (kids ((ns ! a)\<lparr>cn_children := map_option (mdel k) (cn_children (ns ! a))\<rparr>))"
    unfolding kids_mdel by (intro links_ok_del nodes_ok_kids [OF assms])
qed simp_all

lemma cache_ok_drop: "cache_ok c \<Longrightarrow> cache_ok (drop_child a name c)"
  by (simp add: cache_ok_def drop_child_def upd_node_def node_at_def nodes_ok_unlink)

lemma cache_ok_add_child:
  assumes ok: "cache_ok c" and ch: "ch \<in> {None, Some []}"
  shows "cache_ok (snd (add_child name ty fo sz ch c))"
proof (cases "cn_children (node_at c (curr_dir c))")
  case (Some m)
  let ?a = "curr_dir c" and ?ns = "nodes_of c" and ?n = "fresh_node name ty fo sz ch (Some (curr_dir c))"
  have a: "?a < length ?ns" and ns: "nodes_ok ?ns (root_dir c)" using ok by (simp_all add: cache_ok_def)
  have app: "nodes_ok (?ns @ [?n]) (root_dir c)" by (rule nodes_ok_append [OF ns _ a]) (use ch in auto)
  have "links_ok (?ns @ [?n]) ?a m" using nodes_ok_kids [OF app, of ?a] a Some by (simp add: nth_append node_at_def kids_def)
  then have "links_ok (?ns @ [?n]) ?a (mput name (length ?ns) m)"
    by (rule links_ok_put) (use a in simp_all)
  then have "nodes_ok ((?ns @ [?n])[?a := (node_at c ?a)\<lparr>cn_children := Some (mput name (length ?ns) m)\<rparr>]) (root_dir c)"
    by (intro cnodes_ok_update [OF app]) (use a in \<open>simp_all add: nth_append node_at_def\<close>)
  then show ?thesis using a by (simp add: add_child_def Let_def Some cache_ok_def list_update_append1)
qed (use ok in \<open>simp add: add_child_def\<close>)


lemma refresh_entry_ok:
  assumes ok: "nodes_ok ns r" and a: "a < length ns" and old: "links_ok ns a old" and new: "links_ok ns a new"
    and st: "refresh_entry a old f (ns, new) = (ns', new')"
  shows "nodes_ok ns' r \<and> length ns \<le> length ns' \<and> links_ok ns' a old \<and> links_ok ns' a new'"
proof (cases "mget old (fi_Name f)")
  case None
  let ?n = "fresh_node (fi_Name f) (fi_Type f) (fi_FID f) (fi_Size f) (Some []) (Some a)"
  have st': "ns' = ns @ [?n]" "new' = mput (fi_Name f) (length ns) new" using st None by (auto simp: refresh_entry_def)
  have "links_ok ns' a m" if "links_ok ns a m" for m
    using that by (rule links_ok_mono) (simp_all add: st' nth_append)
  with old new have "links_ok ns' a old" "links_ok ns' a new" by auto
  moreover from this(2) have "links_ok ns' a new'" unfolding st'(2) by (rule links_ok_put) (use a in \<open>simp_all add: st'\<close>)
  moreover have "nodes_ok ns' r" unfolding st' by (rule nodes_ok_append [OF ok _ a]) simp_all
  ultimately show ?thesis by (simp add: st')
next
  case (Some e)
  let ?n = "(ns ! e)\<lparr>cn_Name := fi_Name f, cn_Type := fi_Type f, cn_fid := fi_FID f, cn_Size := fi_Size f,
              cn_parent := Some a, cn_children := Some (kids (ns ! e))\<rparr>"
  have st': "ns' = ns[e := ?n]" "new' = mput (fi_Name f) e new" using st Some by (auto simp: refresh_entry_def)
  note e = links_okD [OF old Some]
  have same: "cn_Name (ns' ! b) = cn_Name (ns ! b) \<and> cn_parent (ns' ! b) = cn_parent (ns ! b)" if "b < length ns" for b
    using that e by (cases "b = e") (auto simp: st')
  have keep: "links_ok ns' a m" if "links_ok ns a m" for m
    using that by (rule links_ok_mono) (simp_all add: same, simp add: st')
  have "nodes_ok ns' r" unfolding st'
    by (rule cnodes_ok_update [OF ok]) (use e nodes_ok_kids [OF ok] in simp_all)
  moreover have "links_ok ns' a new'" unfolding st'(2)
    by (rule links_ok_put [OF keep [OF new]]) (use e in \<open>simp_all add: st'\<close>)
  ultimately show ?thesis using keep [OF old] by (simp add: st')
qed

lemma refresh_entries_ok:
  "nodes_ok ns r \<Longrightarrow> a < length ns \<Longrightarrow> links_ok ns a old \<Longrightarrow> links_ok ns a new \<Longrightarrow>
   fold (refresh_entry a old) files (ns, new) = (ns', new') \<Longrightarrow>
   nodes_ok ns' r \<and> length ns \<le> length ns' \<and> links_ok ns' a new'"
proof (induction files arbitrary: ns new)
  case (Cons f files)
  obtain ns1 new1 where st: "refresh_entry a old f (ns, new) = (ns1, new1)" by fastforce
  note step = refresh_entry_ok [OF Cons.prems(1-4) st]
  have "nodes_ok ns' r \<and> length ns1 \<le> length ns' \<and> links_ok ns' a new'"
    by (rule Cons.IH) (use step Cons.prems st in auto)
  with step show ?case by auto
qed simp

lemma cache_ok_refill:
  assumes "cache_ok c" "a < length (nodes_of c)"
  shows "cache_ok (refill a files c)"
proof -
  let ?old = "kids (node_at c a)"
  obtain ns new where st: "fold (refresh_entry a ?old) files (nodes_of c, []) = (ns, new)" by fastforce
  have ns: "nodes_ok (nodes_of c) (root_dir c)" and old: "links_ok (nodes_of c) a ?old"
    using assms nodes_ok_kids by (auto simp: cache_ok_def node_at_def)
  have r: "nodes_ok ns (root_dir c) \<and> length (nodes_of c) \<le> length ns \<and> links_ok ns a new"
    by (rule refresh_entries_ok [OF ns assms(2) old _ st]) (simp add: links_ok_def)
  then have "nodes_ok (ns[a := (ns ! a)\<lparr>cn_children := Some new\<rparr>]) (root_dir c)"
    by (intro cnodes_ok_update) simp_all
  with assms r show ?thesis by (simp add: refill_def st cache_ok_def)
qed

lemma cache_ok_populate:
  assumes "cache_ok c" "a < length (nodes_of c)" shows "cache_ok (snd (populateNodeCache ops a c))"
proof (cases "ListFilesAt ops (cn_fid (node_at c a)) c")
  case (Pair r c1)
  then have c1: "c_cache c1 = c_cache c" using cache_ListFilesAt [of ops "cn_fid (node_at c a)" c] by simp
  with assms have "cache_ok c1" "a < length (nodes_of c1)" using cache_ok_cong [OF c1] by (simp_all add: nodes_of_def)
  then show ?thesis using cache_ok_refill by (cases r) (simp_all add: populateNodeCache_def Pair andThen_def)
qed

lemma cache_ok_discard [simp]: "cache_ok (snd (discard m)) = cache_ok (snd m)"
  by (auto simp: discard_def split: prod.split cres.split)

lemma cache_ok_curr: "cache_ok c \<Longrightarrow> curr_dir c < length (nodes_of c)" and cache_ok_root: "cache_ok c \<Longrightarrow> root_dir c < length (nodes_of c)"
  by (simp_all add: cache_ok_def nodes_ok_def)

lemma cache_ok_keeps:
  "cache_ok c \<Longrightarrow> c_cache (snd m) = c_cache c \<Longrightarrow> cache_ok (snd m)"
  using cache_ok_cong by blast

lemma cache_ok_field_updates [simp]:
  "cache_ok (c\<lparr>c_disk := d\<rparr>) = cache_ok c" "cache_ok (c\<lparr>c_server := w\<rparr>) = cache_ok c" "cache_ok (c\<lparr>c_notes := msgs\<rparr>) = cache_ok c"
  "cache_ok (c\<lparr>c_sessionToken := t\<rparr>) = cache_ok c" "cache_ok (c\<lparr>c_rootFID := f\<rparr>) = cache_ok c" "cache_ok (ChangeCurrentFID f c) = cache_ok c"
  by (simp_all add: cache_ok_def nodes_of_def ChangeCurrentFID_def)


section \<open>What the operations keep\<close>

lemma andThen_ok:
  assumes "cache_ok c" "c_cache (snd m) = c_cache c"
    and "\<And>x c1. c_cache c1 = c_cache c \<Longrightarrow> cache_ok c1 \<Longrightarrow> cache_ok (snd (k x c1))"
  shows "cache_ok (snd (andThen m k))"
  using assms cache_ok_keeps [OF assms(1,2)] by (cases m) (simp add: andThen_def split: cres.split)

lemma cache_ok_new: "fst (NewCacheHandler ops fo c) = Done () \<Longrightarrow> cache_ok (snd (NewCacheHandler ops fo c))"
proof -
  assume fin: "fst (NewCacheHandler ops fo c) = Done ()"
  obtain r c1 where l: "client_ListFiles ops c = (r, c1)" by fastforce
  let ?c2 = "c1\<lparr>c_cache := \<lparr>ca_nodes = [root_node fo], ca_root = 0, ca_curr = 0\<rparr>\<rparr>"
  from fin l obtain files where r: "r = Done files" by (cases r) (simp_all add: NewCacheHandler_def andThen_def)
  have "cache_ok ?c2" by (simp add: cache_ok_def nodes_of_def nodes_ok_def links_ok_def root_node_def)
  then have "cache_ok (snd (each (\<lambda>f. add_child (fi_Name f) (fi_Type f) (fi_FID f) (fi_Size f) (Some [])) files ?c2))"
    by (rule each_keeps) (simp add: cache_ok_add_child)
  then show ?thesis by (simp add: NewCacheHandler_def l r andThen_def)
qed

lemma cache_ok_Create:
  assumes "cache_ok c" "ch \<in> {None, Some []}"
  shows "cache_ok (snd (andThen (client_Create ty ops s c) (\<lambda>info c. andThen (add_child s ty (fi_FID info) (fi_Size info) ch c) (\<lambda>_ c. (Done info, c)))))"
  by (rule andThen_keeps) (use assms in \<open>simp_all add: cache_ok_add_child cache_ok_keeps\<close>)

lemma cache_ok_CreateFile: "cache_ok c \<Longrightarrow> cache_ok (snd (cache_CreateFile ops s c))"
  unfolding cache_CreateFile_def client_CreateFile_def by (rule cache_ok_Create) simp_all

lemma cache_ok_CreateDirectory: "cache_ok c \<Longrightarrow> cache_ok (snd (cache_CreateDirectory ops s c))"
  unfolding cache_CreateDirectory_def client_CreateDirectory_def by (rule cache_ok_Create) simp_all

lemma cache_ok_read_local: "cache_ok c \<Longrightarrow> cache_ok (snd (read_local env p c))"
  by (simp add: read_local_def split: os_read.split)

lemma cache_ok_ReadFile: "cache_ok c \<Longrightarrow> cache_ok (snd (cache_ReadFile env ops s c))"
proof -
  assume ok: "cache_ok c"
  have miss: "cache_ok (snd (andThen (downloadFileInternalAs env ops fo s CacheDir u (upd_node a (\<lambda>n. n\<lparr>cn_contentUID := u\<rparr>) c))
      (\<lambda>_ c2. read_local env p (upd_node a (\<lambda>n. n\<lparr>cn_contentCached := True\<rparr>) c2))))" for fo u a p
  proof (rule andThen_ok)
    show "cache_ok (upd_node a (\<lambda>n. n\<lparr>cn_contentUID := u\<rparr>) c)" by (rule cache_ok_upd [OF ok]) simp
  qed (simp_all add: cache_ok_read_local cache_ok_upd)
  with ok show ?thesis by (simp add: cache_ReadFile_def Let_def cache_ok_read_local split: option.split)
qed

lemma add_up_ok:
  "nodes_ok ns r \<Longrightarrow> add_up k a d ns = Some ns' \<Longrightarrow> nodes_ok ns' r \<and> length ns' = length ns"
proof (induction k arbitrary: a ns)
  case (Suc k)
  let ?ns1 = "ns[a := (ns ! a)\<lparr>cn_Size := cn_Size (ns ! a) + d\<rparr>]"
  have "nodes_ok ?ns1 r" using Suc.prems(1) nodes_ok_kids [OF Suc.prems(1)] by (intro cnodes_ok_update) simp_all
  with Suc show ?case by (fastforce simp: Let_def split: option.splits)
qed simp

lemma cache_ok_Upload: "cache_ok c \<Longrightarrow> cache_ok (snd (cache_Upload env ops s c))"
proof -
  assume ok: "cache_ok c"
  have up: "cache_ok (snd (case add_up k (curr_dir c1) z (nodes_of c1) of None \<Rightarrow> (Endless, c1) | Some ns \<Rightarrow> (Done (), set_nodes ns c1)))"
    if "cache_ok c1" for c1 :: "'a client" and z k
    using that add_up_ok [of "nodes_of c1" "root_dir c1"] by (auto simp: cache_ok_def split: option.split)
  have "cache_ok (snd (andThen (client_Upload env ops s c) (\<lambda>fo c. andThen (add_child name ty fo z None c) (\<lambda>_ c.
      case add_up (length (nodes_of c)) (curr_dir c) z (nodes_of c) of None \<Rightarrow> (Endless, c) | Some ns \<Rightarrow> (Done (), set_nodes ns c)))))" for name ty z
  proof (rule andThen_ok [OF ok])
    fix fo and c1 :: "'a client" assume "cache_ok c1"
    then show "cache_ok (snd (andThen (add_child name ty fo z None c1) (\<lambda>_ c.
        case add_up (length (nodes_of c)) (curr_dir c) z (nodes_of c) of None \<Rightarrow> (Endless, c) | Some ns \<Rightarrow> (Done (), set_nodes ns c))))"
      by (intro andThen_keeps [where P = cache_ok]) (simp add: cache_ok_add_child, rule up)
  qed simp
  then show ?thesis using ok by (simp add: cache_Upload_def split: option.split)
qed

lemma cache_ok_enter:
  assumes "cache_ok c" "a < length (nodes_of c)"
  shows "cache_ok (snd (populateCurrentDirCache ops (ChangeCurrentFID fo (set_curr a c))))"
proof -
  have "cache_ok (ChangeCurrentFID fo (set_curr a c))" using assms by (simp add: cache_ok_def [of "set_curr a c"] cache_ok_def [of c])
  then show ?thesis unfolding populateCurrentDirCache_def by (intro cache_ok_populate cache_ok_curr)
qed

lemma cache_ok_child:
  "cache_ok c \<Longrightarrow> mget (kids (node_at c (curr_dir c))) s = Some a \<Longrightarrow> a < length (nodes_of c)"
  using links_okD(2) [OF nodes_ok_kids] by (fastforce simp: cache_ok_def node_at_def)

lemma cache_ok_parent: "cache_ok c \<Longrightarrow> a < length (nodes_of c) \<Longrightarrow> cn_parent (node_at c a) = Some p \<Longrightarrow> p < length (nodes_of c)"
  using nodes_ok_parent [of "nodes_of c" "root_dir c" a] by (cases "a = root_dir c") (auto simp: cache_ok_def node_at_def nodes_ok_def)

lemma cache_ok_go:
  assumes ok: "cache_ok c" and t: "\<And>c1. c_cache c1 = c_cache c \<Longrightarrow> t c1 < length (nodes_of c)"
  shows "cache_ok (snd (andThen (client_ChangeDirectory ops p c) (\<lambda>_ c. let c1 = set_curr (t c) c
      in populateCurrentDirCache ops (ChangeCurrentFID (cn_fid (node_at c1 (curr_dir c1))) c1))))"
    and "cache_ok (snd (andThen (client_ChangeDirectory ops p c) (\<lambda>_ c. let c1 = set_curr (t c) c
      in discard (populateCurrentDirCache ops (ChangeCurrentFID (cn_fid (node_at c1 (curr_dir c1))) c1)))))"
proof -
  have k: "cache_ok (snd (populateCurrentDirCache ops (ChangeCurrentFID fo (set_curr (t c1) c1))))"
    if "c_cache c1 = c_cache c" "cache_ok c1" for c1 fo
    by (rule cache_ok_enter [OF that(2)]) (use t [OF that(1)] that(1) in \<open>simp add: nodes_of_def\<close>)
  show "cache_ok (snd (andThen (client_ChangeDirectory ops p c) (\<lambda>_ c. let c1 = set_curr (t c) c
      in populateCurrentDirCache ops (ChangeCurrentFID (cn_fid (node_at c1 (curr_dir c1))) c1))))"
    by (rule andThen_ok [OF ok]) (simp_all only: Let_def k cache_ChangeDirectory_call)
  show "cache_ok (snd (andThen (client_ChangeDirectory ops p c) (\<lambda>_ c. let c1 = set_curr (t c) c
      in discard (populateCurrentDirCache ops (ChangeCurrentFID (cn_fid (node_at c1 (curr_dir c1))) c1)))))"
    by (rule andThen_ok [OF ok]) (simp_all only: Let_def k cache_ChangeDirectory_call cache_ok_discard)
qed

lemma cache_ok_ChangeDirectory: "cache_ok c \<Longrightarrow> cache_ok (snd (cache_ChangeDirectory ops s c))"
proof -
  assume ok: "cache_ok c"
  have dir: "curr_dir c1 = curr_dir c" "root_dir c1 = root_dir c" "nodes_of c1 = nodes_of c" if "c_cache c1 = c_cache c" for c1 :: "'a client"
    using that by (simp_all add: nodes_of_def)
  let ?up = "\<lambda>c1 :: 'a client. case cn_parent (node_at c1 (curr_dir c1)) of None \<Rightarrow> root_dir c1 | Some p \<Rightarrow> p"
  have up: "?up c1 < length (nodes_of c)" if "c_cache c1 = c_cache c" for c1 :: "'a client"
    using cache_ok_parent [OF ok cache_ok_curr [OF ok]] cache_ok_root [OF ok] by (auto simp: dir [OF that] node_at_def split: option.split)
  have root: "root_dir c1 < length (nodes_of c)" if "c_cache c1 = c_cache c" for c1 :: "'a client"
    using cache_ok_root [OF ok] by (simp add: that)
  note go = cache_ok_go(1) [where t = ?up, OF ok up] cache_ok_go(1) [where t = root_dir, OF ok root] cache_ok_go(2) [where t = "\<lambda>_. a" for a, OF ok cache_ok_child [OF ok]]
  show ?thesis using ok go by (simp add: cache_ChangeDirectory_def split: option.split)
qed


section \<open>The walks end\<close>

lemma fold_some:
  assumes "I (Some st)" "\<And>x st. x \<in> set xs \<Longrightarrow> I (Some st) \<Longrightarrow> \<exists>st'. f x (Some st) = Some st' \<and> I (Some st')"
  shows "\<exists>st'. fold f xs (Some st) = Some st' \<and> I (Some st')"
  using assms by (induction xs arbitrary: st) fastforce+

lemma kids_range: "nodes_ok ns r \<Longrightarrow> a < length ns \<Longrightarrow> (k, b) \<in> set (kids (ns ! a)) \<Longrightarrow> a < b \<and> b < length ns"
  using nodes_ok_kids [of ns r a] mget_iff_in_set [of "kids (ns ! a)" k b] by (auto simp: links_ok_def)

lemma add_up_returns: "nodes_ok ns r \<Longrightarrow> a < length ns \<Longrightarrow> a < k \<Longrightarrow> add_up k a d ns \<noteq> None"
proof (induction k arbitrary: a ns)
  case (Suc k)
  let ?ns1 = "ns[a := (ns ! a)\<lparr>cn_Size := cn_Size (ns ! a) + d\<rparr>]"
  have ok1: "nodes_ok ?ns1 r" using Suc.prems(1) nodes_ok_kids [OF Suc.prems(1)] by (intro cnodes_ok_update) simp_all
  have "p < a" if "cn_parent (ns ! a) = Some p" for p
    using nodes_ok_parent [OF Suc.prems(1,2)] Suc.prems(1) that by (cases "a = r") (auto simp: nodes_ok_def)
  then show ?case using Suc.IH [OF ok1] Suc.prems by (auto simp: Let_def split: option.split)
qed simp

lemma path_up_returns:
  "nodes_ok ns r \<Longrightarrow> a < length ns \<Longrightarrow> a < k \<Longrightarrow> \<exists>p. path_up k ns r a acc = Done p"
proof (induction k arbitrary: a acc)
  case (Suc k)
  show ?case
  proof (cases "a = r")
    case False
    from nodes_ok_parent [OF Suc.prems(1,2) False] obtain p where "p < a" "cn_parent (ns ! a) = Some p" by blast
    with Suc False show ?thesis by simp
  qed simp
qed simp

lemma findNodeByFID_returns:
  "nodes_ok ns r \<Longrightarrow> a < length ns \<Longrightarrow> length ns - a < k \<Longrightarrow> \<exists>x. findNodeByFID k ns f a path = Some x"
proof (induction k arbitrary: a path)
  case (Suc k)
  have child: "\<exists>x. findNodeByFID k ns f b q = Some x" if "(key, b) \<in> set (kids (ns ! a))" for key b q
    using kids_range [OF Suc.prems(1,2) that] Suc.prems(3) by (intro Suc.IH [OF Suc.prems(1)]) (simp, linarith)
  have "\<exists>st'. fold (\<lambda>(key, b) r. case r of Some None \<Rightarrow> findNodeByFID k ns f b (path @ ''/'' @ cn_Name (ns ! b)) | _ \<Rightarrow> r)
      (kids (ns ! a)) (Some None) = Some st' \<and> True"
  proof (rule fold_some [where I = "\<lambda>_. True"])
    fix x st assume "x \<in> set (kids (ns ! a))"
    with child show "\<exists>st'. (case x of (key, b) \<Rightarrow> \<lambda>r. case r of Some None \<Rightarrow> findNodeByFID k ns f b (path @ ''/'' @ cn_Name (ns ! b)) | _ \<Rightarrow> r) (Some st) = Some st' \<and> True"
      by (cases x; cases st) auto
  qed simp
  then show ?case by auto
qed simp

lemma recursiveDelete_returns:
  "nodes_ok ns r \<Longrightarrow> a < length ns \<Longrightarrow> length ns - a < k \<Longrightarrow>
   \<exists>st'. recursiveDelete k env a (ns, d) = Some st' \<and> nodes_ok (fst st') r \<and> length (fst st') = length ns"
proof (induction k arbitrary: a ns d)
  case (Suc k)
  let ?step = "\<lambda>(key, b) sto. case sto of None \<Rightarrow> None
     | Some (ns, d) \<Rightarrow>
         (let ns1 = ns[a := (ns ! a)\<lparr>cn_children := map_option (mdel (cn_Name (ns ! b))) (cn_children (ns ! a))\<rparr>] in
          if cn_Type (ns ! b) = InodeTypeFile \<and> cn_contentCached (ns ! b)
          then Some (ns1, snd (os_Remove (ce_err env) (Clean (cache_path (cn_contentUID (ns ! b)))) d))
          else if cn_Type (ns ! b) = InodeTypeDirectory then recursiveDelete k env b (ns1, d)
          else Some (ns1, d))"
  let ?I = "\<lambda>sto. case sto of None \<Rightarrow> False | Some st \<Rightarrow> nodes_ok (fst st) r \<and> length (fst st) = length ns"
  have "\<exists>st'. fold ?step (kids (ns ! a)) (Some (ns, d)) = Some st' \<and> ?I (Some st')"
  proof (rule fold_some [where I = ?I])
    show "?I (Some (ns, d))" using Suc.prems by simp
    fix x and st :: "cnode list \<times> local_disk" assume x: "x \<in> set (kids (ns ! a))" and I: "?I (Some st)"
    obtain key b ns0 d0 where eq: "x = (key, b)" "st = (ns0, d0)" by (cases x; cases st)
    have b: "a < b" "b < length ns" using kids_range [OF Suc.prems(1,2)] x eq by blast+
    let ?ns1 = "ns0[a := (ns0 ! a)\<lparr>cn_children := map_option (mdel (cn_Name (ns0 ! b))) (cn_children (ns0 ! a))\<rparr>]"
    have ok1: "nodes_ok ?ns1 r" "length ?ns1 = length ns" using I by (simp_all add: eq nodes_ok_unlink)
    have "b < length ?ns1" "length ?ns1 - b < k" using b Suc.prems(3) unfolding ok1(2) by linarith+
    from Suc.IH [OF ok1(1) this, of d0] ok1 show "\<exists>st'. ?step x (Some st) = Some st' \<and> ?I (Some st')" by (auto simp: eq Let_def)
  qed
  then show ?case by simp
qed simp


section \<open>The other operations\<close>

lemma cache_ok_DeleteFile: "cache_ok c \<Longrightarrow> cache_ok (snd (cache_DeleteFile env ops s rec c))"
proof -
  assume ok: "cache_ok c"
  let ?del = "\<lambda>c. case mget (kids (node_at c (curr_dir c))) s of
       None \<Rightarrow> (Done (), c)
     | Some a \<Rightarrow>
         if rec \<and> cn_Type (node_at c a) = InodeTypeDirectory then
           (case recursiveDelete (Suc (length (nodes_of c))) env a (nodes_of c, c_disk c) of
              None \<Rightarrow> (Endless, c)
            | Some (ns, d) \<Rightarrow> (Done (), drop_child (curr_dir c) s ((set_nodes ns c)\<lparr>c_disk := d\<rparr>)))
         else (Done (), drop_child (curr_dir c) s c)"
  have "cache_ok (snd (?del c1))" if ok1: "cache_ok c1" for c1 :: "'a client"
  proof (cases "mget (kids (node_at c1 (curr_dir c1))) s")
    case (Some a)
    have a: "a < length (nodes_of c1)" by (rule cache_ok_child [OF ok1 Some])
    have "length (nodes_of c1) - a < Suc (length (nodes_of c1))" by linarith
    then obtain ns d where rd: "recursiveDelete (Suc (length (nodes_of c1))) env a (nodes_of c1, c_disk c1) = Some (ns, d)"
      and ns: "nodes_ok ns (root_dir c1)" "length ns = length (nodes_of c1)"
      using recursiveDelete_returns [of "nodes_of c1" "root_dir c1" a "Suc (length (nodes_of c1))" env "c_disk c1"] a ok1
      by (auto simp: cache_ok_def simp del: recursiveDelete.simps)
    have "cache_ok ((set_nodes ns c1)\<lparr>c_disk := d\<rparr>)" using ns ok1 by (simp, simp add: cache_ok_def)
    then show ?thesis using ok1 by (simp add: Some rd cache_ok_drop del: recursiveDelete.simps)
  qed (use ok1 in simp)
  note del = this
  show ?thesis unfolding cache_DeleteFile_def by (rule andThen_ok [OF ok], simp, rule del)
qed

lemma cache_ok_TrashFile: "cache_ok c \<Longrightarrow> cache_ok (snd (cache_TrashFile ops s rec c))"
  unfolding cache_TrashFile_def by (erule andThen_ok) (simp_all add: cache_ok_drop)

lemma cache_ok_RestoreFile: "cache_ok c \<Longrightarrow> cache_ok (snd (cache_RestoreFile ops s c))"
proof -
  assume ok: "cache_ok c"
  have "cache_ok (snd (populateNodeCache ops (root_dir c1) c1))" if "cache_ok c1" for c1 :: "'a client"
    using that by (intro cache_ok_populate cache_ok_root)
  then show ?thesis unfolding cache_RestoreFile_def
    by (intro andThen_ok [OF ok]) (simp_all add: Let_def cache_ok_drop)
qed

lemma cache_ok_then_root: "cache_ok (snd m) \<Longrightarrow> cache_ok (snd (then_root ops m))"
proof -
  assume ok: "cache_ok (snd m)"
  then have "cache_ok (snd (discard (populateNodeCache ops (root_dir (snd m)) (snd m))))"
    by (simp add: cache_ok_populate cache_ok_root)
  with ok show ?thesis by (cases m; cases "fst m") (simp_all add: then_root_def)
qed

lemma cache_ok_set_root: "cache_ok c \<Longrightarrow> cache_ok (set_root_fid fo c)"
proof -
  assume ok: "cache_ok c"
  have "set_root_fid fo c = upd_node (root_dir c) (\<lambda>n. n\<lparr>cn_fid := fo\<rparr>) c"
    by (simp add: set_root_fid_def upd_node_def set_nodes_def node_at_def nodes_of_def Let_def)
  then show ?thesis using cache_ok_upd [OF ok, of "\<lambda>n. n\<lparr>cn_fid := fo\<rparr>"] by simp
qed

lemma cache_ok_adopt: "cache_ok c \<Longrightarrow> cache_ok (adopt_root r t c)"
  by (simp add: adopt_root_def Let_def cache_ok_set_root)

lemma cache_ok_sync: "cache_ok c \<Longrightarrow> cache_ok (snd (sync_directory ops r c))"
  using cache_ok_keeps [of c "client_ChangeDirectory ops ''.'' c"] cache_ChangeDirectory_call [of ops "''.''" c]
  by (cases "client_ChangeDirectory ops ''.'' c") (simp add: sync_directory_def split: option.split cres.split)

lemma cache_ok_ReRegister: "cache_ok c \<Longrightarrow> cache_ok (snd (ReRegister ops c))"
  unfolding ReRegister_def register_call_def
  by (simp, intro impI, erule andThen_ok) (simp_all add: cache_ok_adopt cache_ok_sync split: prod.split option.split)

lemma cache_ok_Refresh: "cache_ok c \<Longrightarrow> cache_ok (snd (Refresh ops c))"
  unfolding Refresh_def populateCurrentDirCache_def
  by (rule andThen_keeps [where P = cache_ok]) (simp_all add: cache_ok_ReRegister cache_ok_populate cache_ok_curr)

lemma cache_ok_Invalidate: "cache_ok c \<Longrightarrow> cache_ok (snd (Invalidate env fo v c))"
proof -
  assume ok: "cache_ok c"
  have "cache_ok (snd (InvalidateFileByFID env fo c))"
    using ok by (auto simp: InvalidateFileByFID_def Let_def intro!: cache_ok_upd simp del: findNodeByFID.simps split: option.split)
  then show ?thesis using ok unfolding Invalidate_def
    by (auto simp: Let_def Notify_def split: option.split intro!: andThen_keeps [where P = cache_ok])
qed

lemma cache_ok_ClearCache: "cache_ok c \<Longrightarrow> cache_ok (ClearCache env c)"
  by (simp add: ClearCache_def Let_def split: option.split)


section \<open>Runs\<close>

text \<open>
  The user's commands and the callbacks of the server, in any order, with any behaviour of the server and
  of the local system in each of them.
\<close>

datatype cache_op =
    DoRead string | DoMkdir string | DoCreate string | DoUpload string | DoCd string | DoRefresh | DoDelete string bool
  | DoTrash string bool | DoRestore string | DoClearTrash | DoDeleteFromTrash string | DoClearCache
  | DoInvalidate "fid option" u64

fun cache_exec :: "client_env \<Rightarrow> 'w file_rpcs \<Rightarrow> cache_op \<Rightarrow> 'w client \<Rightarrow> 'w client" where
  "cache_exec env ops (DoRead s) c = snd (cache_ReadFile env ops s c)"
| "cache_exec env ops (DoMkdir s) c = snd (cache_CreateDirectory ops s c)"
| "cache_exec env ops (DoCreate s) c = snd (cache_CreateFile ops s c)"
| "cache_exec env ops (DoUpload s) c = snd (cache_Upload env ops s c)"
| "cache_exec env ops (DoCd s) c = snd (cache_ChangeDirectory ops s c)"
| "cache_exec env ops DoRefresh c = snd (Refresh ops c)"
| "cache_exec env ops (DoDelete s b) c = snd (cache_DeleteFile env ops s b c)"
| "cache_exec env ops (DoTrash s b) c = snd (cache_TrashFile ops s b c)"
| "cache_exec env ops (DoRestore s) c = snd (cache_RestoreFile ops s c)"
| "cache_exec env ops DoClearTrash c = snd (cache_ClearTrash ops c)"
| "cache_exec env ops (DoDeleteFromTrash s) c = snd (cache_DeleteFromTrash ops s c)"
| "cache_exec env ops DoClearCache c = ClearCache env c"
| "cache_exec env ops (DoInvalidate fo v) c = snd (Invalidate env fo v c)"

inductive cache_step :: "'w client \<Rightarrow> client_env \<times> 'w file_rpcs \<times> cache_op \<Rightarrow> 'w client \<Rightarrow> bool" where
  cache_step: "cache_step c (env, ops, op) (cache_exec env ops op c)"

inductive_cases cache_stepE: "cache_step c l c'"

lemma cache_exec_ok: "cache_ok c \<Longrightarrow> cache_ok (cache_exec env ops op c)"
  by (cases op)
    (simp_all add: cache_ok_ReadFile cache_ok_CreateDirectory cache_ok_CreateFile cache_ok_Upload cache_ok_ChangeDirectory
      cache_ok_Refresh cache_ok_DeleteFile cache_ok_TrashFile cache_ok_RestoreFile cache_ok_ClearCache cache_ok_Invalidate
      cache_ClearTrash_def cache_DeleteFromTrash_def cache_ok_then_root cache_ok_keeps)

interpretation caching: op_system cache_step cache_ok
  by unfold_locales (auto elim!: cache_stepE intro: cache_exec_ok)

lemma cache_ok_attach [simp]: "cache_ok (AttachCacheHandler c) = cache_ok c"
  by (simp add: AttachCacheHandler_def cache_ok_def nodes_of_def)

lemma reachable_cache_ok:
  "fst (NewCacheHandler ops fo c0) = Done () \<Longrightarrow> reaches cache_step (AttachCacheHandler (snd (NewCacheHandler ops fo c0))) c \<Longrightarrow> cache_ok c"
  using caching.reaches_inv cache_ok_new cache_ok_attach by blast

lemma Path_returns: "cache_ok c \<Longrightarrow> \<exists>p. cache_Path c = Done p"
proof -
  assume ok: "cache_ok c"
  have "\<exists>p. path_up (Suc (length (nodes_of c))) (nodes_of c) (root_dir c) (curr_dir c) [] = Done p"
    by (rule path_up_returns) (use ok in \<open>simp_all add: cache_ok_def\<close>)
  then show ?thesis by (auto simp: cache_Path_def Let_def simp del: path_up.simps)
qed

lemma Invalidate_returns: "cache_ok c \<Longrightarrow> \<exists>r. fst (Invalidate env fo v c) = Done r"
proof -
  assume ok: "cache_ok c"
  have "\<exists>x. findNodeByFID (Suc (length (nodes_of c))) (nodes_of c) f (root_dir c) path = Some x" for f path
    by (rule findNodeByFID_returns [where r = "root_dir c"]) (use ok in \<open>simp add: cache_ok_def\<close>, rule cache_ok_root [OF ok], linarith)
  note found = this
  have "\<exists>p. fst (InvalidateFileByFID env fo c) = Done p"
  proof (cases fo)
    case (Some f)
    obtain x where x: "findNodeByFID (Suc (length (nodes_of c))) (nodes_of c) f (root_dir c) (cn_Name (node_at c (root_dir c))) = Some x"
      using found by blast
    then show ?thesis by (cases x) (auto simp: InvalidateFileByFID_def Some Let_def simp del: findNodeByFID.simps)
  qed (simp add: InvalidateFileByFID_def)
  then show ?thesis by (cases fo) (auto simp: Invalidate_def Let_def andThen_def split: prod.split)
qed


section \<open>Contents\<close>

lemma Split_plain: "plain u \<Longrightarrow> Split u = [u]"
  using Split_join [of False "[u]"] by (simp add: normal_plain)

lemma cache_comps:
  assumes "plain u" shows "clean_comps False (Split (cache_path u)) = [''.cache'', u]"
proof -
  have "Split (cache_path u) = split_at slash ''./.cache'' @ Split u"
    using split_at_append_gen [of slash "''./.cache''" u] by (simp add: cache_path_def CacheDir_def Split_def)
  then have "Split (cache_path u) = [''.'', ''.cache'', u]" using Split_plain [OF assms] by simp
  then show ?thesis using assms by (simp add: clean_comps_def clean_step_def plain_def)
qed

lemma cache_file:
  assumes "plain u"
  shows "Clean (cache_path u) = ''.cache/'' @ u" "Join [CacheDir, u] = ''.cache/'' @ u" "dir_of (''.cache/'' @ u) = ''.cache''"
proof -
  have cs: "normal False [''.cache'', u]" by (rule normal_plain) (use assms in \<open>simp add: plain_def\<close>)
  have r: "render False [''.cache'', u] = ''.cache/'' @ u" by (simp add: render_def)
  have "\<not> IsAbs (cache_path u)" "cache_path u \<noteq> []" by (simp_all add: cache_path_def CacheDir_def IsAbs_def HasPrefix_def)
  then show "Clean (cache_path u) = ''.cache/'' @ u" using r by (simp add: Clean_def cache_comps [OF assms])
  have "Join [CacheDir, u] = Clean (cache_path u)"
    using assms by (simp add: Join_def cache_path_def CacheDir_def plain_def Let_def)
  then show "Join [CacheDir, u] = ''.cache/'' @ u" using \<open>Clean (cache_path u) = ''.cache/'' @ u\<close> by simp
  have "clean_comps False (Split (render False [''.cache'', u])) = [''.cache'', u]"
    using foldl_clean_render [OF cs] by (simp add: clean_comps_def)
  then show "dir_of (''.cache/'' @ u) = ''.cache''"
    by (simp add: dir_of_def r [symmetric] IsAbs_def HasPrefix_def render_def)
qed


lemma overlay_at_end: "overlay (length bs) dt bs = bs @ dt"
  by (simp add: overlay_def)

lemma unat_advance:
  assumes "unat (off :: u64) + n < 2 ^ 63" shows "unat (off + word_of_nat n) = unat off + n" "sint off = int (unat off)"
proof -
  have "unat (word_of_nat n :: u64) = n" using assms by (intro unat_small) simp
  moreover have "unat off + n < 2 ^ LENGTH(64)" using assms by simp
  ultimately show "unat (off + word_of_nat n) = unat off + n" by (simp add: unat_word_ariths)
  show "sint off = int (unat off)" using sint_small [of "unat off"] assms by simp
qed

text \<open>A download puts the file together again.\<close>

lemma write_read_chunks:
  assumes "\<And>x. \<not> ce_err env x" "0 < cs"
  shows "unat off + length bs < 2 ^ 63 \<Longrightarrow> mget d path = Some (DFile ct) \<Longrightarrow> length (content_bytes no_json ct) = unat off \<Longrightarrow>
    \<exists>d' ct'. write_chunks env path (read_chunks cs off bs) d = (True, d') \<and> mget d' path = Some (DFile ct')
      \<and> content_bytes no_json ct' = content_bytes no_json ct @ bs"
  using assms(2)
proof (induction cs off bs arbitrary: d ct rule: read_chunks.induct)
  case (1 cs off bs)
  show ?case
  proof (cases "bs = []")
    case True
    with 1 show ?thesis by (simp add: read_chunks.simps)
  next
    case False
    let ?ch = "take cs bs"
    have ch: "?ch \<noteq> []" using False 1 by simp
    have fit: "unat off + length ?ch < 2 ^ 63" using 1(2) by simp
    note adv = unat_advance [OF fit]
    have "int (unat off + length ?ch) < int (2 ^ 63)" using fit by (simp only: of_nat_less_iff)
    then have fit': "\<not> 2 ^ 63 \<le> uint off + int (length ?ch)" by simp
    let ?d = "mput path (DFile (Raw (content_bytes no_json ct @ ?ch))) d"
    have "os_WriteAt (ce_err env) no_json (ce_short env) path ?ch (sint off) d = (True, ?d)"
      using 1(2-4) ch fit' assms(1) overlay_at_end [of "content_bytes no_json ct" ?ch] by (simp add: os_WriteAt_def adv Let_def)
    moreover have "\<exists>d' ct'. write_chunks env path (read_chunks cs (off + word_of_nat (length ?ch)) (drop cs bs)) ?d = (True, d')
        \<and> mget d' path = Some (DFile ct') \<and> content_bytes no_json ct' = content_bytes no_json (Raw (content_bytes no_json ct @ ?ch)) @ drop cs bs"
    proof (rule 1(1))
      show "\<not> (bs = [] \<or> cs = 0)" using False 1 by simp
      have "length ?ch + length (drop cs bs) = length bs" by simp
      then show "unat (off + word_of_nat (length ?ch)) + length (drop cs bs) < 2 ^ 63" unfolding adv(1) using 1(2) by linarith
      show "length (content_bytes no_json (Raw (content_bytes no_json ct @ ?ch))) = unat (off + word_of_nat (length ?ch))"
        unfolding adv(1) using 1(4) by (simp add: content_bytes_def)
    qed (use 1 in simp_all)
    ultimately show ?thesis using False 1(5) by (simp add: read_chunks.simps [of cs off bs] content_bytes_def)
  qed
qed

text \<open>A read that finds nothing in the cache fetches the file.\<close>

lemma ReadFile_fetches:
  assumes ok: "cache_ok c" and child: "mget (kids (node_at c (curr_dir c))) s = Some a"
    and n: "cn_Type (node_at c a) = InodeTypeFile" "\<not> cn_contentCached (node_at c a)"
    and dir: "cn_fid (node_at c (curr_dir c)) = Some p" "c_connected c"
    and srv: "rpc_DownloadFile ops p s (c_server c) = ((read_chunks cs 0 bs, True), w)" "0 < cs" "length bs < 2 ^ 63"
    and sys: "\<And>x. \<not> ce_err env x" "plain (ce_uid env)"
      "mget (c_disk c) ''.cache'' \<in> {None, Some DDir}" "\<not> is_dir (c_disk c) (''.cache/'' @ ce_uid env)"
  shows "\<exists>c'. cache_ReadFile env ops s c = (Done bs, c') \<and> c_server c' = w"
proof -
  let ?u = "ce_uid env" and ?path = "''.cache/'' @ ce_uid env"
  note paths = cache_file [OF sys(2)]
  have a: "a < length (nodes_of c)" "curr_dir c < a"
    using cache_ok_child [OF ok child] links_okD(1) [OF nodes_ok_kids child [unfolded node_at_def]] ok by (auto simp: cache_ok_def)
  define c1 where "c1 = upd_node a (\<lambda>n. n\<lparr>cn_contentUID := ?u\<rparr>) c"
  have c1: "curr_dir c1 = curr_dir c" "node_at c1 (curr_dir c) = node_at c (curr_dir c)" "c_connected c1" "c_server c1 = c_server c" "c_disk c1 = c_disk c"
    using a dir by (simp_all add: c1_def upd_node_def set_nodes_def node_at_def nodes_of_def)
  have anc: "ancestors ''.cache'' = [''.cache'']" "Clean CacheDir = ''.cache''" by code_simp+
  define d1 where "d1 = mput ''.cache'' DDir (c_disk c)"
  have mk: "os_MkdirAll (ce_err env) (Clean CacheDir) (c_disk c) = (True, d1)"
    using sys by (auto simp: os_MkdirAll_def anc d1_def is_dir_def)
  define d2 where "d2 = mput ?path (DFile (Raw [])) d1"
  have "?path \<noteq> ''.cache''" using sys(2) by (simp add: plain_def)
  then have cr: "os_Create (ce_err env) ?path d1 = (True, d2)"
    using sys paths(3) by (simp add: os_Create_def d2_def d1_def is_dir_def)
  obtain d3 ct where w: "write_chunks env ?path (read_chunks cs 0 bs) d2 = (True, d3)" "mget d3 ?path = Some (DFile ct)"
    "content_bytes no_json ct = bs"
    using write_read_chunks [of env cs 0 bs d2 ?path "Raw []", OF sys(1) srv(2)] srv(3)
    by (auto simp: d2_def content_bytes_def)
  define c3 where "c3 = c1\<lparr>c_server := w, c_disk := d3\<rparr>"
  have dl: "downloadFileInternalAs env ops (Some p) s CacheDir ?u c1 = (Done (), c3)"
    using mk cr w(1) srv(1) c1 by (simp add: downloadFileInternalAs_def andThen_def proto_def rpc_def Let_def paths c3_def)
  have rd: "read_local env (cache_path ?u) (upd_node a g c3) = (Done bs, upd_node a g c3)" for g
    using w sys(1) by (simp add: read_local_def paths os_ReadFile_def upd_node_def c3_def)
  have "cache_ReadFile env ops s c = (Done bs, upd_node a (\<lambda>n. n\<lparr>cn_contentCached := True\<rparr>) c3)"
    using child n dl c1 dir rd by (simp add: cache_ReadFile_def Let_def c1_def [symmetric] andThen_def)
  then show ?thesis by (simp add: c3_def upd_node_def)
qed

end
