(* ===== verification/Cache_Coherence.thy ===== *)
theory Cache_Coherence
  imports Client_Cache
begin

text \<open>
  What the cache of the client promises: its walks end, a file that was read is read again from the local
  copy, and a file the server invalidated is fetched anew. And where it fails: a refresh keeps the local copy
  of a file that was replaced on the server, and a directory that was just uploaded can bring the client down.
\<close>

section \<open>Walks\<close>

lemma rpc_ends: "fst (rpc call c) \<noteq> Endless"
  by (simp add: rpc_def split: prod.split option.split)

lemma andThen_ends:
  "fst m \<noteq> Endless \<Longrightarrow> (\<And>x c. m = (Done x, c) \<Longrightarrow> fst (k x c) \<noteq> Endless) \<Longrightarrow> fst (andThen m k) \<noteq> Endless"
  by (auto simp: andThen_def split: prod.splits cres.splits)

lemma client_DeleteFile_ends: "fst (client_DeleteFile ops s rec c) \<noteq> Endless"
  unfolding client_DeleteFile_def on_listed_def client_ListFiles_def ListFilesAt_def
  by (rule andThen_ends) (auto simp: rpc_ends split: option.split)

lemma cache_DeleteFile_ends:
  assumes ok: "cache_ok c" shows "fst (cache_DeleteFile env ops s rec c) \<noteq> Endless"
  unfolding cache_DeleteFile_def
proof (rule andThen_ends [OF client_DeleteFile_ends])
  fix x c1 assume d: "client_DeleteFile ops s rec c = (Done x, c1)"
  then have ok1: "cache_ok c1" using cache_ok_keeps [OF ok cache_client_DeleteFile, of ops s rec] by simp
  have "\<exists>st. recursiveDelete (Suc (length (nodes_of c1))) env a (nodes_of c1, c_disk c1) = Some st"
    if "mget (kids (node_at c1 (curr_dir c1))) s = Some a" for a
    using recursiveDelete_returns [of "nodes_of c1" "root_dir c1" a "Suc (length (nodes_of c1))" env "c_disk c1"]
      cache_ok_child [OF ok1 that] ok1 by (auto simp: cache_ok_def less_Suc_eq_le simp del: recursiveDelete.simps)
  note ends = this
  show "fst (case mget (kids (node_at c1 (curr_dir c1))) s of
       None \<Rightarrow> (Done (), c1)
     | Some a \<Rightarrow>
         if rec \<and> cn_Type (node_at c1 a) = InodeTypeDirectory then
           (case recursiveDelete (Suc (length (nodes_of c1))) env a (nodes_of c1, c_disk c1) of
              None \<Rightarrow> (Endless, c1)
            | Some (ns, d) \<Rightarrow> (Done (), drop_child (curr_dir c1) s ((set_nodes ns c1)\<lparr>c_disk := d\<rparr>)))
         else (Done (), drop_child (curr_dir c1) s c1)) \<noteq> Endless"
  proof (cases "mget (kids (node_at c1 (curr_dir c1))) s")
    case (Some a)
    with ends obtain st where "recursiveDelete (Suc (length (nodes_of c1))) env a (nodes_of c1, c_disk c1) = Some st" by blast
    then show ?thesis by (cases st) (simp add: Some del: recursiveDelete.simps)
  qed simp
qed

section \<open>Reading\<close>

lemma read_local_again:
  assumes "read_local env p c = (Done d, c')" "\<not> ce_err env' (CReadFile (Clean p))"
  shows "c' = c \<and> read_local env' p c = (Done d, c)"
  using assms by (auto simp: read_local_def os_ReadFile_def split: if_splits option.splits disk_node.splits)

lemma node_upd:
  assumes "a < length (nodes_of c)"
  shows "node_at (upd_node a g c) b = (if b = a then g (node_at c a) else node_at c b)"
    "curr_dir (upd_node a g c) = curr_dir c"
  using assms by (auto simp: upd_node_def node_at_def)

lemma read_again:
  assumes ok: "cache_ok c" and rd: "cache_ReadFile env ops s c = (Done d, c1)" and env': "\<And>p. \<not> ce_err env' (CReadFile p)"
  shows "cache_ReadFile env' ops' s c1 = (Done d, c1)"
proof -
  from rd obtain a where a: "mget (kids (node_at c (curr_dir c))) s = Some a" and ty: "cn_Type (node_at c a) = InodeTypeFile"
    by (auto simp: cache_ReadFile_def Let_def split: option.splits if_splits)
  have len: "a < length (nodes_of c)" by (rule cache_ok_child [OF ok a])
  show ?thesis
  proof (cases "cn_contentCached (node_at c a)")
    case True
    with rd a ty have "read_local env (cache_path (cn_contentUID (node_at c a))) c = (Done d, c1)" by (simp add: cache_ReadFile_def)
    from read_local_again [OF this env'] True a ty show ?thesis by (simp add: cache_ReadFile_def)
  next
    case False
    define c0 where "c0 = upd_node a (\<lambda>n. n\<lparr>cn_contentUID := ce_uid env\<rparr>) c"
    let ?dl = "downloadFileInternalAs env ops (cn_fid (node_at c0 (curr_dir c0))) s CacheDir (ce_uid env) c0"
    from rd a ty False obtain c2 where dl: "?dl = (Done (), c2)"
      and rl: "read_local env (cache_path (ce_uid env)) (upd_node a (\<lambda>n. n\<lparr>cn_contentCached := True\<rparr>) c2) = (Done d, c1)"
      by (auto simp: cache_ReadFile_def Let_def c0_def [symmetric] andThen_def split: prod.splits cres.splits)
    have cc: "c_cache c2 = c_cache c0"
      using cache_downloadFileInternalAs [of env ops _ s CacheDir "ce_uid env" c0] dl by (metis snd_conv)
    have same: "nodes_of c2 = nodes_of c0" "curr_dir c2 = curr_dir c" using cc len by (simp_all add: nodes_of_def c0_def node_upd)
    have len2: "a < length (nodes_of c2)" using len same by (simp add: c0_def upd_node_def)
    have c1: "c1 = upd_node a (\<lambda>n. n\<lparr>cn_contentCached := True\<rparr>) c2" and again: "read_local env' (cache_path (ce_uid env)) c1 = (Done d, c1)"
      using read_local_again [OF rl env'] by auto
    have n0: "node_at c2 b = (if b = a then (node_at c a)\<lparr>cn_contentUID := ce_uid env\<rparr> else node_at c b)" for b
      using node_upd(1) [OF len, of "\<lambda>n. n\<lparr>cn_contentUID := ce_uid env\<rparr>" b] same by (simp add: c0_def node_at_def)
    have n1: "node_at c1 b = (if b = a then (node_at c a)\<lparr>cn_contentUID := ce_uid env, cn_contentCached := True\<rparr> else node_at c b)" for b
      using node_upd(1) [OF len2, of "\<lambda>n. n\<lparr>cn_contentCached := True\<rparr>" b] n0 by (simp add: c1)
    have curr: "curr_dir c1 = curr_dir c" using node_upd(2) [OF len2] same by (simp add: c1)
    have k: "kids (node_at c1 (curr_dir c1)) = kids (node_at c (curr_dir c))" by (simp add: n1 curr)
    show ?thesis using a ty again by (simp add: cache_ReadFile_def k) (simp add: n1)
  qed
qed

text \<open>After a read the file is marked as cached.\<close>

lemma read_marks:
  assumes ok: "cache_ok c" and rd: "cache_ReadFile env ops s c = (Done d, c1)"
    and e: "mget (kids (node_at c1 (curr_dir c1))) s = Some e"
  shows "cn_contentCached (node_at c1 e)"
proof (rule ccontr)
  assume not: "\<not> cn_contentCached (node_at c1 e)"
  let ?env = "env\<lparr>ce_err := \<lambda>x. \<exists>p. x = CMkdirAll p\<rparr>"
  have "cache_ReadFile ?env ops s c1 = (Done d, c1)" by (rule read_again [OF ok rd]) simp
  with e not show False
    by (auto simp: cache_ReadFile_def Let_def andThen_def downloadFileInternalAs_def os_MkdirAll_def
        split: if_splits prod.splits cres.splits)
qed

section \<open>Invalidation\<close>

lemma findNode_sound:
  "nodes_ok ns r \<Longrightarrow> a < length ns \<Longrightarrow> findNodeByFID k ns f a path = Some (Some (b, q)) \<Longrightarrow>
   b < length ns \<and> (\<exists>g. cn_fid (ns ! b) = Some g \<and> FID_String g = FID_String f)"
proof (induction k arbitrary: a path b q)
  case (Suc k)
  let ?hit = "\<lambda>b. b < length ns \<and> (\<exists>g. cn_fid (ns ! b) = Some g \<and> FID_String g = FID_String f)"
  let ?step = "\<lambda>(key, b) r. case r of Some None \<Rightarrow> findNodeByFID k ns f b (path @ ''/'' @ cn_Name (ns ! b)) | _ \<Rightarrow> r"
  show ?case
  proof (cases "cn_fid (ns ! a) \<noteq> None \<and> FID_String (the (cn_fid (ns ! a))) = FID_String f")
    case True
    with Suc.prems show ?thesis by auto
  next
    case False
    have fd: "fold ?step (kids (ns ! a)) (Some None) = Some (Some (b, q))"
      using Suc.prems(3) unfolding findNodeByFID.simps if_not_P [OF False] .
    have "\<forall>b' q'. fold ?step xs x = Some (Some (b', q')) \<longrightarrow> ?hit b'"
      if "set xs \<subseteq> set (kids (ns ! a))" "\<forall>b' q'. x = Some (Some (b', q')) \<longrightarrow> ?hit b'" for xs x
      using that
    proof (induction xs arbitrary: x)
      case (Cons e xs)
      obtain key d where e: "e = (key, d)" by (cases e)
      then have d: "d < length ns" using Cons.prems(1) kids_range [OF Suc.prems(1,2)] by auto
      have "\<forall>b' q'. ?step e x = Some (Some (b', q')) \<longrightarrow> ?hit b'"
        using Cons.prems(2) Suc.IH [OF Suc.prems(1) d] by (cases x) (auto simp: e split: option.splits)
      with Cons.IH [of "?step e x"] Cons.prems(1) show ?case by simp
    qed simp
    from this [of "kids (ns ! a)" "Some None"] fd show ?thesis by auto
  qed
qed simp

text \<open>What is left of a file node that a callback has invalidated.\<close>

lemma Invalidate_clears:
  assumes ok: "cache_ok c" and att: "c_cacheHandler c"
    and hit: "fst (InvalidateFileByFID env (Some f) c) = Done (Some place)"
    and uniq: "\<And>b g. b < length (nodes_of c) \<Longrightarrow> cn_fid (node_at c b) = Some g \<Longrightarrow> FID_String g = FID_String f \<Longrightarrow> b = a"
    and c1: "c1 = snd (Invalidate env (Some f) v c)"
  shows "a < length (nodes_of c)" "curr_dir c1 = curr_dir c" "c_server c1 = c_server c" "c_connected c1 = c_connected c"
    and "node_at c1 b = (if b = a \<and> cn_Type (node_at c a) = InodeTypeFile
           then (node_at c a)\<lparr>cn_contentCached := False, cn_contentUID := []\<rparr> else node_at c b)"
proof -
  let ?find = "findNodeByFID (Suc (length (nodes_of c))) (nodes_of c) f (root_dir c) (cn_Name (node_at c (root_dir c)))"
  from hit obtain x q where fd: "?find = Some (Some (x, q))"
    by (auto simp: InvalidateFileByFID_def Let_def simp del: findNodeByFID.simps split: option.splits)
  have ns: "nodes_ok (nodes_of c) (root_dir c)" using ok by (simp add: cache_ok_def)
  have x: "x < length (nodes_of c) \<and> (\<exists>g. cn_fid (nodes_of c ! x) = Some g \<and> FID_String g = FID_String f)"
    by (rule findNode_sound [OF ns cache_ok_root [OF ok] fd])
  then have xa: "x = a" using uniq by (auto simp: node_at_def)
  with x show len: "a < length (nodes_of c)" by simp
  obtain d where iv: "snd (InvalidateFileByFID env (Some f) c) =
      (if cn_Type (node_at c a) = InodeTypeFile
       then upd_node a (\<lambda>n. n\<lparr>cn_contentCached := False, cn_contentUID := []\<rparr>) (c\<lparr>c_disk := d\<rparr>) else c)"
    by (cases "cn_Type (node_at c a) = InodeTypeFile")
      (auto simp: InvalidateFileByFID_def fd xa Let_def simp del: findNodeByFID.simps)
  have "c1 = Notify (notice (if v = 0 then callbackEventFileUpdated else v) f (Some place)) (snd (InvalidateFileByFID env (Some f) c))"
    using att hit by (cases "InvalidateFileByFID env (Some f) c") (simp add: c1 Invalidate_def Let_def andThen_def)
  with iv len show "curr_dir c1 = curr_dir c" "c_server c1 = c_server c" "c_connected c1 = c_connected c"
    "node_at c1 b = (if b = a \<and> cn_Type (node_at c a) = InodeTypeFile
       then (node_at c a)\<lparr>cn_contentCached := False, cn_contentUID := []\<rparr> else node_at c b)"
    by (auto simp: Notify_def node_at_def nodes_of_def upd_node_def set_nodes_def)
qed


section \<open>A refresh\<close>

text \<open>A refreshed node keeps the mark and the name of its local copy, and a name keeps its node.\<close>

lemma refresh_entry_copy:
  assumes "refresh_entry a old f (ns, new) = (ns', new')"
  shows "length ns \<le> length ns' \<and> (\<forall>b<length ns. cn_contentCached (ns' ! b) = cn_contentCached (ns ! b)
      \<and> cn_contentUID (ns' ! b) = cn_contentUID (ns ! b))
    \<and> (\<forall>k e. mget old k = Some e \<longrightarrow> mget new' k \<in> {mget new k, Some e})"
proof -
  have upd: "cn_contentCached (ns[e := (ns ! e)\<lparr>cn_Name := n, cn_Type := t, cn_fid := i, cn_Size := z, cn_parent := p, cn_children := ch\<rparr>] ! b)
        = cn_contentCached (ns ! b)
      \<and> cn_contentUID (ns[e := (ns ! e)\<lparr>cn_Name := n, cn_Type := t, cn_fid := i, cn_Size := z, cn_parent := p, cn_children := ch\<rparr>] ! b)
        = cn_contentUID (ns ! b)" if "b < length ns" for e n t i z p ch b
    using that by (cases "b = e") simp_all
  show ?thesis using assms upd by (auto simp: refresh_entry_def nth_append split: option.splits)
qed

lemma refresh_entries_copy:
  assumes "fold (refresh_entry a old) files (ns, new) = (ns', new')" "mget old s = Some e" "e < length ns"
    "mget new s \<in> {None, Some e}"
  shows "length ns \<le> length ns' \<and> cn_contentCached (ns' ! e) = cn_contentCached (ns ! e) \<and> cn_contentUID (ns' ! e) = cn_contentUID (ns ! e)
    \<and> mget new' s \<in> {None, Some e}"
  using assms
proof (induction files arbitrary: ns new)
  case (Cons f files)
  obtain ns1 new1 where st: "refresh_entry a old f (ns, new) = (ns1, new1)" by fastforce
  note step = refresh_entry_copy [OF st]
  have "length ns1 \<le> length ns' \<and> cn_contentCached (ns' ! e) = cn_contentCached (ns1 ! e) \<and> cn_contentUID (ns' ! e) = cn_contentUID (ns1 ! e)
    \<and> mget new' s \<in> {None, Some e}"
  proof (rule Cons.IH [of ns1 new1])
    show "fold (refresh_entry a old) files (ns1, new1) = (ns', new')" using Cons.prems(1) st by simp
    have "mget new1 s \<in> {mget new s, Some e}" using step Cons.prems(2) by blast
    then show "mget new1 s \<in> {None, Some e}" using Cons.prems(4) by auto
    show "e < length ns1" using step Cons.prems(3) by simp
  qed (rule Cons.prems(2))
  with step Cons.prems(3) show ?case by auto
qed simp

lemma refill_copy:
  assumes a: "a < length (nodes_of c)" and e: "mget (kids (node_at c a)) s = Some e" "e < length (nodes_of c)"
    and c1: "c1 = refill a files c"
  shows "mget (kids (node_at c1 a)) s \<in> {None, Some e}" "curr_dir c1 = curr_dir c" "c_disk c1 = c_disk c"
    and "cn_contentCached (node_at c1 e) = cn_contentCached (node_at c e)" "cn_contentUID (node_at c1 e) = cn_contentUID (node_at c e)"
proof -
  obtain ns new where st: "fold (refresh_entry a (kids (node_at c a))) files (nodes_of c, []) = (ns, new)" by fastforce
  have r: "length (nodes_of c) \<le> length ns \<and> cn_contentCached (ns ! e) = cn_contentCached (nodes_of c ! e)
      \<and> cn_contentUID (ns ! e) = cn_contentUID (nodes_of c ! e) \<and> mget new s \<in> {None, Some e}"
    by (rule refresh_entries_copy [OF st e]) simp
  have eq: "c1 = set_nodes (ns[a := (ns ! a)\<lparr>cn_children := Some new\<rparr>]) c" by (simp add: c1 refill_def st)
  show "mget (kids (node_at c1 a)) s \<in> {None, Some e}" "curr_dir c1 = curr_dir c" "c_disk c1 = c_disk c"
    using r a by (simp_all add: eq node_at_def)
  show "cn_contentCached (node_at c1 e) = cn_contentCached (node_at c e)" "cn_contentUID (node_at c1 e) = cn_contentUID (node_at c e)"
    using r a by (cases "e = a"; simp add: eq node_at_def)+
qed

text \<open>The calls of a refresh leave the local disk alone, and the tree up to the FID of its root.\<close>

lemma disk_rpc [simp]: "c_disk (snd (rpc call c)) = c_disk c"
  by (simp add: rpc_def split: prod.split option.split)

lemma disk_proto [simp]: "c_disk (snd (proto fo c)) = c_disk c"
  by (simp add: proto_def split: option.split)

lemma andThen_disk:
  "c_disk (snd m) = X \<Longrightarrow> (\<And>x c. c_disk c = X \<Longrightarrow> c_disk (snd (k x c)) = X) \<Longrightarrow> c_disk (snd (andThen m k)) = X"
  by (rule andThen_keeps [where P = "\<lambda>c. c_disk c = X"])

lemma disk_ChangeDirectory_call [simp]: "c_disk (snd (client_ChangeDirectory ops p c)) = c_disk c"
  unfolding client_ChangeDirectory_def by (intro andThen_disk) (simp_all add: Let_def split: option.split)

text \<open>What registering again leaves alone: the disk, the current directory, the links and the local copies.\<close>

definition same_tree :: "'w client \<Rightarrow> 'w client \<Rightarrow> bool" where
  "same_tree c c' \<longleftrightarrow> c_disk c' = c_disk c \<and> curr_dir c' = curr_dir c \<and> length (nodes_of c') = length (nodes_of c)
     \<and> (\<forall>a<length (nodes_of c). kids (node_at c' a) = kids (node_at c a)
          \<and> cn_contentCached (node_at c' a) = cn_contentCached (node_at c a) \<and> cn_contentUID (node_at c' a) = cn_contentUID (node_at c a))"

lemma same_tree_cache: "c_cache c' = c_cache c \<Longrightarrow> c_disk c' = c_disk c \<Longrightarrow> same_tree c c'"
  by (simp add: same_tree_def node_at_def nodes_of_def)

lemma same_tree_refl [simp]: "same_tree c c"
  by (simp add: same_tree_def)

lemma same_tree_trans: "same_tree c c1 \<Longrightarrow> same_tree c1 c2 \<Longrightarrow> same_tree c c2"
  by (simp add: same_tree_def)

lemma same_tree_rpc: "same_tree c (snd (rpc call c))"
  by (rule same_tree_cache) simp_all

lemma same_tree_ListFilesAt: "same_tree c (snd (ListFilesAt ops fo c))"
  by (simp add: ListFilesAt_def same_tree_rpc split: option.split)

lemma same_tree_set_root: "same_tree c (set_root_fid fo c)"
proof -
  have "set_root_fid fo c = upd_node (root_dir c) (\<lambda>n. n\<lparr>cn_fid := fo\<rparr>) c"
    by (simp add: set_root_fid_def upd_node_def set_nodes_def node_at_def nodes_of_def Let_def)
  moreover have "node_at (upd_node r g c) a = (if a = r then g (node_at c a) else node_at c a)" if "a < length (nodes_of c)" for r g a
    using that by (simp add: upd_node_def node_at_def)
  ultimately show ?thesis by (simp add: same_tree_def) (simp add: upd_node_def)
qed

lemma same_tree_adopt: "same_tree c (adopt_root r t c)"
  unfolding adopt_root_def Let_def
  by (auto intro: same_tree_cache same_tree_trans [OF same_tree_cache same_tree_set_root])

lemma same_tree_sync: "same_tree c (snd (sync_directory ops r c))"
proof -
  obtain x c1 where cd: "client_ChangeDirectory ops ''.'' c = (x, c1)" by fastforce
  have "same_tree c c1"
    using cache_ChangeDirectory_call [of ops "''.''" c] disk_ChangeDirectory_call [of ops "''.''" c] by (auto simp: cd intro: same_tree_cache)
  then show ?thesis by (cases x) (auto simp: sync_directory_def cd split: option.split)
qed

lemma same_tree_ReRegister: "same_tree c (snd (ReRegister ops c))"
proof -
  obtain x c1 where rg: "register_call ops c = (x, c1)" by fastforce
  have c1: "same_tree c c1"
    using same_tree_rpc rg unfolding register_call_def by (metis snd_conv)
  have "same_tree c (snd (sync_directory ops r (adopt_root r t c1)))" for r t
    using same_tree_trans [OF c1 same_tree_trans [OF same_tree_adopt same_tree_sync]] .
  with c1 show ?thesis by (cases x) (auto simp: ReRegister_def rg andThen_def split: prod.split option.split)
qed

lemma Refresh_copy:
  assumes ok: "cache_ok c" and e: "mget (kids (node_at c (curr_dir c))) s = Some e" and rf: "Refresh ops c = (Done (), c1)"
  shows "mget (kids (node_at c1 (curr_dir c1))) s \<in> {None, Some e}" "c_disk c1 = c_disk c"
    and "cn_contentCached (node_at c1 e) = cn_contentCached (node_at c e)" "cn_contentUID (node_at c1 e) = cn_contentUID (node_at c e)"
proof -
  define c2 where "c2 = snd (ReRegister ops c)"
  have t2: "same_tree c c2" unfolding c2_def by (rule same_tree_ReRegister)
  have "populateCurrentDirCache ops c2 = (Done (), c1)"
    using rf by (auto simp: Refresh_def c2_def andThen_def discard_def split: prod.splits cres.splits)
  then obtain files c3 where l: "ListFilesAt ops (cn_fid (node_at c2 (curr_dir c2))) c2 = (Done files, c3)" and c1: "c1 = refill (curr_dir c2) files c3"
    by (auto simp: populateCurrentDirCache_def populateNodeCache_def andThen_def split: prod.splits cres.splits)
  have "same_tree c2 c3" using same_tree_ListFilesAt [of c2 ops "cn_fid (node_at c2 (curr_dir c2))"] by (simp add: l)
  then have t3: "same_tree c c3" by (rule same_tree_trans [OF t2])
  have curr: "curr_dir c2 = curr_dir c" "curr_dir c3 = curr_dir c" using t2 t3 by (simp_all add: same_tree_def)
  have lens: "curr_dir c < length (nodes_of c)" "e < length (nodes_of c)" using cache_ok_curr [OF ok] cache_ok_child [OF ok e] by simp_all
  have "mget (kids (node_at c3 (curr_dir c))) s = Some e" using e t3 lens by (simp add: same_tree_def)
  from refill_copy [OF _ this _ c1 [unfolded curr]] lens t3 curr
  show "mget (kids (node_at c1 (curr_dir c1))) s \<in> {None, Some e}" "c_disk c1 = c_disk c"
    "cn_contentCached (node_at c1 e) = cn_contentCached (node_at c e)" "cn_contentUID (node_at c1 e) = cn_contentUID (node_at c e)"
    by (simp_all add: same_tree_def)
qed


section \<open>A directory that was just uploaded\<close>

lemma add_up_children:
  "add_up k a d ns = Some ns' \<Longrightarrow> length ns' = length ns \<and> (\<forall>b<length ns. cn_children (ns' ! b) = cn_children (ns ! b) \<and> cn_Type (ns' ! b) = cn_Type (ns ! b))"
proof (induction k arbitrary: a ns)
  case (Suc k)
  let ?ns1 = "ns[a := (ns ! a)\<lparr>cn_Size := cn_Size (ns ! a) + d\<rparr>]"
  have "cn_children (?ns1 ! b) = cn_children (ns ! b) \<and> cn_Type (?ns1 ! b) = cn_Type (ns ! b)" if "b < length ns" for b
    using that by (cases "b = a") simp_all
  with Suc show ?case by (fastforce simp: Let_def split: option.splits)
qed simp

lemma Upload_node:
  assumes ok: "cache_ok c" and up: "cache_Upload env ops s c = (Done (), c1)" and dir: "local_stat env s (c_disk c) = Some (True, z)"
  obtains a where "mget (kids (node_at c1 (curr_dir c1))) (Base s) = Some a" "a < length (nodes_of c1)"
    "cn_children (node_at c1 a) = None" "cn_Type (node_at c1 a) = InodeTypeDirectory"
proof -
  from up dir obtain fo c2 where u: "client_Upload env ops s c = (Done fo, c2)"
    by (auto simp: cache_Upload_def andThen_def split: prod.splits cres.splits)
  have cc: "c_cache c2 = c_cache c" using cache_client_Upload [of env ops s c] by (simp add: u)
  have ok2: "cache_ok c2" using ok cache_ok_cong [OF cc] by simp
  let ?add = "add_child (Base s) InodeTypeDirectory fo z None c2"
  from up dir u obtain c3 ns where ad: "?add = (Done (), c3)"
    and au: "add_up (length (nodes_of c3)) (curr_dir c3) z (nodes_of c3) = Some ns" and c1: "c1 = set_nodes ns c3"
    by (auto simp: cache_Upload_def andThen_def split: prod.splits cres.splits option.splits)
  from ad obtain m where m: "cn_children (node_at c2 (curr_dir c2)) = Some m"
    by (auto simp: add_child_def Let_def split: option.splits)
  let ?a = "length (nodes_of c2)"
  have c3: "nodes_of c3 = (nodes_of c2)[curr_dir c2 := (node_at c2 (curr_dir c2))\<lparr>cn_children := Some (mput (Base s) ?a m)\<rparr>]
      @ [fresh_node (Base s) InodeTypeDirectory fo z None (Some (curr_dir c2))]" "curr_dir c3 = curr_dir c2"
    using ad m by (auto simp: add_child_def Let_def)
  have curr: "curr_dir c2 < length (nodes_of c2)" by (rule cache_ok_curr [OF ok2])
  note same = add_up_children [OF au]
  have "cn_children (node_at c1 (curr_dir c1)) = Some (mput (Base s) ?a m)"
    using same curr by (simp add: c1 node_at_def c3 nth_append)
  moreover have "cn_children (node_at c1 ?a) = None" "cn_Type (node_at c1 ?a) = InodeTypeDirectory" "?a < length (nodes_of c1)"
    using same by (simp_all add: c1 node_at_def c3 nth_append)
  ultimately show thesis by (intro that [of ?a]) (simp_all add: kids_def)
qed

text \<open>Entering a directory whose listing fails leaves its map of children as it is.\<close>

lemma cd_without_listing:
  assumes ok: "cache_ok c" and a: "mget (kids (node_at c (curr_dir c))) s = Some a" "cn_Type (node_at c a) = InodeTypeDirectory"
    and s: "s \<notin> {''/'', ''..''}" and cd: "cache_ChangeDirectory ops s c = (Done (), c1)"
    and fails: "\<And>f w. fst (rpc_ListDir ops f w) = None"
  shows "curr_dir c1 = a" "node_at c1 a = node_at c a"
proof -
  from cd a s obtain x c2 where cd2: "client_ChangeDirectory ops s c = (Done x, c2)"
    and pop: "discard (populateCurrentDirCache ops (ChangeCurrentFID (cn_fid (node_at (set_curr a c2) a)) (set_curr a c2))) = (Done (), c1)"
    by (auto simp: cache_ChangeDirectory_def andThen_def Let_def split: if_splits prod.splits cres.splits)
  have cc: "c_cache c2 = c_cache c" using cache_ChangeDirectory_call [of ops s c] by (simp add: cd2)
  define c3 where "c3 = ChangeCurrentFID (cn_fid (node_at (set_curr a c2) a)) (set_curr a c2)"
  have c3: "curr_dir c3 = a" "node_at c3 a = node_at c a"
    using cc by (simp_all add: c3_def ChangeCurrentFID_def set_curr_def node_at_def nodes_of_def)
  have "fst (ListFilesAt ops fo c3) \<noteq> Done files" for fo files
  proof (cases fo)
    case (Some f)
    then show ?thesis using fails [of f "c_server c3"] by (cases "rpc_ListDir ops f (c_server c3)") (simp add: ListFilesAt_def rpc_def)
  qed (simp add: ListFilesAt_def)
  note none = this [of "cn_fid (node_at c3 (curr_dir c3))"]
  then have "c1 = snd (ListFilesAt ops (cn_fid (node_at c3 (curr_dir c3))) c3)"
    using pop by (cases "ListFilesAt ops (cn_fid (node_at c3 (curr_dir c3))) c3"; cases "fst (ListFilesAt ops (cn_fid (node_at c3 (curr_dir c3))) c3)")
      (auto simp: c3_def [symmetric] populateCurrentDirCache_def populateNodeCache_def andThen_def discard_def)
  then have "c_cache c1 = c_cache c3" by simp
  with c3 show "curr_dir c1 = a" "node_at c1 a = node_at c a" by (simp_all add: node_at_def nodes_of_def)
qed


section \<open>Properties\<close>

text \<open>A small remote side for the witnesses: fixed listings and a fixed file, on no state at all.\<close>

definition demo_rpcs :: "file_info list option \<Rightarrow> byte list \<Rightarrow> unit file_rpcs" where
  "demo_rpcs files bs =
     \<lparr>rpc_RegisterClient = (\<lambda>_ _ _ _ _ w. (Some (Some \<lparr>FileServerID = ''s'', InodeID = 0, GenerationNumber = 0\<rparr>, []), w)),
      rpc_UnregisterClient = (\<lambda>_ _ w. (Some (), w)), rpc_Share = (\<lambda>_ _ _ w. (Some (), w)), rpc_Unshare = (\<lambda>_ _ _ w. (Some (), w)),
      rpc_Path = (\<lambda>_ _ _ w. (Some [], w)), rpc_ChangeDir = (\<lambda>f _ _ w. (Some (Some f), w)), rpc_ListDir = (\<lambda>_ w. (files, w)),
      rpc_GetAttr = (\<lambda>_ w. (None, w)),
      rpc_CreateFile = (\<lambda>_ _ _ _ _ w. (Some (Some \<lparr>FileServerID = ''s'', InodeID = 7, GenerationNumber = 0\<rparr>), w)),
      rpc_UploadFile = (\<lambda>_ _ w. (Some (), w)), rpc_DownloadFile = (\<lambda>_ _ w. ((read_chunks 2 0 bs, True), w)),
      rpc_ReadFile = (\<lambda>_ _ _ _ w. (Some bs, w)), rpc_WriteFile = (\<lambda>_ _ _ _ w. (Some (), w)), rpc_DeleteFile = (\<lambda>_ _ _ w. (Some (), w)),
      rpc_TrashFile = (\<lambda>_ _ _ w. (Some [], w)), rpc_RestoreFile = (\<lambda>_ _ _ w. (Some [], w)), rpc_ShowTrash = (\<lambda>_ _ w. (Some [], w))\<rparr>"

definition demo_fid :: "u64 \<Rightarrow> fid" where "demo_fid i = \<lparr>FileServerID = ''s'', InodeID = i, GenerationNumber = 0\<rparr>"

definition demo_entry :: "u64 \<Rightarrow> file_info" where
  "demo_entry i = \<lparr>fi_FID = Some (demo_fid i), fi_Name = ''a'', fi_Type = InodeTypeFile, fi_Size = 3\<rparr>"

definition demo_env_c :: client_env where
  "demo_env_c = \<lparr>ce_err = (\<lambda>_. False), ce_short = 0, ce_uid = ''u'', ce_dirsize = 0\<rparr>"

definition demo_client :: "unit client" where
  "demo_client = (NewClient ''u'' 1 [] [(''d'', DDir)] ())\<lparr>c_connected := True, c_rootFID := Some (demo_fid 0), c_currentFID := Some (demo_fid 0)\<rparr>"

definition demo_cached :: "unit client" where
  "demo_cached = AttachCacheHandler (snd (NewCacheHandler (demo_rpcs (Some [demo_entry 1]) [1, 2, 3]) (Some (demo_fid 0)) demo_client))"

lemma demo_cached_facts:
  "fst (NewCacheHandler (demo_rpcs (Some [demo_entry 1]) [1, 2, 3]) (Some (demo_fid 0)) demo_client) = Done ()"
  "fst (cache_ReadFile demo_env_c (demo_rpcs (Some [demo_entry 1]) [1, 2, 3]) ''a'' demo_cached) = Done [1, 2, 3]"
  by code_simp+

lemma demo_start:
  "reaches cache_step (AttachCacheHandler (snd (NewCacheHandler (demo_rpcs (Some [demo_entry 1]) [1, 2, 3]) (Some (demo_fid 0)) demo_client))) demo_cached"
  unfolding demo_cached_def by (rule reaches_refl)

lemma demo_read:
  "cache_ReadFile demo_env_c (demo_rpcs (Some [demo_entry 1]) [1, 2, 3]) ''a'' demo_cached
     = (Done [1, 2, 3], snd (cache_ReadFile demo_env_c (demo_rpcs (Some [demo_entry 1]) [1, 2, 3]) ''a'' demo_cached))"
  using demo_cached_facts(2) by (metis prod.collapse)

text \<open>
  C29. Whatever the user does, whatever the server answers and whatever callbacks arrive, the walks over the
  cached tree end: \<open>Path\<close> and the invalidation callback return, and a deletion does not run on for ever.
\<close>

theorem cache_walks_end:
  assumes "fst (NewCacheHandler ops0 fo c0) = Done ()" "reaches cache_step (AttachCacheHandler (snd (NewCacheHandler ops0 fo c0))) c"
  shows "(\<exists>p. cache_Path c = Done p) \<and> (\<exists>r. fst (Invalidate env f v c) = Done r)
    \<and> fst (cache_DeleteFile env ops s rec c) \<noteq> Endless"
  using reachable_cache_ok [OF assms] Path_returns Invalidate_returns cache_DeleteFile_ends by blast

theorem cache_walks_end_witness:
  "(\<exists>p. cache_Path demo_cached = Done p) \<and> (\<exists>r. fst (Invalidate demo_env_c (Some (demo_fid 1)) 1 demo_cached) = Done r)
   \<and> fst (cache_DeleteFile demo_env_c (demo_rpcs (Some []) []) ''a'' True demo_cached) \<noteq> Endless"
  by (rule cache_walks_end [OF demo_cached_facts(1) demo_start])

text \<open>
  A file that was read is read again from its local copy: the second read gives the same bytes, asks
  no server and changes nothing.
\<close>

theorem cached_read_repeats:
  assumes "fst (NewCacheHandler ops0 fo c0) = Done ()" "reaches cache_step (AttachCacheHandler (snd (NewCacheHandler ops0 fo c0))) c"
    and "cache_ReadFile env ops s c = (Done d, c1)" "\<And>p. \<not> ce_err env' (CReadFile p)"
  shows "cache_ReadFile env' ops' s c1 = (Done d, c1)"
  using read_again [OF reachable_cache_ok [OF assms(1,2)] assms(3,4)] .

theorem cached_read_repeats_witness:
  "fst (cache_ReadFile demo_env_c (demo_rpcs None [9]) ''a''
     (snd (cache_ReadFile demo_env_c (demo_rpcs (Some [demo_entry 1]) [1, 2, 3]) ''a'' demo_cached))) = Done [1, 2, 3]"
  by (subst cached_read_repeats [OF demo_cached_facts(1) demo_start demo_read]) (simp_all add: demo_env_c_def)

text \<open>
  C28. A callback that invalidates a file works: when the client reports the file with FID \<open>f\<close> as
  invalidated, the next read of that file fetches it from the server and returns exactly the bytes the
  server streams, in however many pieces, provided no other node carries the same FID and the local
  system calls succeed.
\<close>

theorem invalidated_read_is_fresh:
  assumes run: "fst (NewCacheHandler ops0 fo c0) = Done ()" "reaches cache_step (AttachCacheHandler (snd (NewCacheHandler ops0 fo c0))) c"
    and att: "c_cacheHandler c" and hit: "fst (InvalidateFileByFID env (Some f) c) = Done (Some place)"
    and child: "mget (kids (node_at c (curr_dir c))) s = Some a" "cn_Type (node_at c a) = InodeTypeFile"
    and uniq: "\<And>b g. b < length (nodes_of c) \<Longrightarrow> cn_fid (node_at c b) = Some g \<Longrightarrow> FID_String g = FID_String f \<Longrightarrow> b = a"
    and c1: "c1 = snd (Invalidate env (Some f) v c)"
    and dir: "cn_fid (node_at c (curr_dir c)) = Some p" "c_connected c"
    and srv: "rpc_DownloadFile ops p s (c_server c) = ((read_chunks cs 0 bs, True), w)" "0 < cs" "length bs < 2 ^ 63"
    and sys: "\<And>x. \<not> ce_err env' x" "plain (ce_uid env')"
      "mget (c_disk c1) ''.cache'' \<in> {None, Some DDir}" "\<not> is_dir (c_disk c1) (''.cache/'' @ ce_uid env')"
  shows "fst (cache_ReadFile env' ops s c1) = Done bs"
proof -
  have ok: "cache_ok c" by (rule reachable_cache_ok [OF run])
  have ok1: "cache_ok c1" unfolding c1 by (rule cache_ok_Invalidate [OF ok])
  note cl = Invalidate_clears [OF ok att hit uniq c1]
  have "curr_dir c < a" using links_okD(1) [OF nodes_ok_kids child(1) [unfolded node_at_def]] ok by (auto simp: cache_ok_def)
  then have n1: "node_at c1 (curr_dir c1) = node_at c (curr_dir c)" "\<not> cn_contentCached (node_at c1 a)" "cn_Type (node_at c1 a) = InodeTypeFile"
    using cl(2,5) child(2) by simp_all
  have "\<exists>c'. cache_ReadFile env' ops s c1 = (Done bs, c') \<and> c_server c' = w"
  proof (rule ReadFile_fetches [OF ok1 _ n1(3,2)])
    show "mget (kids (node_at c1 (curr_dir c1))) s = Some a" "cn_fid (node_at c1 (curr_dir c1)) = Some p" "c_connected c1"
      using n1(1) child(1) dir cl(4) by simp_all
    show "rpc_DownloadFile ops p s (c_server c1) = ((read_chunks cs 0 bs, True), w)" using srv(1) cl(3) by simp
  qed (rule srv sys)+
  then show ?thesis by auto
qed

definition demo_seen :: "unit client" where
  "demo_seen = snd (cache_ReadFile demo_env_c (demo_rpcs (Some [demo_entry 1]) [1, 2, 3]) ''a'' demo_cached)"

lemma demo_seen_start:
  "reaches cache_step (AttachCacheHandler (snd (NewCacheHandler (demo_rpcs (Some [demo_entry 1]) [1, 2, 3]) (Some (demo_fid 0)) demo_client))) demo_seen"
proof (rule reaches_step, rule demo_start)
  show "cache_step demo_cached (demo_env_c, demo_rpcs (Some [demo_entry 1]) [1, 2, 3], DoRead ''a'') demo_seen"
    using cache_step [of demo_cached demo_env_c "demo_rpcs (Some [demo_entry 1]) [1, 2, 3]" "DoRead ''a''"] by (simp add: demo_seen_def)
qed

lemma demo_seen_facts:
  "c_cacheHandler demo_seen" "fst (InvalidateFileByFID demo_env_c (Some (demo_fid 1)) demo_seen) = Done (Some ''mydrive/a'')"
  "mget (kids (node_at demo_seen (curr_dir demo_seen))) ''a'' = Some 1" "cn_Type (node_at demo_seen 1) = InodeTypeFile"
  "map cn_fid (nodes_of demo_seen) = [Some (demo_fid 0), Some (demo_fid 1)]" "FID_String (demo_fid 0) \<noteq> FID_String (demo_fid 1)"
  "cn_fid (node_at demo_seen (curr_dir demo_seen)) = Some (demo_fid 0)" "c_connected demo_seen"
  "mget (c_disk (snd (Invalidate demo_env_c (Some (demo_fid 1)) 1 demo_seen))) ''.cache'' = Some DDir"
  "mget (c_disk (snd (Invalidate demo_env_c (Some (demo_fid 1)) 1 demo_seen))) ''.cache/u'' = None"
  by code_simp+

theorem invalidated_read_is_fresh_witness:
  "fst (cache_ReadFile demo_env_c (demo_rpcs None [7, 8, 9]) ''a'' (snd (Invalidate demo_env_c (Some (demo_fid 1)) 1 demo_seen))) = Done [7, 8, 9]"
proof -
  have uniq: "b = 1" if "b < length (nodes_of demo_seen)" "cn_fid (node_at demo_seen b) = Some g" "FID_String g = FID_String (demo_fid 1)" for b g
  proof -
    have "length (map cn_fid (nodes_of demo_seen)) = 2" unfolding demo_seen_facts by simp
    then have b: "b = 0 \<or> b = 1" using that(1) by auto
    have "map cn_fid (nodes_of demo_seen) ! b = Some g" using that by (simp add: node_at_def)
    with b that(3) show ?thesis unfolding demo_seen_facts(5) using demo_seen_facts(6) by auto
  qed
  have "rpc_DownloadFile (demo_rpcs None [7, 8, 9]) (demo_fid 0) ''a'' (c_server demo_seen) = ((read_chunks 2 0 [7, 8, 9], True), ())"
    by (simp add: demo_rpcs_def)
  note fresh = invalidated_read_is_fresh [OF demo_cached_facts(1) demo_seen_start demo_seen_facts(1-4) _ refl demo_seen_facts(7,8) this]
  show ?thesis
    by (rule fresh) (use uniq demo_seen_facts(9,10) in \<open>simp_all add: demo_env_c_def plain_def is_dir_def\<close>)
qed

text \<open>
  A refresh can leave stale contents behind. The user has read file \<open>s\<close>, so that its contents are
  cached; on the server the file is then replaced by another one (with another FID) under the same name,
  and the refresh, which succeeds, shows the new FID. The next read still serves the old contents
  from the local copy, without asking the server.
\<close>

theorem refresh_serves_stale_content:
  assumes run: "fst (NewCacheHandler ops0 fo c0) = Done ()" "reaches cache_step (AttachCacheHandler (snd (NewCacheHandler ops0 fo c0))) c"
    and seen: "cache_ReadFile env ops s c = (Done d, c1)"
    and refreshed: "Refresh ops' c1 = (Done (), c2)"
    and listed: "info \<in> set (cache_ListFiles c2)" "fi_Name info = s" "fi_Type info = InodeTypeFile" "fi_FID info = Some new"
    and sys: "\<And>p. \<not> ce_err env' (CReadFile p)"
  shows "cache_ReadFile env' ops'' s c2 = (Done d, c2)"
proof -
  have ok: "cache_ok c" by (rule reachable_cache_ok [OF run])
  have ok1: "cache_ok c1" using cache_ok_ReadFile [OF ok, of env ops s] by (simp add: seen)
  have ok2: "cache_ok c2" using cache_ok_Refresh [OF ok1, of ops'] by (simp add: refreshed)
  have again: "cache_ReadFile env' ops'' s c1 = (Done d, c1)" by (rule read_again [OF ok seen sys])
  obtain e where e: "mget (kids (node_at c1 (curr_dir c1))) s = Some e" "cn_contentCached (node_at c1 e)"
    "read_local env' (cache_path (cn_contentUID (node_at c1 e))) c1 = (Done d, c1)"
  proof -
    from again obtain e where e: "mget (kids (node_at c1 (curr_dir c1))) s = Some e" "cn_Type (node_at c1 e) = InodeTypeFile"
      by (auto simp: cache_ReadFile_def Let_def split: option.splits if_splits)
    have "cn_contentCached (node_at c1 e)"
      using e read_marks [OF ok seen] by auto
    with e again that show thesis by (simp add: cache_ReadFile_def)
  qed
  note cp = Refresh_copy [OF ok1 e(1) refreshed]
  from listed obtain k b where kb: "(k, b) \<in> set (kids (node_at c2 (curr_dir c2)))" "cn_Name (node_at c2 b) = s" "cn_Type (node_at c2 b) = InodeTypeFile"
    by (auto simp: cache_ListFiles_def Let_def)
  have lk: "links_ok (nodes_of c2) (curr_dir c2) (kids (node_at c2 (curr_dir c2)))"
    using nodes_ok_kids ok2 by (auto simp: cache_ok_def node_at_def)
  then have "mget (kids (node_at c2 (curr_dir c2))) k = Some b" using kb(1) by (simp add: links_ok_def mget_iff_in_set)
  moreover from links_okD(3) [OF lk this] kb(2) have "k = s" by (simp add: node_at_def)
  ultimately have m: "mget (kids (node_at c2 (curr_dir c2))) s = Some e" "b = e" using cp(1) by auto
  have "read_local env' (cache_path (cn_contentUID (node_at c2 e))) c2 = (Done d, c2)"
    using e(3) cp(2,4) by (auto simp: read_local_def split: os_read.splits)
  then show ?thesis using m kb cp(3) e(2) by (simp add: cache_ReadFile_def)
qed

definition demo_refreshed :: "unit client" where
  "demo_refreshed = snd (Refresh (demo_rpcs (Some [demo_entry 9]) []) demo_seen)"

lemma demo_refreshed_facts:
  "fst (Refresh (demo_rpcs (Some [demo_entry 9]) []) demo_seen) = Done ()" "cache_ListFiles demo_refreshed = [demo_entry 9]"
  by code_simp+

theorem refresh_serves_stale_content_witness:
  "fst (cache_ReadFile demo_env_c (demo_rpcs (Some [demo_entry 9]) [9, 9]) ''a'' demo_refreshed) = Done [1, 2, 3]"
proof -
  have r: "Refresh (demo_rpcs (Some [demo_entry 9]) []) demo_seen = (Done (), demo_refreshed)"
    unfolding demo_refreshed_def using demo_refreshed_facts(1) by (metis prod.collapse)
  have "demo_entry 9 \<in> set (cache_ListFiles demo_refreshed)" by (simp add: demo_refreshed_facts)
  note stale = refresh_serves_stale_content [OF demo_cached_facts(1) demo_start demo_read r [unfolded demo_seen_def] this]
  show ?thesis by (subst stale) (simp_all add: demo_env_c_def demo_entry_def)
qed

text \<open>
  An uploaded directory can bring the client down. Its cache node has no map of children; when the
  user enters it and the listing fails, the failure is discarded and the map stays nil, and the next file
  the server creates there for the user makes the client panic.
\<close>

theorem uploaded_directory_crashes:
  assumes run: "fst (NewCacheHandler ops0 fo c0) = Done ()" "reaches cache_step (AttachCacheHandler (snd (NewCacheHandler ops0 fo c0))) c"
    and up: "cache_Upload env ops s c = (Done (), c1)" "local_stat env s (c_disk c) = Some (True, z)" "Base s \<notin> {''/'', ''..''}"
    and cd: "cache_ChangeDirectory ops' (Base s) c1 = (Done (), c2)" "\<And>f w. fst (rpc_ListDir ops' f w) = None"
    and made: "client_CreateFile ops'' t c2 = (Done info, c3)"
  shows "fst (cache_CreateFile ops'' t c2) = Crash"
proof -
  have ok: "cache_ok c" by (rule reachable_cache_ok [OF run])
  have ok1: "cache_ok c1" using cache_ok_Upload [OF ok, of env ops s] by (simp add: up)
  obtain a where a: "mget (kids (node_at c1 (curr_dir c1))) (Base s) = Some a" "cn_children (node_at c1 a) = None"
    "cn_Type (node_at c1 a) = InodeTypeDirectory"
    using Upload_node [OF ok up(1,2)] by metis
  note at = cd_without_listing [OF ok1 a(1,3) up(3) cd]
  have "c_cache c3 = c_cache c2" using cache_client_Create [of InodeTypeFile ops'' t c2] unfolding made [unfolded client_CreateFile_def] by simp
  then have "cn_children (node_at c3 (curr_dir c3)) = None" using at a(2) by (simp add: node_at_def nodes_of_def)
  then show ?thesis by (simp add: cache_CreateFile_def made andThen_def add_child_def)
qed

definition demo_uploaded :: "unit client" where
  "demo_uploaded = snd (cache_Upload demo_env_c (demo_rpcs None []) ''d'' demo_cached)"

definition demo_entered :: "unit client" where
  "demo_entered = snd (cache_ChangeDirectory (demo_rpcs None []) ''d'' demo_uploaded)"

lemma demo_upload_facts:
  "fst (cache_Upload demo_env_c (demo_rpcs None []) ''d'' demo_cached) = Done ()" "local_stat demo_env_c ''d'' (c_disk demo_cached) = Some (True, 0)"
  "fst (cache_ChangeDirectory (demo_rpcs None []) ''d'' demo_uploaded) = Done ()" "Base ''d'' = ''d''"
  "fst (client_CreateFile (demo_rpcs None []) ''x'' demo_entered) = Done \<lparr>fi_FID = Some (demo_fid 7), fi_Name = ''x'', fi_Type = InodeTypeFile, fi_Size = 0\<rparr>"
  by code_simp+

theorem uploaded_directory_crashes_witness:
  "fst (cache_CreateFile (demo_rpcs None []) ''x'' demo_entered) = Crash"
proof (rule uploaded_directory_crashes [OF demo_cached_facts(1) demo_start])
  show "cache_Upload demo_env_c (demo_rpcs None []) ''d'' demo_cached = (Done (), demo_uploaded)"
    unfolding demo_uploaded_def using demo_upload_facts(1) by (metis prod.collapse)
  show "cache_ChangeDirectory (demo_rpcs None []) (Base ''d'') demo_uploaded = (Done (), demo_entered)"
    unfolding demo_entered_def demo_upload_facts(4) using demo_upload_facts(3) by (metis prod.collapse)
  show "client_CreateFile (demo_rpcs None []) ''x'' demo_entered
      = (Done \<lparr>fi_FID = Some (demo_fid 7), fi_Name = ''x'', fi_Type = InodeTypeFile, fi_Size = 0\<rparr>, snd (client_CreateFile (demo_rpcs None []) ''x'' demo_entered))"
    using demo_upload_facts(5) by (metis prod.collapse)
qed (simp_all add: demo_upload_facts demo_rpcs_def)

end
