(* ===== verification/Client_Server.thy ===== *)
theory Client_Server
  imports Cache_Coherence File_Writes
begin

text \<open>
  Client and fileserver together. \<open>fileserver_rpcs\<close> gives the calls of the client the handlers of
  \<^verbatim>\<open>internal/fileserver/handler.go\<close>, behind the interceptors: \<open>ctx\<close> is the context they attach to the
  client's calls. The theorems follow the bytes of a file from the disk of one client through the
  stream of an upload onto the disk of the server, and from there to the reader.
\<close>

section \<open>The handlers as the far side of the client\<close>





section \<open>The bytes of a file\<close>












section \<open>An upload\<close>





section \<open>A download\<close>







section \<open>From one client to another\<close>

















end
