(* ===== verification/Spec2Isabelle.thy ===== *)
theory Spec2Isabelle
  imports Meta_Durability File_Durability File_Consistency Op_Metrics Admin_Actions Admin_Auth Client_Server
begin

text \<open>
  Verification of the Distributed Virtual File System (DVFS).

  \<^bold>\<open>The program.\<close> A \<^emph>\<open>metaserver\<close> knows which fileserver holds which user and which directories are shared
  with whom, and keeps that in a metadata store. \<^emph>\<open>Fileservers\<close> keep the files: an inode tree in memory
  over a directory tree on disk, with access lists, shares, quotas and an index of inode numbers in files
  beside them; they answer the requests of clients behind interceptors that check session tokens, and send
  callbacks to clients whose copies went stale. A \<^emph>\<open>client\<close> asks the metaserver where to go, talks to one
  fileserver and keeps a tree of cached nodes and file contents. An \<^emph>\<open>admin console\<close> polls the fileservers
  and keeps histories and alerts.

  \<^bold>\<open>Theories and sources\<close> (all under \<^verbatim>\<open>src/internal/\<close>).
  \<^item> \<open>DVFS_Prelude\<close>, \<open>Go_Strings\<close>, \<open>Go_Path\<close>, \<open>Disk\<close>: what the sources use of Go. Maps are association lists
    with distinct keys; strings are character lists; \<^verbatim>\<open>path/filepath\<close> on clean paths; \<^verbatim>\<open>os\<close> on a directory
    tree in which any call may fail; \<open>op_system\<close> is the interface of a step relation with an invariant, and
    \<open>reaches\<close> its runs.
  \<^item> \<open>Session_Store\<close>: \<^verbatim>\<open>fileserver/session\<close>. Record \<open>session_store\<close>; limits, expiry, revocation.
  \<^item> \<open>Inode_Store\<close>: \<^verbatim>\<open>fileserver/inodestore.go\<close>. The index from paths to inode numbers; \<open>id_allocator\<close> is
    the contract of an allocator that never gives a number twice.
  \<^item> \<open>Meta_Store\<close>: \<^verbatim>\<open>storage/meta.go\<close> and \<^verbatim>\<open>storage/memory\<close>. The contract of a metadata store is the locale
    \<open>meta_store\<close>, over an abstract cluster; the store in memory interprets it.
  \<^item> \<open>Meta_Server\<close>, \<open>Meta_Durability\<close>: \<^verbatim>\<open>metaserver/metaserver.go\<close> and \<^verbatim>\<open>handler.go\<close>. Registration,
    heartbeats, placement, shares, deregistration and restart; tables consistent in every run, and memory
    and store in agreement after everything that was acknowledged.
  \<^item> \<open>Inode_Tree\<close>, \<open>File_Server\<close>: \<^verbatim>\<open>domain/types.go\<close>, \<^verbatim>\<open>fileserver/fileserver.go\<close>, \<^verbatim>\<open>aclstore.go\<close>,
    \<^verbatim>\<open>quota.go\<close>, \<^verbatim>\<open>msclient.go\<close>. Record \<open>file_server\<close>, one definition per operation.
  \<^item> \<open>File_Scanner\<close>: \<^verbatim>\<open>fileserver/filescanner.go\<close>. What a start finds on disk.
  \<^item> \<open>File_Handlers\<close>: \<^verbatim>\<open>fileserver/handler.go\<close>, \<^verbatim>\<open>callback_server.go\<close>, \<^verbatim>\<open>auth_google.go\<close>. Requests, streams,
    callback sessions and interceptors.
  \<^item> \<open>Demo_State\<close>: a small fileserver on which theorems are instantiated.
  \<^item> \<open>File_Writes\<close>, \<open>File_Sharing\<close>, \<open>File_Deletion\<close>, \<open>File_Access\<close>, \<open>File_Durability\<close>: what reading and
    writing, sharing, deleting, authorisation and the saved files promise; \<open>kept_document\<close> is the contract
    of a file that is replaced as a whole, interpreted on access lists, shares and quotas.
  \<^item> \<open>File_Paths\<close>, \<open>File_Invariant\<close>, \<open>File_Moves\<close>, \<open>File_Runs\<close>, \<open>File_Consistency\<close>: the invariant of the
    tables of a fileserver, that every operation keeps it, and what it gives.
  \<^item> \<open>Ring_Buffers\<close>, \<open>Op_Metrics\<close>, \<open>Admin_History\<close>, \<open>Admin_Alerts\<close>: \<^verbatim>\<open>admin/ringbuffer.go\<close>,
    \<^verbatim>\<open>admin/metrics.go\<close>, \<^verbatim>\<open>fileserver/opmetrics.go\<close>, \<^verbatim>\<open>admin/history.go\<close>, \<^verbatim>\<open>admin/alerts.go\<close> and the node
    states of \<^verbatim>\<open>admin/server.go\<close>. \<open>bounded_log\<close> is the contract of a log that keeps the newest entries,
    interpreted on the metrics ring, the latency window and the command history.
  \<^item> \<open>Discovery\<close>: \<^verbatim>\<open>client/discovery.go\<close>. The published list of machines, its copy on disk, names and
    addresses.
  \<^item> \<open>Admin_Nodes\<close>: \<^verbatim>\<open>admin/server.go\<close>, \<^verbatim>\<open>poller.go\<close>, \<^verbatim>\<open>snapshot.go\<close>. Record \<open>admin_server\<close>: the node table, what
    a refresh and a poll make of it, removed nodes, saved histories and the timeline of the cluster.
  \<^item> \<open>Admin_Actions\<close>: \<^verbatim>\<open>admin/actions.go\<close>. Record \<open>orchestrator\<close>: the shell commands of an action, the locks of
    its nodes, its execution and its record; \<open>sh_word\<close> is a reference for the words a shell reads.
  \<^item> \<open>Admin_Auth\<close>: \<^verbatim>\<open>admin/auth.go\<close> and the login routes of \<^verbatim>\<open>admin/handlers.go\<close>.
  \<^item> \<open>Client\<close>, \<open>Client_Cache\<close>, \<open>Cache_Coherence\<close>: \<^verbatim>\<open>client/client.go\<close>, \<^verbatim>\<open>cache_handler.go\<close>,
    \<^verbatim>\<open>callback_server.go\<close>. The remote methods are a record of functions on the state of the far side.
  \<^item> \<open>Client_Server\<close>: that record filled with the handlers of \<open>File_Handlers\<close>, and the way of a file from
    one client to another.

  \<^bold>\<open>What is shown.\<close>
  \<^item> Sessions: limits in every run, validation exactly of live sessions from the recorded address, nothing
    validates after a revocation.
  \<^item> Inode numbers are never given twice; a rename moves exactly a subtree, in whatever order a map is
    visited.
  \<^item> Metaserver: consistent tables in every run; what was acknowledged survives a restart; registrations
    complete; homes are stable; users are placed on a healthy node of least load; a deregistration happens
    as a whole or not at all.
  \<^item> Fileserver: consistent tables in every run; creations appear where they were asked for; trash and
    restore undo each other; no walk over the tree runs forever; what was written is read back; writes are
    charged to every directory above; sharing, unsharing and deleting reach exactly a subtree and only with
    the rights for it; interceptors let only live sessions pass; saved files are replaced as a whole and
    read back at a restart.
  \<^item> Client: the walks over the cache end; a file that was read is read again without the server; an
    invalidated file is fetched anew; the bytes of an upload arrive at another client.
  \<^item> Console: bounded logs keep the newest entries; percentiles are ordered and within the window; alerts
    stay within their bound and do not flood; the histories of commands and metrics survive a restart; the
    node table shows the cluster less the nodes removed by hand, and no poll panics; the timeline is the sum
    of the nodes; requests pass with live sessions only; a node runs one action at a time, every target of an
    action is reported, and the id of a node reaches the shell as data.
  \<^item> Defects, each with a run that shows it: an index that is removed before it is replaced, a length check
    that wraps around, contents a refresh keeps although the file was replaced, an alert that stays open
    after its condition cleared, an address that reaches the shell unquoted, and others among the lemmas of the theories above.

  \<^bold>\<open>Bounds, fuel, errors.\<close>
  \<^item> \<^verbatim>\<open>uint64\<close> is a 64-bit word and wraps; \<^verbatim>\<open>int64\<close> is read with \<open>sint\<close>. Offsets, sizes and inode
    numbers are words; counters of the logs are naturals bounded by the length of their array. \<^verbatim>\<open>float64\<close>
    is an exact rational.
  \<^item> A walk over the inode graph takes fuel, one more than the number of inodes; a cyclic graph exhausts it,
    which is the value \<open>Diverges\<close>. On the trees the invariant describes the fuel is never exhausted, which
    is proved. The walks of the cache take one more than the number of nodes and likewise never exhaust it
    in reachable states; \<open>Endless\<close> marks exhaustion. The depth of a recursive upload or download is a
    parameter of it.
  \<^item> Errors are values: a sum or option result per operation, with \<open>Panics\<close> and \<open>Crash\<close> for a nil pointer,
    a nil map or an index out of range. Every system call may fail, by a predicate on calls; a failing write
    may leave part of its data. Go maps are visited in the order of their list, and where the order could
    matter the theorem is stated for every order.
  \<^item> Runs of a fileserver, for the invariant, are guarded: inode numbers are left, a new user has a proper
    name and an own root directory, and a move does not meet a taken name; without the last one two inodes
    can come to share a path, which \<open>File_Consistency\<close> shows.

  \<^bold>\<open>Abstractions.\<close> An inode pointer is the FID of the inode, so that an update through any pointer is an update
  of the one table. Files hold bytes or a document; a document is what the JSON encoder was given, and bytes
  of other origin are read with a decoder that is a parameter. Hashes, random tokens, the verification of
  Google tokens, the clock and fresh identifiers are parameters. The alerts of the console and the nodes
  of the cache are addressed cells, because the program keeps pointers to them. A remote call that fails and
  one that is refused look the same to the client. Operations are atomic, as under the locks the sources
  take; interleavings are sequences of operations. Log output is left out.

  \<^bold>\<open>Not modelled.\<close> TLS and certificates; the readings of host metrics; the address rewriting of
  \<^verbatim>\<open>normalizeCallbackAddress\<close>; the retry loops and dialling of the network clients; the MongoDB store, a
  client of a driver whose contract is \<open>meta_store\<close>; the other HTTP routes of the console, its timers, SSH
  and log streaming; the shell of the client; OAuth flows; the programs
  under \<^verbatim>\<open>cmd\<close>, which parse flags and wire the parts together.
\<close>

end
